(* ===== verification/Prelude.thy ===== *)
theory Prelude
  imports
    Main
    "HOL-Library.Word"
    "HOL-Library.Char_ord"
    "HOL-Library.List_Lexorder"
    "HOL-Library.Sublist"
    "HOL-Library.AList"
begin

text \<open>
  Shared vocabulary of the development: the machine types of the C++ code, the
  conversion between bytes and words, results that carry either an exception or a
  value, and the generic facts on byte strings and association lists that the
  component theories use.

  A \<open>std::string\<close> or \<open>std::string_view\<close> is a \<open>string\<close>, a list of \<open>char\<close>, where a
  \<open>char\<close> is one byte. \<open>std::uint64_t\<close> is \<open>u64\<close>, a 64-bit word whose arithmetic wraps;
  \<open>std::int64_t\<close> timestamps are \<open>i64\<close>, the same bits compared through \<open>sint\<close>, so that
  \<open>static_cast\<close> between the two is the identity.
\<close>

unbundle bit_operations_syntax

section \<open>Machine types\<close>

type_synonym u8 = "8 word"
type_synonym u32 = "32 word"
type_synonym u64 = "64 word"
type_synonym i64 = "64 word"

text \<open>\<open>static_cast<char>\<close> of an unsigned value, and the value of a byte.\<close>

definition byte_of :: "'a::len word \<Rightarrow> char" where
  "byte_of w = char_of (unat w)"

definition byte_val :: "char \<Rightarrow> 'a::len word" where
  "byte_val c = of_nat (of_char c)"

definition uchar :: "char \<Rightarrow> nat" where
  "uchar c = of_char c"

definition NUL :: char where
  "NUL = char_of (0::nat)"

lemma uchar_less_256 [simp]: "uchar c < 256"
  by (simp add: uchar_def)

lemma uchar_le_255: "uchar c \<le> 255"
  using uchar_less_256 [of c] by linarith

lemma uchar_inject [simp]: "uchar c = uchar d \<longleftrightarrow> c = d"
  by (simp add: uchar_def)

lemma uchar_le [simp]: "uchar c \<le> uchar d \<longleftrightarrow> c \<le> d"
  by (simp add: uchar_def less_eq_char_def)

lemma uchar_less [simp]: "uchar c < uchar d \<longleftrightarrow> c < d"
  by (simp add: uchar_def less_char_def)

lemma uchar_byte_of: "uchar (byte_of w) = unat w mod 256"
  by (simp add: uchar_def byte_of_def)

lemma uchar_char_of [simp]: "uchar (char_of (n::nat)) = n mod 256"
  by (simp add: uchar_def)

lemma uchar_NUL [simp]: "uchar NUL = 0"
  by (simp add: NUL_def)

lemma NUL_le [simp]: "NUL \<le> c"
  by (simp flip: uchar_le)

lemma not_less_NUL [simp]: "\<not> c < NUL"
  by (simp flip: uchar_less)

lemma unat_byte_val [simp]:
  "8 \<le> LENGTH('a) \<Longrightarrow> unat (byte_val c :: 'a::len word) = uchar c"
proof -
  assume len: "8 \<le> LENGTH('a)"
  have "uchar c < 2 ^ 8"
    using uchar_less_256 [of c] by simp
  also have "(2::nat) ^ 8 \<le> 2 ^ LENGTH('a)"
    using len by (rule power_increasing) simp
  finally show ?thesis
    by (simp add: byte_val_def uchar_def unat_of_nat)
qed

lemma unat_byte_val_64 [simp]: "unat (byte_val c :: u64) = uchar c"
  by (rule unat_byte_val) simp

lemma unat_byte_val_32 [simp]: "unat (byte_val c :: u32) = uchar c"
  by (rule unat_byte_val) simp

lemma unat_byte_val_8 [simp]: "unat (byte_val c :: u8) = uchar c"
  by (rule unat_byte_val) simp

lemma byte_val_byte_of:
  "unat w < 256 \<Longrightarrow> (byte_val (byte_of w) :: 'a::len word) = w"
  by (simp add: byte_val_def byte_of_def)

lemma byte_val_byte_of_8 [simp]: "(byte_val (byte_of w) :: u8) = w"
  by (rule byte_val_byte_of) (use unsigned_less [where 'a = nat, of w] in simp)

lemma and_0xFF: "v AND 0xFF = take_bit 8 (v :: 'a::len word)"
  by (simp add: take_bit_eq_mask mask_eq_exp_minus_1)

lemma unat_and_0xFF: "unat (v AND 0xFF :: 'a::len word) = unat v mod 256"
proof -
  have "unat (v AND 0xFF) = take_bit 8 (unat v)"
    by (simp only: and_0xFF unsigned_take_bit_eq)
  then show ?thesis by (simp add: take_bit_eq_mod [where 'a = nat])
qed

section \<open>Results\<close>

text \<open>
  A C++ function that may throw returns a sum: \<open>Inl\<close> is the exception, \<open>Inr\<close> the value.
  A parser also returns the bytes it has not read.
\<close>

definition rbind :: "'e + 'a \<times> 'r \<Rightarrow> ('a \<Rightarrow> 'r \<Rightarrow> 'e + 'b) \<Rightarrow> 'e + 'b" where
  "rbind x f = (case x of Inl e \<Rightarrow> Inl e | Inr (v, r) \<Rightarrow> f v r)"

lemma rbind_simps [simp]:
  "rbind (Inl e) f = Inl e"
  "rbind (Inr (v, r)) f = f v r"
  by (simp_all add: rbind_def)

lemma rbind_eq_Inr:
  "rbind x f = Inr y \<longleftrightarrow> (\<exists>v r. x = Inr (v, r) \<and> f v r = Inr y)"
  by (cases x) (auto simp: rbind_def split: prod.splits)

section \<open>Byte strings in lexicographic order\<close>

text \<open>
  Lists of bytes are ordered lexicographically with unsigned bytes, which is both
  \<open>std::string\<close>'s order and RocksDB's bytewise comparator.
\<close>

lemma append_less_cancel [simp]: "(p @ x < p @ y) \<longleftrightarrow> (x < (y::'a::linorder list))"
  by (induction p) auto

lemma append_le_cancel [simp]: "(p @ x \<le> p @ y) \<longleftrightarrow> (x \<le> (y::'a::linorder list))"
  by (induction p) auto

lemma le_append_self [simp]: "p \<le> p @ (x::'a::linorder list)"
  by (induction p) auto

lemma prefix_imp_le: "prefix p k \<Longrightarrow> p \<le> (k::'a::linorder list)"
  by (auto simp: prefix_def)

lemma less_append_Cons [simp]: "p < p @ (x::'a::linorder) # xs"
  by (induction p) auto

lemma append_Cons_not_le [simp]: "\<not> p @ (x::'a::linorder) # xs \<le> p"
  by (simp add: not_le)

text \<open>Between a prefix and one of its extensions there are only its extensions.\<close>

lemma prefix_convex:
  fixes p :: "'a::linorder list"
  assumes "p \<le> k" "k \<le> m" "prefix p m"
  shows "prefix p k"
  using assms
proof (induction p arbitrary: k m)
  case Nil
  then show ?case by simp
next
  case (Cons a p)
  then obtain m' where m: "m = a # m'" "prefix p m'"
    by (cases m) auto
  with Cons.prems obtain b k' where k: "k = b # k'"
    by (cases k) auto
  with Cons.prems m have "b = a" "p \<le> k'" "k' \<le> m'"
    by auto
  with Cons.IH m k show ?case by auto
qed

text \<open>Strings that first differ at some position compare by that position.\<close>

lemma lex_first_difference:
  "a < b \<Longrightarrow> p @ a # x < p @ (b::'a::linorder) # y"
  by (induction p) auto

lemma less_append_right_same_length:
  fixes a b :: "'a::linorder list"
  assumes "length a = length b"
  shows "a @ x < b @ y \<longleftrightarrow> a < b \<or> a = b \<and> x < y"
  using assms by (induction a b rule: list_induct2) auto

section \<open>Saturating arithmetic\<close>

lemma unat_plus_small:
  "unat (a::'a::len word) + unat b < 2 ^ LENGTH('a) \<Longrightarrow> unat (a + b) = unat a + unat b"
  by (simp add: unat_plus_if')

lemma unat_plus_le: "unat (a + b :: 'a::len word) \<le> unat a + unat b"
  by (simp add: unat_plus_if')

lemma unat_64_less [simp]: "unat (w::u64) < 18446744073709551616"
  using unsigned_less [where 'a = nat, of w] by simp

lemma unat_32_less [simp]: "unat (w::u32) < 4294967296"
  using unsigned_less [where 'a = nat, of w] by simp

section \<open>Appending in a loop\<close>

lemma foldl_append_map: "foldl (\<lambda>out x. out @ f x) out xs = out @ concat (map f xs)"
  by (induction xs arbitrary: out) simp_all

lemma foldl_appends:
  "(\<And>out x. f out x = out @ g x) \<Longrightarrow> foldl f out xs = out @ concat (map g xs)"
  by (induction xs arbitrary: out) simp_all

lemma concat_filter_map: "concat (map (\<lambda>x. if P x then [] else f x) xs) = concat (map f (filter (\<lambda>x. \<not> P x) xs))"
  by (induction xs) simp_all

section \<open>Association lists\<close>

lemma map_of_filter_ne:
  "map_of (filter (\<lambda>(a, _). a \<noteq> k) xs) = (map_of xs)(k := None)"
  by (induction xs) (auto simp: fun_eq_iff)

lemma distinct_map_fst_filter:
  "distinct (map fst xs) \<Longrightarrow> distinct (map fst (filter P xs))"
  by (induction xs) auto

section \<open>Ordered maps\<close>

text \<open>
  A \<open>std::map\<close> is its sequence of entries in ascending key order, which is the order its
  iterators visit. \<open>emplace\<close> inserts a key that is not there and leaves a present one alone.
\<close>

type_synonym ('k, 'v) omap = "('k \<times> 'v) list"

definition omap_ok :: "('k::linorder, 'v) omap \<Rightarrow> bool" where
  "omap_ok m \<longleftrightarrow> sorted_wrt (<) (map fst m)"

fun omap_emplace :: "'k::linorder \<Rightarrow> 'v \<Rightarrow> ('k, 'v) omap \<Rightarrow> ('k, 'v) omap" where
  "omap_emplace k v [] = [(k, v)]"
| "omap_emplace k v ((k', v') # m) =
     (if k < k' then (k, v) # (k', v') # m
      else if k = k' then (k', v') # m
      else (k', v') # omap_emplace k v m)"

lemma omap_ok_Cons: "omap_ok ((k, v) # m) \<longleftrightarrow> (\<forall>x\<in>set m. k < fst x) \<and> omap_ok m"
  by (auto simp: omap_ok_def)

lemma set_omap_emplace: "set (omap_emplace k v m) \<subseteq> insert (k, v) (set m)"
  by (induction k v m rule: omap_emplace.induct) auto

lemma omap_ok_emplace: "omap_ok m \<Longrightarrow> omap_ok (omap_emplace k v m)"
proof (induction k v m rule: omap_emplace.induct)
  case (2 k v k' v' m)
  then show ?case
    using set_omap_emplace [of k v m] by (fastforce simp: omap_ok_Cons dest: less_trans)
qed (simp add: omap_ok_def)

lemma omap_emplace_last:
  "\<forall>x\<in>set m. fst x < k \<Longrightarrow> omap_emplace k v m = m @ [(k, v)]"
  by (induction m) auto

text \<open>Inserting the entries of a map in order rebuilds the map.\<close>

lemma foldl_omap_emplace:
  "omap_ok (m @ n) \<Longrightarrow> foldl (\<lambda>m (k, v). omap_emplace k v m) m n = m @ n"
proof (induction n arbitrary: m)
  case (Cons x n)
  then have "omap_emplace (fst x) (snd x) m = m @ [x]"
    by (subst omap_emplace_last) (auto simp: omap_ok_def sorted_wrt_append)
  with Cons show ?case
    by (simp add: case_prod_unfold)
qed simp

section \<open>Sums over association lists\<close>

definition assoc_sum :: "('b \<Rightarrow> nat) \<Rightarrow> ('a \<times> 'b) list \<Rightarrow> nat" where
  "assoc_sum f es = (\<Sum>(k, v)\<leftarrow>es. f v)"

text \<open>The sum without the entries of one key.\<close>

fun assoc_except :: "('b \<Rightarrow> nat) \<Rightarrow> 'a \<Rightarrow> ('a \<times> 'b) list \<Rightarrow> nat" where
  "assoc_except f b [] = 0"
| "assoc_except f b ((k, v) # es) = (if k = b then 0 else f v) + assoc_except f b es"

lemma assoc_sum_simps [simp]:
  "assoc_sum f [] = 0" "assoc_sum f ((k, v) # es) = f v + assoc_sum f es"
  by (simp_all add: assoc_sum_def)

lemma assoc_except_absent: "b \<notin> fst ` set es \<Longrightarrow> assoc_except f b es = assoc_sum f es"
  by (induction es) auto

lemma assoc_except_le: "assoc_except f b es \<le> assoc_sum f es"
  by (induction es) auto

lemma assoc_sum_split:
  "distinct (map fst es) \<Longrightarrow>
   assoc_sum f es = (case map_of es b of None \<Rightarrow> 0 | Some v \<Rightarrow> f v) + assoc_except f b es"
  by (induction es) (auto simp: assoc_except_absent simp del: map_of_eq_Some_iff split: option.splits)

lemma assoc_sum_update:
  "distinct (map fst es) \<Longrightarrow> assoc_sum f (AList.update b v es) = f v + assoc_except f b es"
  by (induction es) (auto simp: assoc_except_absent)

lemma assoc_sum_delete: "assoc_sum f (AList.delete b es) = assoc_except f b es"
  by (induction es) (auto simp: AList.delete_eq)

lemma assoc_except_update [simp]: "assoc_except f b (AList.update b v es) = assoc_except f b es"
  by (induction es) auto

lemma unat_add_u64: "unat a + unat b < 2 ^ 64 \<Longrightarrow> unat (a + b :: u64) = unat a + unat b"
  by (simp add: unat_word_ariths)

section \<open>Decimal numbers\<close>

text \<open>\<open>std::to_string\<close> of an unsigned value.\<close>

definition digit_char :: "nat \<Rightarrow> char" where
  "digit_char d = char_of (48 + d)"

fun to_string :: "nat \<Rightarrow> string" where
  "to_string n = (if n < 10 then [digit_char n] else to_string (n div 10) @ [digit_char (n mod 10)])"

declare to_string.simps [simp del]

lemma uchar_digit_char [simp]: "d < 10 \<Longrightarrow> uchar (digit_char d) = 48 + d"
  by (simp add: digit_char_def)

definition decimal_value :: "string \<Rightarrow> nat" where
  "decimal_value ds = foldl (\<lambda>n c. n * 10 + (uchar c - 48)) 0 ds"

lemma decimal_value_snoc [simp]: "decimal_value (ds @ [c]) = decimal_value ds * 10 + (uchar c - 48)"
  by (simp add: decimal_value_def)

lemma decimal_value_to_string [simp]: "decimal_value (to_string n) = n"
proof (induction n rule: to_string.induct)
  case (1 n)
  then show ?case
    by (subst to_string.simps) (auto simp: decimal_value_def)
qed

lemma to_string_inject [simp]: "to_string m = to_string n \<longleftrightarrow> m = n"
  by (metis decimal_value_to_string)

lemma to_string_digits: "c \<in> set (to_string n) \<Longrightarrow> 48 \<le> uchar c \<and> uchar c < 58"
proof (induction n rule: to_string.induct)
  case (1 n)
  then show ?case
    by (subst (asm) to_string.simps) (auto split: if_splits)
qed

lemma to_string_nonempty [simp]: "to_string n \<noteq> []"
  by (subst to_string.simps) simp

end
