(* ===== verification/Errors.thy ===== *)
theory Errors
  imports Prelude
begin

text \<open>
  The exceptions of the storage layer (storage/metadata_store.hpp, storage/codec.hpp).
  A \<open>StorageError\<close> carries its code; message texts are not modelled. A \<open>DecodeError\<close>
  carries the reason the decoder gave, one constructor per throw site.
\<close>

datatype StorageErrorCode =
    NoSuchBucket
  | NoSuchKey
  | NoSuchUpload
  | BucketAlreadyExists
  | BucketNotEmpty
  | InvalidPart
  | QuotaExceeded
  | QuotaBelowUsage
  | InsufficientCapacity
  | ObjectTooLarge
  | ChecksumMismatch
  | Corruption
  | Io
  | Internal

datatype decode_error =
    Truncated
  | VarintTooLong
  | StringTooLong
  | ListTooLong
  | UnknownAccess
  | UnknownChecksum

text \<open>\<open>InvalidArgument\<close> is \<open>std::invalid_argument\<close>, which \<open>multipartETag\<close> throws.\<close>

datatype exn = DecodeError decode_error | StorageError StorageErrorCode | InvalidArgument

fun StorageErrorCode_toString :: "StorageErrorCode \<Rightarrow> string" where
  "StorageErrorCode_toString NoSuchBucket = ''NoSuchBucket''"
| "StorageErrorCode_toString NoSuchKey = ''NoSuchKey''"
| "StorageErrorCode_toString NoSuchUpload = ''NoSuchUpload''"
| "StorageErrorCode_toString BucketAlreadyExists = ''BucketAlreadyExists''"
| "StorageErrorCode_toString BucketNotEmpty = ''BucketNotEmpty''"
| "StorageErrorCode_toString InvalidPart = ''InvalidPart''"
| "StorageErrorCode_toString QuotaExceeded = ''QuotaExceeded''"
| "StorageErrorCode_toString QuotaBelowUsage = ''QuotaBelowUsage''"
| "StorageErrorCode_toString ObjectTooLarge = ''ObjectTooLarge''"
| "StorageErrorCode_toString ChecksumMismatch = ''ChecksumMismatch''"
| "StorageErrorCode_toString InsufficientCapacity = ''InsufficientCapacity''"
| "StorageErrorCode_toString Corruption = ''Corruption''"
| "StorageErrorCode_toString Io = ''Io''"
| "StorageErrorCode_toString Internal = ''Internal''"

lemma StorageErrorCode_toString_inject:
  "StorageErrorCode_toString a = StorageErrorCode_toString b \<longleftrightarrow> a = b"
  by (cases a; cases b) simp_all

end
