(* ===== verification/Codec.thy ===== *)
theory Codec
  imports Errors
begin

text \<open>
  The record encoding of storage/codec.hpp and storage/codec.cpp: \<open>Writer\<close> appends to a
  buffer, \<open>Reader\<close> consumes one.

  A \<open>Writer\<close> operation takes the buffer \<open>out_\<close> and returns it extended. A \<open>Reader\<close> is the
  pair \<open>in_\<close>, \<open>offset_\<close>; every accessor looks only at the bytes from \<open>offset_\<close> on, so the
  model carries that unread suffix: \<open>in_.size() - offset_\<close> is its length, \<open>in_[offset_++]\<close>
  its head and \<open>exhausted()\<close> its emptiness.

  The locale \<open>field_codec\<close> is the contract an encoder and its decoder share; the counted
  sequences of the record formats are proved once against it.
\<close>

section \<open>Writer\<close>

type_synonym buffer = string

definition writer_u8 :: "buffer \<Rightarrow> u8 \<Rightarrow> buffer" where
  "writer_u8 out value = out @ [byte_of value]"

function writer_varint :: "buffer \<Rightarrow> u64 \<Rightarrow> buffer" where
  "writer_varint out value =
     (if value \<ge> 0x80
      then writer_varint (out @ [byte_of ((value AND 0x7F) OR 0x80)]) (drop_bit 7 value)
      else out @ [byte_of value])"
  by pat_completeness auto
termination
  by (relation "measure (\<lambda>(out, value). unat value)")
    (auto simp: unat_drop_bit_eq drop_bit_eq_div word_le_nat_alt unat_div)

declare writer_varint.simps [simp del]

definition writer_string :: "buffer \<Rightarrow> string \<Rightarrow> buffer" where
  "writer_string out value = writer_varint out (of_nat (length value)) @ value"

definition writer_boolean :: "buffer \<Rightarrow> bool \<Rightarrow> buffer" where
  "writer_boolean out value = writer_u8 out (if value then 1 else 0)"

section \<open>Reader\<close>

type_synonym reader = string

definition reader_u8 :: "reader \<Rightarrow> exn + u8 \<times> reader" where
  "reader_u8 r = (case r of [] \<Rightarrow> Inl (DecodeError Truncated) | c # r' \<Rightarrow> Inr (byte_val c, r'))"

fun varint_loop :: "u64 \<Rightarrow> nat \<Rightarrow> reader \<Rightarrow> exn + u64 \<times> reader" where
  "varint_loop value shift [] = Inl (DecodeError Truncated)"
| "varint_loop value shift (c # r) =
     (let byte = byte_val c :: u8 in
      if shift > 63 then Inl (DecodeError VarintTooLong)
      else let value' = value OR push_bit shift (ucast (byte AND 0x7F)) in
           if byte AND 0x80 = 0 then Inr (value', r)
           else varint_loop value' (shift + 7) r)"

definition reader_varint :: "reader \<Rightarrow> exn + u64 \<times> reader" where
  "reader_varint r = varint_loop 0 0 r"

definition reader_string :: "reader \<Rightarrow> exn + string \<times> reader" where
  "reader_string r = rbind (reader_varint r) (\<lambda>len r.
     if unat len > length r then Inl (DecodeError StringTooLong)
     else Inr (take (unat len) r, drop (unat len) r))"

definition reader_boolean :: "reader \<Rightarrow> exn + bool \<times> reader" where
  "reader_boolean r = rbind (reader_u8 r) (\<lambda>b r. Inr (b \<noteq> 0, r))"

definition exhausted :: "reader \<Rightarrow> bool" where
  "exhausted r \<longleftrightarrow> r = []"

text \<open>Reading \<open>count\<close> fields in a row, stopping at the first that throws.\<close>

fun read_n :: "(reader \<Rightarrow> exn + 'a \<times> reader) \<Rightarrow> nat \<Rightarrow> reader \<Rightarrow> exn + 'a list \<times> reader" where
  "read_n f 0 r = Inr ([], r)"
| "read_n f (Suc n) r = rbind (f r) (\<lambda>x r. rbind (read_n f n r) (\<lambda>xs r. Inr (x # xs, r)))"

section \<open>What the writer appends\<close>

definition varint_bytes :: "u64 \<Rightarrow> string" where
  "varint_bytes value = writer_varint [] value"

lemma writer_varint_append: "writer_varint (p @ out) v = p @ writer_varint out v"
proof (induction out v arbitrary: p rule: writer_varint.induct)
  case (1 out v)
  then show ?case
    by (simp add: writer_varint.simps [of "p @ out" v] writer_varint.simps [of out v])
qed

lemma writer_varint_eq: "writer_varint out v = out @ varint_bytes v"
  using writer_varint_append [of out "[]" v] by (simp add: varint_bytes_def)

lemma varint_bytes_rec:
  "varint_bytes v =
     (if v \<ge> 0x80
      then byte_of ((v AND 0x7F) OR 0x80) # varint_bytes (drop_bit 7 v)
      else [byte_of v])"
  unfolding varint_bytes_def
  by (subst writer_varint.simps)
    (simp add: writer_varint_eq [of "[byte_of ((v AND 127) OR 128)]"] varint_bytes_def)

lemma varint_bytes_nonempty [simp]: "varint_bytes v \<noteq> []"
  by (subst varint_bytes_rec) simp

lemmas writer_eqs = writer_u8_def writer_varint_eq writer_string_def writer_boolean_def

section \<open>Round trips\<close>

lemma low_or_high: "take_bit n v OR push_bit n (drop_bit n v) = (v :: u64)"
  by (rule bit_eqI) (auto simp: bit_simps le_add_diff_inverse intro: ccontr)

lemma push_low_or_high:
  "push_bit s (take_bit 7 v) OR push_bit (s + 7) (drop_bit 7 v) = push_bit s (v :: u64)"
proof -
  have "push_bit s (take_bit 7 v) OR push_bit (s + 7) (drop_bit 7 v) =
      push_bit s (take_bit 7 v OR push_bit 7 (drop_bit 7 v))"
    by (simp add: push_bit_or)
  then show ?thesis by (simp add: low_or_high)
qed

text \<open>The same facts read as numbers.\<close>

lemma mask7: "(v :: 'a::len word) AND 0x7F = take_bit 7 v"
  by (simp add: take_bit_eq_mask mask_eq_exp_minus_1)

lemma bit_0x80: "bit (0x80 :: 'a::len word) n \<longleftrightarrow> n = 7 \<and> 7 < LENGTH('a)"
proof -
  have "bit (2 ^ 7 :: 'a word) n \<longleftrightarrow> n = 7 \<and> 7 < LENGTH('a)"
    unfolding bit_exp_iff by (auto simp: possible_bit_word)
  then show ?thesis by simp
qed

lemma group_with_flag: "take_bit 7 v OR 0x80 = take_bit 7 v + (0x80 :: u64)"
proof -
  have "take_bit 7 v AND (0x80::u64) = 0"
    by (rule bit_eqI) (unfold bit_and_iff bit_take_bit_iff bit_0x80, auto)
  then show ?thesis
    by (simp add: disjunctive_add_eq_or)
qed

lemma unat_take_bit_7: "unat (take_bit 7 v :: 'a::len word) = unat v mod 128"
proof -
  have "unat (take_bit 7 v) = take_bit 7 (unat v)"
    by (rule unsigned_take_bit_eq)
  then show ?thesis
    by (simp add: take_bit_eq_mod [where 'a = nat])
qed

lemma uchar_group_byte: "uchar (byte_of ((v AND 0x7F) OR 0x80 :: u64)) = unat v mod 128 + 128"
proof -
  have "unat v mod 128 < 128" by simp
  then have "unat (take_bit 7 v + (0x80 :: u64)) = unat v mod 128 + 128"
    by (subst unat_plus_small) (simp_all only: unat_take_bit_7, simp_all)
  then show ?thesis
    by (simp only: mask7 group_with_flag uchar_byte_of) simp
qed

lemma uchar_last_byte: "v < 0x80 \<Longrightarrow> uchar (byte_of (v :: u64)) = unat v"
  by (simp add: uchar_byte_of word_less_nat_alt)

lemma flag_clear_iff: "(byte_val c :: u8) AND 0x80 = 0 \<longleftrightarrow> uchar c < 128"
proof -
  have "(byte_val c :: u8) AND 2 ^ 7 = 0 \<longleftrightarrow> \<not> bit (byte_val c :: u8) 7"
    by (rule and_exp_eq_0_iff_not_bit)
  also have "bit (byte_val c :: u8) 7 = bit (unat (byte_val c :: u8)) 7"
    unfolding bit_unsigned_iff by simp
  also have "\<dots> \<longleftrightarrow> odd (uchar c div 128)"
    unfolding bit_iff_odd by simp
  also have "uchar c div 128 = (if uchar c < 128 then 0 else 1)"
    using uchar_less_256 [of c] by (auto intro: div_nat_eqI)
  finally show ?thesis by simp
qed

lemma group_value: "ucast ((byte_val c :: u8) AND 0x7F) = (of_nat (uchar c mod 128) :: u64)"
proof -
  have "unat (ucast ((byte_val c :: u8) AND 0x7F) :: u64) = unat (take_bit 7 (byte_val c :: u8))"
    by (simp only: mask7 unsigned_ucast_eq) (simp add: take_bit_nat_eq_self unat_take_bit_7)
  then show ?thesis
    by (simp only: word_unat_eq_iff unat_take_bit_7) (simp add: unat_of_nat)
qed

text \<open>What is left after one group of seven bits still fits into the bits that are left.\<close>

lemma group_step:
  fixes v :: u64
  assumes "128 \<le> unat v" "unat v < 2 ^ (64 - shift)"
  shows "shift + 7 \<le> 63" "unat (drop_bit 7 v) < 2 ^ (64 - (shift + 7))"
    "unat (drop_bit 7 v) < unat v"
proof -
  have w: "unat (drop_bit 7 v) = unat v div 128"
    by (simp add: unat_drop_bit_eq drop_bit_eq_div unat_div)
  show le: "shift + 7 \<le> 63"
  proof (rule ccontr)
    assume "\<not> shift + 7 \<le> 63"
    then have "(2::nat) ^ (64 - shift) \<le> 2 ^ 7"
      by (intro power_increasing) auto
    with assms show False by simp
  qed
  then have "64 - shift = 7 + (64 - (shift + 7))"
    by simp
  then have "2 ^ (64 - shift) = 128 * (2 ^ (64 - (shift + 7)) :: nat)"
    by (simp only: power_add) simp
  with assms(2) show "unat (drop_bit 7 v) < 2 ^ (64 - (shift + 7))"
    unfolding w by (simp add: less_mult_imp_div_less mult.commute)
  show "unat (drop_bit 7 v) < unat v"
    using assms(1) unfolding w by simp
qed

text \<open>
  The decoding loop after \<open>shift div 7\<close> groups: the groups still to come are shifted into
  place, as long as they fit into the 64 bits that are left.
\<close>

lemma varint_loop_bytes:
  "shift \<le> 63 \<Longrightarrow> unat v < 2 ^ (64 - shift) \<Longrightarrow>
   varint_loop acc shift (varint_bytes v @ t) = Inr (acc OR push_bit shift v, t)"
proof (induction "unat v" arbitrary: v acc shift rule: less_induct)
  case less
  show ?case
  proof (cases "v < 0x80")
    case True
    then have "uchar (byte_of v) = unat v" "unat v < 128" "\<not> 0x80 \<le> v"
      by (simp_all add: uchar_last_byte word_less_nat_alt not_le)
    with less.prems show ?thesis
      by (subst varint_bytes_rec) (simp add: Let_def flag_clear_iff group_value)
  next
    case False
    define w where "w = drop_bit 7 v"
    have big: "128 \<le> unat v" "0x80 \<le> v"
      using False by (simp_all add: word_less_nat_alt word_le_nat_alt)
    note step = group_step [OF big(1) less.prems(2), folded w_def]
    have group: "(of_nat (unat v mod 128) :: u64) = take_bit 7 v"
      by (simp add: word_unat_eq_iff unat_take_bit_7 unat_of_nat)
    from big(2) less.prems(1) show ?thesis
      by (subst varint_bytes_rec)
        (simp add: Let_def flag_clear_iff group_value uchar_group_byte group or.assoc
          less.hyps [OF step(3,1,2)] push_low_or_high [of shift v, folded w_def] flip: w_def)
  qed
qed

lemma reader_varint_bytes [simp]: "reader_varint (varint_bytes v @ t) = Inr (v, t)"
  using varint_loop_bytes [of 0 v 0 t] by (simp add: reader_varint_def)

lemma reader_u8_byte [simp]: "reader_u8 (byte_of w # t) = Inr (w, t)" for w :: u8
  by (simp add: reader_u8_def)

lemma reader_boolean_byte [simp]:
  "reader_boolean (byte_of (if b then 1 else 0 :: u8) # t) = Inr (b, t)"
  by (simp add: reader_boolean_def)

text \<open>A string in memory is shorter than \<open>2^64\<close> bytes.\<close>

definition fits :: "'a list \<Rightarrow> bool" where
  "fits s \<longleftrightarrow> length s < 2 ^ 64"

lemma unat_of_nat_fits: "fits s \<Longrightarrow> unat (of_nat (length s) :: u64) = length s"
  by (simp add: fits_def unat_of_nat)

lemma take_bit_fits [simp]: "fits s \<Longrightarrow> take_bit 64 (length s) = length s"
  by (simp add: fits_def take_bit_nat_eq_self)

lemma reader_string_bytes [simp]:
  "fits s \<Longrightarrow> reader_string (varint_bytes (of_nat (length s)) @ s @ t) = Inr (s, t)"
  by (simp only: reader_string_def reader_varint_bytes rbind_simps unat_of_nat_fits) simp

section \<open>The contract of a field\<close>

text \<open>
  An encoder and its decoder agree on the values \<open>ok\<close> admits when decoding the encoding
  followed by anything gives the value back and leaves exactly what followed.
\<close>

locale field_codec =
  fixes enc :: "'a \<Rightarrow> string"
    and dec :: "reader \<Rightarrow> exn + 'a \<times> reader"
    and ok :: "'a \<Rightarrow> bool"
  assumes dec_enc: "ok x \<Longrightarrow> dec (enc x @ t) = Inr (x, t)"
begin

lemma read_n_enc: "list_all ok xs \<Longrightarrow> read_n dec (length xs) (concat (map enc xs) @ t) = Inr (xs, t)"
  by (induction xs) (simp_all add: dec_enc)

lemma enc_inject:
  assumes "ok x" "ok y" "enc x @ s = enc y @ t"
  shows "x = y \<and> s = t"
proof -
  have "Inr (x, s) = dec (enc y @ t)"
    using dec_enc [OF assms(1), of s] by (simp only: assms(3))
  also have "\<dots> = Inr (y, t)"
    using assms(2) by (rule dec_enc)
  finally show ?thesis by simp
qed

lemma enc_prefix_free: "ok x \<Longrightarrow> ok y \<Longrightarrow> prefix (enc x) (enc y) \<Longrightarrow> x = y"
  by (metis append_Nil2 enc_inject prefixE)

end

text \<open>A counted sequence: a varint length and that many fields.\<close>

definition counted :: "('a \<Rightarrow> string) \<Rightarrow> 'a list \<Rightarrow> string" where
  "counted enc xs = varint_bytes (of_nat (length xs)) @ concat (map enc xs)"

interpretation varint_field: field_codec varint_bytes reader_varint "\<lambda>_. True"
  by unfold_locales simp

definition string_bytes :: "string \<Rightarrow> string" where
  "string_bytes s = varint_bytes (of_nat (length s)) @ s"

lemma writer_string_eq: "writer_string out s = out @ string_bytes s"
  by (simp add: writer_string_def writer_varint_eq string_bytes_def)

lemma reader_string_string_bytes [simp]: "fits s \<Longrightarrow> reader_string (string_bytes s @ t) = Inr (s, t)"
  by (simp add: string_bytes_def)

interpretation string_field: field_codec string_bytes reader_string fits
  by unfold_locales simp

definition bool_byte :: "bool \<Rightarrow> char" where
  "bool_byte b = byte_of (if b then 1 else 0 :: u8)"

lemma writer_boolean_eq: "writer_boolean out b = out @ [bool_byte b]"
  by (simp add: writer_boolean_def writer_u8_def bool_byte_def)

lemma reader_boolean_bool_byte [simp]: "reader_boolean (bool_byte b # t) = Inr (b, t)"
  by (simp add: bool_byte_def)

interpretation boolean_field: field_codec "\<lambda>b. [bool_byte b]" reader_boolean "\<lambda>_. True"
  by unfold_locales simp

lemma not_exhausted_simps [simp]:
  "\<not> exhausted (c # t)" "\<not> exhausted (varint_bytes v @ t)" "\<not> exhausted (string_bytes s @ t)"
  "exhausted []"
  by (simp_all add: exhausted_def string_bytes_def)

text \<open>The appended bytes of every writer operation, for the record encoders.\<close>

lemmas writer_appends = writer_u8_def writer_varint_eq writer_string_eq writer_boolean_eq

section \<open>Truncated input\<close>

text \<open>
  A decoder never reads past what it was given: every proper prefix of an encoded varint
  is refused as truncated.
\<close>

lemma varint_loop_truncated:
  "shift \<le> 63 \<Longrightarrow> unat v < 2 ^ (64 - shift) \<Longrightarrow> strict_prefix p (varint_bytes v) \<Longrightarrow>
   varint_loop acc shift p = Inl (DecodeError Truncated)"
proof (induction "unat v" arbitrary: v acc shift p rule: less_induct)
  case less
  show ?case
  proof (cases p)
    case (Cons b q)
    with less.prems(3) have big: "128 \<le> unat v"
      by (subst (asm) varint_bytes_rec) (auto simp: word_le_nat_alt split: if_splits)
    note step = group_step [OF big less.prems(2)]
    have "strict_prefix q (varint_bytes (drop_bit 7 v))" and b: "b = byte_of ((v AND 0x7F) OR 0x80)"
      using less.prems(3) big Cons by (simp_all add: varint_bytes_rec [of v] word_le_nat_alt)
    then have "varint_loop a (shift + 7) q = Inl (DecodeError Truncated)" for a
      using less.hyps [OF step(3,1,2)] by blast
    with Cons b less.prems(1) show ?thesis
      by (simp add: Let_def flag_clear_iff uchar_group_byte)
  qed simp
qed

lemma reader_varint_truncated:
  "strict_prefix p (varint_bytes v) \<Longrightarrow> reader_varint p = Inl (DecodeError Truncated)"
  using varint_loop_truncated [of 0 v p 0] by (simp add: reader_varint_def)

end
