(* ===== verification/Text.thy ===== *)
theory Text
  imports Prelude
begin

text \<open>
  The operations on \<open>std::string_view\<close> and \<open><cctype>\<close> that the S3 layer uses, in the C locale:
  searching for a character, the fields between separators, case folding and trimming.
\<close>

section \<open>Characters\<close>

definition isdigit :: "char \<Rightarrow> bool" where
  "isdigit c \<longleftrightarrow> CHR ''0'' \<le> c \<and> c \<le> CHR ''9''"

definition isspace :: "char \<Rightarrow> bool" where
  "isspace c \<longleftrightarrow> uchar c = 32 \<or> 9 \<le> uchar c \<and> uchar c \<le> 13"

definition isxdigit :: "char \<Rightarrow> bool" where
  "isxdigit c \<longleftrightarrow> isdigit c \<or> CHR ''a'' \<le> c \<and> c \<le> CHR ''f'' \<or> CHR ''A'' \<le> c \<and> c \<le> CHR ''F''"

definition isalpha :: "char \<Rightarrow> bool" where
  "isalpha c \<longleftrightarrow> CHR ''A'' \<le> c \<and> c \<le> CHR ''Z'' \<or> CHR ''a'' \<le> c \<and> c \<le> CHR ''z''"

definition isalnum :: "char \<Rightarrow> bool" where
  "isalnum ch \<longleftrightarrow> CHR ''0'' \<le> ch \<and> ch \<le> CHR ''9'' \<or> CHR ''A'' \<le> ch \<and> ch \<le> CHR ''Z'' \<or>
     CHR ''a'' \<le> ch \<and> ch \<le> CHR ''z''"

text \<open>\<open>std::tolower\<close> and \<open>std::toupper\<close>: the cases differ by 32.\<close>

definition tolower :: "char \<Rightarrow> char" where
  "tolower c = (if CHR ''A'' \<le> c \<and> c \<le> CHR ''Z'' then char_of (uchar c + 32) else c)"

definition toupper :: "char \<Rightarrow> char" where
  "toupper c = (if CHR ''a'' \<le> c \<and> c \<le> CHR ''z'' then char_of (uchar c - 32) else c)"

definition toLower :: "string \<Rightarrow> string" where
  "toLower text = map tolower text"

definition toUpper :: "string \<Rightarrow> string" where
  "toUpper text = map toupper text"

lemma uchar_literals:
  "uchar (CHR ''0'') = 48" "uchar (CHR ''9'') = 57" "uchar (CHR ''A'') = 65" "uchar (CHR ''Z'') = 90"
  "uchar (CHR ''a'') = 97" "uchar (CHR ''z'') = 122" "uchar (CHR ''f'') = 102" "uchar (CHR ''F'') = 70"
  by (simp_all add: uchar_def)

lemma tolower_idem [simp]: "tolower (tolower c) = tolower c"
  by (auto simp: tolower_def uchar_literals simp flip: uchar_le)

lemma toLower_idem [simp]: "toLower (toLower s) = toLower s"
  by (simp add: toLower_def)

lemma length_toLower [simp]: "length (toLower s) = length s"
  by (simp add: toLower_def)

lemma toupper_idem [simp]: "toupper (toupper c) = toupper c"
  by (auto simp: toupper_def uchar_literals simp flip: uchar_le)

lemma toUpper_idem [simp]: "toUpper (toUpper s) = toUpper s"
  by (simp add: toUpper_def)

section \<open>Searching and splitting\<close>

text \<open>\<open>text.find(c)\<close>, and the text before and after the first \<open>c\<close>.\<close>

definition before :: "char \<Rightarrow> string \<Rightarrow> string" where
  "before c text = takeWhile (\<lambda>x. x \<noteq> c) text"

definition after :: "char \<Rightarrow> string \<Rightarrow> string" where
  "after c text = tl (dropWhile (\<lambda>x. x \<noteq> c) text)"

text \<open>The text before and after the last \<open>c\<close>, which is what \<open>rfind\<close> locates.\<close>

definition before_last :: "char \<Rightarrow> string \<Rightarrow> string" where
  "before_last c text = rev (after c (rev text))"

definition after_last :: "char \<Rightarrow> string \<Rightarrow> string" where
  "after_last c text = rev (before c (rev text))"

lemma length_after: "c \<in> set text \<Longrightarrow> length (after c text) < length text"
proof -
  assume "c \<in> set text"
  then have "dropWhile (\<lambda>x. x \<noteq> c) text \<noteq> []"
    by auto
  then have "length (after c text) < length (dropWhile (\<lambda>x. x \<noteq> c) text)"
    by (simp add: after_def)
  also have "\<dots> \<le> length text" by (rule length_dropWhile_le)
  finally show ?thesis .
qed

text \<open>
  The fields of \<open>text\<close> between the separators \<open>c\<close>: the loop over \<open>find(c, pos)\<close> that several
  parsers share. A text without separator is one field, also when it is empty.
\<close>

function fields_of :: "char \<Rightarrow> string \<Rightarrow> string list" where
  "fields_of c text =
     (if c \<in> set text then before c text # fields_of c (after c text) else [text])"
  by pat_completeness auto

termination by (relation "measure (\<lambda>(c, text). length text)") (simp_all add: length_after)

declare fields_of.simps [simp del]

lemma before_append [simp]: "c \<notin> set x \<Longrightarrow> before c (x @ c # y) = x"
  by (induction x) (auto simp: before_def)

lemma after_append [simp]: "c \<notin> set x \<Longrightarrow> after c (x @ c # y) = y"
  by (induction x) (auto simp: after_def)

lemma before_not_in [simp]: "c \<notin> set (before c x)"
  by (auto simp: before_def dest: set_takeWhileD)

lemma before_absent: "c \<notin> set x \<Longrightarrow> before c x = x"
  by (induction x) (auto simp: before_def)

lemma before_after: "c \<in> set x \<Longrightarrow> before c x @ c # after c x = x"
proof (induction x)
  case (Cons a x)
  then show ?case by (auto simp: before_def after_def)
qed simp

lemma split_at_char:
  assumes "c \<in> set x"
  obtains "x = before c x @ c # after c x" "c \<notin> set (before c x)"
  using before_after [OF assms] before_not_in by metis

lemma fields_of_single: "c \<notin> set x \<Longrightarrow> fields_of c x = [x]"
  by (simp add: fields_of.simps)

lemma fields_of_append: "c \<notin> set x \<Longrightarrow> fields_of c (x @ c # y) = x # fields_of c y"
  by (subst fields_of.simps) simp

lemma fields_of_no_separator: "f \<in> set (fields_of c t) \<Longrightarrow> c \<notin> set f"
proof (induction c t rule: fields_of.induct)
  case (1 c t)
  then show ?case by (cases "c \<in> set t") (auto simp: fields_of.simps [of c t])
qed

lemma fields_of_nonempty [simp]: "fields_of c text \<noteq> []"
  by (subst fields_of.simps) simp

text \<open>Joining with a separator that no field holds is undone by splitting.\<close>

fun join_with :: "string \<Rightarrow> string list \<Rightarrow> string" where
  "join_with sep [] = []"
| "join_with sep [x] = x"
| "join_with sep (x # y # xs) = x @ sep @ join_with sep (y # xs)"

lemma join_with_Cons: "join_with sep (x # xs) = x @ (if xs = [] then [] else sep @ join_with sep xs)"
  by (cases xs) simp_all

lemma fields_of_join:
  "xs \<noteq> [] \<Longrightarrow> (\<And>x. x \<in> set xs \<Longrightarrow> c \<notin> set x) \<Longrightarrow> fields_of c (join_with [c] xs) = xs"
proof (induction "[c]" xs rule: join_with.induct)
  case (3 x y xs)
  then show ?case by (simp add: fields_of_append)
qed (simp_all add: fields_of_single)

text \<open>The loop that appends a separator only between elements, for elements that are not empty.\<close>

lemma foldl_join:
  assumes "\<And>x. x \<in> set xs \<Longrightarrow> f x \<noteq> []"
  shows "foldl (\<lambda>out x. (if out \<noteq> [] then out @ sep else out) @ f x) out xs =
    (if xs = [] then out else if out = [] then join_with sep (map f xs)
     else out @ sep @ join_with sep (map f xs))"
  using assms
proof (induction xs arbitrary: out)
  case (Cons x xs)
  have "f x \<noteq> []" and "\<And>x. x \<in> set xs \<Longrightarrow> f x \<noteq> []"
    using Cons.prems by auto
  with Cons.IH show ?case by (simp add: join_with_Cons)
qed simp

section \<open>Trimming\<close>

definition trim_of :: "(char \<Rightarrow> bool) \<Rightarrow> string \<Rightarrow> string" where
  "trim_of space text = rev (dropWhile space (rev (dropWhile space text)))"

lemma trim_of_trimmed:
  "t = [] \<or> \<not> space (hd t) \<and> \<not> space (last t) \<Longrightarrow> trim_of space t = t"
proof -
  assume t: "t = [] \<or> \<not> space (hd t) \<and> \<not> space (last t)"
  then have d: "dropWhile space t = t"
    by (cases t) auto
  from t have "dropWhile space (rev t) = rev t"
    by (cases t rule: rev_cases) auto
  with d show ?thesis by (simp add: trim_of_def)
qed

lemma dropWhile_trimmed: "dropWhile P (dropWhile P xs) = dropWhile P xs"
  by (induction xs) auto

lemma trim_of_idem [simp]: "trim_of space (trim_of space text) = trim_of space text"
proof -
  let ?d = "dropWhile space"
  have "?d (rev (?d (rev (?d text)))) = rev (?d (rev (?d text)))"
  proof (cases "rev (?d (rev (?d text))) = []")
    case False
    let ?a = "?d text"
    have "\<exists>ys. ?a = rev (?d (rev ?a)) @ ys"
      by (metis rev_append rev_rev_ident takeWhile_dropWhile_id)
    then obtain ys where a: "?a = rev (?d (rev ?a)) @ ys" by blast
    have "?a \<noteq> []"
    proof
      assume "?a = []"
      with False show "False" by (simp only: rev.simps dropWhile.simps)
    qed
    then have "\<not> space (hd ?a)" by (rule hd_dropWhile)
    then have "\<not> space (hd (rev (?d (rev ?a))))"
      using a False by (metis hd_append2)
    then show ?thesis
      using False by (cases "rev (?d (rev ?a))") auto
  next
    case True
    show ?thesis unfolding True by simp
  qed
  then show ?thesis
    by (simp add: trim_of_def dropWhile_trimmed)
qed

end
