(* ===== verification/Identity.thy ===== *)
theory Identity
  imports Text
begin

text \<open>
  Who a request is and what it may do: core/identity.hpp and core/identity.cpp. Roles,
  permissions and bucket access levels are the enumerations of the source; \<open>allows\<close> and
  \<open>allows_in\<close> are the two overloads of \<open>allows\<close>. \<open>BucketGrants\<close> keeps its exceptions as an
  ordered map from bucket name to access.
\<close>

section \<open>Enumerations\<close>

datatype Role = Administrator | Operator | ReadOnly

datatype Permission =
    BucketRead
  | BucketWrite
  | ObjectRead
  | ObjectWrite
  | SettingsRead
  | SettingsWrite
  | CapacityWrite
  | CredentialRead
  | CredentialWrite
  | UserRead
  | UserWrite
  | AuditRead
  | BackupWrite

datatype BucketAccess = AccessNone | AccessRead | AccessWrite

text \<open>\<open>BucketAccess\<close> is declared in ascending order of authority.\<close>

fun access_level :: "BucketAccess \<Rightarrow> nat" where
  "access_level AccessNone = 0"
| "access_level AccessRead = 1"
| "access_level AccessWrite = 2"

instantiation BucketAccess :: linorder
begin

definition less_eq_BucketAccess :: "BucketAccess \<Rightarrow> BucketAccess \<Rightarrow> bool" where
  "less_eq_BucketAccess a b \<longleftrightarrow> access_level a \<le> access_level b"

definition less_BucketAccess :: "BucketAccess \<Rightarrow> BucketAccess \<Rightarrow> bool" where
  "less_BucketAccess a b \<longleftrightarrow> access_level a < access_level b"

instance
proof
  fix a b :: BucketAccess
  show "a \<le> b \<Longrightarrow> b \<le> a \<Longrightarrow> a = b"
    by (cases a; cases b) (simp_all add: less_eq_BucketAccess_def)
qed (auto simp: less_eq_BucketAccess_def less_BucketAccess_def)

end

definition allPermissions :: "Permission list" where
  "allPermissions =
     [BucketRead, BucketWrite, ObjectRead, ObjectWrite, SettingsRead, SettingsWrite, CapacityWrite,
      CredentialRead, CredentialWrite, UserRead, UserWrite, AuditRead, BackupWrite]"

lemma allPermissions_complete: "p \<in> set allPermissions"
  by (cases p) (simp_all add: allPermissions_def)

fun Role_toString :: "Role \<Rightarrow> string" where
  "Role_toString Administrator = ''administrator''"
| "Role_toString Operator = ''operator''"
| "Role_toString ReadOnly = ''readonly''"

fun Permission_toString :: "Permission \<Rightarrow> string" where
  "Permission_toString BucketRead = ''bucket:read''"
| "Permission_toString BucketWrite = ''bucket:write''"
| "Permission_toString ObjectRead = ''object:read''"
| "Permission_toString ObjectWrite = ''object:write''"
| "Permission_toString SettingsRead = ''settings:read''"
| "Permission_toString SettingsWrite = ''settings:write''"
| "Permission_toString CapacityWrite = ''capacity:write''"
| "Permission_toString CredentialRead = ''credential:read''"
| "Permission_toString CredentialWrite = ''credential:write''"
| "Permission_toString UserRead = ''user:read''"
| "Permission_toString UserWrite = ''user:write''"
| "Permission_toString AuditRead = ''audit:read''"
| "Permission_toString BackupWrite = ''backup:write''"

fun BucketAccess_toString :: "BucketAccess \<Rightarrow> string" where
  "BucketAccess_toString AccessNone = ''none''"
| "BucketAccess_toString AccessRead = ''read''"
| "BucketAccess_toString AccessWrite = ''write''"

definition parseBucketAccess :: "string \<Rightarrow> BucketAccess option" where
  "parseBucketAccess name =
     (if name = ''none'' then Some AccessNone
      else if name = ''read'' then Some AccessRead
      else if name = ''write'' then Some AccessWrite
      else None)"

definition parseRole :: "string \<Rightarrow> Role option" where
  "parseRole name =
     (if name = ''administrator'' then Some Administrator
      else if name = ''operator'' then Some Operator
      else if name = ''readonly'' then Some ReadOnly
      else None)"

fun BucketAccess_describe :: "BucketAccess \<Rightarrow> string" where
  "BucketAccess_describe AccessNone = ''Not listed, and every request naming it is refused.''"
| "BucketAccess_describe AccessRead = ''Reads the bucket and its objects. Changes nothing.''"
| "BucketAccess_describe AccessWrite = ''Whatever the role allows.''"

fun describeHolding :: "BucketAccess \<Rightarrow> string" where
  "describeHolding AccessNone = ''no access''"
| "describeHolding AccessRead = ''read-only access''"
| "describeHolding AccessWrite = ''read and write access''"

fun Role_describe :: "Role \<Rightarrow> string" where
  "Role_describe Administrator =
     ''Everything, including managing users and reading the audit log.''"
| "Role_describe Operator =
     ''Buckets, objects and their own access keys. No user management.''"
| "Role_describe ReadOnly =
     ''Reads buckets, objects and settings. Changes nothing and issues no keys.''"

lemma parseBucketAccess_toString [simp]: "parseBucketAccess (BucketAccess_toString a) = Some a"
  by (cases a) (simp_all add: parseBucketAccess_def)

lemma parseBucketAccess_eq_Some:
  "parseBucketAccess s = Some a \<longleftrightarrow> s = BucketAccess_toString a"
  by (cases a) (auto simp: parseBucketAccess_def)

lemma parseRole_toString [simp]: "parseRole (Role_toString r) = Some r"
  by (cases r) (simp_all add: parseRole_def)

lemma parseRole_eq_Some: "parseRole s = Some r \<longleftrightarrow> s = Role_toString r"
  by (cases r) (auto simp: parseRole_def)

section \<open>Decisions\<close>

fun permits :: "BucketAccess \<Rightarrow> Permission \<Rightarrow> bool" where
  "permits access BucketRead = (access \<noteq> AccessNone)"
| "permits access ObjectRead = (access \<noteq> AccessNone)"
| "permits access BucketWrite = (access = AccessWrite)"
| "permits access ObjectWrite = (access = AccessWrite)"
| "permits access CapacityWrite = (access = AccessWrite)"
| "permits access _ = True"

record BucketGrants =
  fallback :: BucketAccess
  exceptions :: "(string, BucketAccess) omap"

definition default_BucketGrants :: BucketGrants where
  "default_BucketGrants = \<lparr>fallback = AccessWrite, exceptions = []\<rparr>"

definition forBucket :: "BucketGrants \<Rightarrow> string \<Rightarrow> BucketAccess" where
  "forBucket grants bucket =
     (case map_of (exceptions grants) bucket of None \<Rightarrow> fallback grants | Some a \<Rightarrow> a)"

definition unrestricted :: "BucketGrants \<Rightarrow> bool" where
  "unrestricted grants \<longleftrightarrow> fallback grants = AccessWrite \<and> exceptions grants = []"

fun allows :: "Role \<Rightarrow> Permission \<Rightarrow> bool" where
  "allows Administrator permission = True"
| "allows Operator permission =
     (case permission of
        BucketRead \<Rightarrow> True | BucketWrite \<Rightarrow> True | ObjectRead \<Rightarrow> True | ObjectWrite \<Rightarrow> True
      | SettingsRead \<Rightarrow> True | CredentialRead \<Rightarrow> True | CredentialWrite \<Rightarrow> True
      | SettingsWrite \<Rightarrow> False | CapacityWrite \<Rightarrow> False | UserRead \<Rightarrow> False | UserWrite \<Rightarrow> False
      | AuditRead \<Rightarrow> False | BackupWrite \<Rightarrow> False)"
| "allows ReadOnly permission =
     (case permission of
        BucketRead \<Rightarrow> True | ObjectRead \<Rightarrow> True | SettingsRead \<Rightarrow> True | CredentialRead \<Rightarrow> True
      | BucketWrite \<Rightarrow> False | ObjectWrite \<Rightarrow> False | SettingsWrite \<Rightarrow> False | CapacityWrite \<Rightarrow> False
      | CredentialWrite \<Rightarrow> False | UserRead \<Rightarrow> False | UserWrite \<Rightarrow> False | AuditRead \<Rightarrow> False
      | BackupWrite \<Rightarrow> False)"

definition allows_in :: "Role \<Rightarrow> BucketGrants \<Rightarrow> string \<Rightarrow> Permission \<Rightarrow> bool" where
  "allows_in role grants bucket permission =
     (if \<not> allows role permission then False
      else if role = Administrator then True
      else permits (forBucket grants bucket) permission)"

definition permissionsFor :: "Role \<Rightarrow> Permission list" where
  "permissionsFor role = filter (allows role) allPermissions"

definition isValidUsername :: "string \<Rightarrow> bool" where
  "isValidUsername username =
     (if username = [] \<or> length username > 64 then False
      else if \<not> isalnum (hd username) then False
      else list_all (\<lambda>ch. isalnum ch \<or> ch = CHR ''.'' \<or> ch = CHR ''_'' \<or> ch = CHR ''-'') username)"

section \<open>Lemmas\<close>

lemma permits_mono: "a \<le> b \<Longrightarrow> permits a p \<Longrightarrow> permits b p"
  by (cases p; cases a; cases b) (simp_all add: less_eq_BucketAccess_def)

lemma permits_Write: "permits AccessWrite p"
  by (cases p) simp_all

lemma allows_in_imp_allows: "allows_in r g b p \<Longrightarrow> allows r p"
  by (simp add: allows_in_def split: if_splits)

lemma allows_role_chain: "allows ReadOnly p \<Longrightarrow> allows Operator p"
  by (cases p) simp_all

lemma isalnum_not_NUL: "\<not> isalnum NUL"
  by (simp add: isalnum_def flip: uchar_le) (simp add: uchar_def)

lemma isValidUsername_no_NUL: "isValidUsername u \<Longrightarrow> NUL \<notin> set u"
proof -
  have "NUL \<noteq> CHR ''.''" "NUL \<noteq> CHR ''_''" "NUL \<noteq> CHR ''-''"
    by (simp_all flip: uchar_inject) (simp_all add: uchar_def)
  then show "isValidUsername u \<Longrightarrow> NUL \<notin> set u"
    using isalnum_not_NUL by (auto simp: isValidUsername_def list_all_iff split: if_splits)
qed

end
