(* ===== verification/Checksum_Algorithms.thy ===== *)
theory Checksum_Algorithms
  imports Errors Text
begin

text \<open>
  The checksum family of storage/checksum.hpp and storage/checksum.cpp: the algorithm
  names, the table-driven reflected CRCs, the incremental computer and the composite over
  part checksums. The digest behind \<open>Sha1\<close> and \<open>Sha256\<close> is OpenSSL's, a parameter \<open>evp\<close>
  that maps the algorithm and the bytes fed so far to the digest.

  The lemmas say that the table-driven update is the bit-serial one, and that feeding a
  payload in pieces is feeding it at once.
\<close>

section \<open>Algorithms\<close>

datatype ChecksumAlgorithm = Crc32 | Crc32c | Crc64Nvme | Sha1 | Sha256

definition all_ChecksumAlgorithm :: "ChecksumAlgorithm list" where
  "all_ChecksumAlgorithm = [Crc32, Crc32c, Crc64Nvme, Sha1, Sha256]"

fun ChecksumAlgorithm_ordinal :: "ChecksumAlgorithm \<Rightarrow> u8" where
  "ChecksumAlgorithm_ordinal Crc32 = 0"
| "ChecksumAlgorithm_ordinal Crc32c = 1"
| "ChecksumAlgorithm_ordinal Crc64Nvme = 2"
| "ChecksumAlgorithm_ordinal Sha1 = 3"
| "ChecksumAlgorithm_ordinal Sha256 = 4"

definition ChecksumAlgorithm_of_ordinal :: "u8 \<Rightarrow> ChecksumAlgorithm" where
  "ChecksumAlgorithm_of_ordinal n =
     (if n = 0 then Crc32 else if n = 1 then Crc32c else if n = 2 then Crc64Nvme
      else if n = 3 then Sha1 else Sha256)"

lemma ChecksumAlgorithm_of_ordinal [simp]:
  "ChecksumAlgorithm_of_ordinal (ChecksumAlgorithm_ordinal a) = a"
  by (cases a) (simp_all add: ChecksumAlgorithm_of_ordinal_def)

fun ChecksumAlgorithm_toString :: "ChecksumAlgorithm \<Rightarrow> string" where
  "ChecksumAlgorithm_toString Crc32 = ''CRC32''"
| "ChecksumAlgorithm_toString Crc32c = ''CRC32C''"
| "ChecksumAlgorithm_toString Crc64Nvme = ''CRC64NVME''"
| "ChecksumAlgorithm_toString Sha1 = ''SHA1''"
| "ChecksumAlgorithm_toString Sha256 = ''SHA256''"

definition checksumAlgorithmFromString :: "string \<Rightarrow> ChecksumAlgorithm option" where
  "checksumAlgorithmFromString name =
     (let upper = map toupper name in
      if upper = ''CRC32'' then Some Crc32
      else if upper = ''CRC32C'' then Some Crc32c
      else if upper = ''CRC64NVME'' then Some Crc64Nvme
      else if upper = ''SHA1'' then Some Sha1
      else if upper = ''SHA256'' then Some Sha256
      else None)"

fun checksumLength :: "ChecksumAlgorithm \<Rightarrow> nat" where
  "checksumLength Crc32 = 4"
| "checksumLength Crc32c = 4"
| "checksumLength Crc64Nvme = 8"
| "checksumLength Sha1 = 20"
| "checksumLength Sha256 = 32"

record Checksum =
  c_algorithm :: "ChecksumAlgorithm option"
  c_value :: string
  c_parts :: u32

definition no_checksum :: Checksum where
  "no_checksum = \<lparr>c_algorithm = None, c_value = [], c_parts = 0\<rparr>"

definition Checksum_present :: "Checksum \<Rightarrow> bool" where
  "Checksum_present c \<longleftrightarrow> c_algorithm c \<noteq> None \<and> c_value c \<noteq> []"

section \<open>Reflected CRCs\<close>

text \<open>One turn of the inner loop of \<open>crcTable\<close>.\<close>

definition crc_step :: "'a::len word \<Rightarrow> 'a word \<Rightarrow> 'a word" where
  "crc_step poly v = drop_bit 1 v XOR (if v AND 1 \<noteq> 0 then poly else 0)"

definition crcTable :: "'a::len word \<Rightarrow> 'a word list" where
  "crcTable poly = map (\<lambda>i. (crc_step poly ^^ 8) (of_nat i)) [0..<256]"

definition crcUpdate :: "'a::len word \<Rightarrow> 'a word \<Rightarrow> string \<Rightarrow> 'a word" where
  "crcUpdate poly state data =
     foldl (\<lambda>state ch. crcTable poly ! unat ((state XOR byte_val ch) AND 0xFF) XOR drop_bit 8 state)
       state data"

text \<open>
  \<open>out[sizeof(Word) - 1 - i] = (value >> (i * 8)) & 0xFF\<close>: the byte at position \<open>j\<close> comes from
  a shift by \<open>(n - 1 - j) * 8\<close> for a word of \<open>n\<close> bytes.
\<close>

definition toBigEndian :: "'a::len word \<Rightarrow> string" where
  "toBigEndian value =
     (let n = LENGTH('a) div 8 in
      map (\<lambda>j. byte_of (drop_bit ((n - 1 - j) * 8) value AND 0xFF)) [0..<n])"

definition kCrc32Polynomial :: u32 where "kCrc32Polynomial = 0xEDB88320"
definition kCrc32cPolynomial :: u32 where "kCrc32cPolynomial = 0x82F63B78"
definition kCrc64NvmePolynomial :: u64 where "kCrc64NvmePolynomial = 0x9A6C9329AC4BC9B5"

text \<open>The reference: feed a byte into the low end and clock it through bit by bit.\<close>

definition crc_serial :: "'a::len word \<Rightarrow> 'a word \<Rightarrow> string \<Rightarrow> 'a word" where
  "crc_serial poly state data = foldl (\<lambda>s ch. (crc_step poly ^^ 8) (s XOR byte_val ch)) state data"

lemma and_1_xor: "(a XOR b :: 'a::len word) AND 1 \<noteq> 0 \<longleftrightarrow> (a AND 1 \<noteq> 0) \<noteq> (b AND 1 \<noteq> 0)"
  by (simp add: and_one_eq mod_2_eq_odd even_xor_iff)

lemma crc_step_xor: "crc_step poly (a XOR b) = crc_step poly a XOR crc_step poly b"
proof -
  have "drop_bit 1 (a XOR b) = drop_bit 1 a XOR drop_bit 1 b"
    by (rule drop_bit_xor)
  then show ?thesis
    using and_1_xor [of a b] by (simp add: crc_step_def ac_simps)
qed

lemma crc_steps_xor: "(crc_step poly ^^ n) (a XOR b) = (crc_step poly ^^ n) a XOR (crc_step poly ^^ n) b"
  by (induction n) (simp_all add: crc_step_xor)


text \<open>Bits that are not at the bottom only move down.\<close>

lemma crc_steps_high: "take_bit n v = 0 \<Longrightarrow> (crc_step poly ^^ n) v = drop_bit n v"
proof (induction n arbitrary: v)
  case (Suc n)
  have "v AND 1 = 0"
  proof -
    have "take_bit 1 (take_bit (Suc n) v) = 0"
      using Suc.prems by simp
    then have "take_bit 1 v = 0" by simp
    then show ?thesis by (simp add: and_one_eq take_bit_Suc)
  qed
  then have step: "crc_step poly v = drop_bit 1 v"
    by (simp add: crc_step_def)
  have "take_bit n (drop_bit 1 v) = drop_bit 1 (take_bit (Suc n) v)"
    by (simp add: drop_bit_take_bit)
  with Suc.prems have "take_bit n (drop_bit 1 v) = 0"
    by simp
  then have "(crc_step poly ^^ n) (drop_bit 1 v) = drop_bit n (drop_bit 1 v)"
    by (rule Suc.IH)
  with step show ?case
    by (simp add: funpow_Suc_right del: funpow.simps)
qed simp

lemma drop_bit_byte_val: "drop_bit 8 (byte_val c :: 'a::len word) = 0"
proof -
  have "unat (byte_val c :: 'a word) \<le> uchar c"
    by (simp add: byte_val_def uchar_def unat_of_nat)
  then have "unat (byte_val c :: 'a word) div 256 = 0"
    using uchar_le_255 [of c] by simp
  moreover have "unat (drop_bit 8 (byte_val c :: 'a word)) = unat (byte_val c :: 'a word) div 256"
    unfolding unat_drop_bit_eq by (simp add: drop_bit_eq_div [where 'a = nat])
  ultimately show ?thesis
    by (simp add: word_unat_eq_iff)
qed

lemma low_xor_high: "take_bit 8 v XOR push_bit 8 (drop_bit 8 v) = (v :: 'a::len word)"
  by (rule bit_eqI) (auto simp: bit_simps intro: ccontr)

lemma crc_byte:
  "crcTable poly ! unat ((s XOR byte_val ch) AND 0xFF) XOR drop_bit 8 s =
   (crc_step poly ^^ 8) (s XOR byte_val ch)"
proof -
  let ?x = "s XOR byte_val ch"
  have "unat (?x AND 0xFF) < 256"
    by (simp add: unat_and_0xFF)
  then have table: "crcTable poly ! unat (?x AND 0xFF) = (crc_step poly ^^ 8) (take_bit 8 ?x)"
    by (simp only: crcTable_def nth_map length_upt nth_upt) (simp add: and_0xFF del: funpow.simps)
  have "drop_bit 8 s = drop_bit 8 ?x"
    using drop_bit_xor [of 8 s "byte_val ch"] drop_bit_byte_val [of ch, where 'a = 'a] by simp
  also have "\<dots> = (crc_step poly ^^ 8) (push_bit 8 (drop_bit 8 ?x))"
  proof -
    have "take_bit 8 (push_bit 8 (drop_bit 8 ?x)) = 0"
      by (rule bit_eqI) (auto simp: bit_simps)
    then have "(crc_step poly ^^ 8) (push_bit 8 (drop_bit 8 ?x)) = drop_bit 8 (push_bit 8 (drop_bit 8 ?x))"
      by (rule crc_steps_high)
    also have "\<dots> = drop_bit 8 ?x"
      by (rule bit_eqI) (auto simp: bit_simps dest: bit_imp_le_length)
    finally show ?thesis by simp
  qed
  finally have "crcTable poly ! unat (?x AND 0xFF) XOR drop_bit 8 s =
      (crc_step poly ^^ 8) (take_bit 8 ?x XOR push_bit 8 (drop_bit 8 ?x))"
    by (simp only: table crc_steps_xor)
  then show ?thesis by (simp only: low_xor_high)
qed

lemma crcUpdate_eq_serial: "crcUpdate poly state data = crc_serial poly state data"
  by (simp only: crcUpdate_def crc_serial_def crc_byte)

lemma crcUpdate_append: "crcUpdate poly s (a @ b) = crcUpdate poly (crcUpdate poly s a) b"
  by (simp add: crcUpdate_def)

lemma crcUpdate_Nil [simp]: "crcUpdate poly s [] = s"
  by (simp add: crcUpdate_def)

section \<open>The incremental computer\<close>

text \<open>
  \<open>Impl\<close> holds one live state. The OpenSSL context is the bytes it was fed: EVP documents
  the digest as the digest of the concatenation of all updates.
\<close>

record ChecksumComputer =
  cc_algorithm :: ChecksumAlgorithm
  cc_crc32 :: u32
  cc_crc64 :: u64
  cc_hash :: string

type_synonym evp = "ChecksumAlgorithm \<Rightarrow> string \<Rightarrow> string"

definition computer_new :: "ChecksumAlgorithm \<Rightarrow> ChecksumComputer" where
  "computer_new algorithm =
     \<lparr>cc_algorithm = algorithm,
      cc_crc32 = (if algorithm = Crc32 \<or> algorithm = Crc32c then 0xFFFFFFFF else 0),
      cc_crc64 = (if algorithm = Crc64Nvme then 0xFFFFFFFFFFFFFFFF else 0),
      cc_hash = []\<rparr>"

definition computer_update :: "ChecksumComputer \<Rightarrow> string \<Rightarrow> ChecksumComputer" where
  "computer_update c data =
     (if data = [] then c
      else case cc_algorithm c of
        Crc32 \<Rightarrow> c\<lparr>cc_crc32 := crcUpdate kCrc32Polynomial (cc_crc32 c) data\<rparr>
      | Crc32c \<Rightarrow> c\<lparr>cc_crc32 := crcUpdate kCrc32cPolynomial (cc_crc32 c) data\<rparr>
      | Crc64Nvme \<Rightarrow> c\<lparr>cc_crc64 := crcUpdate kCrc64NvmePolynomial (cc_crc64 c) data\<rparr>
      | Sha1 \<Rightarrow> c\<lparr>cc_hash := cc_hash c @ data\<rparr>
      | Sha256 \<Rightarrow> c\<lparr>cc_hash := cc_hash c @ data\<rparr>)"

definition computer_finish :: "evp \<Rightarrow> ChecksumComputer \<Rightarrow> string" where
  "computer_finish evp c =
     (case cc_algorithm c of
        Crc32 \<Rightarrow> toBigEndian (cc_crc32 c XOR 0xFFFFFFFF)
      | Crc32c \<Rightarrow> toBigEndian (cc_crc32 c XOR 0xFFFFFFFF)
      | Crc64Nvme \<Rightarrow> toBigEndian (cc_crc64 c XOR 0xFFFFFFFFFFFFFFFF)
      | Sha1 \<Rightarrow> evp Sha1 (cc_hash c)
      | Sha256 \<Rightarrow> evp Sha256 (cc_hash c))"

definition checksumOf :: "evp \<Rightarrow> ChecksumAlgorithm \<Rightarrow> string \<Rightarrow> string" where
  "checksumOf evp algorithm data =
     computer_finish evp (computer_update (computer_new algorithm) data)"

text \<open>\<open>std::invalid_argument\<close> for a part digest of the wrong length is \<open>None\<close>.\<close>

fun composite_loop :: "ChecksumAlgorithm \<Rightarrow> ChecksumComputer \<Rightarrow> string list \<Rightarrow> ChecksumComputer option" where
  "composite_loop algorithm c [] = Some c"
| "composite_loop algorithm c (part # rest) =
     (if length part \<noteq> checksumLength algorithm then None
      else composite_loop algorithm (computer_update c part) rest)"

definition compositeChecksum :: "evp \<Rightarrow> ChecksumAlgorithm \<Rightarrow> string list \<Rightarrow> Checksum option" where
  "compositeChecksum evp algorithm rawPartChecksums =
     map_option (\<lambda>c. \<lparr>c_algorithm = Some algorithm, c_value = computer_finish evp c,
                      c_parts = of_nat (length rawPartChecksums)\<rparr>)
       (composite_loop algorithm (computer_new algorithm) rawPartChecksums)"

text \<open>
  The contract of an incremental digest: an update with nothing changes nothing and two
  updates are one update with the concatenation. A stream in pieces is then the stream.
\<close>

locale incremental_digest =
  fixes update :: "'s \<Rightarrow> string \<Rightarrow> 's"
  assumes update_Nil: "update s [] = s"
    and update_append: "update s (a @ b) = update (update s a) b"
begin

lemma update_pieces: "foldl update s pieces = update s (concat pieces)"
  by (induction pieces arbitrary: s) (simp_all add: update_Nil update_append)

end

lemma computer_update_append:
  "computer_update c (a @ b) = computer_update (computer_update c a) b"
  by (cases "cc_algorithm c") (auto simp: computer_update_def crcUpdate_append)

interpretation computer: incremental_digest computer_update
  by unfold_locales (simp_all add: computer_update_append, simp add: computer_update_def)

lemma composite_loop_eq:
  "composite_loop algorithm c parts =
     (if list_all (\<lambda>p. length p = checksumLength algorithm) parts
      then Some (foldl computer_update c parts) else None)"
  by (induction parts arbitrary: c) simp_all

lemma checksumOf_pieces:
  "checksumOf evp algorithm (concat pieces) =
   computer_finish evp (foldl computer_update (computer_new algorithm) pieces)"
  by (simp add: checksumOf_def computer.update_pieces)

lemma compositeChecksum_Some:
  assumes "list_all (\<lambda>p. length p = checksumLength algorithm) parts"
  shows "compositeChecksum evp algorithm parts =
    Some \<lparr>c_algorithm = Some algorithm, c_value = checksumOf evp algorithm (concat parts),
          c_parts = of_nat (length parts)\<rparr>"
  using assms by (simp add: compositeChecksum_def composite_loop_eq checksumOf_pieces)

lemma compositeChecksum_None:
  "compositeChecksum evp algorithm parts = None \<longleftrightarrow>
   (\<exists>p\<in>set parts. length p \<noteq> checksumLength algorithm)"
  by (auto simp: compositeChecksum_def composite_loop_eq list_all_iff)

end
