(* ===== verification/Records.thy ===== *)
theory Records
  imports Codec Identity Checksum_Algorithms
begin

text \<open>
  The metadata schema: storage/records.hpp, storage/records.cpp and
  storage/durability.cpp. The structs are records, \<open>std::map\<close> fields are ordered maps, and
  the three field groups shared between records (CORS rules, content headers, bucket
  grants) have their encoders and decoders here.

  For every encoder \<open>encodeX\<close> there is the string \<open>X_bytes\<close> it appends and the predicate
  \<open>X_ok\<close> of the values the format can hold; the decoder then satisfies \<open>field_codec\<close>.
\<close>

section \<open>Durability\<close>

datatype Durability = DurabilityNone | Relaxed | Strict

fun Durability_toString :: "Durability \<Rightarrow> string" where
  "Durability_toString DurabilityNone = ''none''"
| "Durability_toString Relaxed = ''relaxed''"
| "Durability_toString Strict = ''strict''"

definition durabilityFromString :: "string \<Rightarrow> Durability option" where
  "durabilityFromString name =
     (if name = ''none'' then Some DurabilityNone
      else if name = ''relaxed'' then Some Relaxed
      else if name = ''strict'' then Some Strict
      else None)"

text \<open>\<open>static_cast<std::uint8_t>\<close> of an enumerator and back.\<close>

fun Durability_ordinal :: "Durability \<Rightarrow> u8" where
  "Durability_ordinal DurabilityNone = 0"
| "Durability_ordinal Relaxed = 1"
| "Durability_ordinal Strict = 2"

definition Durability_of_ordinal :: "u8 \<Rightarrow> Durability" where
  "Durability_of_ordinal n = (if n = 0 then DurabilityNone else if n = 1 then Relaxed else Strict)"

lemma durabilityFromString_eq_Some:
  "durabilityFromString s = Some d \<longleftrightarrow> s = Durability_toString d"
  by (cases d) (auto simp: durabilityFromString_def)

lemma Durability_of_ordinal [simp]: "Durability_of_ordinal (Durability_ordinal d) = d"
  by (cases d) (simp_all add: Durability_of_ordinal_def)

lemma Durability_ordinal_le [simp]: "Durability_ordinal d \<le> 2"
  by (cases d) simp_all

section \<open>Structs\<close>

type_synonym TimestampMs = i64
type_synonym UserMetadata = "(string, string) omap"

record ContentHeaders =
  cacheControl :: string
  contentDisposition :: string
  contentEncoding :: string
  contentLanguage :: string
  expires :: string

definition no_ContentHeaders :: ContentHeaders where
  "no_ContentHeaders = \<lparr>cacheControl = [], contentDisposition = [], contentEncoding = [],
     contentLanguage = [], expires = []\<rparr>"

definition ContentHeaders_empty :: "ContentHeaders \<Rightarrow> bool" where
  "ContentHeaders_empty h \<longleftrightarrow> cacheControl h = [] \<and> contentDisposition h = [] \<and>
     contentEncoding h = [] \<and> contentLanguage h = [] \<and> expires h = []"

record CorsRule =
  cr_id :: string
  allowedOrigins :: "string list"
  allowedMethods :: "string list"
  allowedHeaders :: "string list"
  exposeHeaders :: "string list"
  maxAgeSeconds :: "32 word"

record BucketRecord =
  b_name :: string
  b_createdAt :: TimestampMs
  b_publicRead :: bool
  b_publicList :: bool
  b_policy :: string
  b_cors :: "CorsRule list"
  b_quotaBytes :: u64
  b_durability :: "Durability option"

record UserRecord =
  u_username :: string
  u_passwordHash :: string
  u_role :: Role
  u_disabled :: bool
  u_createdAt :: TimestampMs
  u_updatedAt :: TimestampMs
  u_passwordChangedAt :: TimestampMs
  u_buckets :: BucketGrants

record AdminRecord =
  ad_username :: string
  ad_passwordHash :: string
  ad_createdAt :: TimestampMs
  ad_updatedAt :: TimestampMs

record AuditRecord =
  a_sequence :: u64
  a_atMs :: TimestampMs
  a_actor :: string
  a_action :: string
  a_target :: string
  a_allowed :: bool
  a_detail :: string

record AccessKeyRecord =
  k_accessKeyId :: string
  k_secretKey :: string
  k_name :: string
  k_owner :: string
  k_createdAt :: TimestampMs
  k_rotatedAt :: TimestampMs

record ObjectRecord =
  o_key :: string
  o_blobId :: string
  o_size :: u64
  o_etag :: string
  o_sha256 :: string
  o_contentType :: string
  o_lastModified :: TimestampMs
  o_userMetadata :: UserMetadata
  o_content :: ContentHeaders
  o_checksum :: Checksum

record PartRecord =
  p_partNumber :: u32
  p_blobId :: string
  p_size :: u64
  p_etag :: string
  p_uploadedAt :: TimestampMs
  p_checksum :: Checksum

record UploadRecord =
  up_uploadId :: string
  up_bucket :: string
  up_key :: string
  up_contentType :: string
  up_createdAt :: TimestampMs
  up_userMetadata :: UserMetadata
  up_content :: ContentHeaders
  up_checksumAlgorithm :: "ChecksumAlgorithm option"

record ListUploadsRequest =
  lu_prefix :: string
  lu_keyMarker :: string
  lu_uploadIdMarker :: string
  lu_maxUploads :: u32

record ListUploadsResult =
  lur_uploads :: "UploadRecord list"
  lur_truncated :: bool
  lur_nextKeyMarker :: string
  lur_nextUploadIdMarker :: string

record ListObjectsRequest =
  lo_prefix :: string
  lo_delimiter :: string
  lo_startAfter :: string
  lo_maxKeys :: u32

record ListObjectsResult =
  lor_objects :: "ObjectRecord list"
  lor_commonPrefixes :: "string list"
  lor_truncated :: bool
  lor_nextStartAfter :: string

record UsageStats =
  us_buckets :: u64
  us_objects :: u64
  us_bytes :: u64
  us_uploads :: u64
  us_orphanBlobs :: u64

section \<open>Content headers\<close>

definition kMaxContentHeaderLength :: nat where
  "kMaxContentHeaderLength = 1024"

definition isStorableHeaderValue :: "string \<Rightarrow> bool" where
  "isStorableHeaderValue s =
     (if length s > kMaxContentHeaderLength then False
      else list_all (\<lambda>ch. \<not> (uchar ch < 0x20 \<or> uchar ch = 0x7F)) s)"

definition areStorableHeaderValues :: "ContentHeaders \<Rightarrow> bool" where
  "areStorableHeaderValues headers \<longleftrightarrow>
     isStorableHeaderValue (cacheControl headers) \<and>
     isStorableHeaderValue (contentDisposition headers) \<and>
     isStorableHeaderValue (contentEncoding headers) \<and>
     isStorableHeaderValue (contentLanguage headers) \<and>
     isStorableHeaderValue (expires headers)"

definition content_fields :: "ContentHeaders \<Rightarrow> (u8 \<times> string) list" where
  "content_fields headers =
     [(1, cacheControl headers), (2, contentDisposition headers), (3, contentEncoding headers),
      (4, contentLanguage headers), (5, expires headers)]"

definition encodeContentHeaders :: "buffer \<Rightarrow> ContentHeaders \<Rightarrow> buffer" where
  "encodeContentHeaders writer headers =
     (let fields = content_fields headers;
          present = foldl (\<lambda>n (_, v). n + (if v = [] then 0 else 1)) (0::u64) fields
      in foldl (\<lambda>out (i, v). if v = [] then out else writer_string (writer_u8 out i) v)
           (writer_varint writer present) fields)"

fun set_content_header :: "u8 \<Rightarrow> string \<Rightarrow> ContentHeaders \<Rightarrow> ContentHeaders" where
  "set_content_header i v headers =
     (if i = 1 then headers\<lparr>cacheControl := v\<rparr>
      else if i = 2 then headers\<lparr>contentDisposition := v\<rparr>
      else if i = 3 then headers\<lparr>contentEncoding := v\<rparr>
      else if i = 4 then headers\<lparr>contentLanguage := v\<rparr>
      else if i = 5 then headers\<lparr>expires := v\<rparr>
      else headers)"

fun content_loop :: "nat \<Rightarrow> ContentHeaders \<Rightarrow> reader \<Rightarrow> exn + ContentHeaders \<times> reader" where
  "content_loop 0 headers r = Inr (headers, r)"
| "content_loop (Suc n) headers r =
     rbind (reader_u8 r) (\<lambda>i r. rbind (reader_string r) (\<lambda>v r.
       content_loop n (set_content_header i v headers) r))"

definition decodeContentHeaders :: "reader \<Rightarrow> exn + ContentHeaders \<times> reader" where
  "decodeContentHeaders r =
     rbind (reader_varint r) (\<lambda>count r.
       if count > 64 then Inl (DecodeError ListTooLong)
       else content_loop (unat count) no_ContentHeaders r)"

declare set_content_header.simps [simp del]

section \<open>CORS rules\<close>

definition encode_string_list :: "buffer \<Rightarrow> string list \<Rightarrow> buffer" where
  "encode_string_list writer xs =
     foldl writer_string (writer_varint writer (of_nat (length xs))) xs"

definition encodeCorsRule :: "buffer \<Rightarrow> CorsRule \<Rightarrow> buffer" where
  "encodeCorsRule writer rule =
     (let out = writer_string writer (cr_id rule);
          out = foldl encode_string_list out
            [allowedOrigins rule, allowedMethods rule, allowedHeaders rule, exposeHeaders rule];
          out = writer_boolean out (sint (maxAgeSeconds rule) \<ge> 0)
      in writer_varint out (if sint (maxAgeSeconds rule) \<ge> 0 then scast (maxAgeSeconds rule) else 0))"

definition encodeCorsRules :: "buffer \<Rightarrow> CorsRule list \<Rightarrow> buffer" where
  "encodeCorsRules writer rules =
     foldl encodeCorsRule (writer_varint writer (of_nat (length rules))) rules"

definition bounded :: "u64 \<Rightarrow> u64 \<Rightarrow> exn + nat" where
  "bounded count limit = (if count > limit then Inl (DecodeError ListTooLong) else Inr (unat count))"

definition decode_bounded_list ::
    "u64 \<Rightarrow> (reader \<Rightarrow> exn + 'a \<times> reader) \<Rightarrow> reader \<Rightarrow> exn + 'a list \<times> reader" where
  "decode_bounded_list limit f r =
     rbind (reader_varint r) (\<lambda>count r.
       case bounded count limit of Inl e \<Rightarrow> Inl e | Inr n \<Rightarrow> read_n f n r)"

definition decodeCorsRule :: "reader \<Rightarrow> exn + CorsRule \<times> reader" where
  "decodeCorsRule r =
     rbind (reader_string r) (\<lambda>i r.
     rbind (decode_bounded_list 1000 reader_string r) (\<lambda>origins r.
     rbind (decode_bounded_list 1000 reader_string r) (\<lambda>methods r.
     rbind (decode_bounded_list 1000 reader_string r) (\<lambda>headers r.
     rbind (decode_bounded_list 1000 reader_string r) (\<lambda>expose r.
     rbind (reader_boolean r) (\<lambda>hasMaxAge r.
     rbind (reader_varint r) (\<lambda>maxAge r.
       Inr (\<lparr>cr_id = i, allowedOrigins = origins, allowedMethods = methods,
             allowedHeaders = headers, exposeHeaders = expose,
             maxAgeSeconds = (if hasMaxAge then ucast maxAge else - 1)\<rparr>, r))))))))"

definition decodeCorsRules :: "reader \<Rightarrow> exn + CorsRule list \<times> reader" where
  "decodeCorsRules r = decode_bounded_list 100 decodeCorsRule r"

section \<open>Bucket grants\<close>

definition encodeBucketGrants :: "buffer \<Rightarrow> BucketGrants \<Rightarrow> buffer" where
  "encodeBucketGrants writer grants =
     foldl (\<lambda>out (bucket, access). writer_string (writer_string out bucket) (BucketAccess_toString access))
       (writer_varint (writer_string writer (BucketAccess_toString (fallback grants)))
         (of_nat (length (exceptions grants))))
       (exceptions grants)"

fun grants_loop :: "nat \<Rightarrow> BucketGrants \<Rightarrow> reader \<Rightarrow> exn + BucketGrants \<times> reader" where
  "grants_loop 0 grants r = Inr (grants, r)"
| "grants_loop (Suc n) grants r =
     rbind (reader_string r) (\<lambda>bucket r. rbind (reader_string r) (\<lambda>name r.
       case parseBucketAccess name of
         None \<Rightarrow> Inl (DecodeError UnknownAccess)
       | Some access \<Rightarrow>
           grants_loop n (grants\<lparr>exceptions := omap_emplace bucket access (exceptions grants)\<rparr>) r))"

definition decodeBucketGrants :: "reader \<Rightarrow> exn + BucketGrants \<times> reader" where
  "decodeBucketGrants r =
     rbind (reader_string r) (\<lambda>name r.
       case parseBucketAccess name of
         None \<Rightarrow> Inl (DecodeError UnknownAccess)
       | Some access \<Rightarrow>
           rbind (reader_varint r) (\<lambda>count r.
             if count > 1000000 then Inl (DecodeError ListTooLong)
             else grants_loop (unat count) (default_BucketGrants\<lparr>fallback := access\<rparr>) r))"

section \<open>Round trips\<close>

text \<open>Content headers: the set fields, each behind its id.\<close>

definition set_fields :: "ContentHeaders \<Rightarrow> (u8 \<times> string) list" where
  "set_fields headers = filter (\<lambda>(_, v). v \<noteq> []) (content_fields headers)"

definition content_field_bytes :: "u8 \<times> string \<Rightarrow> string" where
  "content_field_bytes f = byte_of (fst f) # string_bytes (snd f)"

definition content_bytes :: "ContentHeaders \<Rightarrow> string" where
  "content_bytes headers = counted content_field_bytes (set_fields headers)"

definition content_ok :: "ContentHeaders \<Rightarrow> bool" where
  "content_ok headers \<longleftrightarrow> (\<forall>(_, v)\<in>set (content_fields headers). fits v)"

lemma foldl_count: "foldl (\<lambda>n x. n + (if P x then 0 else 1)) (k::'a::len word) xs =
    k + of_nat (length (filter (\<lambda>x. \<not> P x) xs))"
  by (induction xs arbitrary: k) (simp_all add: algebra_simps)

lemma encodeContentHeaders_eq: "encodeContentHeaders out h = out @ content_bytes h"
proof -
  have step: "(if v = [] then out else writer_string (writer_u8 out i) v) =
      out @ (if v = [] then [] else content_field_bytes (i, v))" for out i v
    by (simp add: writer_appends content_field_bytes_def)
  have "encodeContentHeaders out h =
      (out @ varint_bytes (of_nat (length (set_fields h)))) @
      concat (map (\<lambda>x. if snd x = [] then [] else content_field_bytes x) (content_fields h))"
    unfolding encodeContentHeaders_def Let_def step case_prod_unfold foldl_count set_fields_def
      writer_varint_eq
    by (simp add: foldl_append_map del: surjective_pairing) (simp only: prod.collapse)
  then show ?thesis
    by (simp add: content_bytes_def counted_def concat_filter_map set_fields_def case_prod_unfold)
qed

lemma content_loop_fields:
  "\<forall>f\<in>set fs. fits (snd f) \<Longrightarrow>
   content_loop (length fs) h (concat (map content_field_bytes fs) @ t) =
     Inr (foldl (\<lambda>h (i, v). set_content_header i v h) h fs, t)"
  by (induction fs arbitrary: h) (simp_all add: content_field_bytes_def case_prod_unfold)

lemma length_set_fields: "length (set_fields h) \<le> 5"
  unfolding set_fields_def
  by (rule order_trans [OF length_filter_le]) (simp add: content_fields_def)

lemma foldl_set_fields:
  "foldl (\<lambda>h (i, v). set_content_header i v h) no_ContentHeaders (set_fields h) = h"
  by (cases h) (simp add: set_fields_def content_fields_def no_ContentHeaders_def
      set_content_header.simps)

lemma small_count: "n \<le> m \<Longrightarrow> m < 2 ^ 64 \<Longrightarrow> unat (of_nat n :: u64) = n"
  by (simp add: unat_of_nat take_bit_nat_eq_self)

lemma small_count_le: "n \<le> m \<Longrightarrow> m < 2 ^ 64 \<Longrightarrow> (of_nat n :: u64) \<le> of_nat m"
  using small_count [of n m] small_count [of m m] by (simp add: word_le_nat_alt del: unat_of_nat)

lemma decode_content_bytes [simp]:
  assumes "content_ok h"
  shows "decodeContentHeaders (content_bytes h @ t) = Inr (h, t)"
proof -
  have n: "unat (of_nat (length (set_fields h)) :: u64) = length (set_fields h)"
    using length_set_fields [of h] by (rule small_count) simp
  have "\<not> (of_nat (length (set_fields h)) :: u64) > 64"
    unfolding word_less_nat_alt n using length_set_fields [of h] by simp
  moreover have "\<forall>f\<in>set (set_fields h). fits (snd f)"
    using assms by (auto simp: content_ok_def set_fields_def)
  ultimately show ?thesis
    by (simp add: decodeContentHeaders_def content_bytes_def counted_def n content_loop_fields
        foldl_set_fields del: unat_of_nat)
qed

interpretation content_headers: field_codec content_bytes decodeContentHeaders content_ok
  by unfold_locales (rule decode_content_bytes)

text \<open>CORS rules: counted lists of strings inside a counted list of rules.\<close>

definition cors_rule_bytes :: "CorsRule \<Rightarrow> string" where
  "cors_rule_bytes rule =
     string_bytes (cr_id rule) @ counted string_bytes (allowedOrigins rule) @
     counted string_bytes (allowedMethods rule) @ counted string_bytes (allowedHeaders rule) @
     counted string_bytes (exposeHeaders rule) @ [bool_byte (sint (maxAgeSeconds rule) \<ge> 0)] @
     varint_bytes (if sint (maxAgeSeconds rule) \<ge> 0 then scast (maxAgeSeconds rule) else 0)"

definition string_list_ok :: "string list \<Rightarrow> bool" where
  "string_list_ok xs \<longleftrightarrow> length xs \<le> 1000 \<and> list_all fits xs"

definition cors_rule_ok :: "CorsRule \<Rightarrow> bool" where
  "cors_rule_ok rule \<longleftrightarrow> fits (cr_id rule) \<and> string_list_ok (allowedOrigins rule) \<and>
     string_list_ok (allowedMethods rule) \<and> string_list_ok (allowedHeaders rule) \<and>
     string_list_ok (exposeHeaders rule) \<and> (sint (maxAgeSeconds rule) \<ge> 0 \<or> maxAgeSeconds rule = - 1)"

definition cors_ok :: "CorsRule list \<Rightarrow> bool" where
  "cors_ok rules \<longleftrightarrow> length rules \<le> 100 \<and> list_all cors_rule_ok rules"

definition cors_bytes :: "CorsRule list \<Rightarrow> string" where
  "cors_bytes rules = counted cors_rule_bytes rules"

lemma encode_string_list_eq: "encode_string_list out xs = out @ counted string_bytes xs"
  by (simp add: encode_string_list_def counted_def writer_varint_eq foldl_appends [OF writer_string_eq])

lemma encodeCorsRule_eq: "encodeCorsRule out rule = out @ cors_rule_bytes rule"
  by (simp add: encodeCorsRule_def cors_rule_bytes_def Let_def writer_appends encode_string_list_eq)

lemma encodeCorsRules_eq: "encodeCorsRules out rules = out @ cors_bytes rules"
  by (simp add: encodeCorsRules_def cors_bytes_def counted_def writer_varint_eq
      foldl_appends [OF encodeCorsRule_eq])

text \<open>What a bounded list decoder reads back, for any field that keeps the contract.\<close>

context field_codec
begin

lemma decode_bounded_list_counted:
  assumes "length xs \<le> limit" "limit < 2 ^ 64" "list_all ok xs"
  shows "decode_bounded_list (of_nat limit) dec (counted enc xs @ t) = Inr (xs, t)"
proof -
  have "\<not> (of_nat (length xs) :: u64) > of_nat limit"
    using small_count_le [OF assms(1,2)] by (simp add: not_less)
  then show ?thesis
    using read_n_enc [OF assms(3)]
    by (simp add: decode_bounded_list_def counted_def bounded_def small_count [OF assms(1,2)]
        del: unat_of_nat)
qed

end

lemma decode_string_list [simp]:
  "string_list_ok xs \<Longrightarrow>
   decode_bounded_list 1000 reader_string (counted string_bytes xs @ t) = Inr (xs, t)"
  using string_field.decode_bounded_list_counted [of xs 1000 t] by (simp add: string_list_ok_def)

lemma ucast_scast_32: "ucast (scast (w :: 32 word) :: u64) = w"
  by (rule bit_word_eqI) (simp add: bit_simps)

lemma decodeCorsRule_bytes:
  "cors_rule_ok rule \<Longrightarrow> decodeCorsRule (cors_rule_bytes rule @ t) = Inr (rule, t)"
  by (cases rule) (auto simp: decodeCorsRule_def cors_rule_bytes_def cors_rule_ok_def
      ucast_scast_32)

interpretation cors_rule: field_codec cors_rule_bytes decodeCorsRule cors_rule_ok
  by unfold_locales (rule decodeCorsRule_bytes)

lemma decode_cors_bytes [simp]:
  "cors_ok rules \<Longrightarrow> decodeCorsRules (cors_bytes rules @ t) = Inr (rules, t)"
  using cors_rule.decode_bounded_list_counted [of rules 100 t]
  by (simp add: decodeCorsRules_def cors_bytes_def cors_ok_def)

interpretation cors_rules: field_codec cors_bytes decodeCorsRules cors_ok
  by unfold_locales (rule decode_cors_bytes)

text \<open>Bucket grants: the fallback by name, then the exceptions in key order.\<close>

definition grant_bytes :: "string \<times> BucketAccess \<Rightarrow> string" where
  "grant_bytes g = string_bytes (fst g) @ string_bytes (BucketAccess_toString (snd g))"

definition grants_bytes :: "BucketGrants \<Rightarrow> string" where
  "grants_bytes grants =
     string_bytes (BucketAccess_toString (fallback grants)) @ counted grant_bytes (exceptions grants)"

definition grants_ok :: "BucketGrants \<Rightarrow> bool" where
  "grants_ok grants \<longleftrightarrow> omap_ok (exceptions grants) \<and> length (exceptions grants) \<le> 1000000 \<and>
     (\<forall>g\<in>set (exceptions grants). fits (fst g))"

lemma encodeBucketGrants_eq: "encodeBucketGrants out grants = out @ grants_bytes grants"
  by (simp add: encodeBucketGrants_def grants_bytes_def counted_def writer_appends case_prod_unfold
      foldl_append_map grant_bytes_def [abs_def])

lemma fits_BucketAccess_toString [simp]: "fits (BucketAccess_toString a)"
  by (cases a) (simp_all add: fits_def)

lemma grants_loop_bytes:
  "\<forall>g\<in>set gs. fits (fst g) \<Longrightarrow>
   grants_loop (length gs) grants (concat (map grant_bytes gs) @ t) =
     Inr (grants\<lparr>exceptions := foldl (\<lambda>m (k, v). omap_emplace k v m) (exceptions grants) gs\<rparr>, t)"
  by (induction gs arbitrary: grants) (simp_all add: grant_bytes_def case_prod_unfold)

lemma decode_grants_bytes [simp]:
  assumes "grants_ok grants"
  shows "decodeBucketGrants (grants_bytes grants @ t) = Inr (grants, t)"
proof -
  note ok = assms [unfolded grants_ok_def]
  have n: "unat (of_nat (length (exceptions grants)) :: u64) = length (exceptions grants)"
    by (rule small_count [of _ 1000000]) (use ok in simp_all)
  have "\<not> (of_nat (length (exceptions grants)) :: u64) > 1000000"
    unfolding word_less_nat_alt n using ok by simp
  moreover have "foldl (\<lambda>m (k, v). omap_emplace k v m) [] (exceptions grants) = exceptions grants"
    using ok foldl_omap_emplace [of "[]" "exceptions grants"] by simp
  ultimately show ?thesis
    using ok
    by (simp add: decodeBucketGrants_def grants_bytes_def counted_def n grants_loop_bytes
        default_BucketGrants_def del: unat_of_nat)
qed

interpretation bucket_grants: field_codec grants_bytes decodeBucketGrants grants_ok
  by unfold_locales (rule decode_grants_bytes)

lemmas record_group_eqs = encodeContentHeaders_eq encodeCorsRules_eq encodeBucketGrants_eq

lemma not_exhausted_groups [simp]:
  "\<not> exhausted (content_bytes h @ t)" "\<not> exhausted (cors_bytes rules @ t)"
  "\<not> exhausted (grants_bytes g @ t)" "\<not> exhausted (content_bytes h)"
  "\<not> exhausted (grants_bytes g)"
  by (simp_all add: exhausted_def content_bytes_def cors_bytes_def grants_bytes_def counted_def
      string_bytes_def)

end
