(* ===== verification/Store_Records.thy ===== *)
theory Store_Records
  imports Records
begin

text \<open>
  The record serialisation of storage/rocksdb_metadata_store.cpp: one encoder and one
  decoder per record type, the version byte in front and the fields appended by later
  releases behind, each read only when the record is long enough to hold it.

  The lemmas \<open>decodeX_encodeX\<close> are the round trips, each with arbitrary bytes behind the
  record: a field a newer build appended is ignored. The lemmas \<open>X_before_...\<close> read records
  an older build wrote.
\<close>

section \<open>Fields shared by several records\<close>

definition kRecordVersion :: u8 where
  "kRecordVersion = 1"

definition encodeMetadata :: "buffer \<Rightarrow> UserMetadata \<Rightarrow> buffer" where
  "encodeMetadata writer metadata =
     foldl (\<lambda>out (name, v). writer_string (writer_string out name) v)
       (writer_varint writer (of_nat (length metadata))) metadata"

fun metadata_loop :: "nat \<Rightarrow> UserMetadata \<Rightarrow> reader \<Rightarrow> exn + UserMetadata \<times> reader" where
  "metadata_loop 0 metadata r = Inr (metadata, r)"
| "metadata_loop (Suc n) metadata r =
     rbind (reader_string r) (\<lambda>name r. rbind (reader_string r) (\<lambda>v r.
       metadata_loop n (omap_emplace name v metadata) r))"

definition decodeMetadata :: "reader \<Rightarrow> exn + UserMetadata \<times> reader" where
  "decodeMetadata r = rbind (reader_varint r) (\<lambda>count r. metadata_loop (unat count) [] r)"

definition expectVersion :: "reader \<Rightarrow> exn + unit \<times> reader" where
  "expectVersion r =
     rbind (reader_u8 r) (\<lambda>version r.
       if version \<noteq> kRecordVersion then Inl (StorageError Corruption) else Inr ((), r))"

definition encodeChecksum :: "buffer \<Rightarrow> Checksum \<Rightarrow> buffer" where
  "encodeChecksum writer checksum =
     (case c_algorithm checksum of
        None \<Rightarrow> writer_u8 writer 0
      | Some algorithm \<Rightarrow>
          writer_varint
            (writer_string (writer_u8 writer (ChecksumAlgorithm_ordinal algorithm + 1))
              (c_value checksum))
            (ucast (c_parts checksum)))"

definition decodeChecksum :: "reader \<Rightarrow> exn + Checksum \<times> reader" where
  "decodeChecksum r =
     rbind (reader_u8 r) (\<lambda>tag r.
       if tag = 0 then Inr (no_checksum, r)
       else if tag > ChecksumAlgorithm_ordinal Sha256 + 1 then Inl (DecodeError UnknownChecksum)
       else rbind (reader_string r) (\<lambda>v r. rbind (reader_varint r) (\<lambda>parts r.
         Inr (\<lparr>c_algorithm = Some (ChecksumAlgorithm_of_ordinal (tag - 1)), c_value = v,
               c_parts = ucast parts\<rparr>, r))))"

text \<open>\<open>if (!reader.exhausted()) field = decode(reader)\<close>: the default stays otherwise.\<close>

definition appended :: "'a \<Rightarrow> (reader \<Rightarrow> exn + 'a \<times> reader) \<Rightarrow> reader \<Rightarrow> exn + 'a \<times> reader" where
  "appended absent decode r = (if exhausted r then Inr (absent, r) else decode r)"

section \<open>Buckets\<close>

definition encodeBucket :: "BucketRecord \<Rightarrow> string" where
  "encodeBucket bucket =
     (let w = writer_u8 [] kRecordVersion;
          w = writer_varint w (b_createdAt bucket);
          w = writer_boolean w (b_publicRead bucket);
          w = writer_string w (b_policy bucket);
          w = encodeCorsRules w (b_cors bucket);
          w = writer_boolean w (b_durability bucket \<noteq> None);
          w = writer_u8 w (case b_durability bucket of
                Some d \<Rightarrow> Durability_ordinal d | None \<Rightarrow> Durability_ordinal Relaxed);
          w = writer_varint w (b_quotaBytes bucket)
      in writer_boolean w (b_publicList bucket))"

definition decode_durability :: "reader \<Rightarrow> exn + Durability option \<times> reader" where
  "decode_durability r =
     rbind (reader_boolean r) (\<lambda>overridden r. rbind (reader_u8 r) (\<lambda>level r.
       if overridden
       then if level > Durability_ordinal Strict then Inl (StorageError Corruption)
            else Inr (Some (Durability_of_ordinal level), r)
       else Inr (None, r)))"

definition decodeBucket :: "string \<Rightarrow> string \<Rightarrow> exn + BucketRecord" where
  "decodeBucket name stored =
     rbind (expectVersion stored) (\<lambda>_ r.
     rbind (reader_varint r) (\<lambda>createdAt r.
     rbind (reader_boolean r) (\<lambda>publicRead r.
     rbind (reader_string r) (\<lambda>policy r.
     rbind (appended [] decodeCorsRules r) (\<lambda>cors r.
       let bucket = \<lparr>b_name = name, b_createdAt = createdAt, b_publicRead = publicRead,
             b_publicList = False, b_policy = policy, b_cors = cors, b_quotaBytes = 0,
             b_durability = None\<rparr>
       in if exhausted r then Inr bucket
          else
            rbind (decode_durability r) (\<lambda>durability r.
            rbind (appended 0 reader_varint r) (\<lambda>quotaBytes r.
            rbind (appended False reader_boolean r) (\<lambda>publicList r.
              Inr (bucket\<lparr>b_durability := durability, b_quotaBytes := quotaBytes,
                b_publicList := publicList\<rparr>)))))))))"

section \<open>Accounts, keys, settings and the audit log\<close>

definition encodeAdmin :: "AdminRecord \<Rightarrow> string" where
  "encodeAdmin admin =
     (let w = writer_u8 [] kRecordVersion;
          w = writer_string w (ad_username admin);
          w = writer_string w (ad_passwordHash admin);
          w = writer_varint w (ad_createdAt admin)
      in writer_varint w (ad_updatedAt admin))"

definition decodeAdmin :: "string \<Rightarrow> exn + AdminRecord" where
  "decodeAdmin stored =
     rbind (expectVersion stored) (\<lambda>_ r.
     rbind (reader_string r) (\<lambda>username r.
     rbind (reader_string r) (\<lambda>passwordHash r.
     rbind (reader_varint r) (\<lambda>createdAt r.
     rbind (reader_varint r) (\<lambda>updatedAt r.
       Inr \<lparr>ad_username = username, ad_passwordHash = passwordHash, ad_createdAt = createdAt,
            ad_updatedAt = updatedAt\<rparr>)))))"

record InstanceSettings =
  maxUploadBytes :: u64

definition encodeSettings :: "InstanceSettings \<Rightarrow> string" where
  "encodeSettings settings = writer_varint (writer_u8 [] kRecordVersion) (maxUploadBytes settings)"

definition decodeSettings :: "string \<Rightarrow> exn + InstanceSettings" where
  "decodeSettings stored =
     rbind (expectVersion stored) (\<lambda>_ r.
     rbind (appended 0 reader_varint r) (\<lambda>n r. Inr \<lparr>maxUploadBytes = n\<rparr>))"

definition encodeAccessKey :: "AccessKeyRecord \<Rightarrow> string" where
  "encodeAccessKey key =
     (let w = writer_u8 [] kRecordVersion;
          w = writer_string w (k_secretKey key);
          w = writer_string w (k_name key);
          w = writer_varint w (k_createdAt key);
          w = writer_varint w (k_rotatedAt key)
      in writer_string w (k_owner key))"

definition decodeAccessKey :: "string \<Rightarrow> string \<Rightarrow> exn + AccessKeyRecord" where
  "decodeAccessKey accessKeyId stored =
     rbind (expectVersion stored) (\<lambda>_ r.
     rbind (reader_string r) (\<lambda>secretKey r.
     rbind (reader_string r) (\<lambda>name r.
     rbind (reader_varint r) (\<lambda>createdAt r.
     rbind (reader_varint r) (\<lambda>rotatedAt r.
     rbind (appended [] reader_string r) (\<lambda>owner r.
       Inr \<lparr>k_accessKeyId = accessKeyId, k_secretKey = secretKey, k_name = name, k_owner = owner,
            k_createdAt = createdAt, k_rotatedAt = rotatedAt\<rparr>))))))"

definition encodeUser :: "UserRecord \<Rightarrow> string" where
  "encodeUser user =
     (let w = writer_u8 [] kRecordVersion;
          w = writer_string w (u_passwordHash user);
          w = writer_string w (Role_toString (u_role user));
          w = writer_boolean w (u_disabled user);
          w = writer_varint w (u_createdAt user);
          w = writer_varint w (u_updatedAt user);
          w = writer_varint w (u_passwordChangedAt user)
      in encodeBucketGrants w (u_buckets user))"

definition decodeUser :: "string \<Rightarrow> string \<Rightarrow> exn + UserRecord" where
  "decodeUser username stored =
     rbind (expectVersion stored) (\<lambda>_ r.
     rbind (reader_string r) (\<lambda>passwordHash r.
     rbind (reader_string r) (\<lambda>role r.
       case parseRole role of
         None \<Rightarrow> Inl (StorageError Corruption)
       | Some parsed \<Rightarrow>
           rbind (reader_boolean r) (\<lambda>disabled r.
           rbind (reader_varint r) (\<lambda>createdAt r.
           rbind (reader_varint r) (\<lambda>updatedAt r.
           rbind (reader_varint r) (\<lambda>passwordChangedAt r.
           rbind (appended default_BucketGrants decodeBucketGrants r) (\<lambda>buckets r.
             Inr \<lparr>u_username = username, u_passwordHash = passwordHash, u_role = parsed,
                  u_disabled = disabled, u_createdAt = createdAt, u_updatedAt = updatedAt,
                  u_passwordChangedAt = passwordChangedAt, u_buckets = buckets\<rparr>))))))))"

definition encodeAudit :: "AuditRecord \<Rightarrow> string" where
  "encodeAudit entry =
     (let w = writer_u8 [] kRecordVersion;
          w = writer_varint w (a_atMs entry);
          w = writer_string w (a_actor entry);
          w = writer_string w (a_action entry);
          w = writer_string w (a_target entry);
          w = writer_boolean w (a_allowed entry)
      in writer_string w (a_detail entry))"

definition decodeAudit :: "u64 \<Rightarrow> string \<Rightarrow> exn + AuditRecord" where
  "decodeAudit sequence stored =
     rbind (expectVersion stored) (\<lambda>_ r.
     rbind (reader_varint r) (\<lambda>atMs r.
     rbind (reader_string r) (\<lambda>actor r.
     rbind (reader_string r) (\<lambda>action r.
     rbind (reader_string r) (\<lambda>target r.
     rbind (reader_boolean r) (\<lambda>allowed r.
     rbind (reader_string r) (\<lambda>detail r.
       Inr \<lparr>a_sequence = sequence, a_atMs = atMs, a_actor = actor, a_action = action,
            a_target = target, a_allowed = allowed, a_detail = detail\<rparr>)))))))"

section \<open>Objects, uploads and parts\<close>

definition encodeObject :: "ObjectRecord \<Rightarrow> string" where
  "encodeObject object =
     (let w = writer_u8 [] kRecordVersion;
          w = writer_string w (o_blobId object);
          w = writer_varint w (o_size object);
          w = writer_string w (o_etag object);
          w = writer_string w (o_sha256 object);
          w = writer_string w (o_contentType object);
          w = writer_varint w (o_lastModified object);
          w = encodeMetadata w (o_userMetadata object);
          w = encodeChecksum w (o_checksum object)
      in encodeContentHeaders w (o_content object))"

definition decodeObject :: "string \<Rightarrow> string \<Rightarrow> exn + ObjectRecord" where
  "decodeObject key stored =
     rbind (expectVersion stored) (\<lambda>_ r.
     rbind (reader_string r) (\<lambda>blobId r.
     rbind (reader_varint r) (\<lambda>size r.
     rbind (reader_string r) (\<lambda>etag r.
     rbind (reader_string r) (\<lambda>sha256 r.
     rbind (reader_string r) (\<lambda>contentType r.
     rbind (reader_varint r) (\<lambda>lastModified r.
     rbind (decodeMetadata r) (\<lambda>userMetadata r.
     rbind (appended no_checksum decodeChecksum r) (\<lambda>checksum r.
     rbind (appended no_ContentHeaders decodeContentHeaders r) (\<lambda>content r.
       Inr \<lparr>o_key = key, o_blobId = blobId, o_size = size, o_etag = etag, o_sha256 = sha256,
            o_contentType = contentType, o_lastModified = lastModified,
            o_userMetadata = userMetadata, o_content = content, o_checksum = checksum\<rparr>))))))))))"

definition encodeUpload :: "UploadRecord \<Rightarrow> string" where
  "encodeUpload upload =
     (let w = writer_u8 [] kRecordVersion;
          w = writer_string w (up_bucket upload);
          w = writer_string w (up_key upload);
          w = writer_string w (up_contentType upload);
          w = writer_varint w (up_createdAt upload);
          w = encodeMetadata w (up_userMetadata upload);
          w = encodeChecksum w
            \<lparr>c_algorithm = up_checksumAlgorithm upload, c_value = [], c_parts = 0\<rparr>
      in encodeContentHeaders w (up_content upload))"

definition decodeUpload :: "string \<Rightarrow> string \<Rightarrow> exn + UploadRecord" where
  "decodeUpload uploadId stored =
     rbind (expectVersion stored) (\<lambda>_ r.
     rbind (reader_string r) (\<lambda>bucket r.
     rbind (reader_string r) (\<lambda>key r.
     rbind (reader_string r) (\<lambda>contentType r.
     rbind (reader_varint r) (\<lambda>createdAt r.
     rbind (decodeMetadata r) (\<lambda>userMetadata r.
     rbind (appended no_checksum decodeChecksum r) (\<lambda>checksum r.
     rbind (appended no_ContentHeaders decodeContentHeaders r) (\<lambda>content r.
       Inr \<lparr>up_uploadId = uploadId, up_bucket = bucket, up_key = key,
            up_contentType = contentType, up_createdAt = createdAt,
            up_userMetadata = userMetadata, up_content = content,
            up_checksumAlgorithm = c_algorithm checksum\<rparr>))))))))"

definition encodePart :: "PartRecord \<Rightarrow> string" where
  "encodePart part =
     (let w = writer_u8 [] kRecordVersion;
          w = writer_string w (p_blobId part);
          w = writer_varint w (p_size part);
          w = writer_string w (p_etag part);
          w = writer_varint w (p_uploadedAt part)
      in encodeChecksum w (p_checksum part))"

definition decodePart :: "u32 \<Rightarrow> string \<Rightarrow> exn + PartRecord" where
  "decodePart n stored =
     rbind (expectVersion stored) (\<lambda>_ r.
     rbind (reader_string r) (\<lambda>blobId r.
     rbind (reader_varint r) (\<lambda>size r.
     rbind (reader_string r) (\<lambda>etag r.
     rbind (reader_varint r) (\<lambda>uploadedAt r.
     rbind (appended no_checksum decodeChecksum r) (\<lambda>checksum r.
       Inr \<lparr>p_partNumber = n, p_blobId = blobId, p_size = size, p_etag = etag,
            p_uploadedAt = uploadedAt, p_checksum = checksum\<rparr>))))))"

section \<open>Reclamation markers\<close>

definition orphanValue :: "TimestampMs \<Rightarrow> string" where
  "orphanValue now = writer_varint (writer_u8 [] kRecordVersion) now"

definition decodeOrphanQueuedAt :: "string \<Rightarrow> TimestampMs" where
  "decodeOrphanQueuedAt stored =
     (case rbind (expectVersion stored) (\<lambda>_ r. rbind (reader_varint r) (\<lambda>t _. Inr t)) of
        Inl _ \<Rightarrow> 0
      | Inr t \<Rightarrow> t)"

section \<open>Round trips\<close>

definition metadata_ok :: "UserMetadata \<Rightarrow> bool" where
  "metadata_ok m \<longleftrightarrow> omap_ok m \<and> fits m \<and> (\<forall>(name, v)\<in>set m. fits name \<and> fits v)"

definition metadata_bytes :: "UserMetadata \<Rightarrow> string" where
  "metadata_bytes m = counted (\<lambda>x. string_bytes (fst x) @ string_bytes (snd x)) m"

lemma encodeMetadata_eq: "encodeMetadata out m = out @ metadata_bytes m"
  by (simp add: encodeMetadata_def metadata_bytes_def counted_def writer_appends case_prod_unfold
      foldl_append_map)

lemma metadata_loop_bytes:
  "\<forall>(name, v)\<in>set ms. fits name \<and> fits v \<Longrightarrow>
   metadata_loop (length ms) m (concat (map (\<lambda>x. string_bytes (fst x) @ string_bytes (snd x)) ms) @ t) =
     Inr (foldl (\<lambda>m (k, v). omap_emplace k v m) m ms, t)"
  by (induction ms arbitrary: m) (simp_all add: case_prod_unfold)

lemma decode_metadata_bytes [simp]:
  "metadata_ok m \<Longrightarrow> decodeMetadata (metadata_bytes m @ t) = Inr (m, t)"
  using foldl_omap_emplace [of "[]" m]
  by (simp add: decodeMetadata_def metadata_bytes_def counted_def metadata_ok_def
      unat_of_nat_fits metadata_loop_bytes del: unat_of_nat)

interpretation metadata_field: field_codec metadata_bytes decodeMetadata metadata_ok
  by unfold_locales (rule decode_metadata_bytes)

text \<open>A checksum without an algorithm is one zero byte; its other fields are not stored.\<close>

definition checksum_ok :: "Checksum \<Rightarrow> bool" where
  "checksum_ok c \<longleftrightarrow> (case c_algorithm c of None \<Rightarrow> c = no_checksum | Some _ \<Rightarrow> fits (c_value c))"

definition checksum_bytes :: "Checksum \<Rightarrow> string" where
  "checksum_bytes c =
     (case c_algorithm c of
        None \<Rightarrow> [byte_of (0 :: u8)]
      | Some a \<Rightarrow> byte_of (ChecksumAlgorithm_ordinal a + 1) # string_bytes (c_value c) @
          varint_bytes (ucast (c_parts c)))"

lemma encodeChecksum_eq: "encodeChecksum out c = out @ checksum_bytes c"
  by (simp add: encodeChecksum_def checksum_bytes_def writer_appends split: option.splits)

lemma tag_range:
  "ChecksumAlgorithm_ordinal a + 1 \<noteq> 0" "\<not> ChecksumAlgorithm_ordinal a + 1 > (5 :: u8)"
  by (cases a; simp)+

lemma ucast_ucast_32: "ucast (ucast (w :: u32) :: u64) = w"
  by (rule bit_word_eqI) (simp add: bit_simps)

lemma decode_checksum_bytes [simp]:
  assumes "checksum_ok c"
  shows "decodeChecksum (checksum_bytes c @ t) = Inr (c, t)"
proof (cases "c_algorithm c")
  case None
  with assms show ?thesis
    by (simp add: checksum_ok_def checksum_bytes_def decodeChecksum_def)
next
  case (Some a)
  with assms show ?thesis
    by (cases c) (simp add: checksum_ok_def checksum_bytes_def decodeChecksum_def tag_range
        ucast_ucast_32)
qed

interpretation checksum_field: field_codec checksum_bytes decodeChecksum checksum_ok
  by unfold_locales (rule decode_checksum_bytes)

text \<open>Reading what is there, and the default when nothing is.\<close>

lemma appended_present [simp]: "\<not> exhausted r \<Longrightarrow> appended d f r = f r"
  by (simp add: appended_def)

lemma appended_absent [simp]: "appended d f [] = Inr (d, [])"
  by (simp add: appended_def)

lemma not_exhausted_record_fields [simp]:
  "\<not> exhausted (checksum_bytes c @ t)" "\<not> exhausted (metadata_bytes m @ t)"
  "\<not> exhausted (checksum_bytes c)"
  by (simp_all add: exhausted_def checksum_bytes_def metadata_bytes_def counted_def
      split: option.splits)

definition version_byte :: char where
  "version_byte = byte_of kRecordVersion"

lemma expectVersion_version_byte [simp]: "expectVersion (version_byte # t) = Inr ((), t)"
  by (simp add: expectVersion_def version_byte_def)

lemma expectVersion_other:
  "version \<noteq> kRecordVersion \<Longrightarrow>
   expectVersion (byte_of version # t) = Inl (StorageError Corruption)"
  by (simp add: expectVersion_def)

lemma writer_version: "writer_u8 [] kRecordVersion = [version_byte]"
  by (simp add: writer_u8_def version_byte_def)

lemma writer_u8_Cons: "writer_u8 (c # w) v = c # w @ [byte_of v]"
  by (simp add: writer_u8_def)

lemma fits_names [simp]: "fits (Role_toString r)" "fits []"
  by (cases r) (simp_all add: fits_def)

lemmas record_appends = writer_version writer_varint_eq writer_string_eq writer_boolean_eq
  record_group_eqs encodeMetadata_eq encodeChecksum_eq

definition bucket_ok :: "BucketRecord \<Rightarrow> bool" where
  "bucket_ok b \<longleftrightarrow> fits (b_policy b) \<and> cors_ok (b_cors b)"

lemma decode_durability_bytes [simp]:
  "decode_durability (bool_byte (d \<noteq> None) #
     byte_of (case d of Some l \<Rightarrow> Durability_ordinal l | None \<Rightarrow> Durability_ordinal Relaxed) # t) =
   Inr (d, t)"
  by (cases d) (simp_all add: decode_durability_def not_less)

lemma decodeBucket_encodeBucket:
  "bucket_ok b \<Longrightarrow> decodeBucket (b_name b) (encodeBucket b @ newer) = Inr b"
  by (cases b) (simp add: encodeBucket_def decodeBucket_def Let_def record_appends bucket_ok_def
      writer_u8_Cons del: not_None_eq)

lemma decodeAdmin_encodeAdmin:
  "fits (ad_username a) \<Longrightarrow> fits (ad_passwordHash a) \<Longrightarrow>
   decodeAdmin (encodeAdmin a @ newer) = Inr a"
  by (cases a) (simp add: encodeAdmin_def decodeAdmin_def Let_def record_appends)

lemma decodeSettings_encodeSettings: "decodeSettings (encodeSettings s @ newer) = Inr s"
  by (cases s) (simp add: encodeSettings_def decodeSettings_def record_appends)

definition access_key_ok :: "AccessKeyRecord \<Rightarrow> bool" where
  "access_key_ok k \<longleftrightarrow> fits (k_secretKey k) \<and> fits (k_name k) \<and> fits (k_owner k)"

lemma decodeAccessKey_encodeAccessKey:
  "access_key_ok k \<Longrightarrow> decodeAccessKey (k_accessKeyId k) (encodeAccessKey k @ newer) = Inr k"
  by (cases k) (simp add: encodeAccessKey_def decodeAccessKey_def Let_def record_appends
      access_key_ok_def)

definition user_ok :: "UserRecord \<Rightarrow> bool" where
  "user_ok u \<longleftrightarrow> fits (u_passwordHash u) \<and> grants_ok (u_buckets u)"

lemma decodeUser_encodeUser:
  "user_ok u \<Longrightarrow> decodeUser (u_username u) (encodeUser u @ newer) = Inr u"
  by (cases u) (simp add: encodeUser_def decodeUser_def Let_def record_appends user_ok_def)

definition audit_ok :: "AuditRecord \<Rightarrow> bool" where
  "audit_ok a \<longleftrightarrow> fits (a_actor a) \<and> fits (a_action a) \<and> fits (a_target a) \<and> fits (a_detail a)"

lemma decodeAudit_encodeAudit:
  "audit_ok a \<Longrightarrow> decodeAudit n (encodeAudit a @ newer) = Inr (a\<lparr>a_sequence := n\<rparr>)"
  by (cases a) (simp add: encodeAudit_def decodeAudit_def Let_def record_appends audit_ok_def)

definition object_ok :: "ObjectRecord \<Rightarrow> bool" where
  "object_ok r \<longleftrightarrow> fits (o_blobId r) \<and> fits (o_etag r) \<and> fits (o_sha256 r) \<and> fits (o_contentType r) \<and>
     metadata_ok (o_userMetadata r) \<and> checksum_ok (o_checksum r) \<and> content_ok (o_content r)"

lemma decodeObject_encodeObject:
  "object_ok r \<Longrightarrow> decodeObject (o_key r) (encodeObject r @ newer) = Inr r"
  by (cases r) (simp add: encodeObject_def decodeObject_def Let_def record_appends object_ok_def)

definition upload_ok :: "UploadRecord \<Rightarrow> bool" where
  "upload_ok u \<longleftrightarrow> fits (up_bucket u) \<and> fits (up_key u) \<and> fits (up_contentType u) \<and>
     metadata_ok (up_userMetadata u) \<and> content_ok (up_content u)"

lemma upload_checksum_ok:
  "checksum_ok \<lparr>c_algorithm = a, c_value = [], c_parts = 0\<rparr>"
  by (simp add: checksum_ok_def no_checksum_def split: option.splits)

lemma decodeUpload_encodeUpload:
  "upload_ok u \<Longrightarrow> decodeUpload (up_uploadId u) (encodeUpload u @ newer) = Inr u"
  by (cases u) (simp add: encodeUpload_def decodeUpload_def Let_def record_appends upload_ok_def
      upload_checksum_ok)

definition part_ok :: "PartRecord \<Rightarrow> bool" where
  "part_ok p \<longleftrightarrow> fits (p_blobId p) \<and> fits (p_etag p) \<and> checksum_ok (p_checksum p)"

lemma decodePart_encodePart:
  "part_ok p \<Longrightarrow> decodePart (p_partNumber p) (encodePart p @ newer) = Inr p"
  by (cases p) (simp add: encodePart_def decodePart_def Let_def record_appends part_ok_def)

lemma decodeOrphanQueuedAt_orphanValue [simp]: "decodeOrphanQueuedAt (orphanValue t) = t"
  using reader_varint_bytes [of t "[]"]
  by (simp add: orphanValue_def decodeOrphanQueuedAt_def record_appends)

end
