(* ===== verification/Keyspace.thy ===== *)
theory Keyspace
  imports Prelude
begin

text \<open>
  The key encoding of storage/keyspace.hpp and storage/keyspace.cpp. Every record lives in
  one ordered keyspace; a one-byte tag separates the record types and NUL separates the
  components. The lemmas say that the encodings can be taken apart again, that a scan
  bounded by \<open>upperBound\<close> sees exactly the keys under its prefix, and that iteration order
  is the order of the encoded number.

  The locale \<open>ordered_field\<close> is the contract of a fixed-width number inside a key; its
  instances are the big-endian 32-bit part number and the big-endian 64-bit audit sequence.
\<close>

section \<open>Tags and encoders\<close>

definition kSeparator :: char where "kSeparator = NUL"
definition kBucket :: char where "kBucket = CHR ''b''"
definition kObject :: char where "kObject = CHR ''o''"
definition kUploadByKey :: char where "kUploadByKey = CHR ''u''"
definition kUploadById :: char where "kUploadById = CHR ''U''"
definition kPart :: char where "kPart = CHR ''p''"
definition kOrphan :: char where "kOrphan = CHR ''x''"
definition kMeta :: char where "kMeta = CHR ''m''"
definition kAccessKey :: char where "kAccessKey = CHR ''k''"
definition kUser :: char where "kUser = CHR ''a''"
definition kAudit :: char where "kAudit = CHR ''A''"

lemmas tag_defs = kBucket_def kObject_def kUploadByKey_def kUploadById_def kPart_def kOrphan_def
  kMeta_def kAccessKey_def kUser_def kAudit_def

definition tagged :: "char \<Rightarrow> string \<Rightarrow> string" where
  "tagged tag rest = tag # rest"

definition appendBigEndian32 :: "string \<Rightarrow> u32 \<Rightarrow> string" where
  "appendBigEndian32 out value = out @
     [byte_of (drop_bit 24 value AND 0xFF), byte_of (drop_bit 16 value AND 0xFF),
      byte_of (drop_bit 8 value AND 0xFF), byte_of (value AND 0xFF)]"

text \<open>The loop \<open>for (int shift = 56; shift >= 0; shift -= 8)\<close>.\<close>

definition appendBigEndian64 :: "string \<Rightarrow> u64 \<Rightarrow> string" where
  "appendBigEndian64 out value =
     foldl (\<lambda>out shift. out @ [byte_of (drop_bit shift value AND 0xFF)]) out
       [56, 48, 40, 32, 24, 16, 8, 0]"

definition bucket_key :: "string \<Rightarrow> string" where
  "bucket_key name = tagged kBucket name"

definition bucketPrefix :: string where
  "bucketPrefix = [kBucket]"

definition objectPrefix :: "string \<Rightarrow> string" where
  "objectPrefix bucketName = kObject # bucketName @ [kSeparator]"

definition object_key :: "string \<Rightarrow> string \<Rightarrow> string" where
  "object_key bucketName key = objectPrefix bucketName @ key"

definition uploadByKeyPrefix :: "string \<Rightarrow> string" where
  "uploadByKeyPrefix bucketName = kUploadByKey # bucketName @ [kSeparator]"

definition uploadByKey :: "string \<Rightarrow> string \<Rightarrow> string \<Rightarrow> string" where
  "uploadByKey bucketName key uploadId = uploadByKeyPrefix bucketName @ key @ [kSeparator] @ uploadId"

definition uploadById :: "string \<Rightarrow> string" where
  "uploadById uploadId = tagged kUploadById uploadId"

definition partPrefix :: "string \<Rightarrow> string" where
  "partPrefix uploadId = kPart # uploadId @ [kSeparator]"

definition part_key :: "string \<Rightarrow> u32 \<Rightarrow> string" where
  "part_key uploadId partNo = appendBigEndian32 (partPrefix uploadId) partNo"

definition orphan_key :: "string \<Rightarrow> string" where
  "orphan_key blobId = tagged kOrphan blobId"

definition orphanPrefix :: string where
  "orphanPrefix = [kOrphan]"

definition user_key :: "string \<Rightarrow> string" where
  "user_key username = tagged kUser username"

definition userPrefix :: string where
  "userPrefix = [kUser]"

definition audit_key :: "u64 \<Rightarrow> string" where
  "audit_key sequence = appendBigEndian64 [kAudit] sequence"

definition auditPrefix :: string where
  "auditPrefix = [kAudit]"

definition meta_key :: "string \<Rightarrow> string" where
  "meta_key name = tagged kMeta name"

definition accessKey_key :: "string \<Rightarrow> string" where
  "accessKey_key accessKeyId = tagged kAccessKey accessKeyId"

definition accessKeyPrefix :: string where
  "accessKeyPrefix = [kAccessKey]"

section \<open>Decoders\<close>

text \<open>The loop of \<open>auditSequence\<close> over the eight bytes behind the tag.\<close>

definition bigEndian64 :: "string \<Rightarrow> u64 option" where
  "bigEndian64 rest =
     (if length rest \<noteq> 8 then None
      else Some (foldl (\<lambda>value c. push_bit 8 value OR byte_val c) 0 rest))"

definition auditSequence :: "string \<Rightarrow> u64 option" where
  "auditSequence stored =
     (if length stored \<noteq> 9 \<or> hd stored \<noteq> kAudit then None
      else bigEndian64 (tl stored))"

text \<open>The four shifts of \<open>partNumber\<close>.\<close>

definition bigEndian32 :: "string \<Rightarrow> u32 option" where
  "bigEndian32 encoded =
     (if length encoded \<noteq> 4 then None
      else Some (push_bit 24 (byte_val (encoded ! 0)) OR push_bit 16 (byte_val (encoded ! 1)) OR
                 push_bit 8 (byte_val (encoded ! 2)) OR byte_val (encoded ! 3)))"

text \<open>
  \<open>upperBound\<close> increments the last byte that is not \<open>0xFF\<close> and drops what follows it.
\<close>

function upperBound :: "string \<Rightarrow> string option" where
  "upperBound out =
     (if out = [] then None
      else if uchar (last out) \<noteq> 0xFF
      then Some (butlast out @ [char_of (uchar (last out) + 1)])
      else upperBound (butlast out))"
  by pat_completeness auto
termination
  by (relation "measure length") auto

declare upperBound.simps [simp del]

definition objectKey :: "string \<Rightarrow> string \<Rightarrow> string option" where
  "objectKey stored bucketName =
     (let pre = objectPrefix bucketName in
      if \<not> prefix pre stored then None else Some (drop (length pre) stored))"

text \<open>\<open>string_view::rfind\<close> of one character.\<close>

fun rfind_char :: "char \<Rightarrow> string \<Rightarrow> nat option" where
  "rfind_char c [] = None"
| "rfind_char c (x # xs) =
     (case rfind_char c xs of
        Some i \<Rightarrow> Some (Suc i)
      | None \<Rightarrow> if x = c then Some 0 else None)"

definition uploadKeyParts :: "string \<Rightarrow> string \<Rightarrow> (string \<times> string) option" where
  "uploadKeyParts stored bucketName =
     (let pre = uploadByKeyPrefix bucketName in
      if \<not> prefix pre stored then None
      else let rest = drop (length pre) stored in
        case rfind_char kSeparator rest of
          None \<Rightarrow> None
        | Some split \<Rightarrow> Some (take split rest, drop (split + 1) rest))"

definition partNumber :: "string \<Rightarrow> string \<Rightarrow> u32 option" where
  "partNumber stored uploadId =
     (let pre = partPrefix uploadId in
      if \<not> prefix pre stored then None
      else bigEndian32 (drop (length pre) stored))"

section \<open>Big-endian numbers\<close>

text \<open>The reference encoding: \<open>n\<close> base-256 digits, the most significant first.\<close>

fun be_bytes :: "nat \<Rightarrow> nat \<Rightarrow> string" where
  "be_bytes 0 x = []"
| "be_bytes (Suc n) x = char_of (x div 256 ^ n) # be_bytes n x"

definition be_value :: "string \<Rightarrow> nat" where
  "be_value bs = foldl (\<lambda>a c. a * 256 + uchar c) 0 bs"

lemma length_be_bytes [simp]: "length (be_bytes n x) = n"
  by (induction n) simp_all

lemma be_bytes_mod: "n \<le> m \<Longrightarrow> be_bytes n (x mod 256 ^ m) = be_bytes n x"
proof (induction n)
  case (Suc n)
  have "x mod 256 ^ m div 256 ^ n mod 256 = x div 256 ^ n mod (256::nat)"
  proof -
    have "(256::nat) ^ m = 256 ^ n * 256 * 256 ^ (m - Suc n)"
      using Suc.prems by (metis le_add_diff_inverse power_Suc2 power_add)
    then have "x mod 256 ^ m = x mod (256 ^ n * (256 * 256 ^ (m - Suc n)))"
      by (simp add: mult.assoc)
    also have "\<dots> = 256 ^ n * (x div 256 ^ n mod (256 * 256 ^ (m - Suc n))) + x mod 256 ^ n"
      by (rule mod_mult2_eq)
    finally have "x mod 256 ^ m div 256 ^ n = x div 256 ^ n mod (256 * 256 ^ (m - Suc n))"
      by simp
    then show ?thesis by (simp add: mod_mod_cancel)
  qed
  then have "(char_of (x mod 256 ^ m div 256 ^ n) :: char) = char_of (x div 256 ^ n)"
    by (metis char_of_mod_256)
  with Suc show ?case by simp
qed simp

lemma div_mod_less_iff:
  "x < y \<longleftrightarrow> x div p < y div p \<or> x div p = y div p \<and> x mod p < y mod (p::nat)"
proof (cases "x div p" "y div p" rule: linorder_cases)
  case less
  then show ?thesis by (meson div_le_mono leD leI)
next
  case equal
  have "x = p * (y div p) + x mod p" "y = p * (y div p) + y mod p"
    using equal mult_div_mod_eq [of p x] by simp_all
  with equal show ?thesis by (metis less_irrefl nat_add_left_cancel_less)
next
  case greater
  then show ?thesis using div_le_mono [of x y p] by auto
qed

lemma be_bytes_less:
  "x < 256 ^ n \<Longrightarrow> y < 256 ^ n \<Longrightarrow> be_bytes n x < be_bytes n y \<longleftrightarrow> x < y"
proof (induction n arbitrary: x y)
  case (Suc n)
  let ?p = "256 ^ n :: nat"
  have x: "x div ?p < 256" and y: "y div ?p < 256"
    using Suc.prems by (simp_all add: less_mult_imp_div_less mult.commute)
  have IH: "be_bytes n x < be_bytes n y \<longleftrightarrow> x mod ?p < y mod ?p"
    using Suc.IH [of "x mod ?p" "y mod ?p"] by (simp add: be_bytes_mod)
  have head: "(char_of (x div ?p) :: char) < char_of (y div ?p) \<longleftrightarrow> x div ?p < y div ?p"
    "(char_of (x div ?p) :: char) = char_of (y div ?p) \<longleftrightarrow> x div ?p = y div ?p"
    using x y by (simp_all flip: uchar_less uchar_inject)
  have "x < y \<longleftrightarrow> x div ?p < y div ?p \<or> x div ?p = y div ?p \<and> x mod ?p < y mod ?p"
    by (rule div_mod_less_iff)
  with IH head show ?case by simp
qed simp

lemma be_value_be_bytes_aux:
  "foldl (\<lambda>a c. a * 256 + uchar c) a (be_bytes n x) = a * 256 ^ n + x mod 256 ^ n"
proof (induction n arbitrary: a)
  case (Suc n)
  have "x mod 256 ^ Suc n = 256 ^ n * (x div 256 ^ n mod 256) + x mod 256 ^ n"
    using mod_mult2_eq [of x "256 ^ n" 256] by (simp add: mult.commute)
  with Suc show ?case by (simp add: algebra_simps)
qed simp

lemma be_value_be_bytes: "x < 256 ^ n \<Longrightarrow> be_value (be_bytes n x) = x"
  by (simp add: be_value_def be_value_be_bytes_aux)

text \<open>The encoders of the code write these digits.\<close>

lemma byte_of_shift:
  "byte_of (drop_bit k v AND 0xFF :: 'a::len word) = char_of (unat v div 2 ^ k)"
proof -
  have "uchar (byte_of (drop_bit k v AND 0xFF)) = uchar (char_of (unat v div 2 ^ k))"
    unfolding uchar_byte_of unat_and_0xFF unat_drop_bit_eq uchar_char_of
    by (simp add: drop_bit_eq_div [where 'a = nat])
  then show ?thesis by (simp only: uchar_inject)
qed

lemma byte_of_shift_0: "byte_of (v AND 0xFF :: 'a::len word) = char_of (unat v)"
  using byte_of_shift [of 0 v] by simp

lemma be_bytes_4:
  "be_bytes 4 x = [char_of (x div 2 ^ 24), char_of (x div 2 ^ 16), char_of (x div 2 ^ 8), char_of x]"
proof -
  have "(4::nat) = Suc (Suc (Suc (Suc 0)))" by simp
  then show ?thesis by (simp only: be_bytes.simps) simp
qed

lemma be_bytes_8:
  "be_bytes 8 x = [char_of (x div 2 ^ 56), char_of (x div 2 ^ 48), char_of (x div 2 ^ 40),
     char_of (x div 2 ^ 32), char_of (x div 2 ^ 24), char_of (x div 2 ^ 16), char_of (x div 2 ^ 8),
     char_of (x div 2 ^ 0)]"
proof -
  have "(8::nat) = Suc (Suc (Suc (Suc (Suc (Suc (Suc (Suc 0)))))))" by simp
  then show ?thesis by (simp only: be_bytes.simps) simp
qed

lemma appendBigEndian32_eq: "appendBigEndian32 out v = out @ be_bytes 4 (unat v)"
  by (simp only: appendBigEndian32_def byte_of_shift be_bytes_4) (simp only: byte_of_shift_0)

lemma appendBigEndian64_eq: "appendBigEndian64 out v = out @ be_bytes 8 (unat v)"
  by (simp only: appendBigEndian64_def foldl.simps byte_of_shift be_bytes_8 append_assoc append_Cons
      append_Nil)

text \<open>Shifting a byte in from the right is a base-256 digit.\<close>

lemma push_8_or_byte:
  fixes w :: "'a::len word"
  assumes "8 \<le> LENGTH('a)" "unat w * 256 + 255 < 2 ^ LENGTH('a)"
  shows "unat (push_bit 8 w OR byte_val c) = unat w * 256 + uchar c"
proof -
  have small: "take_bit 8 (byte_val c :: 'a word) = byte_val c"
    using assms(1) by (simp add: word_unat_eq_iff unsigned_take_bit_eq take_bit_nat_eq_self)
  have "push_bit 8 w AND byte_val c = 0"
    by (subst small [symmetric]) (rule bit_eqI, auto simp: bit_simps)
  then have "push_bit 8 w OR byte_val c = push_bit 8 w + byte_val c"
    by (simp add: disjunctive_add_eq_or)
  moreover have "unat (push_bit 8 w) = unat w * 256"
    unfolding unsigned_push_bit_eq using assms(2)
    by (simp add: push_bit_eq_mult [where 'a = nat] take_bit_nat_eq_self)
  moreover have "unat (byte_val c :: 'a word) = uchar c"
    using assms(1) by (rule unat_byte_val)
  ultimately show ?thesis
    using assms(2) uchar_le_255 [of c] by (simp add: unat_plus_if')
qed

lemma fold_push_8_value:
  fixes w :: "'a::len word"
  assumes "2 ^ LENGTH('a) = (256::nat) ^ n"
  shows "unat w < 256 ^ k \<Longrightarrow> k + length cs \<le> n \<Longrightarrow>
    unat (foldl (\<lambda>value c. push_bit 8 value OR byte_val c) w cs) =
      foldl (\<lambda>a c. a * 256 + uchar c) (unat w) cs"
proof (induction cs arbitrary: w k)
  case (Cons c cs)
  have len: "8 \<le> LENGTH('a)"
  proof (rule ccontr)
    assume "\<not> 8 \<le> LENGTH('a)"
    then have "(2::nat) ^ LENGTH('a) < 2 ^ 8"
      by (intro power_strict_increasing) auto
    moreover have "(256::nat) ^ 1 \<le> 256 ^ n"
      using Cons.prems(2) by (intro power_increasing) auto
    ultimately show False using assms by simp
  qed
  have small: "unat w * 256 + 255 < 256 ^ Suc k"
    using Cons.prems(1) by simp
  also have "(256::nat) ^ Suc k \<le> 256 ^ n"
    using Cons.prems(2) by (intro power_increasing) auto
  finally have v: "unat (push_bit 8 w OR byte_val c) = unat w * 256 + uchar c"
    using len by (intro push_8_or_byte) (simp_all add: assms)
  then have "unat (push_bit 8 w OR byte_val c) < 256 ^ Suc k"
    using small uchar_le_255 [of c] by linarith
  with Cons.IH [of "push_bit 8 w OR byte_val c" "Suc k"] Cons.prems(2) v show ?case
    by simp
qed simp

lemma be_value_fold_64:
  "length cs \<le> 8 \<Longrightarrow>
   unat (foldl (\<lambda>value c. push_bit 8 value OR byte_val c) (0::u64) cs) = be_value cs"
  using fold_push_8_value [of 8 "0::u64" 0 cs] by (simp add: be_value_def)

lemma be_value_fold_32:
  "length cs \<le> 4 \<Longrightarrow>
   unat (foldl (\<lambda>value c. push_bit 8 value OR byte_val c) (0::u32) cs) = be_value cs"
  using fold_push_8_value [of 4 "0::u32" 0 cs] by (simp add: be_value_def)

section \<open>Numbers inside keys\<close>

text \<open>
  A fixed-width field whose bytes order as its values do. Behind a common prefix such
  fields keep the order and can be read back.
\<close>

locale ordered_field =
  fixes enc :: "'a::linorder \<Rightarrow> string"
    and dec :: "string \<Rightarrow> 'a option"
    and width :: nat
  assumes length_enc: "length (enc x) = width"
    and enc_less: "enc x < enc y \<longleftrightarrow> x < y"
    and dec_enc: "dec (enc x) = Some x"
    and enc_dec: "dec s = Some x \<Longrightarrow> s = enc x"
begin

lemma enc_inject: "enc x = enc y \<longleftrightarrow> x = y"
  by (metis dec_enc option.inject)

lemma behind_prefix_less: "p @ enc x < p @ enc y \<longleftrightarrow> x < y"
  by (simp add: enc_less)

lemma behind_prefix_inject: "p @ enc x = q @ enc y \<longleftrightarrow> p = q \<and> x = y"
  by (simp add: append_eq_append_conv length_enc enc_inject)

lemma dec_eq_Some_iff: "dec s = Some x \<longleftrightarrow> s = enc x"
  using dec_enc enc_dec by auto

end

lemma be_value_less: "be_value cs < 256 ^ length cs"
proof (induction cs rule: rev_induct)
  case (snoc c cs)
  have "uchar c \<le> 255" by (rule uchar_le_255)
  with snoc show ?case by (simp add: be_value_def)
qed (simp add: be_value_def)

lemma foldl_base256: "foldl (\<lambda>a c. a * 256 + uchar c) a cs = a * 256 ^ length cs + be_value cs"
proof (induction cs rule: rev_induct)
  case (snoc c cs)
  then show ?case by (simp add: be_value_def algebra_simps)
qed (simp add: be_value_def)

lemma be_bytes_foldl: "be_bytes (length cs) (foldl (\<lambda>a c. a * 256 + uchar c) a cs) = cs"
proof (induction cs arbitrary: a)
  case (Cons c cs)
  have "(foldl (\<lambda>a c. a * 256 + uchar c) (a * 256 + uchar c) cs) div 256 ^ length cs =
      a * 256 + uchar c"
    using be_value_less [of cs] by (simp add: foldl_base256)
  then have "(char_of (foldl (\<lambda>a c. a * 256 + uchar c) (a * 256 + uchar c) cs div 256 ^ length cs)
      :: char) = c"
    by (simp flip: uchar_inject)
  with Cons show ?case by simp
qed simp

lemma be_bytes_be_value: "be_bytes (length cs) (be_value cs) = cs"
  using be_bytes_foldl [of cs 0] by (simp add: be_value_def)

interpretation be64: ordered_field "\<lambda>v. be_bytes 8 (unat v)" bigEndian64 8
proof unfold_locales
  show "bigEndian64 (be_bytes 8 (unat x)) = Some x" for x
    by (simp add: bigEndian64_def word_unat_eq_iff be_value_fold_64 be_value_be_bytes)
  show "s = be_bytes 8 (unat x)" if "bigEndian64 s = Some x" for s x
    using that be_value_fold_64 [of s] be_bytes_be_value [of s]
    by (auto simp: bigEndian64_def split: if_splits)
qed (simp_all add: be_bytes_less word_less_nat_alt)

lemma four_shifts:
  "push_bit 24 a OR push_bit 16 b OR push_bit 8 c OR d =
   push_bit 8 (push_bit 8 (push_bit 8 (push_bit 8 0 OR a) OR b) OR c) OR (d :: u32)"
  by (simp only: push_bit_or push_bit_push_bit push_bit_of_0 or.assoc or.left_neutral
      numeral_plus_numeral add_num_simps)

lemma bigEndian32_fold:
  assumes "length s = 4"
  shows "bigEndian32 s = Some (foldl (\<lambda>value c. push_bit 8 value OR byte_val c) 0 s)"
proof -
  have "length s = Suc (Suc (Suc (Suc 0)))"
    using assms by simp
  then obtain a b c d where s: "s = [a, b, c, d]"
    by (auto simp: length_Suc_conv)
  have "bigEndian32 s = Some (push_bit 24 (byte_val a) OR push_bit 16 (byte_val b) OR
      push_bit 8 (byte_val c) OR byte_val d)"
    unfolding bigEndian32_def s by simp
  then show ?thesis
    unfolding four_shifts s by (simp only: foldl.simps)
qed

interpretation be32: ordered_field "\<lambda>v. be_bytes 4 (unat v)" bigEndian32 4
proof unfold_locales
  show "bigEndian32 (be_bytes 4 (unat x)) = Some x" for x
    by (simp add: bigEndian32_fold word_unat_eq_iff be_value_fold_32 be_value_be_bytes)
  show "s = be_bytes 4 (unat x)" if "bigEndian32 s = Some x" for s x
  proof -
    have "length s = 4"
      using that by (simp add: bigEndian32_def split: if_splits)
    with that show ?thesis
      using be_value_fold_32 [of s] be_bytes_be_value [of s] by (simp add: bigEndian32_fold)
  qed
qed (simp_all add: be_bytes_less word_less_nat_alt)

section \<open>Scans bounded by \<open>upperBound\<close>\<close>

lemma upperBound_None_iff: "upperBound p = None \<longleftrightarrow> (\<forall>c\<in>set p. uchar c = 255)"
proof (induction p rule: rev_induct)
  case Nil
  then show ?case by (simp add: upperBound.simps)
next
  case (snoc c p)
  then show ?case by (auto simp: upperBound.simps [of "p @ [c]"])
qed

text \<open>
  The successor of a prefix bounds its extensions from above and nothing else: a key is in
  the half-open range between them exactly when it extends the prefix.
\<close>

lemma upperBound_Some:
  "upperBound p = Some u \<Longrightarrow>
   \<exists>q c r. p = q @ [c] @ r \<and> uchar c < 255 \<and> u = q @ [char_of (uchar c + 1)] \<and>
     (\<forall>d\<in>set r. uchar d = 255)"
proof (induction p rule: rev_induct)
  case Nil
  then show ?case by (simp add: upperBound.simps)
next
  case (snoc c p)
  show ?case
  proof (cases "uchar c = 255")
    case True
    with snoc obtain q d r where "p = q @ [d] @ r" "uchar d < 255"
      "u = q @ [char_of (uchar d + 1)]" "\<forall>d\<in>set r. uchar d = 255"
      by (auto simp: upperBound.simps [of "p @ [c]"])
    with True show ?thesis
      by (intro exI [of _ q] exI [of _ d] exI [of _ "r @ [c]"]) simp
  next
    case False
    with snoc.prems uchar_le_255 [of c] show ?thesis
      by (intro exI [of _ p] exI [of _ c] exI [of _ "[]"])
        (auto simp: upperBound.simps [of "p @ [c]"])
  qed
qed

lemma succ_char_less:
  assumes "uchar c < 255"
  shows "d < (char_of (uchar c + 1) :: char) \<longleftrightarrow> d \<le> c"
  using assms by (simp flip: uchar_less) (simp add: less_Suc_eq_le)

lemma extends_max_bytes:
  "\<forall>d\<in>set r. uchar d = 255 \<Longrightarrow> r \<le> s \<longleftrightarrow> prefix r s"
proof (induction r arbitrary: s)
  case (Cons d r)
  show ?case
  proof (cases s)
    case (Cons e s')
    have "d \<le> e \<longleftrightarrow> d = e"
      using Cons.prems uchar_le_255 [of e] by (simp flip: uchar_le uchar_inject)
    then have "d < e \<longleftrightarrow> False"
      by auto
    with Cons Cons.IH [of s'] Cons.prems show ?thesis by auto
  qed simp
qed simp

lemma upperBound_range:
  assumes "upperBound p = Some u"
  shows "p \<le> k \<and> k < u \<longleftrightarrow> prefix p k"
proof -
  obtain q c r where p: "p = q @ [c] @ r" and c: "uchar c < 255"
    and u: "u = q @ [char_of (uchar c + 1)]" and r: "\<forall>d\<in>set r. uchar d = 255"
    using upperBound_Some [OF assms] by blast
  show ?thesis
  proof (cases "prefix q k")
    case True
    then obtain k' where k: "k = q @ k'"
      by (auto simp: prefix_def)
    show ?thesis
    proof (cases k')
      case (Cons d s)
      have "k < u \<longleftrightarrow> d \<le> c"
        using c succ_char_less [OF c] by (simp add: k u Cons)
      moreover have "p \<le> k \<longleftrightarrow> c < d \<or> c = d \<and> prefix r s"
        using r by (simp add: k p Cons extends_max_bytes)
      moreover have "prefix p k \<longleftrightarrow> c = d \<and> prefix r s"
        by (auto simp: k p Cons)
      ultimately show ?thesis by auto
    qed (simp add: k p)
  next
    case False
    have "\<not> (p \<le> k \<and> k < u)"
    proof
      assume "p \<le> k \<and> k < u"
      moreover have "q \<le> p" by (simp add: p)
      ultimately have "q \<le> k" "k \<le> u" by auto
      then have "prefix q k"
        by (rule prefix_convex) (simp add: u)
      with False show False by simp
    qed
    moreover have "\<not> prefix p k"
      using False by (auto simp: p prefix_def)
    ultimately show ?thesis by simp
  qed
qed

lemma upperBound_tagged:
  "uchar tag < 255 \<Longrightarrow> upperBound (tag # rest) \<noteq> None"
  by (auto simp: upperBound_None_iff)

section \<open>Taking keys apart\<close>

lemmas key_defs = bucket_key_def object_key_def uploadByKey_def uploadById_def part_key_def
  orphan_key_def user_key_def audit_key_def meta_key_def accessKey_key_def tagged_def
  objectPrefix_def uploadByKeyPrefix_def partPrefix_def

lemma objectKey_object_key [simp]: "objectKey (object_key b k) b = Some k"
  by (simp add: objectKey_def object_key_def)

lemma objectKey_eq_Some: "objectKey stored b = Some k \<longleftrightarrow> stored = object_key b k"
  by (auto simp: objectKey_def object_key_def prefix_def Let_def)

text \<open>A NUL-free component ends at the first separator.\<close>

lemma component_inject:
  assumes "c \<notin> set a" "c \<notin> set b"
  shows "a @ c # x = b @ c # y \<longleftrightarrow> a = b \<and> x = y"
  using assms
proof (induction a arbitrary: b)
  case Nil
  then show ?case by (cases b) auto
next
  case (Cons z a)
  then show ?case by (cases b) auto
qed

lemma component_prefix:
  assumes "c \<notin> set a" "c \<notin> set b"
  shows "prefix (a @ [c]) (b @ c # y) \<longleftrightarrow> a = b"
proof -
  have "prefix (a @ [c]) (b @ c # y) \<longleftrightarrow> (\<exists>z. b @ c # y = a @ c # z)"
    by (auto simp: prefix_def)
  then show ?thesis
    using assms by (auto simp: component_inject)
qed

lemma object_key_inject:
  "NUL \<notin> set b \<Longrightarrow> NUL \<notin> set b' \<Longrightarrow> object_key b k = object_key b' k' \<longleftrightarrow> b = b' \<and> k = k'"
  by (simp add: object_key_def objectPrefix_def kSeparator_def component_inject)

lemma objectPrefix_object_key:
  "NUL \<notin> set b \<Longrightarrow> NUL \<notin> set b' \<Longrightarrow> prefix (objectPrefix b) (object_key b' k) \<longleftrightarrow> b = b'"
  by (simp add: object_key_def objectPrefix_def kSeparator_def component_prefix)

lemma object_key_less: "object_key b k < object_key b k' \<longleftrightarrow> k < k'"
  by (simp add: object_key_def)

lemma rfind_char_None [simp]: "c \<notin> set xs \<Longrightarrow> rfind_char c xs = None"
  by (induction xs) auto

lemma rfind_char_last: "c \<notin> set ys \<Longrightarrow> rfind_char c (xs @ c # ys) = Some (length xs)"
  by (induction xs) simp_all

lemma uploadKeyParts_uploadByKey:
  "NUL \<notin> set uploadId \<Longrightarrow> uploadKeyParts (uploadByKey b k uploadId) b = Some (k, uploadId)"
  by (simp add: uploadKeyParts_def uploadByKey_def kSeparator_def rfind_char_last)

lemma partNumber_part_key [simp]: "partNumber (part_key uploadId n) uploadId = Some n"
  by (simp add: partNumber_def part_key_def appendBigEndian32_eq be32.dec_enc)

lemma partNumber_eq_Some: "partNumber stored uploadId = Some n \<longleftrightarrow> stored = part_key uploadId n"
  by (auto simp: partNumber_def part_key_def appendBigEndian32_eq be32.dec_enc be32.dec_eq_Some_iff
      prefix_def Let_def split: if_splits)

lemma part_key_less: "part_key uploadId m < part_key uploadId n \<longleftrightarrow> m < n"
  by (simp only: part_key_def appendBigEndian32_eq be32.behind_prefix_less)

lemma auditSequence_audit_key [simp]: "auditSequence (audit_key n) = Some n"
  by (simp add: auditSequence_def audit_key_def appendBigEndian64_eq be64.dec_enc)

lemma auditSequence_eq_Some: "auditSequence stored = Some n \<longleftrightarrow> stored = audit_key n"
proof
  assume a: "auditSequence stored = Some n"
  then obtain c s where "stored = c # s"
    by (cases stored) (auto simp: auditSequence_def)
  with a show "stored = audit_key n"
    by (auto simp: auditSequence_def audit_key_def appendBigEndian64_eq be64.dec_eq_Some_iff
        split: if_splits)
qed simp

lemma audit_key_less: "audit_key m < audit_key n \<longleftrightarrow> m < n"
  by (simp only: audit_key_def appendBigEndian64_eq be64.behind_prefix_less)

end
