(* ===== verification/Rocks.thy ===== *)
theory Rocks
  imports Keyspace Errors
begin

text \<open>
  RocksDB as the metadata store uses it. The library is not part of the repository, so it is
  a parameter: the record \<open>rocksdb\<close> holds the four entry points the store calls, on a
  database state \<open>'db\<close> that nothing else inspects. \<open>rocks_laws\<close> states what the RocksDB
  documentation promises of them, relative to the key-value content \<open>view\<close> of a state: reads
  return the content, a write batch is applied as a whole or not at all, an iterator visits
  the keys in bytewise order. Any call may fail. \<open>rocks_healthy\<close> adds that none does.

  \<open>memory_rocks\<close> is a concrete instance, an ordered list of entries that never fails.
\<close>

section \<open>The interface\<close>

datatype rocks_status = StatusOk | StatusNotFound | StatusCorruption | StatusIOError | StatusOther

datatype batch_op = Put string string | Delete string

type_synonym entries = "(string \<times> string) list"

text \<open>
  \<open>rk_seek db upper target\<close> is an iterator with \<open>iterate_upper_bound\<close> set to \<open>upper\<close> after
  \<open>Seek(target)\<close>: the entries \<open>Next\<close> will deliver and the status once they are used up.
  \<open>rk_seek_for_prev db target\<close> is \<open>SeekForPrev(target)\<close> followed by \<open>Prev\<close>.
\<close>

record 'db rocksdb =
  rk_get :: "'db \<Rightarrow> string \<Rightarrow> rocks_status \<times> string"
  rk_write :: "'db \<Rightarrow> bool \<Rightarrow> batch_op list \<Rightarrow> rocks_status \<times> 'db"
  rk_seek :: "'db \<Rightarrow> string option \<Rightarrow> string \<Rightarrow> entries \<times> rocks_status"
  rk_seek_for_prev :: "'db \<Rightarrow> string \<Rightarrow> entries \<times> rocks_status"

section \<open>Key-value content\<close>

fun omap_put :: "'k::linorder \<Rightarrow> 'v \<Rightarrow> ('k, 'v) omap \<Rightarrow> ('k, 'v) omap" where
  "omap_put k v [] = [(k, v)]"
| "omap_put k v ((k', v') # m) =
     (if k < k' then (k, v) # (k', v') # m
      else if k = k' then (k, v) # m
      else (k', v') # omap_put k v m)"

definition omap_delete :: "'k \<Rightarrow> ('k, 'v) omap \<Rightarrow> ('k, 'v) omap" where
  "omap_delete k m = filter (\<lambda>(k', _). k' \<noteq> k) m"

fun apply_op :: "batch_op \<Rightarrow> (string, string) omap \<Rightarrow> (string, string) omap" where
  "apply_op (Put k v) m = omap_put k v m"
| "apply_op (Delete k) m = omap_delete k m"

definition apply_batch :: "batch_op list \<Rightarrow> (string, string) omap \<Rightarrow> (string, string) omap" where
  "apply_batch batch m = fold apply_op batch m"

fun below :: "string option \<Rightarrow> string \<Rightarrow> bool" where
  "below None k = True"
| "below (Some u) k = (k < u)"

definition seek_entries :: "(string, string) omap \<Rightarrow> string option \<Rightarrow> string \<Rightarrow> entries" where
  "seek_entries m upper target = filter (\<lambda>(k, _). target \<le> k \<and> below upper k) m"

definition seek_back_entries :: "(string, string) omap \<Rightarrow> string \<Rightarrow> entries" where
  "seek_back_entries m target = rev (filter (\<lambda>(k, _). k \<le> target) m)"

section \<open>What RocksDB promises\<close>

definition rocks_laws :: "'db rocksdb \<Rightarrow> ('db \<Rightarrow> (string, string) omap) \<Rightarrow> bool" where
  "rocks_laws R view \<longleftrightarrow>
     (\<forall>db. omap_ok (view db)) \<and>
     (\<forall>db k v. rk_get R db k = (StatusOk, v) \<longrightarrow> map_of (view db) k = Some v) \<and>
     (\<forall>db k v. rk_get R db k = (StatusNotFound, v) \<longrightarrow> map_of (view db) k = None) \<and>
     (\<forall>db sync batch db'. rk_write R db sync batch = (StatusOk, db') \<longrightarrow>
        view db' = apply_batch batch (view db)) \<and>
     (\<forall>db sync batch st db'. rk_write R db sync batch = (st, db') \<longrightarrow>
        view db' = view db \<or> view db' = apply_batch batch (view db)) \<and>
     (\<forall>db upper target es st. rk_seek R db upper target = (es, st) \<longrightarrow>
        prefix es (seek_entries (view db) upper target) \<and>
        (st = StatusOk \<longrightarrow> es = seek_entries (view db) upper target)) \<and>
     (\<forall>db target es st. rk_seek_for_prev R db target = (es, st) \<longrightarrow>
        prefix es (seek_back_entries (view db) target) \<and>
        (st = StatusOk \<longrightarrow> es = seek_back_entries (view db) target))"

definition rocks_healthy :: "'db rocksdb \<Rightarrow> bool" where
  "rocks_healthy R \<longleftrightarrow>
     (\<forall>db k. fst (rk_get R db k) \<in> {StatusOk, StatusNotFound}) \<and>
     (\<forall>db sync batch. fst (rk_write R db sync batch) = StatusOk) \<and>
     (\<forall>db upper target. snd (rk_seek R db upper target) = StatusOk) \<and>
     (\<forall>db target. snd (rk_seek_for_prev R db target) = StatusOk)"

section \<open>Facts on the content\<close>

lemma omap_ok_Nil [simp]: "omap_ok []"
  by (simp add: omap_ok_def)

lemma omap_ok_distinct: "omap_ok m \<Longrightarrow> distinct (map fst m)"
  by (auto simp: omap_ok_def strict_sorted_iff)

lemma map_of_omap_put: "omap_ok m \<Longrightarrow> map_of (omap_put k v m) = (map_of m)(k \<mapsto> v)"
  by (induction k v m rule: omap_put.induct) (auto simp: omap_ok_Cons fun_eq_iff)

lemma set_omap_put_subset: "set (omap_put k v m) \<subseteq> insert (k, v) (set m)"
  by (induction k v m rule: omap_put.induct) auto

lemma omap_ok_put: "omap_ok m \<Longrightarrow> omap_ok (omap_put k v m)"
proof (induction k v m rule: omap_put.induct)
  case (2 k v k' v' m)
  then show ?case
    using set_omap_put_subset [of k v m] by (fastforce simp: omap_ok_Cons dest: less_trans)
qed (simp add: omap_ok_def)

lemma map_of_omap_delete: "map_of (omap_delete k m) = (map_of m)(k := None)"
  by (simp add: omap_delete_def map_of_filter_ne)

lemma omap_ok_filter: "omap_ok m \<Longrightarrow> omap_ok (filter P m)"
  by (induction m) (auto simp: omap_ok_Cons)

lemma omap_ok_delete: "omap_ok m \<Longrightarrow> omap_ok (omap_delete k m)"
  by (simp add: omap_delete_def omap_ok_filter)

lemma omap_ok_apply_batch: "omap_ok m \<Longrightarrow> omap_ok (apply_batch batch m)"
  unfolding apply_batch_def
proof (induction batch arbitrary: m)
  case (Cons x batch)
  then show ?case by (cases x) (simp_all add: omap_ok_put omap_ok_delete)
qed simp

lemma apply_batch_append: "apply_batch (a @ b) m = apply_batch b (apply_batch a m)"
  by (simp add: apply_batch_def)

text \<open>What one key holds after a batch: the last operation on it decides.\<close>

fun op_result :: "batch_op \<Rightarrow> (string \<rightharpoonup> string) \<Rightarrow> (string \<rightharpoonup> string)" where
  "op_result (Put k v) f = f(k \<mapsto> v)"
| "op_result (Delete k) f = f(k := None)"

lemma map_of_apply_batch:
  "omap_ok m \<Longrightarrow> map_of (apply_batch batch m) = fold op_result batch (map_of m)"
  unfolding apply_batch_def
proof (induction batch arbitrary: m)
  case (Cons x batch)
  then show ?case
    by (cases x) (simp_all add: omap_ok_put omap_ok_delete map_of_omap_put map_of_omap_delete
        fun_upd_def)
qed simp

text \<open>An ordered map is determined by what it maps.\<close>

lemma omap_set_eq: "omap_ok m \<Longrightarrow> set m = {(k, v). map_of m k = Some v}"
  using omap_ok_distinct [of m] by auto

lemma omap_ext:
  assumes "omap_ok m" "omap_ok n" "map_of m = map_of n"
  shows "m = n"
proof -
  have sets: "set m = set n"
    using assms by (simp add: omap_set_eq)
  have "sorted (map fst m)" "sorted (map fst n)"
    using assms by (auto simp: omap_ok_def strict_sorted_iff)
  moreover have "distinct (map fst m)" "distinct (map fst n)"
    using assms by (auto intro: omap_ok_distinct)
  moreover have "inj_on fst (set m \<union> set n)"
    using assms(1) by (auto simp: inj_on_def sets [symmetric] omap_set_eq)
  ultimately show ?thesis
    using sets by (intro map_sorted_distinct_set_unique [of fst])
qed

lemma seek_entries_prefix:
  assumes "upperBound p = Some u"
  shows "seek_entries m (Some u) p = filter (\<lambda>(k, _). prefix p k) m"
  by (simp add: seek_entries_def upperBound_range [OF assms] cong: filter_cong)

section \<open>The laws in the form the store uses them\<close>

lemma rocks_laws_omap_ok: "rocks_laws R view \<Longrightarrow> omap_ok (view db)"
  by (simp add: rocks_laws_def)

lemma rocks_get_Ok:
  "rocks_laws R view \<Longrightarrow> rk_get R db k = (StatusOk, v) \<Longrightarrow> map_of (view db) k = Some v"
  by (auto simp: rocks_laws_def)

lemma rocks_get_NotFound:
  "rocks_laws R view \<Longrightarrow> rk_get R db k = (StatusNotFound, v) \<Longrightarrow> map_of (view db) k = None"
  by (auto simp: rocks_laws_def)

lemma rocks_write_Ok:
  "rocks_laws R view \<Longrightarrow> rk_write R db sync batch = (StatusOk, db') \<Longrightarrow>
   view db' = apply_batch batch (view db)"
  by (auto simp: rocks_laws_def)

lemma rocks_write_any:
  "rocks_laws R view \<Longrightarrow> rk_write R db sync batch = (st, db') \<Longrightarrow>
   view db' = view db \<or> view db' = apply_batch batch (view db)"
  by (auto simp: rocks_laws_def)

lemma rocks_seek_Ok:
  "rocks_laws R view \<Longrightarrow> rk_seek R db upper target = (es, StatusOk) \<Longrightarrow>
   es = seek_entries (view db) upper target"
  by (auto simp: rocks_laws_def)

lemma rocks_seek_any:
  "rocks_laws R view \<Longrightarrow> rk_seek R db upper target = (es, st) \<Longrightarrow>
   prefix es (seek_entries (view db) upper target)"
  by (auto simp: rocks_laws_def)

lemma rocks_seek_back_Ok:
  "rocks_laws R view \<Longrightarrow> rk_seek_for_prev R db target = (es, StatusOk) \<Longrightarrow>
   es = seek_back_entries (view db) target"
  by (auto simp: rocks_laws_def)

section \<open>A concrete instance\<close>

text \<open>A database state is the log of all writes; its content is what the log leaves behind.\<close>

definition memory_view :: "batch_op list \<Rightarrow> (string, string) omap" where
  "memory_view log = apply_batch log []"

definition memory_rocks :: "batch_op list rocksdb" where
  "memory_rocks =
     \<lparr>rk_get = (\<lambda>db k. case map_of (memory_view db) k of
          Some v \<Rightarrow> (StatusOk, v)
        | None \<Rightarrow> (StatusNotFound, [])),
      rk_write = (\<lambda>db sync batch. (StatusOk, db @ batch)),
      rk_seek = (\<lambda>db upper target. (seek_entries (memory_view db) upper target, StatusOk)),
      rk_seek_for_prev = (\<lambda>db target. (seek_back_entries (memory_view db) target, StatusOk))\<rparr>"

lemma memory_rocks_healthy: "rocks_healthy memory_rocks"
  by (simp add: rocks_healthy_def memory_rocks_def split: option.splits)

lemma memory_rocks_laws: "rocks_laws memory_rocks memory_view"
  by (auto simp: rocks_laws_def memory_rocks_def memory_view_def omap_ok_apply_batch
      apply_batch_append split: option.splits)

end
