(* ===== verification/Metadata_Store.thy ===== *)
theory Metadata_Store
  imports Store_Records Rocks
begin

text \<open>
  The class \<open>RocksMetadataStore\<close> of storage/rocksdb_metadata_store.cpp: opening, buckets,
  accounts and keys, the audit ring, objects, multipart uploads and reclamation. Listing
  objects and uploads by page is in the theory \<open>Listing\<close>.

  The state record holds the database, the write option \<open>syncWrites\<close>, the audit cursor, the
  charges seeded at open and the five atomic counters, which wrap. An operation returns its
  exception or its result together with the state it leaves, which after a failed write is
  not the state it started from: the counters a method moves before it checks the write stay
  moved. Each method runs as one step, as \<open>bucketLock_\<close> and the key stripes make it appear to
  the calls on the same bucket or key. \<open>nowMs()\<close> is a parameter \<open>clock\<close>, the \<open>i\<close>-th reading
  an operation takes.
\<close>

section \<open>State and status checks\<close>

record BucketCharge =
  bc_objectBytes :: u64
  bc_partBytes :: u64

record 'db store =
  s_db :: 'db
  s_syncWrites :: bool
  s_auditSequence :: u64
  s_charges :: "(string \<times> BucketCharge) list"
  s_buckets :: u64
  s_objects :: u64
  s_bytes :: u64
  s_uploads :: u64
  s_orphans :: u64

type_synonym ('db, 'a) op = "'db store \<Rightarrow> (exn + 'a) \<times> 'db store"
type_synonym clock = "nat \<Rightarrow> TimestampMs"

fun check :: "rocks_status \<Rightarrow> exn option" where
  "check StatusOk = None"
| "check StatusCorruption = Some (StorageError Corruption)"
| "check StatusIOError = Some (StorageError Io)"
| "check _ = Some (StorageError Internal)"

definition attempt :: "exn + 'a \<Rightarrow> 's \<Rightarrow> ('a \<Rightarrow> (exn + 'b) \<times> 's) \<Rightarrow> (exn + 'b) \<times> 's" where
  "attempt x s k = (case x of Inl e \<Rightarrow> (Inl e, s) | Inr v \<Rightarrow> k v)"

lemma attempt_simps [simp]: "attempt (Inl e) s k = (Inl e, s)" "attempt (Inr v) s k = k v"
  by (simp_all add: attempt_def)

text \<open>
  \<open>db_->Get\<close> followed by \<open>if (status.IsNotFound()) ...; check(status, ...)\<close>: nothing, the stored
  value or the exception.
\<close>

definition db_get :: "'db rocksdb \<Rightarrow> 'db \<Rightarrow> string \<Rightarrow> exn + string option" where
  "db_get R db key =
     (case rk_get R db key of (status, stored) \<Rightarrow>
        if status = StatusNotFound then Inr None
        else case check status of Some e \<Rightarrow> Inl e | None \<Rightarrow> Inr (Some stored))"

text \<open>\<open>check(db_->Write(...), ...)\<close> and what follows it.\<close>

definition db_write ::
    "'db rocksdb \<Rightarrow> bool \<Rightarrow> batch_op list \<Rightarrow> 'db store \<Rightarrow> ('db store \<Rightarrow> (exn + 'a) \<times> 'db store) \<Rightarrow>
     (exn + 'a) \<times> 'db store" where
  "db_write R sync batch s k =
     (case rk_write R (s_db s) sync batch of (status, db') \<Rightarrow>
        let s' = s\<lparr>s_db := db'\<rparr> in
        case check status of Some e \<Rightarrow> (Inl e, s') | None \<Rightarrow> k s')"

text \<open>\<open>writeOptionsFor(durability).sync\<close>; \<open>durableWrite()\<close> asks for \<open>Strict\<close>.\<close>

definition writeOptionsFor :: "Durability \<Rightarrow> bool" where
  "writeOptionsFor durability \<longleftrightarrow> durability = Strict"

text \<open>
  The scan the listing methods share: seek to the prefix, stop at the first key outside it,
  decode the rows that count, check the iterator's status at the end.
\<close>

fun visit_rows :: "string \<Rightarrow> (string \<Rightarrow> string \<Rightarrow> exn + 'a option) \<Rightarrow> entries \<Rightarrow> exn + 'a list" where
  "visit_rows p f [] = Inr []"
| "visit_rows p f ((key, v) # es) =
     (if \<not> prefix p key then Inr []
      else case f key v of
        Inl e \<Rightarrow> Inl e
      | Inr row \<Rightarrow>
          (case visit_rows p f es of
             Inl e \<Rightarrow> Inl e
           | Inr rows \<Rightarrow> Inr (case row of None \<Rightarrow> rows | Some x \<Rightarrow> x # rows)))"

definition scan_rows ::
    "'db rocksdb \<Rightarrow> 'db \<Rightarrow> string \<Rightarrow> (string \<Rightarrow> string \<Rightarrow> exn + 'a option) \<Rightarrow> exn + 'a list" where
  "scan_rows R db p f =
     (case rk_seek R db (upperBound p) p of (es, status) \<Rightarrow>
        case visit_rows p f es of
          Inl e \<Rightarrow> Inl e
        | Inr rows \<Rightarrow> (case check status of Some e \<Rightarrow> Inl e | None \<Rightarrow> Inr rows))"

definition hasAny :: "'db rocksdb \<Rightarrow> 'db \<Rightarrow> string \<Rightarrow> exn + bool" where
  "hasAny R db p =
     (case rk_seek R db (upperBound p) p of (es, status) \<Rightarrow>
        let found = (case es of [] \<Rightarrow> False | (key, _) # _ \<Rightarrow> prefix p key) in
        case check status of Some e \<Rightarrow> Inl e | None \<Rightarrow> Inr found)"

text \<open>\<open>decodeX\<close> of a row that may be missing.\<close>

definition load :: "(string \<Rightarrow> exn + 'a) \<Rightarrow> exn + string option \<Rightarrow> exn + 'a option" where
  "load decode got =
     (case got of
        Inl e \<Rightarrow> Inl e
      | Inr None \<Rightarrow> Inr None
      | Inr (Some stored) \<Rightarrow> (case decode stored of Inl e \<Rightarrow> Inl e | Inr x \<Rightarrow> Inr (Some x)))"

definition loadBucket :: "'db rocksdb \<Rightarrow> 'db \<Rightarrow> string \<Rightarrow> exn + BucketRecord option" where
  "loadBucket R db name = load (decodeBucket name) (db_get R db (bucket_key name))"

definition requireBucket :: "'db rocksdb \<Rightarrow> 'db \<Rightarrow> string \<Rightarrow> exn + unit" where
  "requireBucket R db name =
     (case db_get R db (bucket_key name) of
        Inl e \<Rightarrow> Inl e
      | Inr None \<Rightarrow> Inl (StorageError NoSuchBucket)
      | Inr (Some _) \<Rightarrow> Inr ())"

definition loadObject :: "'db rocksdb \<Rightarrow> 'db \<Rightarrow> string \<Rightarrow> string \<Rightarrow> exn + ObjectRecord option" where
  "loadObject R db storedKey key = load (decodeObject key) (db_get R db storedKey)"

definition loadUpload :: "'db rocksdb \<Rightarrow> 'db \<Rightarrow> string \<Rightarrow> exn + UploadRecord option" where
  "loadUpload R db uploadId = load (decodeUpload uploadId) (db_get R db (uploadById uploadId))"

definition decode_part_row :: "string \<Rightarrow> string \<Rightarrow> string \<Rightarrow> exn + PartRecord option" where
  "decode_part_row uploadId stored v =
     (case partNumber stored uploadId of
        None \<Rightarrow> Inr None
      | Some n \<Rightarrow> (case decodePart n v of Inl e \<Rightarrow> Inl e | Inr part \<Rightarrow> Inr (Some part)))"

definition collectParts :: "'db rocksdb \<Rightarrow> 'db \<Rightarrow> string \<Rightarrow> exn + PartRecord list" where
  "collectParts R db uploadId = scan_rows R db (partPrefix uploadId) (decode_part_row uploadId)"

section \<open>Buckets\<close>

definition createBucket :: "'db rocksdb \<Rightarrow> BucketRecord \<Rightarrow> ('db, unit) op" where
  "createBucket R bucket s =
     attempt (db_get R (s_db s) (bucket_key (b_name bucket))) s (\<lambda>existing.
       case existing of
         Some _ \<Rightarrow> (Inl (StorageError BucketAlreadyExists), s)
       | None \<Rightarrow>
           db_write R (s_syncWrites s) [Put (bucket_key (b_name bucket)) (encodeBucket bucket)] s
             (\<lambda>s. (Inr (), s\<lparr>s_buckets := s_buckets s + 1\<rparr>)))"

definition getBucket :: "'db rocksdb \<Rightarrow> string \<Rightarrow> 'db store \<Rightarrow> exn + BucketRecord option" where
  "getBucket R name s = loadBucket R (s_db s) name"

definition some_row :: "(string \<Rightarrow> string \<Rightarrow> exn + 'a) \<Rightarrow> string \<Rightarrow> string \<Rightarrow> string \<Rightarrow> exn + 'a option" where
  "some_row decode p key v =
     (case decode (drop (length p) key) v of Inl e \<Rightarrow> Inl e | Inr x \<Rightarrow> Inr (Some x))"

definition listBuckets :: "'db rocksdb \<Rightarrow> 'db store \<Rightarrow> exn + BucketRecord list" where
  "listBuckets R s = scan_rows R (s_db s) bucketPrefix (some_row decodeBucket bucketPrefix)"

definition deleteBucket :: "'db rocksdb \<Rightarrow> string \<Rightarrow> ('db, unit) op" where
  "deleteBucket R name s =
     attempt (loadBucket R (s_db s) name) s (\<lambda>bucket.
       if bucket = None then (Inl (StorageError NoSuchBucket), s)
       else attempt (hasAny R (s_db s) (objectPrefix name)) s (\<lambda>objects.
         if objects then (Inl (StorageError BucketNotEmpty), s)
         else attempt (hasAny R (s_db s) (uploadByKeyPrefix name)) s (\<lambda>uploads.
           if uploads then (Inl (StorageError BucketNotEmpty), s)
           else db_write R (s_syncWrites s) [Delete (bucket_key name)] s
             (\<lambda>s. (Inr (), s\<lparr>s_buckets := s_buckets s - 1\<rparr>)))))"

definition updateBucket :: "'db rocksdb \<Rightarrow> BucketRecord \<Rightarrow> ('db, unit) op" where
  "updateBucket R bucket s =
     attempt (loadBucket R (s_db s) (b_name bucket)) s (\<lambda>existing.
       if existing = None then (Inl (StorageError NoSuchBucket), s)
       else db_write R (s_syncWrites s) [Put (bucket_key (b_name bucket)) (encodeBucket bucket)] s
         (\<lambda>s. (Inr (), s)))"

section \<open>Accounts, settings and access keys\<close>

definition kAdminName :: string where "kAdminName = ''admin''"
definition kSettingsName :: string where "kSettingsName = ''settings''"

definition getUser :: "'db rocksdb \<Rightarrow> string \<Rightarrow> 'db store \<Rightarrow> exn + UserRecord option" where
  "getUser R username s =
     (if username = [] then Inr None
      else load (decodeUser username) (db_get R (s_db s) (user_key username)))"

definition forEachUser :: "'db rocksdb \<Rightarrow> 'db store \<Rightarrow> exn + UserRecord list" where
  "forEachUser R s = scan_rows R (s_db s) userPrefix (some_row decodeUser userPrefix)"

definition listUsers :: "'db rocksdb \<Rightarrow> 'db store \<Rightarrow> exn + UserRecord list" where
  "listUsers R s = forEachUser R s"

definition putUser :: "'db rocksdb \<Rightarrow> UserRecord \<Rightarrow> ('db, unit) op" where
  "putUser R user s =
     db_write R (writeOptionsFor Strict) [Put (user_key (u_username user)) (encodeUser user)] s
       (\<lambda>s. (Inr (), s))"

text \<open>Delete a row and say whether it was there.\<close>

definition delete_row :: "'db rocksdb \<Rightarrow> string \<Rightarrow> ('db, bool) op" where
  "delete_row R key s =
     attempt (db_get R (s_db s) key) s (\<lambda>stored.
       if stored = None then (Inr False, s)
       else db_write R (writeOptionsFor Strict) [Delete key] s (\<lambda>s. (Inr True, s)))"

definition deleteUser :: "'db rocksdb \<Rightarrow> string \<Rightarrow> ('db, bool) op" where
  "deleteUser R username = delete_row R (user_key username)"

definition countEnabledAdministrators :: "'db rocksdb \<Rightarrow> 'db store \<Rightarrow> exn + nat" where
  "countEnabledAdministrators R s =
     (case forEachUser R s of
        Inl e \<Rightarrow> Inl e
      | Inr users \<Rightarrow>
          Inr (foldl (\<lambda>n user. if \<not> u_disabled user \<and> u_role user = Administrator then n + 1 else n)
                0 users))"

definition getAdmin :: "'db rocksdb \<Rightarrow> 'db store \<Rightarrow> exn + AdminRecord option" where
  "getAdmin R s = load decodeAdmin (db_get R (s_db s) (meta_key kAdminName))"

definition putAdmin :: "'db rocksdb \<Rightarrow> AdminRecord \<Rightarrow> ('db, unit) op" where
  "putAdmin R admin s =
     db_write R (writeOptionsFor Strict) [Put (meta_key kAdminName) (encodeAdmin admin)] s
       (\<lambda>s. (Inr (), s))"

definition deleteAdmin :: "'db rocksdb \<Rightarrow> ('db, unit) op" where
  "deleteAdmin R s =
     db_write R (writeOptionsFor Strict) [Delete (meta_key kAdminName)] s (\<lambda>s. (Inr (), s))"

definition getInstanceSettings :: "'db rocksdb \<Rightarrow> 'db store \<Rightarrow> exn + InstanceSettings option" where
  "getInstanceSettings R s = load decodeSettings (db_get R (s_db s) (meta_key kSettingsName))"

definition putInstanceSettings :: "'db rocksdb \<Rightarrow> InstanceSettings \<Rightarrow> ('db, unit) op" where
  "putInstanceSettings R settings s =
     db_write R (writeOptionsFor Strict) [Put (meta_key kSettingsName) (encodeSettings settings)] s
       (\<lambda>s. (Inr (), s))"

definition getAccessKey :: "'db rocksdb \<Rightarrow> string \<Rightarrow> 'db store \<Rightarrow> exn + AccessKeyRecord option" where
  "getAccessKey R accessKeyId s =
     (if accessKeyId = [] then Inr None
      else load (decodeAccessKey accessKeyId) (db_get R (s_db s) (accessKey_key accessKeyId)))"

definition listAccessKeys :: "'db rocksdb \<Rightarrow> 'db store \<Rightarrow> exn + AccessKeyRecord list" where
  "listAccessKeys R s =
     scan_rows R (s_db s) accessKeyPrefix (some_row decodeAccessKey accessKeyPrefix)"

definition putAccessKey :: "'db rocksdb \<Rightarrow> AccessKeyRecord \<Rightarrow> ('db, unit) op" where
  "putAccessKey R key s =
     db_write R (writeOptionsFor Strict) [Put (accessKey_key (k_accessKeyId key)) (encodeAccessKey key)] s
       (\<lambda>s. (Inr (), s))"

definition deleteAccessKey :: "'db rocksdb \<Rightarrow> string \<Rightarrow> ('db, bool) op" where
  "deleteAccessKey R accessKeyId = delete_row R (accessKey_key accessKeyId)"

section \<open>Audit ring\<close>

definition kAuditCapacity :: u64 where
  "kAuditCapacity = 20000"

definition appendAudit :: "'db rocksdb \<Rightarrow> AuditRecord \<Rightarrow> ('db, u64) op" where
  "appendAudit R entry s =
     (let sequence = s_auditSequence s + 1;
          s = s\<lparr>s_auditSequence := sequence\<rparr>;
          batch = Put (audit_key sequence) (encodeAudit entry) #
            (if sequence > kAuditCapacity then [Delete (audit_key (sequence - kAuditCapacity))] else [])
      in db_write R (s_syncWrites s) batch s (\<lambda>s. (Inr sequence, s)))"

text \<open>\<open>limit\<close> rows at most, walking backwards until a key is not an audit key.\<close>

fun audit_rows :: "nat \<Rightarrow> entries \<Rightarrow> exn + AuditRecord list" where
  "audit_rows 0 es = Inr []"
| "audit_rows (Suc n) [] = Inr []"
| "audit_rows (Suc n) ((key, v) # es) =
     (case auditSequence key of
        None \<Rightarrow> Inr []
      | Some sequence \<Rightarrow>
          (case decodeAudit sequence v of
             Inl e \<Rightarrow> Inl e
           | Inr entry \<Rightarrow>
               (case audit_rows n es of Inl e \<Rightarrow> Inl e | Inr entries \<Rightarrow> Inr (entry # entries))))"

definition listAudit :: "'db rocksdb \<Rightarrow> nat \<Rightarrow> 'db store \<Rightarrow> exn + AuditRecord list" where
  "listAudit R limit s =
     (if limit = 0 then Inr []
      else case rk_seek_for_prev R (s_db s) (audit_key (- 1)) of (es, status) \<Rightarrow>
        case audit_rows limit es of
          Inl e \<Rightarrow> Inl e
        | Inr entries \<Rightarrow> (case check status of Some e \<Rightarrow> Inl e | None \<Rightarrow> Inr entries))"

section \<open>Objects\<close>

record PutOutcome =
  po_releasedBlobId :: "string option"
  po_replacedBytes :: u64

record DeleteOutcome =
  do_existed :: bool
  do_releasedBlobId :: "string option"
  do_releasedBytes :: u64

text \<open>The counters and the outcome \<open>putObject\<close> and \<open>completeUpload\<close> derive from the row they replace.\<close>

definition replace_counters :: "ObjectRecord option \<Rightarrow> 'db store \<Rightarrow> 'db store" where
  "replace_counters previous s =
     (case previous of
        Some p \<Rightarrow> s\<lparr>s_bytes := s_bytes s - o_size p, s_orphans := s_orphans s - 1 + 1\<rparr>
      | None \<Rightarrow> s\<lparr>s_objects := s_objects s + 1, s_orphans := s_orphans s - 1\<rparr>)"

definition publish_batch :: "string \<Rightarrow> ObjectRecord \<Rightarrow> string option \<Rightarrow> TimestampMs \<Rightarrow> batch_op list" where
  "publish_batch storedKey object released now =
     [Put storedKey (encodeObject object), Delete (orphan_key (o_blobId object))] @
     (case released of None \<Rightarrow> [] | Some blobId \<Rightarrow> [Put (orphan_key blobId) (orphanValue now)])"

definition putObject ::
    "'db rocksdb \<Rightarrow> clock \<Rightarrow> string \<Rightarrow> ObjectRecord \<Rightarrow> Durability \<Rightarrow> ('db, PutOutcome) op" where
  "putObject R clock bucket object durability s =
     attempt (requireBucket R (s_db s) bucket) s (\<lambda>_.
       let storedKey = object_key bucket (o_key object) in
       attempt (loadObject R (s_db s) storedKey (o_key object)) s (\<lambda>previous.
         let outcome = \<lparr>po_releasedBlobId = map_option o_blobId previous,
                        po_replacedBytes = (case previous of Some p \<Rightarrow> o_size p | None \<Rightarrow> 0)\<rparr>
         in db_write R (writeOptionsFor durability)
              (publish_batch storedKey object (po_releasedBlobId outcome) (clock 0))
              (replace_counters previous s)
              (\<lambda>s. (Inr outcome, s\<lparr>s_bytes := s_bytes s + o_size object\<rparr>))))"

definition getObject ::
    "'db rocksdb \<Rightarrow> string \<Rightarrow> string \<Rightarrow> 'db store \<Rightarrow> exn + ObjectRecord option" where
  "getObject R bucket key s = loadObject R (s_db s) (object_key bucket key) key"

definition deleteObject ::
    "'db rocksdb \<Rightarrow> clock \<Rightarrow> string \<Rightarrow> string \<Rightarrow> Durability \<Rightarrow> ('db, DeleteOutcome) op" where
  "deleteObject R clock bucket key durability s =
     attempt (requireBucket R (s_db s) bucket) s (\<lambda>_.
       let storedKey = object_key bucket key in
       attempt (loadObject R (s_db s) storedKey key) s (\<lambda>existing.
         case existing of
           None \<Rightarrow> (Inr \<lparr>do_existed = False, do_releasedBlobId = None, do_releasedBytes = 0\<rparr>, s)
         | Some object \<Rightarrow>
             db_write R (writeOptionsFor durability)
               [Delete storedKey, Put (orphan_key (o_blobId object)) (orphanValue (clock 0))] s
               (\<lambda>s. (Inr \<lparr>do_existed = True, do_releasedBlobId = Some (o_blobId object),
                        do_releasedBytes = o_size object\<rparr>,
                     s\<lparr>s_objects := s_objects s - 1, s_bytes := s_bytes s - o_size object,
                       s_orphans := s_orphans s + 1\<rparr>))))"

section \<open>Multipart uploads\<close>

definition kMaxPartNumber :: u32 where
  "kMaxPartNumber = 10000"

record PutPartOutcome =
  pp_releasedBlobId :: "string option"
  pp_replacedBytes :: u64

record AbortOutcome =
  ao_releasedBlobIds :: "string list"
  ao_releasedBytes :: u64
  ao_bucket :: string

record CompleteOutcome =
  co_releasedBlobId :: "string option"
  co_replacedBytes :: u64
  co_releasedPartBlobIds :: "string list"
  co_releasedPartBytes :: u64

definition createUpload :: "'db rocksdb \<Rightarrow> UploadRecord \<Rightarrow> ('db, unit) op" where
  "createUpload R upload s =
     attempt (requireBucket R (s_db s) (up_bucket upload)) s (\<lambda>_.
       db_write R (s_syncWrites s)
         [Put (uploadById (up_uploadId upload)) (encodeUpload upload),
          Put (uploadByKey (up_bucket upload) (up_key upload) (up_uploadId upload)) []] s
         (\<lambda>s. (Inr (), s\<lparr>s_uploads := s_uploads s + 1\<rparr>)))"

definition getUpload :: "'db rocksdb \<Rightarrow> string \<Rightarrow> 'db store \<Rightarrow> exn + UploadRecord option" where
  "getUpload R uploadId s = loadUpload R (s_db s) uploadId"

definition putPart ::
    "'db rocksdb \<Rightarrow> clock \<Rightarrow> string \<Rightarrow> PartRecord \<Rightarrow> Durability \<Rightarrow> ('db, PutPartOutcome) op" where
  "putPart R clock uploadId part durability s =
     (if p_partNumber part = 0 \<or> p_partNumber part > kMaxPartNumber
      then (Inl (StorageError InvalidPart), s)
      else
        let storedKey = part_key uploadId (p_partNumber part) in
        attempt (loadUpload R (s_db s) uploadId) s (\<lambda>upload.
          if upload = None then (Inl (StorageError NoSuchUpload), s)
          else
            attempt (load (decodePart (p_partNumber part)) (db_get R (s_db s) storedKey)) s (\<lambda>previous.
              let outcome = \<lparr>pp_releasedBlobId = map_option p_blobId previous,
                             pp_replacedBytes = (case previous of Some p \<Rightarrow> p_size p | None \<Rightarrow> 0)\<rparr>;
                  batch = [Put storedKey (encodePart part), Delete (orphan_key (p_blobId part))] @
                    (case pp_releasedBlobId outcome of
                       None \<Rightarrow> []
                     | Some blobId \<Rightarrow> [Put (orphan_key blobId) (orphanValue (clock 0))]);
                  s = s\<lparr>s_orphans := s_orphans s - 1\<rparr>;
                  s = (if previous = None then s else s\<lparr>s_orphans := s_orphans s + 1\<rparr>)
              in db_write R (writeOptionsFor durability) batch s (\<lambda>s. (Inr outcome, s)))))"

definition listParts :: "'db rocksdb \<Rightarrow> string \<Rightarrow> 'db store \<Rightarrow> exn + PartRecord list" where
  "listParts R uploadId s =
     (case loadUpload R (s_db s) uploadId of
        Inl e \<Rightarrow> Inl e
      | Inr None \<Rightarrow> Inl (StorageError NoSuchUpload)
      | Inr (Some _) \<Rightarrow> collectParts R (s_db s) uploadId)"

text \<open>
  Retiring an upload: every part row goes and its payload is queued, then the two upload
  rows go. \<open>first\<close> is the index of the clock reading the first part takes.
\<close>

definition retire_parts :: "clock \<Rightarrow> nat \<Rightarrow> string \<Rightarrow> PartRecord list \<Rightarrow> batch_op list" where
  "retire_parts clock first uploadId parts =
     concat (map (\<lambda>(i, part).
       [Delete (part_key uploadId (p_partNumber part)),
        Put (orphan_key (p_blobId part)) (orphanValue (clock i))])
       (enumerate first parts))"

definition retire_upload :: "UploadRecord \<Rightarrow> string \<Rightarrow> batch_op list" where
  "retire_upload upload uploadId =
     [Delete (uploadById uploadId), Delete (uploadByKey (up_bucket upload) (up_key upload) uploadId)]"

definition part_bytes :: "PartRecord list \<Rightarrow> u64" where
  "part_bytes parts = foldl (\<lambda>n part. n + p_size part) 0 parts"

definition abortUpload :: "'db rocksdb \<Rightarrow> clock \<Rightarrow> string \<Rightarrow> Durability \<Rightarrow> ('db, AbortOutcome) op" where
  "abortUpload R clock uploadId durability s =
     attempt (loadUpload R (s_db s) uploadId) s (\<lambda>found.
       case found of
         None \<Rightarrow> (Inl (StorageError NoSuchUpload), s)
       | Some upload \<Rightarrow>
           attempt (collectParts R (s_db s) uploadId) s (\<lambda>parts.
             let outcome = \<lparr>ao_releasedBlobIds = map p_blobId parts,
                            ao_releasedBytes = part_bytes parts, ao_bucket = up_bucket upload\<rparr>
             in db_write R (writeOptionsFor durability)
                  (retire_parts clock 0 uploadId parts @ retire_upload upload uploadId) s
                  (\<lambda>s. (Inr outcome,
                     s\<lparr>s_uploads := s_uploads s - 1,
                       s_orphans := s_orphans s + of_nat (length (ao_releasedBlobIds outcome))\<rparr>))))"

definition completeUpload ::
    "'db rocksdb \<Rightarrow> clock \<Rightarrow> string \<Rightarrow> string \<Rightarrow> ObjectRecord \<Rightarrow> Durability \<Rightarrow>
     ('db, CompleteOutcome) op" where
  "completeUpload R clock bucket uploadId object durability s =
     attempt (requireBucket R (s_db s) bucket) s (\<lambda>_.
     attempt (loadUpload R (s_db s) uploadId) s (\<lambda>found.
       case found of
         None \<Rightarrow> (Inl (StorageError NoSuchUpload), s)
       | Some upload \<Rightarrow>
           let storedKey = object_key bucket (o_key object) in
           attempt (loadObject R (s_db s) storedKey (o_key object)) s (\<lambda>previous.
             let released = map_option o_blobId previous;
                 s = replace_counters previous s
             in attempt (collectParts R (s_db s) uploadId) s (\<lambda>parts.
                  let outcome = \<lparr>co_releasedBlobId = released,
                        co_replacedBytes = (case previous of Some p \<Rightarrow> o_size p | None \<Rightarrow> 0),
                        co_releasedPartBlobIds = map p_blobId parts,
                        co_releasedPartBytes = part_bytes parts\<rparr>
                  in db_write R (writeOptionsFor durability)
                       (publish_batch storedKey object released (clock 0) @
                        retire_parts clock (if released = None then 0 else 1) uploadId parts @
                        retire_upload upload uploadId) s
                       (\<lambda>s. (Inr outcome,
                          s\<lparr>s_bytes := s_bytes s + o_size object, s_uploads := s_uploads s - 1,
                            s_orphans := s_orphans s +
                              of_nat (length (co_releasedPartBlobIds outcome))\<rparr>))))))"

section \<open>Reclamation\<close>

definition trackBlob :: "'db rocksdb \<Rightarrow> clock \<Rightarrow> string \<Rightarrow> ('db, unit) op" where
  "trackBlob R clock blobId s =
     db_write R (s_syncWrites s) [Put (orphan_key blobId) (orphanValue (clock 0))] s
       (\<lambda>s. (Inr (), s\<lparr>s_orphans := s_orphans s + 1\<rparr>))"

fun orphan_rows :: "nat \<Rightarrow> TimestampMs \<Rightarrow> entries \<Rightarrow> string list" where
  "orphan_rows 0 queuedAtOrBefore es = []"
| "orphan_rows (Suc n) queuedAtOrBefore [] = []"
| "orphan_rows (Suc n) queuedAtOrBefore ((key, v) # es) =
     (if \<not> prefix orphanPrefix key then []
      else if sint (decodeOrphanQueuedAt v) > sint queuedAtOrBefore
      then orphan_rows (Suc n) queuedAtOrBefore es
      else drop (length orphanPrefix) key # orphan_rows n queuedAtOrBefore es)"

definition listOrphans :: "'db rocksdb \<Rightarrow> nat \<Rightarrow> TimestampMs \<Rightarrow> 'db store \<Rightarrow> exn + string list" where
  "listOrphans R limit queuedAtOrBefore s =
     (if limit = 0 then Inr []
      else case rk_seek R (s_db s) (upperBound orphanPrefix) orphanPrefix of (es, status) \<Rightarrow>
        let blobIds = orphan_rows limit queuedAtOrBefore es in
        case check status of Some e \<Rightarrow> Inl e | None \<Rightarrow> Inr blobIds)"

definition forgetOrphans :: "'db rocksdb \<Rightarrow> string list \<Rightarrow> ('db, unit) op" where
  "forgetOrphans R blobIds s =
     (if blobIds = [] then (Inr (), s)
      else db_write R (s_syncWrites s) (map (\<lambda>blobId. Delete (orphan_key blobId)) blobIds) s
        (\<lambda>s. let current = s_orphans s; removed = of_nat (length blobIds) in
          (Inr (), s\<lparr>s_orphans := (if current > removed then current - removed else 0)\<rparr>)))"

section \<open>Counters\<close>

definition usage :: "'db store \<Rightarrow> UsageStats" where
  "usage s = \<lparr>us_buckets = s_buckets s, us_objects = s_objects s, us_bytes = s_bytes s,
     us_uploads = s_uploads s, us_orphanBlobs = s_orphans s\<rparr>"

definition bucketCharges :: "'db store \<Rightarrow> (string \<times> BucketCharge) list" where
  "bucketCharges s = s_charges s"

section \<open>Opening\<close>

text \<open>
  \<open>std::strtoull(stored.c_str(), nullptr, 10)\<close>: white space, a sign, digits up to the first
  other character, saturation at the top, negation modulo \<open>2^64\<close>.
\<close>

definition strtoull :: "string \<Rightarrow> u64" where
  "strtoull stored =
     (let s = dropWhile isspace (takeWhile (\<lambda>c. c \<noteq> NUL) stored);
          negative = (s \<noteq> [] \<and> hd s = CHR ''-'');
          s = (if s \<noteq> [] \<and> (hd s = CHR ''-'' \<or> hd s = CHR ''+'') then tl s else s);
          n = foldl (\<lambda>n c. n * 10 + (int (uchar c) - 48)) 0 (takeWhile isdigit s)
      in if n > 0xFFFFFFFFFFFFFFFF then - 1 else if negative then - of_int n else of_int n)"

definition kStorageFormatVersion :: u64 where
  "kStorageFormatVersion = 1"

text \<open>\<open>std::to_string(kStorageFormatVersion)\<close> is \<open>"1"\<close>.\<close>

definition format_version_key :: string where
  "format_version_key = meta_key ''format-version''"

definition verifyFormatVersion :: "'db rocksdb \<Rightarrow> ('db, unit) op" where
  "verifyFormatVersion R s =
     attempt (db_get R (s_db s) format_version_key) s (\<lambda>stored.
       case stored of
         None \<Rightarrow>
           db_write R (s_syncWrites s) [Put format_version_key ''1''] s (\<lambda>s. (Inr (), s))
       | Some v \<Rightarrow>
           if strtoull v \<noteq> kStorageFormatVersion then (Inl (StorageError Corruption), s)
           else (Inr (), s))"

text \<open>
  What the startup scan collects: the tallies, the bytes of the parts per upload and the
  bucket of each upload, which are joined once the scan is done, and the charges.
\<close>

record seed =
  sd_buckets :: u64
  sd_objects :: u64
  sd_bytes :: u64
  sd_uploads :: u64
  sd_orphans :: u64
  sd_partBytesByUpload :: "(string \<times> u64) list"
  sd_bucketByUpload :: "(string \<times> string) list"
  sd_charges :: "(string \<times> BucketCharge) list"

definition no_charge :: BucketCharge where
  "no_charge = \<lparr>bc_objectBytes = 0, bc_partBytes = 0\<rparr>"

definition seed0 :: seed where
  "seed0 = \<lparr>sd_buckets = 0, sd_objects = 0, sd_bytes = 0, sd_uploads = 0, sd_orphans = 0,
     sd_partBytesByUpload = [], sd_bucketByUpload = [], sd_charges = []\<rparr>"

text \<open>\<open>stored.find(kSeparator, 1)\<close> and \<open>stored.substr(1, separator - 1)\<close>.\<close>

definition first_component :: "string \<Rightarrow> string option" where
  "first_component stored =
     (if kSeparator \<in> set (tl stored) then Some (takeWhile (\<lambda>c. c \<noteq> kSeparator) (tl stored)) else None)"

text \<open>The blob id and the size in front of a part row or an object row.\<close>

definition stored_size :: "string \<Rightarrow> exn + u64" where
  "stored_size v =
     rbind (expectVersion v) (\<lambda>_ r. rbind (reader_string r) (\<lambda>_ r. rbind (reader_varint r) (\<lambda>n _. Inr n)))"

definition seed_row :: "string \<Rightarrow> string \<Rightarrow> seed \<Rightarrow> exn + seed" where
  "seed_row stored v sd =
     (if stored = [] then Inr sd
      else if hd stored = kBucket then
        Inr (sd\<lparr>sd_buckets := sd_buckets sd + 1,
          sd_charges := AList.map_default (tl stored) no_charge (\<lambda>c. c) (sd_charges sd)\<rparr>)
      else if hd stored = kUploadById then
        (case decodeUpload (tl stored) v of
           Inl e \<Rightarrow> Inl e
         | Inr upload \<Rightarrow>
             Inr (sd\<lparr>sd_uploads := sd_uploads sd + 1,
               sd_bucketByUpload := AList.update (tl stored) (up_bucket upload) (sd_bucketByUpload sd)\<rparr>))
      else if hd stored = kOrphan then Inr (sd\<lparr>sd_orphans := sd_orphans sd + 1\<rparr>)
      else if hd stored = kPart then
        (case first_component stored of
           None \<Rightarrow> Inr sd
         | Some uploadId \<Rightarrow>
             (case stored_size v of
                Inl e \<Rightarrow> Inl e
              | Inr n \<Rightarrow> Inr (sd\<lparr>sd_partBytesByUpload :=
                  AList.map_default uploadId n (\<lambda>b. b + n) (sd_partBytesByUpload sd)\<rparr>)))
      else if hd stored = kObject then
        (case stored_size v of
           Inl e \<Rightarrow> Inl e
         | Inr n \<Rightarrow>
             let sd = sd\<lparr>sd_objects := sd_objects sd + 1, sd_bytes := sd_bytes sd + n\<rparr> in
             (case first_component stored of
                None \<Rightarrow> Inr sd
              | Some bucket \<Rightarrow> Inr (sd\<lparr>sd_charges :=
                  AList.map_default bucket (no_charge\<lparr>bc_objectBytes := n\<rparr>)
                    (\<lambda>c. c\<lparr>bc_objectBytes := bc_objectBytes c + n\<rparr>) (sd_charges sd)\<rparr>)))
      else Inr sd)"

fun seed_rows :: "entries \<Rightarrow> seed \<Rightarrow> exn + seed" where
  "seed_rows [] sd = Inr sd"
| "seed_rows ((stored, v) # es) sd =
     (case seed_row stored v sd of Inl e \<Rightarrow> Inl e | Inr sd \<Rightarrow> seed_rows es sd)"

text \<open>An upload row that is gone while its parts remain charges nobody.\<close>

definition join_parts :: "seed \<Rightarrow> (string \<times> BucketCharge) list" where
  "join_parts sd =
     foldl (\<lambda>charges (uploadId, n).
       case map_of (sd_bucketByUpload sd) uploadId of
         None \<Rightarrow> charges
       | Some bucket \<Rightarrow>
           AList.map_default bucket (no_charge\<lparr>bc_partBytes := n\<rparr>)
             (\<lambda>c. c\<lparr>bc_partBytes := bc_partBytes c + n\<rparr>) charges)
       (sd_charges sd) (sd_partBytesByUpload sd)"

definition seedAuditSequence :: "'db rocksdb \<Rightarrow> ('db, unit) op" where
  "seedAuditSequence R s =
     (case rk_seek_for_prev R (s_db s) (audit_key (- 1)) of (es, status) \<Rightarrow>
        let s = (case es of
              [] \<Rightarrow> s
            | (key, _) # _ \<Rightarrow>
                (case auditSequence key of
                   None \<Rightarrow> s
                 | Some sequence \<Rightarrow> s\<lparr>s_auditSequence := sequence\<rparr>))
        in case check status of Some e \<Rightarrow> (Inl e, s) | None \<Rightarrow> (Inr (), s))"

definition seedCounters :: "'db rocksdb \<Rightarrow> ('db, unit) op" where
  "seedCounters R s =
     (case rk_seek R (s_db s) None [] of (es, status) \<Rightarrow>
        attempt (seed_rows es seed0) s (\<lambda>sd.
          case check status of
            Some e \<Rightarrow> (Inl e, s)
          | None \<Rightarrow>
              let s = s\<lparr>s_charges := join_parts sd\<rparr> in
              (case seedAuditSequence R s of
                 (Inl e, s) \<Rightarrow> (Inl e, s)
               | (Inr _, s) \<Rightarrow>
                   (Inr (), s\<lparr>s_buckets := sd_buckets sd, s_objects := sd_objects sd,
                      s_bytes := sd_bytes sd, s_uploads := sd_uploads sd,
                      s_orphans := sd_orphans sd\<rparr>))))"

text \<open>The constructor, on the database \<open>DB::Open\<close> returned.\<close>

definition openRocksMetadataStore :: "'db rocksdb \<Rightarrow> bool \<Rightarrow> 'db \<Rightarrow> (exn + unit) \<times> 'db store" where
  "openRocksMetadataStore R syncWrites db =
     (let s = \<lparr>s_db = db, s_syncWrites = syncWrites, s_auditSequence = 0, s_charges = [],
               s_buckets = 0, s_objects = 0, s_bytes = 0, s_uploads = 0, s_orphans = 0\<rparr>
      in case verifyFormatVersion R s of
           (Inl e, s) \<Rightarrow> (Inl e, s)
         | (Inr _, s) \<Rightarrow> seedCounters R s)"

end
