(* ===== verification/Store_Facts.thy ===== *)
theory Store_Facts
  imports Metadata_Store
begin

text \<open>
  What the operations of the metadata store do to the key-value content, and with it the
  functional behaviour of buckets, accounts, access keys and objects: what is put is what is
  read back, other rows stay, the error branches leave the content alone.

  The locale \<open>row_store\<close> is the contract of a table of records inside the keyspace: keys are
  distinct and decoding inverts encoding. It is interpreted on the tables of the store.
\<close>

section \<open>Reads\<close>

abbreviation content :: "('db \<Rightarrow> (string, string) omap) \<Rightarrow> 'db store \<Rightarrow> string \<rightharpoonup> string" where
  "content view s \<equiv> map_of (view (s_db s))"

lemma check_None [simp]: "check st = None \<longleftrightarrow> st = StatusOk"
  by (cases st) simp_all

lemma db_get_Inr:
  assumes "rocks_laws R view" "db_get R db k = Inr x"
  shows "x = map_of (view db) k"
  using assms rocks_get_Ok [OF assms(1), of db k] rocks_get_NotFound [OF assms(1), of db k]
  by (cases "rk_get R db k") (auto simp: db_get_def split: if_splits option.splits)

lemma db_get_healthy:
  assumes "rocks_laws R view" "rocks_healthy R"
  shows "db_get R db k = Inr (map_of (view db) k)"
proof -
  have "fst (rk_get R db k) \<in> {StatusOk, StatusNotFound}"
    using assms(2) by (simp add: rocks_healthy_def)
  then have "\<exists>x. db_get R db k = Inr x"
    by (cases "rk_get R db k") (auto simp: db_get_def)
  with db_get_Inr [OF assms(1)] show ?thesis by blast
qed

definition load_row :: "(string \<Rightarrow> exn + 'a) \<Rightarrow> string option \<Rightarrow> exn + 'a option" where
  "load_row decode row =
     (case row of
        None \<Rightarrow> Inr None
      | Some stored \<Rightarrow> (case decode stored of Inl e \<Rightarrow> Inl e | Inr x \<Rightarrow> Inr (Some x)))"

lemma load_Inr [simp]: "load decode (Inr row) = load_row decode row" "load decode (Inl e) = Inl e"
  by (simp_all add: load_def load_row_def split: option.splits)

lemma load_eq_Inr:
  "load decode got = Inr x \<longleftrightarrow> (\<exists>row. got = Inr row \<and> load_row decode row = Inr x)"
  by (cases got) auto

lemma load_row_eq_Some:
  "load_row decode row = Inr (Some x) \<longleftrightarrow> (\<exists>v. row = Some v \<and> decode v = Inr x)"
  by (auto simp: load_row_def split: option.splits sum.splits)

lemma load_row_eq_None: "load_row decode row = Inr None \<longleftrightarrow> row = None"
  by (auto simp: load_row_def split: option.splits sum.splits)

lemmas load_row_eqs = load_row_eq_Some load_row_eq_None

lemma seek_healthy:
  assumes "rocks_laws R view" "rocks_healthy R"
  shows "rk_seek R db upper target = (seek_entries (view db) upper target, StatusOk)"
proof -
  have "snd (rk_seek R db upper target) = StatusOk"
    using assms(2) by (simp add: rocks_healthy_def)
  then show ?thesis
    using rocks_seek_Ok [OF assms(1), of db upper target] by (metis prod.collapse)
qed

lemma seek_back_healthy:
  assumes "rocks_laws R view" "rocks_healthy R"
  shows "rk_seek_for_prev R db target = (seek_back_entries (view db) target, StatusOk)"
proof -
  have "snd (rk_seek_for_prev R db target) = StatusOk"
    using assms(2) by (simp add: rocks_healthy_def)
  then show ?thesis
    using rocks_seek_back_Ok [OF assms(1), of db target] by (metis prod.collapse)
qed

section \<open>Writes\<close>

lemma content_db [simp]: "s_db (replace_counters previous s) = s_db s"
  by (simp add: replace_counters_def split: option.splits)

lemma db_write_Inr:
  assumes "rocks_laws R view" "db_write R sync batch s k = (Inr x, s')"
  obtains db' where "view db' = apply_batch batch (view (s_db s))"
    "k (s\<lparr>s_db := db'\<rparr>) = (Inr x, s')"
  using assms(2) rocks_write_Ok [OF assms(1), of "s_db s" sync batch]
  by (cases "rk_write R (s_db s) sync batch") (auto simp: db_write_def Let_def split: option.splits)

lemma db_write_healthy:
  assumes "rocks_laws R view" "rocks_healthy R"
  obtains db' where "view db' = apply_batch batch (view (s_db s))"
    "db_write R sync batch s k = k (s\<lparr>s_db := db'\<rparr>)"
proof -
  obtain db' where "rk_write R (s_db s) sync batch = (StatusOk, db')"
    using assms(2) by (metis prod.collapse rocks_healthy_def)
  with rocks_write_Ok [OF assms(1) this] that show thesis
    by (simp add: db_write_def)
qed

text \<open>However the write ends, it is applied as a whole or not at all.\<close>

lemma db_write_any:
  assumes "rocks_laws R view" "db_write R sync batch s k = (r, s')"
    and "\<And>s. s_db (snd (k s)) = s_db s"
  shows "view (s_db s') = view (s_db s) \<or> view (s_db s') = apply_batch batch (view (s_db s))"
proof -
  obtain st db' where w: "rk_write R (s_db s) sync batch = (st, db')"
    by (cases "rk_write R (s_db s) sync batch") auto
  have "s_db s' = db'"
  proof (cases "check st")
    case None
    with assms(2) have "s' = snd (k (s\<lparr>s_db := db'\<rparr>))"
      by (simp add: db_write_def w)
    then show ?thesis by (simp add: assms(3))
  next
    case (Some e)
    with assms(2) show ?thesis by (auto simp: db_write_def w)
  qed
  with rocks_write_any [OF assms(1) w] show ?thesis by simp
qed

lemma content_batch:
  assumes "rocks_laws R view" "view db' = apply_batch batch (view db)"
  shows "map_of (view db') = fold op_result batch (map_of (view db))"
  using assms by (simp add: map_of_apply_batch rocks_laws_omap_ok)

section \<open>Keys of different tables\<close>

lemma tag_distinct:
  "distinct [kBucket, kObject, kUploadByKey, kUploadById, kPart, kOrphan, kMeta, kAccessKey, kUser,
     kAudit]"
  by (simp add: tag_defs)

lemma keys_of_tables_differ [simp]:
  "object_key b k \<noteq> orphan_key i" "orphan_key i \<noteq> object_key b k"
  "object_key b k \<noteq> bucket_key n" "bucket_key n \<noteq> object_key b k"
  "object_key b k \<noteq> part_key u p" "part_key u p \<noteq> object_key b k"
  "object_key b k \<noteq> uploadById u" "uploadById u \<noteq> object_key b k"
  "object_key b k \<noteq> uploadByKey b' k' u" "uploadByKey b' k' u \<noteq> object_key b k"
  "part_key u p \<noteq> orphan_key i" "orphan_key i \<noteq> part_key u p"
  "part_key u p \<noteq> bucket_key n" "bucket_key n \<noteq> part_key u p"
  "part_key u p \<noteq> uploadById u'" "uploadById u' \<noteq> part_key u p"
  "part_key u p \<noteq> uploadByKey b' k' u'" "uploadByKey b' k' u' \<noteq> part_key u p"
  "orphan_key i \<noteq> bucket_key n" "bucket_key n \<noteq> orphan_key i"
  "orphan_key i \<noteq> uploadById u" "uploadById u \<noteq> orphan_key i"
  "orphan_key i \<noteq> uploadByKey b' k' u" "uploadByKey b' k' u \<noteq> orphan_key i"
  "bucket_key n \<noteq> uploadById u" "uploadById u \<noteq> bucket_key n"
  "bucket_key n \<noteq> uploadByKey b' k' u" "uploadByKey b' k' u \<noteq> bucket_key n"
  "uploadById u \<noteq> uploadByKey b' k' u'" "uploadByKey b' k' u' \<noteq> uploadById u"
  by (simp_all add: key_defs tag_defs appendBigEndian32_def)

lemma hd_keys [simp]:
  "hd (object_key b k) = kObject" "hd (part_key u p) = kPart" "hd (orphan_key i) = kOrphan"
  "hd (bucket_key n) = kBucket" "hd (uploadById u) = kUploadById"
  "hd (uploadByKey b k u) = kUploadByKey"
  by (simp_all add: key_defs appendBigEndian32_def)

lemma keys_nonempty [simp]:
  "object_key b k \<noteq> []" "part_key u p \<noteq> []" "orphan_key i \<noteq> []" "bucket_key n \<noteq> []"
  "uploadById u \<noteq> []" "uploadByKey b k u \<noteq> []"
  by (simp_all add: key_defs appendBigEndian32_def)

lemma orphan_key_inject [simp]: "orphan_key i = orphan_key j \<longleftrightarrow> i = j"
  and bucket_key_inject [simp]: "bucket_key i = bucket_key j \<longleftrightarrow> i = j"
  and uploadById_inject [simp]: "uploadById i = uploadById j \<longleftrightarrow> i = j"
  and user_key_inject [simp]: "user_key i = user_key j \<longleftrightarrow> i = j"
  and accessKey_key_inject [simp]: "accessKey_key i = accessKey_key j \<longleftrightarrow> i = j"
  by (simp_all add: key_defs)

lemma part_key_inject_same [simp]: "part_key u p = part_key u q \<longleftrightarrow> p = q"
  by (simp add: part_key_def appendBigEndian32_eq be32.enc_inject)

lemma part_key_inject:
  "NUL \<notin> set u \<Longrightarrow> NUL \<notin> set v \<Longrightarrow> part_key u p = part_key v q \<longleftrightarrow> u = v \<and> p = q"
  by (simp add: part_key_def partPrefix_def appendBigEndian32_eq kSeparator_def component_inject
      be32.enc_inject)

section \<open>Tables\<close>

text \<open>
  A table whose keys come from names and whose rows decode back: after a successful write
  of one row, that row is read back and every other row is what it was.
\<close>

locale row_store =
  fixes key :: "'n \<Rightarrow> string"
    and name :: "'r \<Rightarrow> 'n"
    and enc :: "'r \<Rightarrow> string"
    and dec :: "'n \<Rightarrow> string \<Rightarrow> exn + 'r"
    and ok :: "'r \<Rightarrow> bool"
  assumes key_inject: "key a = key b \<longleftrightarrow> a = b"
    and dec_enc: "ok r \<Longrightarrow> dec (name r) (enc r) = Inr r"
begin

lemma read_written:
  assumes "rocks_laws R view" "rocks_healthy R" "ok r"
    and "view db' = apply_batch [Put (key (name r)) (enc r)] (view db)"
  shows "load (dec n) (db_get R db' (key n)) =
    (if n = name r then Inr (Some r) else load (dec n) (db_get R db (key n)))"
  using assms content_batch [OF assms(1,4)]
  by (auto simp: db_get_healthy key_inject load_row_def dec_enc)

lemma read_deleted:
  assumes "rocks_laws R view" "rocks_healthy R"
    and "view db' = apply_batch [Delete (key a)] (view db)"
  shows "load (dec n) (db_get R db' (key n)) =
    (if n = a then Inr None else load (dec n) (db_get R db (key n)))"
  using assms content_batch [OF assms(1,3)]
  by (auto simp: db_get_healthy key_inject load_row_def)

end

lemmas decode_encode_exact =
  decodeBucket_encodeBucket [where newer = "[]", simplified]
  decodeUser_encodeUser [where newer = "[]", simplified]
  decodeAccessKey_encodeAccessKey [where newer = "[]", simplified]
  decodeObject_encodeObject [where newer = "[]", simplified]
  decodeUpload_encodeUpload [where newer = "[]", simplified]
  decodePart_encodePart [where newer = "[]", simplified]
  decodeAdmin_encodeAdmin [where newer = "[]", simplified]
  decodeSettings_encodeSettings [where newer = "[]", simplified]
  decodeAudit_encodeAudit [where newer = "[]", simplified]

interpretation bucket_table: row_store bucket_key b_name encodeBucket decodeBucket bucket_ok
  by unfold_locales (simp_all add: decode_encode_exact)

interpretation user_table: row_store user_key u_username encodeUser decodeUser user_ok
  by unfold_locales (simp_all add: decode_encode_exact)

interpretation access_key_table:
  row_store accessKey_key k_accessKeyId encodeAccessKey decodeAccessKey access_key_ok
  by unfold_locales (simp_all add: decode_encode_exact)

interpretation upload_table:
  row_store uploadById up_uploadId encodeUpload decodeUpload upload_ok
  by unfold_locales (simp_all add: decode_encode_exact)

end
