(* ===== verification/Scans.thy ===== *)
theory Scans
  imports Store_Facts
begin

text \<open>
  What the prefix scans of the metadata store return: exactly the rows under the prefix, in
  key order, each decoded; a row that does not decode fails the whole scan.
\<close>

lemma visit_rows_Inr:
  assumes "\<forall>(k, v)\<in>set es. prefix p k" "visit_rows p f es = Inr rows"
  shows "\<exists>os. list_all2 (\<lambda>(k, v) x. f k v = Inr x) es os \<and> rows = map the (filter (\<lambda>x. x \<noteq> None) os)"
  using assms
proof (induction es arbitrary: rows)
  case Nil
  then show ?case by simp
next
  case (Cons e es)
  obtain k v where e: "e = (k, v)" by (cases e)
  with Cons.prems obtain row rows' where row: "f k v = Inr row" "visit_rows p f es = Inr rows'"
    and rows: "rows = (case row of None \<Rightarrow> rows' | Some x \<Rightarrow> x # rows')"
    by (auto split: sum.splits)
  with Cons e obtain os where "list_all2 (\<lambda>(k, v) x. f k v = Inr x) es os"
    "rows' = map the (filter (\<lambda>x. x \<noteq> None) os)"
    by fastforce
  with e row rows show ?case
    by (intro exI [of _ "row # os"]) (auto split: option.splits)
qed

lemma visit_rows_set:
  assumes "\<forall>(k, v)\<in>set es. prefix p k" "visit_rows p f es = Inr rows"
  shows "x \<in> set rows \<longleftrightarrow> (\<exists>k v. (k, v) \<in> set es \<and> f k v = Inr (Some x))"
    and "(k, v) \<in> set es \<Longrightarrow> \<exists>row. f k v = Inr row"
proof -
  obtain os where os: "list_all2 (\<lambda>(k, v) x. f k v = Inr x) es os"
    and rows: "rows = map the (filter (\<lambda>x. x \<noteq> None) os)"
    using visit_rows_Inr [OF assms] by blast
  have "x \<in> set rows \<longleftrightarrow> Some x \<in> set os"
    by (auto simp: rows image_iff)
  also have "\<dots> \<longleftrightarrow> (\<exists>k v. (k, v) \<in> set es \<and> f k v = Inr (Some x))"
    using os by (induction es os rule: list_all2_induct) auto
  finally show "x \<in> set rows \<longleftrightarrow> (\<exists>k v. (k, v) \<in> set es \<and> f k v = Inr (Some x))" .
  show "\<exists>row. f k v = Inr row" if "(k, v) \<in> set es"
    using os that by (induction es os rule: list_all2_induct) auto
qed

text \<open>When every row under the prefix counts and decodes, the scan is the map over the rows.\<close>

lemma visit_rows_map:
  "\<forall>(k, v)\<in>set es. prefix p k \<and> f k v = Inr (Some (g (k, v))) \<Longrightarrow> visit_rows p f es = Inr (map g es)"
  by (induction es) auto

lemma scan_rows_Inr:
  assumes "rocks_laws R view" "upperBound p \<noteq> None" "scan_rows R db p f = Inr rows"
  shows "visit_rows p f (filter (\<lambda>(k, _). prefix p k) (view db)) = Inr rows"
proof -
  obtain u where u: "upperBound p = Some u"
    using assms(2) by blast
  obtain es st where es: "rk_seek R db (Some u) p = (es, st)"
    by (cases "rk_seek R db (Some u) p")
  with assms(3) u have "visit_rows p f es = Inr rows" "st = StatusOk"
    by (auto simp: scan_rows_def split: sum.splits option.splits)
  moreover have "es = seek_entries (view db) (Some u) p"
    using rocks_seek_Ok [OF assms(1)] es calculation(2) by blast
  ultimately show ?thesis
    using seek_entries_prefix [OF u] by simp
qed

lemma scan_rows_healthy:
  assumes "rocks_laws R view" "rocks_healthy R" "upperBound p \<noteq> None"
  shows "scan_rows R db p f = visit_rows p f (filter (\<lambda>(k, _). prefix p k) (view db))"
proof -
  obtain u where u: "upperBound p = Some u"
    using assms(3) by blast
  then show ?thesis
    by (simp add: scan_rows_def seek_healthy [OF assms(1,2)] seek_entries_prefix [OF u]
        split: sum.splits)
qed

lemma hasAny_Inr:
  assumes "rocks_laws R view" "upperBound p \<noteq> None" "hasAny R db p = Inr found"
  shows "found \<longleftrightarrow> (\<exists>k v. map_of (view db) k = Some v \<and> prefix p k)"
proof -
  obtain u where u: "upperBound p = Some u"
    using assms(2) by blast
  obtain es st where es: "rk_seek R db (Some u) p = (es, st)"
    by (cases "rk_seek R db (Some u) p")
  with assms(3) u have "st = StatusOk"
    and found: "found = (case es of [] \<Rightarrow> False | (key, _) # _ \<Rightarrow> prefix p key)"
    by (auto simp: hasAny_def split: option.splits)
  with rocks_seek_Ok [OF assms(1)] es have "es = filter (\<lambda>(k, _). prefix p k) (view db)"
    using seek_entries_prefix [OF u] by blast
  then have set: "set es = {(k, v). map_of (view db) k = Some v \<and> prefix p k}"
    using omap_set_eq [OF rocks_laws_omap_ok [OF assms(1)], of db] by auto
  show ?thesis
  proof (cases es)
    case Nil
    with set found show ?thesis by auto
  next
    case (Cons e es')
    then have "e \<in> set es" by simp
    with set found Cons show ?thesis by (auto split: prod.splits)
  qed
qed

lemma hasAny_healthy:
  assumes "rocks_laws R view" "rocks_healthy R" "upperBound p \<noteq> None"
  shows "hasAny R db p = Inr (\<exists>k v. map_of (view db) k = Some v \<and> prefix p k)"
proof -
  obtain u where "upperBound p = Some u"
    using assms(3) by blast
  then have "\<exists>found. hasAny R db p = Inr found"
    by (simp add: hasAny_def seek_healthy [OF assms(1,2)] Let_def)
  with hasAny_Inr [OF assms(1,3)] show ?thesis by auto
qed

lemma table_prefix_bounded [simp]:
  "upperBound (objectPrefix b) \<noteq> None" "upperBound (objectPrefix b @ x) \<noteq> None"
  "upperBound (uploadByKeyPrefix b) \<noteq> None"
  "upperBound (partPrefix u) \<noteq> None" "upperBound bucketPrefix \<noteq> None" "upperBound userPrefix \<noteq> None"
  "upperBound accessKeyPrefix \<noteq> None" "upperBound orphanPrefix \<noteq> None"
  unfolding objectPrefix_def uploadByKeyPrefix_def partPrefix_def bucketPrefix_def userPrefix_def
    accessKeyPrefix_def orphanPrefix_def append_Cons
  by (rule upperBound_tagged, simp add: tag_defs uchar_def)+

section \<open>The parts of an upload\<close>

lemma partPrefix_part_key: "prefix (partPrefix u) k \<Longrightarrow> partNumber k u = Some n \<longleftrightarrow> k = part_key u n"
  by (simp add: partNumber_eq_Some)

lemma decodePart_number: "decodePart n v = Inr p \<Longrightarrow> p_partNumber p = n"
  by (auto simp: decodePart_def rbind_eq_Inr)

lemma collectParts_set:
  assumes "rocks_laws R view" "collectParts R db u = Inr parts"
  shows "p \<in> set parts \<longleftrightarrow>
      (\<exists>v. map_of (view db) (part_key u (p_partNumber p)) = Some v \<and> decodePart (p_partNumber p) v = Inr p)"
    and "map_of (view db) (part_key u n) = Some v \<Longrightarrow> \<exists>p. decodePart n v = Inr p"
proof -
  let ?es = "filter (\<lambda>(k, _). prefix (partPrefix u) k) (view db)"
  have rows: "visit_rows (partPrefix u) (decode_part_row u) ?es = Inr parts"
    using assms by (intro scan_rows_Inr) (simp_all add: collectParts_def)
  have all: "\<forall>(k, v)\<in>set ?es. prefix (partPrefix u) k"
    by auto
  have in_es: "(part_key u n, v) \<in> set ?es \<longleftrightarrow> map_of (view db) (part_key u n) = Some v" for n v
    using omap_set_eq [OF rocks_laws_omap_ok [OF assms(1)], of db]
    by (auto simp: part_key_def appendBigEndian32_def)
  have row: "decode_part_row u k v = Inr (Some p) \<longleftrightarrow>
      k = part_key u (p_partNumber p) \<and> decodePart (p_partNumber p) v = Inr p" for k v
  proof (cases "partNumber k u")
    case None
    then show ?thesis by (auto simp: decode_part_row_def)
  next
    case (Some n)
    then have "k = part_key u n" by (simp add: partNumber_eq_Some)
    moreover from Some have "decode_part_row u k v = Inr (Some p) \<longleftrightarrow> decodePart n v = Inr p"
      by (simp add: decode_part_row_def split: sum.splits)
    ultimately show ?thesis
      using decodePart_number by auto
  qed
  show "p \<in> set parts \<longleftrightarrow>
      (\<exists>v. map_of (view db) (part_key u (p_partNumber p)) = Some v \<and> decodePart (p_partNumber p) v = Inr p)"
    unfolding visit_rows_set(1) [OF all rows] row in_es [symmetric] by blast
  show "\<exists>p. decodePart n v = Inr p" if "map_of (view db) (part_key u n) = Some v"
  proof -
    have "\<exists>row. decode_part_row u (part_key u n) v = Inr row"
      using that by (intro visit_rows_set(2) [OF all rows]) (simp only: in_es)
    then show ?thesis
      by (auto simp: decode_part_row_def split: sum.splits)
  qed
qed

text \<open>The parts come in ascending order of their numbers.\<close>

lemma collectParts_sorted:
  assumes "rocks_laws R view" "collectParts R db u = Inr parts"
  shows "sorted_wrt (<) (map p_partNumber parts)"
proof -
  define es where "es = filter (\<lambda>(k, _). prefix (partPrefix u) k) (view db)"
  have "visit_rows (partPrefix u) (decode_part_row u) es = Inr parts"
    using assms unfolding es_def by (intro scan_rows_Inr) (simp_all add: collectParts_def)
  moreover have "\<forall>(k, v)\<in>set es. prefix (partPrefix u) k"
    by (auto simp: es_def)
  moreover have "sorted_wrt (<) (map fst es)"
    using omap_ok_filter [OF rocks_laws_omap_ok [OF assms(1)]] by (simp add: omap_ok_def es_def)
  ultimately have "sorted_wrt (<) (map p_partNumber parts) \<and>
      (\<forall>p\<in>set parts. \<exists>(k, v)\<in>set es. k = part_key u (p_partNumber p))"
  proof (induction es arbitrary: parts)
    case Nil
    then show ?case by simp
  next
    case (Cons e es)
    obtain k v where e: "e = (k, v)" by (cases e)
    with Cons.prems obtain row rest where row: "decode_part_row u k v = Inr row"
      and rest: "visit_rows (partPrefix u) (decode_part_row u) es = Inr rest"
      and parts: "parts = (case row of None \<Rightarrow> rest | Some x \<Rightarrow> x # rest)"
      by (auto split: sum.splits)
    have IH: "sorted_wrt (<) (map p_partNumber rest) \<and>
        (\<forall>p\<in>set rest. \<exists>(k, v)\<in>set es. k = part_key u (p_partNumber p))"
      using Cons.prems by (intro Cons.IH [OF rest]) auto
    show ?case
    proof (cases row)
      case None
      with IH parts show ?thesis by auto
    next
      case (Some x)
      then have "decode_part_row u k v = Inr (Some x)" using row by simp
      then have k: "k = part_key u (p_partNumber x)"
        by (auto simp: decode_part_row_def partNumber_eq_Some split: option.splits sum.splits
            dest!: decodePart_number)
      have "p_partNumber x < p_partNumber p" if "p \<in> set rest" for p
      proof -
        from IH that obtain e' where "e' \<in> set es" "case e' of (k, v) \<Rightarrow> k = part_key u (p_partNumber p)"
          by blast
        then obtain v' where "(part_key u (p_partNumber p), v') \<in> set es"
          by (cases e') auto
        with Cons.prems e have "k < part_key u (p_partNumber p)"
          by fastforce
        then show ?thesis by (simp add: k part_key_less)
      qed
      with IH parts Some k e show ?thesis by fastforce
    qed
  qed
  then show ?thesis by blast
qed

end
