(* ===== verification/Demo.thy ===== *)
theory Demo
  imports Scans
begin

text \<open>
  Concrete states of the metadata store on the instance \<open>memory_rocks\<close>: a bucket, an object
  put into it, further payloads queued, a second object and a multipart upload with a part.
  The witnesses of the store's properties evaluate on them.
\<close>

definition demo_clock :: clock where
  "demo_clock i = 5"

text \<open>What opening a fresh database leaves: the version stamp, and nothing counted.\<close>

definition empty_store :: "batch_op list store" where
  "empty_store = \<lparr>s_db = [Put format_version_key ''1''], s_syncWrites = False,
     s_auditSequence = 0, s_charges = [], s_buckets = 0, s_objects = 0, s_bytes = 0,
     s_uploads = 0, s_orphans = 0\<rparr>"

lemma empty_store_opened: "openRocksMetadataStore memory_rocks False [] = (Inr (), empty_store)"
  by code_simp

definition demo_bucket :: BucketRecord where
  "demo_bucket = \<lparr>b_name = ''b'', b_createdAt = 1, b_publicRead = False, b_publicList = False,
     b_policy = [], b_cors = [], b_quotaBytes = 0, b_durability = None\<rparr>"

definition demo_object :: "string \<Rightarrow> string \<Rightarrow> ObjectRecord" where
  "demo_object key blobId = \<lparr>o_key = key, o_blobId = blobId, o_size = 3, o_etag = ''e'',
     o_sha256 = [], o_contentType = [], o_lastModified = 7, o_userMetadata = [],
     o_content = no_ContentHeaders, o_checksum = no_checksum\<rparr>"

definition demo_upload :: UploadRecord where
  "demo_upload = \<lparr>up_uploadId = ''u'', up_bucket = ''b'', up_key = ''m'', up_contentType = [],
     up_createdAt = 2, up_userMetadata = [], up_content = no_ContentHeaders,
     up_checksumAlgorithm = None\<rparr>"

definition demo_part :: "u32 \<Rightarrow> string \<Rightarrow> PartRecord" where
  "demo_part n blobId = \<lparr>p_partNumber = n, p_blobId = blobId, p_size = 4, p_etag = ''e'',
     p_uploadedAt = 3, p_checksum = no_checksum\<rparr>"

definition after :: "('db store \<Rightarrow> (exn + 'a) \<times> 'db store) \<Rightarrow> 'db store \<Rightarrow> 'db store" where
  "after f s = snd (f s)"

text \<open>The run: create the bucket, queue \<open>x\<close>, put the object, queue \<open>y\<close>.\<close>

definition demo1 :: "batch_op list store" where
  "demo1 = after (createBucket memory_rocks demo_bucket) empty_store"

definition demo2 :: "batch_op list store" where
  "demo2 = after (trackBlob memory_rocks demo_clock ''x'') demo1"

definition demo3 :: "batch_op list store" where
  "demo3 = after (putObject memory_rocks demo_clock ''b'' (demo_object ''k'' ''x'') Strict) demo2"

definition demo4 :: "batch_op list store" where
  "demo4 = after (trackBlob memory_rocks demo_clock ''y'') demo3"

text \<open>And on: begin an upload and store a part under the payload \<open>y\<close>.\<close>

definition demo5 :: "batch_op list store" where
  "demo5 = after (createUpload memory_rocks demo_upload) demo4"

definition demo6 :: "batch_op list store" where
  "demo6 = after (putPart memory_rocks demo_clock ''u'' (demo_part 1 ''y'') Strict) demo5"

lemma demo_object_ok: "length b < 2 ^ 64 \<Longrightarrow> object_ok (demo_object k b)"
  by (simp add: object_ok_def demo_object_def fits_def metadata_ok_def checksum_ok_def
      no_checksum_def content_ok_def content_fields_def no_ContentHeaders_def)

lemma demo_part_ok: "length b < 2 ^ 64 \<Longrightarrow> part_ok (demo_part n b)"
  by (simp add: part_ok_def demo_part_def fits_def checksum_ok_def no_checksum_def)

end
