(* ===== verification/Reclamation.thy ===== *)
theory Reclamation
  imports Demo
begin

text \<open>
  Blob ownership across the operations of the metadata store. An object row or a part row
  refers to one blob; an orphan row queues one for reclamation. The invariant \<open>blob_inv\<close> says
  that no two rows refer to the same blob and that no queued blob is referred to, so the
  reclaimer never unlinks a live payload. \<open>known\<close> is monotone under every operation but
  \<open>forgetOrphans\<close>: a payload the store has heard of is never lost track of.

  Every change of ownership is a \<open>transfer\<close>: some referring rows go and their blobs are queued,
  at most one row appears and its blob leaves the queue. The locale \<open>ownership\<close> states when a
  relation on contents respects ownership; it is interpreted on the step relation of the
  store, whose steps are whole calls with any outcome, failed writes included.
\<close>

section \<open>Referring and queued blobs\<close>

definition blob_of_row :: "string \<Rightarrow> string option" where
  "blob_of_row v =
     (case rbind (expectVersion v) (\<lambda>_ r. rbind (reader_string r) (\<lambda>blobId _. Inr blobId)) of
        Inl _ \<Rightarrow> None
      | Inr blobId \<Rightarrow> Some blobId)"

definition refers :: "(string \<rightharpoonup> string) \<Rightarrow> string \<rightharpoonup> string" where
  "refers c k =
     (case c k of
        None \<Rightarrow> None
      | Some v \<Rightarrow> if k \<noteq> [] \<and> (hd k = kObject \<or> hd k = kPart) then blob_of_row v else None)"

definition tracked :: "(string \<rightharpoonup> string) \<Rightarrow> string \<Rightarrow> bool" where
  "tracked c blobId \<longleftrightarrow> c (orphan_key blobId) \<noteq> None"

definition known :: "(string \<rightharpoonup> string) \<Rightarrow> string \<Rightarrow> bool" where
  "known c blobId \<longleftrightarrow> blobId \<in> ran (refers c) \<or> tracked c blobId"

definition blob_inv :: "(string \<rightharpoonup> string) \<Rightarrow> bool" where
  "blob_inv c \<longleftrightarrow>
     (\<forall>k k' b. refers c k = Some b \<and> refers c k' = Some b \<longrightarrow> k = k') \<and>
     (\<forall>k b. refers c k = Some b \<longrightarrow> \<not> tracked c b)"

lemma blob_of_object: "decodeObject key v = Inr object \<Longrightarrow> blob_of_row v = Some (o_blobId object)"
  by (auto simp: decodeObject_def blob_of_row_def rbind_eq_Inr rbind_def split: sum.splits prod.splits)

lemma blob_of_part: "decodePart n v = Inr part \<Longrightarrow> blob_of_row v = Some (p_blobId part)"
  by (auto simp: decodePart_def blob_of_row_def rbind_eq_Inr rbind_def split: sum.splits prod.splits)

lemma blob_of_encodeObject: "object_ok object \<Longrightarrow> blob_of_row (encodeObject object) = Some (o_blobId object)"
  by (rule blob_of_object) (rule decode_encode_exact)

lemma blob_of_encodePart: "part_ok part \<Longrightarrow> blob_of_row (encodePart part) = Some (p_blobId part)"
  by (rule blob_of_part) (rule decode_encode_exact)

lemma refers_other_table [simp]:
  "refers c (orphan_key i) = None" "refers c (bucket_key n) = None" "refers c (uploadById u) = None"
  "refers c (uploadByKey b k u) = None"
  by (simp_all add: refers_def tag_defs split: option.splits)

lemma refers_cong: "c k = c' k \<Longrightarrow> refers c k = refers c' k"
  by (simp add: refers_def)

section \<open>Transfers of ownership\<close>

text \<open>The rows of \<open>K\<close> go, the row \<open>fst new\<close> appears and takes the blob \<open>snd new\<close>.\<close>

definition transfer ::
    "string set \<Rightarrow> (string \<times> string) option \<Rightarrow> (string \<rightharpoonup> string) \<Rightarrow> (string \<rightharpoonup> string) \<Rightarrow> bool" where
  "transfer K new c c' \<longleftrightarrow>
     (\<forall>k. refers c' k =
        (if map_option fst new = Some k then map_option snd new else if k \<in> K then None else refers c k)) \<and>
     (\<forall>b. tracked c' b \<longleftrightarrow>
        (tracked c b \<and> map_option snd new \<noteq> Some b) \<or> (\<exists>k\<in>K. refers c k = Some b)) \<and>
     (case new of None \<Rightarrow> True | Some (k, b) \<Rightarrow> tracked c b \<and> (k \<in> K \<or> refers c k = None))"

lemma transfer_blob_inv:
  assumes "blob_inv c" "transfer K new c c'"
  shows "blob_inv c'"
proof -
  note c = assms(1) [unfolded blob_inv_def]
  show ?thesis
  proof (cases new)
    case None
    then have "refers c' k = (if k \<in> K then None else refers c k)"
      "tracked c' b \<longleftrightarrow> tracked c b \<or> (\<exists>k\<in>K. refers c k = Some b)" for k b
      using assms(2) by (auto simp: transfer_def)
    with c show ?thesis
      unfolding blob_inv_def by (metis option.distinct(1))
  next
    case (Some kb)
    then obtain k0 b0 where new: "new = Some (k0, b0)"
      by (cases kb) auto
    have r: "refers c' k = (if k = k0 then Some b0 else if k \<in> K then None else refers c k)"
      and t: "tracked c' b \<longleftrightarrow> (tracked c b \<and> b \<noteq> b0) \<or> (\<exists>k\<in>K. refers c k = Some b)" for k b
      using assms(2) by (auto simp: transfer_def new)
    have b0: "tracked c b0"
      using assms(2) by (simp add: transfer_def new)
    have not_b0: "refers c k \<noteq> Some b0" for k
      using c b0 by blast
    show ?thesis
      unfolding blob_inv_def
    proof (intro conjI allI impI)
      fix k k' b
      assume "refers c' k = Some b \<and> refers c' k' = Some b"
      then show "k = k'"
        using c not_b0 by (auto simp: r split: if_splits)
    next
      fix k b
      assume "refers c' k = Some b"
      then show "\<not> tracked c' b"
        using c not_b0 by (auto simp: r t split: if_splits)
    qed
  qed
qed

lemma transfer_known:
  assumes "transfer K new c c'" "known c b"
  shows "known c' b"
proof (cases "tracked c b")
  case True
  with assms(1) show ?thesis
    by (cases new) (auto simp: transfer_def known_def ran_def)
next
  case False
  then obtain k where k: "refers c k = Some b"
    using assms(2) by (auto simp: known_def ran_def)
  show ?thesis
  proof (cases "k \<in> K")
    case True
    with k assms(1) show ?thesis by (auto simp: transfer_def known_def)
  next
    case False
    with k assms(1) have "refers c' k = Some b"
      by (cases new) (auto simp: transfer_def split: if_splits)
    then show ?thesis by (auto simp: known_def ran_def)
  qed
qed

lemma transfer_refl: "transfer {} None c c"
  by (simp add: transfer_def)

text \<open>A batch on the keys of other tables changes nobody's ownership.\<close>

fun op_key :: "batch_op \<Rightarrow> string" where
  "op_key (Put k v) = k"
| "op_key (Delete k) = k"

lemma fold_op_result_other: "k \<notin> op_key ` set batch \<Longrightarrow> fold op_result batch c k = c k"
proof (induction batch arbitrary: c)
  case (Cons x batch)
  then show ?case by (cases x) auto
qed simp

definition owner_key :: "string \<Rightarrow> bool" where
  "owner_key k \<longleftrightarrow> k \<noteq> [] \<and> (hd k = kObject \<or> hd k = kPart \<or> hd k = kOrphan)"

lemma transfer_other_tables:
  assumes "\<forall>k\<in>op_key ` set batch. \<not> owner_key k"
  shows "transfer {} None c (fold op_result batch c)"
proof -
  have "refers (fold op_result batch c) k = refers c k" for k
  proof (cases "owner_key k")
    case True
    then show ?thesis
      using assms by (intro refers_cong fold_op_result_other) blast
  next
    case False
    then show ?thesis by (auto simp: refers_def owner_key_def split: option.splits)
  qed
  moreover have "tracked (fold op_result batch c) b = tracked c b" for b
    using assms by (simp add: tracked_def fold_op_result_other owner_key_def image_iff Ball_def)
      (metis (no_types) fold_op_result_other hd_keys(3) image_iff keys_nonempty(3) owner_key_def assms)
  ultimately show ?thesis by (simp add: transfer_def)
qed

section \<open>The batches of the store\<close>

definition replace_batch :: "string \<Rightarrow> string \<Rightarrow> string \<Rightarrow> string option \<Rightarrow> TimestampMs \<Rightarrow> batch_op list" where
  "replace_batch k v blobId released now =
     [Put k v, Delete (orphan_key blobId)] @
     (case released of None \<Rightarrow> [] | Some b \<Rightarrow> [Put (orphan_key b) (orphanValue now)])"

lemma tags_ne [simp]:
  "kOrphan \<noteq> kObject" "kOrphan \<noteq> kPart" "kObject \<noteq> kOrphan" "kPart \<noteq> kOrphan"
  by (simp_all add: tag_defs)

lemma owner_hd_ne [simp]:
  "hd k = kObject \<Longrightarrow> k \<noteq> orphan_key b" "hd k = kPart \<Longrightarrow> k \<noteq> orphan_key b"
  by auto

lemma transfer_replace:
  assumes k: "k \<noteq> []" "hd k = kObject \<or> hd k = kPart" and v: "blob_of_row v = Some b"
    and t: "tracked c b" and rel: "released = refers c k"
  shows "transfer {k} (Some (k, b)) c (fold op_result (replace_batch k v b released now) c)"
    (is "transfer _ _ _ ?c'")
proof -
  have k_ne: "k \<noteq> orphan_key x" for x
    using k(2) by auto
  have c': "?c' x = (if x = k then Some v else if x = orphan_key b \<and> released \<noteq> Some b then None
      else if \<exists>y. released = Some y \<and> x = orphan_key y then Some (orphanValue now) else c x)" for x
    using k_ne by (auto simp: replace_batch_def split: option.splits)
  have "refers ?c' x = (if x = k then Some b else refers c x)" for x
  proof (cases "x = k \<or> \<not> owner_key x \<or> (\<exists>y. x = orphan_key y)")
    case True
    then show ?thesis
      using k v c' [of k] by (auto simp: refers_def owner_key_def split: option.splits)
  next
    case False
    then have "?c' x = c x" by (auto simp: c')
    with False show ?thesis by (simp add: refers_def)
  qed
  moreover have "tracked ?c' x \<longleftrightarrow> tracked c x \<and> x \<noteq> b \<or> refers c k = Some x" for x
    unfolding tracked_def c' using k_ne [of x] rel by auto
  ultimately show ?thesis
    using t unfolding transfer_def by auto
qed

lemma transfer_release:
  assumes "hd k = kObject" "refers c k = Some b"
  shows "transfer {k} None c (fold op_result [Delete k, Put (orphan_key b) v] c)" (is "transfer _ _ _ ?c'")
proof -
  have c': "?c' x = (if x = orphan_key b then Some v else if x = k then None else c x)" for x
    by simp
  have "refers ?c' x = (if x = k then None else refers c x)" for x
  proof (cases "x = orphan_key b")
    case True
    with assms show ?thesis by simp
  next
    case False
    then show ?thesis by (simp add: refers_def)
  qed
  moreover have "k \<noteq> orphan_key x" for x
    using assms(1) by simp
  then have "tracked ?c' x \<longleftrightarrow> tracked c x \<or> x = b" for x
    by (auto simp: tracked_def)
  ultimately show ?thesis
    using assms(2) by (auto simp: transfer_def)
qed

text \<open>Retiring the parts of an upload.\<close>

lemma retire_parts_Cons:
  "fold op_result (retire_parts clock i u (p # parts)) c =
   fold op_result (retire_parts clock (Suc i) u parts)
     (c(part_key u (p_partNumber p) := None, orphan_key (p_blobId p) \<mapsto> orphanValue (clock i)))"
  by (simp add: retire_parts_def)

lemma retire_parts_rows:
  assumes "\<forall>b. x \<noteq> orphan_key b"
  shows "fold op_result (retire_parts clock i u parts) c x =
    (if \<exists>p\<in>set parts. x = part_key u (p_partNumber p) then None else c x)"
proof (induction parts arbitrary: i c)
  case (Cons p parts)
  show ?case
    unfolding retire_parts_Cons Cons.IH using assms by auto
qed (simp add: retire_parts_def)

lemma retire_parts_orphans:
  "fold op_result (retire_parts clock i u parts) c (orphan_key b) \<noteq> None \<longleftrightarrow>
   c (orphan_key b) \<noteq> None \<or> (\<exists>p\<in>set parts. b = p_blobId p)"
proof (induction parts arbitrary: i c)
  case (Cons p parts)
  let ?c = "c(part_key u (p_partNumber p) := None, orphan_key (p_blobId p) \<mapsto> orphanValue (clock i))"
  have "?c (orphan_key b) \<noteq> None \<longleftrightarrow> c (orphan_key b) \<noteq> None \<or> b = p_blobId p"
    by simp
  with Cons.IH [of "Suc i" ?c] show ?case
    unfolding retire_parts_Cons by (simp only: set_simps bex_simps) blast
qed (simp add: retire_parts_def)

definition part_rows :: "(string \<rightharpoonup> string) \<Rightarrow> string \<Rightarrow> PartRecord list \<Rightarrow> bool" where
  "part_rows c u parts \<longleftrightarrow>
     (\<forall>p. p \<in> set parts \<longleftrightarrow> (\<exists>v. c (part_key u (p_partNumber p)) = Some v \<and> decodePart (p_partNumber p) v = Inr p))"

lemma collectParts_part_rows:
  "rocks_laws R view \<Longrightarrow> collectParts R db u = Inr parts \<Longrightarrow> part_rows (map_of (view db)) u parts"
  unfolding part_rows_def by (intro allI collectParts_set(1))

lemma transfer_retire_parts:
  assumes "part_rows c u parts"
  shows "transfer ((\<lambda>p. part_key u (p_partNumber p)) ` set parts) None c
    (fold op_result (retire_parts clock i u parts) c)" (is "transfer ?K _ _ ?c'")
proof -
  have ref: "refers c (part_key u (p_partNumber p)) = Some (p_blobId p)" if "p \<in> set parts" for p
    using assms that by (auto simp: part_rows_def refers_def intro: blob_of_part)
  have "refers ?c' x = (if x \<in> ?K then None else refers c x)" for x
  proof (cases "\<exists>b. x = orphan_key b")
    case False
    then have "?c' x = (if x \<in> ?K then None else c x)"
      by (subst retire_parts_rows) auto
    then show ?thesis by (simp add: refers_def)
  qed auto
  moreover have "tracked ?c' b \<longleftrightarrow> tracked c b \<or> (\<exists>k\<in>?K. refers c k = Some b)" for b
  proof -
    have "tracked ?c' b \<longleftrightarrow> tracked c b \<or> (\<exists>p\<in>set parts. b = p_blobId p)"
      unfolding tracked_def by (rule retire_parts_orphans)
    also have "(\<exists>p\<in>set parts. b = p_blobId p) \<longleftrightarrow> (\<exists>k\<in>?K. refers c k = Some b)"
      unfolding bex_simps by (rule bex_cong) (auto simp: ref)
    finally show ?thesis .
  qed
  ultimately show ?thesis by (simp add: transfer_def)
qed

section \<open>Operations respect ownership\<close>

definition owner_safe :: "(string \<rightharpoonup> string) \<Rightarrow> (string \<rightharpoonup> string) \<Rightarrow> bool" where
  "owner_safe c c' \<longleftrightarrow> (blob_inv c \<longrightarrow> blob_inv c') \<and> (\<forall>b. known c b \<longrightarrow> known c' b)"

lemma owner_safe_transfer: "transfer K new c c' \<Longrightarrow> owner_safe c c'"
  unfolding owner_safe_def using transfer_blob_inv transfer_known by blast

lemma owner_safe_refl: "owner_safe c c"
  by (simp add: owner_safe_def)

lemma owner_safe_trans [trans]: "owner_safe a b \<Longrightarrow> owner_safe b c \<Longrightarrow> owner_safe a c"
  by (auto simp: owner_safe_def)

lemma owner_safe_retire:
  assumes "part_rows c u parts"
  shows "owner_safe c (fold op_result (retire_parts clock i u parts @ retire_upload upload u) c)"
proof -
  have "owner_safe c (fold op_result (retire_parts clock i u parts) c)"
    by (rule owner_safe_transfer [OF transfer_retire_parts [OF assms]])
  also have "owner_safe \<dots> (fold op_result (retire_upload upload u) \<dots>)"
    by (rule owner_safe_transfer [OF transfer_other_tables])
      (simp add: retire_upload_def owner_key_def tag_defs)
  finally show ?thesis by simp
qed

text \<open>A method that writes one batch respects ownership when the batch does, however it ends.\<close>

lemma owner_safe_db_write:
  assumes "rocks_laws R view" "db_write R sync batch s k = (r, s')"
    and "\<And>s. s_db (snd (k s)) = s_db s"
    and "owner_safe (content view s) (fold op_result batch (content view s))"
  shows "owner_safe (content view s) (content view s')"
  using db_write_any [OF assms(1,2,3)] assms(4) owner_safe_refl
  by (auto simp: map_of_apply_batch rocks_laws_omap_ok [OF assms(1)])

lemma refers_object_row:
  assumes "load_row (decodeObject key) (c (object_key b key)) = Inr previous"
  shows "refers c (object_key b key) = map_option o_blobId previous"
  using assms
  by (cases previous) (auto simp: load_row_eqs refers_def dest: blob_of_object)

lemma refers_part_row:
  assumes "load_row (decodePart n) (c (part_key u n)) = Inr previous"
  shows "refers c (part_key u n) = map_option p_blobId previous"
  using assms
  by (cases previous) (auto simp: load_row_eqs refers_def dest: blob_of_part)

lemma publish_batch_replace:
  "publish_batch k object released now =
   replace_batch k (encodeObject object) (o_blobId object) released now"
  by (simp add: publish_batch_def replace_batch_def)

lemma loadObject_row:
  assumes "rocks_laws R view" "loadObject R db k key = Inr previous"
  shows "load_row (decodeObject key) (map_of (view db) k) = Inr previous"
  using assms db_get_Inr [OF assms(1)] unfolding loadObject_def load_eq_Inr by blast

lemma owner_safe_publish:
  assumes "load_row (decodeObject (o_key object)) (c (object_key b (o_key object))) = Inr previous"
    and "object_ok object" "tracked c (o_blobId object)"
  shows "owner_safe c (fold op_result
    (publish_batch (object_key b (o_key object)) object (map_option o_blobId previous) now) c)"
  unfolding publish_batch_replace
  by (rule owner_safe_transfer [OF transfer_replace])
    (use assms refers_object_row [where c = c, OF assms(1)] in \<open>simp_all add: blob_of_encodeObject\<close>)

text \<open>A read that throws ends the method where it started.\<close>

lemma attempt_owner_safe:
  assumes "attempt x s k = (r, s')" "owner_safe c (content view s)"
    and "\<And>v. x = Inr v \<Longrightarrow> k v = (r, s') \<Longrightarrow> owner_safe c (content view s')"
  shows "owner_safe c (content view s')"
  using assms by (cases x) auto

lemma putObject_owner_safe:
  assumes laws: "rocks_laws R view"
    and object: "object_ok object" "tracked (content view s) (o_blobId object)"
    and run: "putObject R clock bucket object durability s = (r, s')"
  shows "owner_safe (content view s) (content view s')"
  using run unfolding putObject_def Let_def
  apply (elim attempt_owner_safe [OF _ owner_safe_refl])
  subgoal premises p for u previous
  proof -
    note safe = owner_safe_publish [where c = "content view s", OF loadObject_row [OF laws p(2)] object]
    have "owner_safe (content view (replace_counters previous s)) (content view s')"
      by (rule owner_safe_db_write [OF laws p(3)]) (simp_all add: safe)
    then show ?thesis by simp
  qed
  done

lemma deleteObject_owner_safe:
  assumes laws: "rocks_laws R view"
    and run: "deleteObject R clock bucket key durability s = (r, s')"
  shows "owner_safe (content view s) (content view s')"
  using run unfolding deleteObject_def Let_def
  apply (elim attempt_owner_safe [OF _ owner_safe_refl])
  subgoal premises p for u existing
  proof (cases existing)
    case None
    with p(3) show ?thesis by (simp add: owner_safe_refl)
  next
    case (Some object)
    have "refers (content view s) (object_key bucket key) = Some (o_blobId object)"
      using refers_object_row [where c = "content view s", OF loadObject_row [OF laws p(2)]] Some
      by simp
    then have safe: "owner_safe (content view s) (fold op_result
        [Delete (object_key bucket key), Put (orphan_key (o_blobId object)) (orphanValue (clock 0))]
        (content view s))"
      by (intro owner_safe_transfer [OF transfer_release]) simp_all
    from p(3) Some show ?thesis
      by (simp only: option.case) (erule owner_safe_db_write [OF laws], simp, rule safe)
  qed
  done

lemma owner_safe_part_row:
  assumes "load_row (decodePart (p_partNumber part)) (c (part_key u (p_partNumber part))) = Inr previous"
    and "part_ok part" "tracked c (p_blobId part)"
  shows "owner_safe c (fold op_result (replace_batch (part_key u (p_partNumber part)) (encodePart part)
    (p_blobId part) (map_option p_blobId previous) now) c)"
  by (rule owner_safe_transfer [OF transfer_replace])
    (use assms refers_part_row [where c = c, OF assms(1)] in \<open>simp_all add: blob_of_encodePart\<close>)

lemma putPart_owner_safe:
  assumes laws: "rocks_laws R view"
    and part: "part_ok part" "tracked (content view s) (p_blobId part)"
    and run: "putPart R clock uploadId part durability s = (r, s')"
  shows "owner_safe (content view s) (content view s')"
proof (cases "p_partNumber part = 0 \<or> p_partNumber part > kMaxPartNumber")
  case True
  with run show ?thesis by (simp add: putPart_def owner_safe_refl)
next
  case False
  show ?thesis
    using run unfolding putPart_def Let_def if_not_P [OF False]
    apply (elim attempt_owner_safe [OF _ owner_safe_refl])
    subgoal premises p for upload
    proof (cases "upload = None")
      case True
      with p(2) show ?thesis by (simp add: owner_safe_refl)
    next
      case False
      show ?thesis
        using p(2) unfolding if_not_P [OF False]
        apply (elim attempt_owner_safe [OF _ owner_safe_refl])
        subgoal premises q for previous
        proof -
          have "load_row (decodePart (p_partNumber part))
              (content view s (part_key uploadId (p_partNumber part))) = Inr previous"
            using q(1) db_get_Inr [OF laws] unfolding load_eq_Inr by blast
          from owner_safe_part_row [OF this part, of "clock 0"] show ?thesis
            using owner_safe_db_write [OF laws q(2)]
            by (cases "previous = None") (auto simp: replace_batch_def)
        qed
        done
    qed
    done
qed

lemma abortUpload_owner_safe:
  assumes laws: "rocks_laws R view"
    and run: "abortUpload R clock uploadId durability s = (r, s')"
  shows "owner_safe (content view s) (content view s')"
  using run unfolding abortUpload_def Let_def
  apply (elim attempt_owner_safe [OF _ owner_safe_refl])
  subgoal premises p for found
  proof (cases found)
    case None
    with p(2) show ?thesis by (simp add: owner_safe_refl)
  next
    case (Some upload)
    show ?thesis
      using p(2) unfolding Some option.case
      apply (elim attempt_owner_safe [OF _ owner_safe_refl])
      subgoal premises q for parts
        by (rule owner_safe_db_write [OF laws q(2)])
          (simp, rule owner_safe_retire [OF collectParts_part_rows [OF laws q(1)]])
      done
  qed
  done

lemma part_rows_cong:
  "(\<And>n. c (part_key u n) = c' (part_key u n)) \<Longrightarrow> part_rows c u parts \<Longrightarrow> part_rows c' u parts"
  by (simp add: part_rows_def)

lemma publish_keeps_parts:
  "fold op_result (publish_batch (object_key b k) object released now) c (part_key u n) = c (part_key u n)"
  by (rule fold_op_result_other) (auto simp: publish_batch_def split: option.splits)

lemma completeUpload_owner_safe:
  assumes laws: "rocks_laws R view"
    and object: "object_ok object" "tracked (content view s) (o_blobId object)"
    and run: "completeUpload R clock bucket uploadId object durability s = (r, s')"
  shows "owner_safe (content view s) (content view s')"
  using run unfolding completeUpload_def Let_def
  apply (elim attempt_owner_safe [OF _ owner_safe_refl])
  subgoal premises p for u found
  proof (cases found)
    case None
    with p(3) show ?thesis by (simp add: owner_safe_refl)
  next
    case (Some upload)
    show ?thesis
      using p(3) unfolding Some option.case
      apply (elim attempt_owner_safe [OF _ owner_safe_refl])
      subgoal premises q for previous
        using q(2)
        apply (elim attempt_owner_safe)
         apply (simp add: owner_safe_refl)
        subgoal premises w for parts
        proof -
          let ?c = "content view s"
          define c' where "c' = fold op_result (publish_batch (object_key bucket (o_key object)) object
            (map_option o_blobId previous) (clock 0)) ?c"
          have "owner_safe ?c c'"
            unfolding c'_def by (rule owner_safe_publish [OF loadObject_row [OF laws q(1)] object])
          also have "owner_safe c' (fold op_result (retire_parts clock
              (if map_option o_blobId previous = None then 0 else 1) uploadId parts @
              retire_upload upload uploadId) c')"
            by (rule owner_safe_retire, rule part_rows_cong [OF _ collectParts_part_rows [OF laws w(1)]])
              (simp add: c'_def publish_keeps_parts)
          finally have safe: "owner_safe ?c (fold op_result (publish_batch
              (object_key bucket (o_key object)) object (map_option o_blobId previous) (clock 0) @
              retire_parts clock (if map_option o_blobId previous = None then 0 else 1) uploadId parts @
              retire_upload upload uploadId) ?c)"
            by (simp add: c'_def)
          have "owner_safe (content view (replace_counters previous s)) (content view s')"
            by (rule owner_safe_db_write [OF laws w(2)]) (simp, unfold content_db, rule safe)
          then show ?thesis by simp
        qed
        done
      done
  qed
  done

text \<open>Queueing a payload that is about to be written, and the tables nobody owns a blob in.\<close>

lemma transfer_known_only:
  "\<forall>k. refers c k \<noteq> Some b \<Longrightarrow> owner_safe c (c(orphan_key b \<mapsto> v))"
proof -
  assume fresh: "\<forall>k. refers c k \<noteq> Some b"
  have "refers (c(orphan_key b \<mapsto> v)) k = refers c k" for k
    by (cases "k = orphan_key b") (simp, rule refers_cong, simp)
  moreover have "tracked (c(orphan_key b \<mapsto> v)) x \<longleftrightarrow> tracked c x \<or> x = b" for x
    by (auto simp: tracked_def)
  ultimately show ?thesis
    using fresh unfolding owner_safe_def blob_inv_def known_def ran_def by auto
qed

lemma trackBlob_owner_safe:
  assumes laws: "rocks_laws R view" and fresh: "\<not> known (content view s) blobId"
    and run: "trackBlob R clock blobId s = (r, s')"
  shows "owner_safe (content view s) (content view s')"
  by (rule owner_safe_db_write [OF laws run [unfolded trackBlob_def]])
    (use fresh in \<open>auto simp: known_def ran_def intro!: transfer_known_only\<close>)

text \<open>A method that writes one batch to the other tables, or nothing.\<close>

lemma other_tables_owner_safe:
  assumes "rocks_laws R view" "db_write R sync batch s k = (r, s')"
    and "\<And>s. s_db (snd (k s)) = s_db s" "\<forall>x\<in>op_key ` set batch. \<not> owner_key x"
  shows "owner_safe (content view s) (content view s')"
  by (rule owner_safe_db_write [OF assms(1-3)])
    (rule owner_safe_transfer [OF transfer_other_tables [OF assms(4)]])

lemma forgetOrphans_blob_inv:
  assumes laws: "rocks_laws R view" and run: "forgetOrphans R blobIds s = (r, s')"
    and inv: "blob_inv (content view s)"
  shows "blob_inv (content view s')"
proof (cases "blobIds = []")
  case True
  with run inv show ?thesis by (simp add: forgetOrphans_def)
next
  case False
  define batch where "batch = map (\<lambda>b. Delete (orphan_key b)) blobIds"
  have del: "fold op_result batch c x = (if \<exists>b\<in>set blobIds. x = orphan_key b then None else c x)" for c x
    unfolding batch_def by (induction blobIds arbitrary: c) auto
  have "blob_inv (fold op_result batch c)" if c: "blob_inv c" for c
  proof -
    have "refers (fold op_result batch c) k = refers c k" for k
    proof (cases "\<exists>b. k = orphan_key b")
      case True
      then show ?thesis by (elim exE) simp
    next
      case False
      then show ?thesis by (intro refers_cong) (auto simp: del)
    qed
    moreover have "tracked (fold op_result batch c) b \<Longrightarrow> tracked c b" for b
      by (auto simp: tracked_def del split: if_splits)
    ultimately show ?thesis
      using c unfolding blob_inv_def by (simp only:) blast
  qed
  moreover have "view (s_db s') = view (s_db s) \<or> view (s_db s') = apply_batch batch (view (s_db s))"
    using run unfolding forgetOrphans_def if_not_P [OF False] batch_def
    by (rule db_write_any [OF laws]) (simp add: Let_def)
  ultimately show ?thesis
    using inv by (auto simp: map_of_apply_batch rocks_laws_omap_ok [OF laws])
qed

lemma owner_key_tables [simp]:
  "\<not> owner_key (bucket_key n)" "\<not> owner_key (uploadById u)" "\<not> owner_key (uploadByKey b k u)"
  "\<not> owner_key (user_key n)" "\<not> owner_key (accessKey_key n)" "\<not> owner_key (meta_key n)"
  "\<not> owner_key (audit_key i)"
  by (simp_all add: owner_key_def key_defs tag_defs appendBigEndian64_def)

lemma createBucket_owner_safe:
  assumes "rocks_laws R view" "createBucket R bucket s = (r, s')"
  shows "owner_safe (content view s) (content view s')"
  using assms(2) unfolding createBucket_def
  apply (elim attempt_owner_safe [OF _ owner_safe_refl])
  subgoal for existing
    by (cases existing) (auto simp: owner_safe_refl elim!: other_tables_owner_safe [OF assms(1)])
  done

lemma deleteBucket_owner_safe:
  assumes "rocks_laws R view" "deleteBucket R name s = (r, s')"
  shows "owner_safe (content view s) (content view s')"
  using assms(2) unfolding deleteBucket_def
  by (auto simp: attempt_def owner_safe_refl split: sum.splits if_splits
      elim!: other_tables_owner_safe [OF assms(1)])

lemma updateBucket_owner_safe:
  assumes "rocks_laws R view" "updateBucket R bucket s = (r, s')"
  shows "owner_safe (content view s) (content view s')"
  using assms(2) unfolding updateBucket_def
  by (auto simp: attempt_def owner_safe_refl split: sum.splits if_splits
      elim!: other_tables_owner_safe [OF assms(1)])

lemma createUpload_owner_safe:
  assumes "rocks_laws R view" "createUpload R upload s = (r, s')"
  shows "owner_safe (content view s) (content view s')"
  using assms(2) unfolding createUpload_def
  by (auto simp: attempt_def owner_safe_refl split: sum.splits
      elim!: other_tables_owner_safe [OF assms(1)])

lemma delete_row_owner_safe:
  assumes "rocks_laws R view" "delete_row R key s = (r, s')" "\<not> owner_key key"
  shows "owner_safe (content view s) (content view s')"
  using assms(2,3) unfolding delete_row_def
  by (auto simp: attempt_def owner_safe_refl split: sum.splits if_splits
      elim!: other_tables_owner_safe [OF assms(1)])

lemma appendAudit_owner_safe:
  assumes "rocks_laws R view" "appendAudit R entry s = (r, s')"
  shows "owner_safe (content view s) (content view s')"
proof -
  let ?s = "s\<lparr>s_auditSequence := s_auditSequence s + 1\<rparr>"
  have "owner_safe (content view ?s) (content view s')"
    using assms(2) unfolding appendAudit_def Let_def
    by (rule other_tables_owner_safe [OF assms(1)]) auto
  then show ?thesis by simp
qed

section \<open>Steps of the store\<close>

text \<open>
  A step is one call, with any arguments the storage engine passes and any outcome. Its
  preconditions are the engine's: blob ids and upload ids are fresh, a payload is queued
  before it is written, and its row is published while it is queued.
\<close>

text \<open>A call completed when it returned, or when it was refused and changed nothing.\<close>

definition completed :: "exn + 'a \<Rightarrow> 's \<Rightarrow> 's \<Rightarrow> bool" where
  "completed r s s' \<longleftrightarrow> (\<exists>x. r = Inr x) \<or> s' = s"

inductive store_step ::
    "'db rocksdb \<Rightarrow> ('db \<Rightarrow> (string, string) omap) \<Rightarrow> bool \<Rightarrow> 'db store \<Rightarrow> 'db store \<Rightarrow> bool"
  for R view where
  step_createBucket: "createBucket R bucket s = (r, s') \<Longrightarrow> store_step R view (completed r s s') s s'"
| step_deleteBucket: "deleteBucket R name s = (r, s') \<Longrightarrow> store_step R view (completed r s s') s s'"
| step_updateBucket: "updateBucket R bucket s = (r, s') \<Longrightarrow> store_step R view (completed r s s') s s'"
| step_putUser: "putUser R user s = (r, s') \<Longrightarrow> store_step R view (completed r s s') s s'"
| step_deleteUser: "deleteUser R username s = (rb, s') \<Longrightarrow> store_step R view (completed rb s s') s s'"
| step_putAdmin: "putAdmin R admin s = (r, s') \<Longrightarrow> store_step R view (completed r s s') s s'"
| step_deleteAdmin: "deleteAdmin R s = (r, s') \<Longrightarrow> store_step R view (completed r s s') s s'"
| step_putInstanceSettings: "putInstanceSettings R settings s = (r, s') \<Longrightarrow> store_step R view (completed r s s') s s'"
| step_putAccessKey: "putAccessKey R key s = (r, s') \<Longrightarrow> store_step R view (completed r s s') s s'"
| step_deleteAccessKey: "deleteAccessKey R keyId s = (rb, s') \<Longrightarrow> store_step R view (completed rb s s') s s'"
| step_appendAudit: "appendAudit R entry s = (rn, s') \<Longrightarrow> store_step R view (completed rn s s') s s'"
| step_putObject:
    "putObject R clock bucketName object durability s = (rp, s') \<Longrightarrow> object_ok object \<Longrightarrow>
     tracked (content view s) (o_blobId object) \<Longrightarrow> store_step R view (completed rp s s') s s'"
| step_deleteObject:
    "deleteObject R clock bucketName keyName durability s = (rd, s') \<Longrightarrow> store_step R view (completed rd s s') s s'"
| step_createUpload:
    "createUpload R upload s = (r, s') \<Longrightarrow> content view s (uploadById (up_uploadId upload)) = None \<Longrightarrow>
     store_step R view (completed r s s') s s'"
| step_putPart:
    "putPart R clock uploadId part durability s = (rq, s') \<Longrightarrow> part_ok part \<Longrightarrow>
     tracked (content view s) (p_blobId part) \<Longrightarrow> store_step R view (completed rq s s') s s'"
| step_abortUpload: "abortUpload R clock uploadId durability s = (ra, s') \<Longrightarrow> store_step R view (completed ra s s') s s'"
| step_completeUpload:
    "completeUpload R clock bucketName uploadId object durability s = (rc, s') \<Longrightarrow> object_ok object \<Longrightarrow>
     tracked (content view s) (o_blobId object) \<Longrightarrow> store_step R view (completed rc s s') s s'"
| step_trackBlob:
    "trackBlob R clock blobId s = (r, s') \<Longrightarrow> \<not> known (content view s) blobId \<Longrightarrow>
     store_step R view (completed r s s') s s'"

lemma store_step_owner_safe:
  assumes "rocks_laws R view" "store_step R view ok s s'"
  shows "owner_safe (content view s) (content view s')"
  using assms(2)
proof cases
  case step_putUser
  from this(2) show ?thesis
    unfolding putUser_def by (rule other_tables_owner_safe [OF assms(1)]) auto
next
  case step_putAdmin
  from this(2) show ?thesis
    unfolding putAdmin_def by (rule other_tables_owner_safe [OF assms(1)]) auto
next
  case step_deleteAdmin
  from this(2) show ?thesis
    unfolding deleteAdmin_def by (rule other_tables_owner_safe [OF assms(1)]) auto
next
  case step_putInstanceSettings
  from this(2) show ?thesis
    unfolding putInstanceSettings_def by (rule other_tables_owner_safe [OF assms(1)]) auto
next
  case step_putAccessKey
  from this(2) show ?thesis
    unfolding putAccessKey_def by (rule other_tables_owner_safe [OF assms(1)]) auto
next
  case step_deleteUser
  from this(2) show ?thesis
    unfolding deleteUser_def by (rule delete_row_owner_safe [OF assms(1)]) simp
next
  case step_deleteAccessKey
  from this(2) show ?thesis
    unfolding deleteAccessKey_def by (rule delete_row_owner_safe [OF assms(1)]) simp
qed (blast intro: createBucket_owner_safe [OF assms(1)] deleteBucket_owner_safe [OF assms(1)]
    updateBucket_owner_safe [OF assms(1)] createUpload_owner_safe [OF assms(1)]
    appendAudit_owner_safe [OF assms(1)] putObject_owner_safe [OF assms(1)]
    deleteObject_owner_safe [OF assms(1)] putPart_owner_safe [OF assms(1)]
    abortUpload_owner_safe [OF assms(1)] completeUpload_owner_safe [OF assms(1)]
    trackBlob_owner_safe [OF assms(1)])+

text \<open>
  Reclamation is the other kind of step: \<open>forgetOrphans\<close> takes ids off the queue and nothing
  else does.
\<close>

inductive reclaim_step :: "'db rocksdb \<Rightarrow> 'db store \<Rightarrow> 'db store \<Rightarrow> bool" for R where
  step_forgetOrphans: "forgetOrphans R blobIds s = (r, s') \<Longrightarrow> reclaim_step R s s'"

text \<open>The contract of a state invariant: what every step keeps, every run keeps.\<close>

locale preserved =
  fixes step :: "'s \<Rightarrow> 's \<Rightarrow> bool" and inv :: "'s \<Rightarrow> bool"
  assumes keeps: "step s s' \<Longrightarrow> inv s \<Longrightarrow> inv s'"
begin

lemma run_keeps: "step\<^sup>*\<^sup>* s s' \<Longrightarrow> inv s \<Longrightarrow> inv s'"
  by (induction rule: rtranclp_induct) (auto intro: keeps)

end

definition live_step ::
    "'db rocksdb \<Rightarrow> ('db \<Rightarrow> (string, string) omap) \<Rightarrow> 'db store \<Rightarrow> 'db store \<Rightarrow> bool" where
  "live_step R view s s' \<longleftrightarrow>
     rocks_laws R view \<and> ((\<exists>ok. store_step R view ok s s') \<or> reclaim_step R s s')"

lemma live_step_blob_inv:
  assumes "live_step R view s s'" "blob_inv (content view s)"
  shows "blob_inv (content view s')"
proof -
  note laws = conjunct1 [OF assms(1) [unfolded live_step_def]]
  consider ok where "store_step R view ok s s'" | "reclaim_step R s s'"
    using assms(1) by (auto simp: live_step_def)
  then show ?thesis
  proof cases
    case 1
    from store_step_owner_safe [OF laws this] assms(2) show ?thesis
      by (simp add: owner_safe_def)
  next
    case 2
    with forgetOrphans_blob_inv [OF laws _ assms(2)] show ?thesis
      by (auto elim: reclaim_step.cases)
  qed
qed

interpretation blobs: preserved "live_step R view" "\<lambda>s. blob_inv (content view s)" for R view
  by unfold_locales (rule live_step_blob_inv)

interpretation known_blob:
  preserved "\<lambda>s s'. rocks_laws R view \<and> (\<exists>ok. store_step R view ok s s')" "\<lambda>s. known (content view s) b"
  for R view b
proof
  fix s s'
  assume "rocks_laws R view \<and> (\<exists>ok. store_step R view ok s s')" "known (content view s) b"
  then show "known (content view s') b"
    by (elim conjE exE) (drule (1) store_step_owner_safe, simp add: owner_safe_def)
qed

section \<open>What the reclaimer is told\<close>

lemma orphan_rows_keys:
  "b \<in> set (orphan_rows n t es) \<Longrightarrow> \<exists>v. (orphan_key b, v) \<in> set es"
proof (induction n t es rule: orphan_rows.induct)
  case (3 n t key v es)
  show ?case
  proof (cases "prefix orphanPrefix key")
    case True
    then have "key = orphan_key (drop (length orphanPrefix) key)"
      by (auto simp: prefix_def orphan_key_def orphanPrefix_def tagged_def)
    with 3 True show ?thesis by (auto split: if_splits)
  next
    case False
    with 3 show ?thesis by simp
  qed
qed simp_all

lemma listOrphans_tracked:
  assumes "rocks_laws R view" "listOrphans R limit t s = Inr ids" "b \<in> set ids"
  shows "tracked (content view s) b"
proof -
  obtain es st where es: "rk_seek R (s_db s) (upperBound orphanPrefix) orphanPrefix = (es, st)"
    by (cases "rk_seek R (s_db s) (upperBound orphanPrefix) orphanPrefix")
  with assms(2,3) have "b \<in> set (orphan_rows limit t es)"
    by (auto simp: listOrphans_def Let_def split: if_splits option.splits)
  then obtain v where "(orphan_key b, v) \<in> set es"
    using orphan_rows_keys by blast
  then have "(orphan_key b, v) \<in> set (view (s_db s))"
    using set_mono_prefix [OF rocks_seek_any [OF assms(1) es]] by (auto simp: seek_entries_def)
  then show ?thesis
    using omap_set_eq [OF rocks_laws_omap_ok [OF assms(1)], of "s_db s"] by (auto simp: tracked_def)
qed

text \<open>Freshness, decided on the rows there are.\<close>

lemma not_known:
  assumes "list_all (\<lambda>(k, _). refers (map_of m) k \<noteq> Some b) m" "map_of m (orphan_key b) = None"
  shows "\<not> known (map_of m) b"
proof
  assume "known (map_of m) b"
  with assms(2) obtain k where k: "refers (map_of m) k = Some b"
    by (auto simp: known_def tracked_def ran_def)
  then obtain v where "(k, v) \<in> set m"
    by (auto simp: refers_def split: option.splits dest: map_of_SomeD)
  with assms(1) k show False by (auto simp: list_all_iff)
qed

lemma demo_step:
  assumes "fst (f s) = Inr x"
    and "store_step R view (completed (fst (f s)) s (after f s)) s (after f s)"
  shows "store_step R view True s (after f s)"
  using assms(2) by (simp add: assms(1) completed_def)

lemma run_after: "f s = (fst (f s), after f s)"
  by (simp add: after_def)

lemma demo_steps:
  "store_step memory_rocks memory_view True empty_store demo1"
  "store_step memory_rocks memory_view True demo1 demo2"
  "store_step memory_rocks memory_view True demo2 demo3"
  "store_step memory_rocks memory_view True demo3 demo4"
proof -
  have ran: "fst (createBucket memory_rocks demo_bucket empty_store) = Inr ()"
    "fst (trackBlob memory_rocks demo_clock ''x'' demo1) = Inr ()"
    "fst (putObject memory_rocks demo_clock ''b'' (demo_object ''k'' ''x'') Strict demo2) =
      Inr \<lparr>po_releasedBlobId = None, po_replacedBytes = 0\<rparr>"
    "fst (trackBlob memory_rocks demo_clock ''y'' demo3) = Inr ()"
    by code_simp+
  have fresh: "\<not> known (content memory_view demo1) ''x''" "\<not> known (content memory_view demo3) ''y''"
    by (rule not_known; code_simp)+
  have queued: "tracked (content memory_view demo2) (o_blobId (demo_object ''k'' ''x''))"
    unfolding tracked_def by code_simp
  show "store_step memory_rocks memory_view True empty_store demo1"
    unfolding demo1_def by (rule demo_step [of "createBucket memory_rocks demo_bucket", OF ran(1)])
      (rule step_createBucket, rule run_after)
  show "store_step memory_rocks memory_view True demo1 demo2"
    unfolding demo2_def
    by (rule demo_step [of "trackBlob memory_rocks demo_clock ''x''", OF ran(2)])
      (rule step_trackBlob, rule run_after, rule fresh(1))
  show "store_step memory_rocks memory_view True demo2 demo3"
    unfolding demo3_def
    by (rule demo_step [of "putObject memory_rocks demo_clock ''b'' (demo_object ''k'' ''x'') Strict", OF ran(3)])
      (rule step_putObject, rule run_after, rule demo_object_ok, simp, rule queued)
  show "store_step memory_rocks memory_view True demo3 demo4"
    unfolding demo4_def
    by (rule demo_step [of "trackBlob memory_rocks demo_clock ''y''", OF ran(4)])
      (rule step_trackBlob, rule run_after, rule fresh(2))
qed

lemma empty_store_view: "memory_view (s_db empty_store) = [(format_version_key, ''1'')]"
  by (simp add: empty_store_def memory_view_def apply_batch_def)

lemma empty_store_blob_inv: "blob_inv (content memory_view empty_store)"
  by (simp add: blob_inv_def empty_store_view refers_def format_version_key_def meta_key_def
      tagged_def tag_defs)

text \<open>
  C1: On every run of the store from a state in which no payload is shared or queued while
  referred to, with calls in any order, calls that fail and reclamation in between, a blob
  that \<open>listOrphans\<close> hands to the reclaimer is referred to by no object row and no part row.
  Unlinking it never breaks a readable object.
\<close>

theorem reclaimable_blobs_are_dead:
  assumes "rocks_laws R view" "(live_step R view)\<^sup>*\<^sup>* s s'" "blob_inv (content view s)"
    and "listOrphans R limit t s' = Inr ids" "b \<in> set ids"
  shows "\<forall>k. refers (content view s') k \<noteq> Some b"
proof -
  have "blob_inv (content view s')"
    using blobs.run_keeps assms(2,3) by blast
  moreover have "tracked (content view s') b"
    by (rule listOrphans_tracked [OF assms(1,4,5)])
  ultimately show ?thesis by (auto simp: blob_inv_def)
qed

theorem reclaimable_blobs_are_dead_witness:
  "listOrphans memory_rocks 10 7 demo4 = Inr [''y''] \<and>
   (\<forall>k. refers (content memory_view demo4) k \<noteq> Some ''y'')"
proof
  show ids: "listOrphans memory_rocks 10 7 demo4 = Inr [''y'']"
    by code_simp
  have step: "live_step memory_rocks memory_view s s'" if "store_step memory_rocks memory_view True s s'"
    for s s' using that by (auto simp: live_step_def memory_rocks_laws)
  have "(live_step memory_rocks memory_view)\<^sup>*\<^sup>* empty_store demo4"
    using demo_steps [THEN step] by (meson converse_rtranclp_into_rtranclp rtranclp.rtrancl_refl)
  then show "\<forall>k. refers (content memory_view demo4) k \<noteq> Some ''y''"
    by (rule reclaimable_blobs_are_dead [OF memory_rocks_laws _ empty_store_blob_inv ids]) simp
qed

text \<open>
  C2: No call of the metadata store other than \<open>forgetOrphans\<close> ever loses track of a payload:
  a blob that is referred to or queued before a run of calls is referred to or queued after
  it, whatever the calls return and however their writes fail.
\<close>

theorem payload_never_lost:
  assumes "rocks_laws R view" "(\<lambda>s s'. \<exists>ok. store_step R view ok s s')\<^sup>*\<^sup>* s s'"
    and "known (content view s) b"
  shows "known (content view s') b"
proof -
  have "(\<lambda>s s'. rocks_laws R view \<and> (\<exists>ok. store_step R view ok s s'))\<^sup>*\<^sup>* s s'"
    using assms(1,2) by simp
  then show ?thesis
    using known_blob.run_keeps assms(3) by blast
qed

theorem payload_never_lost_witness:
  "\<not> tracked (content memory_view demo3) ''x'' \<and> known (content memory_view demo3) ''x''"
proof
  show "\<not> tracked (content memory_view demo3) ''x''"
    unfolding tracked_def by code_simp
  have "known (content memory_view demo2) ''x''"
    unfolding known_def tracked_def by (rule disjI2) code_simp
  with demo_steps(3) show "known (content memory_view demo3) ''x''"
    by (intro payload_never_lost [OF memory_rocks_laws, of demo2 demo3]) blast+
qed

end
