(* ===== verification/Store_Calls.thy ===== *)
theory Store_Calls
  imports Demo
begin

text \<open>
  The calls of the metadata store that return: for each mutation, what its success says of
  the rows it found, the result it returned, the rows it left and the counters it moved.
\<close>

lemma attempt_Inr:
  "attempt x s k = (Inr r, s') \<longleftrightarrow> (\<exists>v. x = Inr v \<and> k v = (Inr r, s'))"
  by (cases x) auto

lemma db_get_row: "rocks_laws R view \<Longrightarrow> db_get R (s_db s) k = Inr row \<Longrightarrow> content view s k = row"
  using db_get_Inr by metis

lemma requireBucket_row:
  "rocks_laws R view \<Longrightarrow> requireBucket R (s_db s) name = Inr u \<Longrightarrow> content view s (bucket_key name) \<noteq> None"
  by (auto simp: requireBucket_def split: sum.splits option.splits dest!: db_get_row)

lemma load_table_row:
  assumes "rocks_laws R view" "load decode (db_get R (s_db s) k) = Inr x"
  shows "load_row decode (content view s k) = Inr x"
  using assms unfolding load_eq_Inr by (auto dest!: db_get_row)

lemma loadObject_content:
  "rocks_laws R view \<Longrightarrow> loadObject R (s_db s) k key = Inr x \<Longrightarrow>
   load_row (decodeObject key) (content view s k) = Inr x"
  unfolding loadObject_def by (rule load_table_row)

lemma loadUpload_content:
  "rocks_laws R view \<Longrightarrow> loadUpload R (s_db s) u = Inr x \<Longrightarrow>
   load_row (decodeUpload u) (content view s (uploadById u)) = Inr x"
  unfolding loadUpload_def by (rule load_table_row)

lemma loadBucket_content:
  "rocks_laws R view \<Longrightarrow> loadBucket R (s_db s) n = Inr x \<Longrightarrow>
   load_row (decodeBucket n) (content view s (bucket_key n)) = Inr x"
  unfolding loadBucket_def by (rule load_table_row)

lemma content_after_write:
  "rocks_laws R view \<Longrightarrow> view db' = apply_batch batch (view (s_db s)) \<Longrightarrow>
   map_of (view db') = fold op_result batch (content view s)"
  by (rule content_batch)

text \<open>The counters a state shows, for statements about how a call moves them.\<close>

definition counters :: "'db store \<Rightarrow> u64 \<times> u64 \<times> u64 \<times> u64 \<times> u64" where
  "counters s = (s_buckets s, s_objects s, s_bytes s, s_uploads s, s_orphans s)"

lemma counters_db [simp]: "counters (s\<lparr>s_db := db\<rparr>) = counters s"
  by (simp add: counters_def)

section \<open>Buckets\<close>

lemma createBucket_Inr:
  assumes "rocks_laws R view" "createBucket R bucket s = (Inr r, s')"
  shows "content view s (bucket_key (b_name bucket)) = None"
    "content view s' = (content view s)(bucket_key (b_name bucket) \<mapsto> encodeBucket bucket)"
    "counters s' = (s_buckets s + 1, s_objects s, s_bytes s, s_uploads s, s_orphans s)"
proof -
  obtain existing where e: "db_get R (s_db s) (bucket_key (b_name bucket)) = Inr existing"
    and rest: "(case existing of Some _ \<Rightarrow> (Inl (StorageError BucketAlreadyExists), s)
      | None \<Rightarrow> db_write R (s_syncWrites s) [Put (bucket_key (b_name bucket)) (encodeBucket bucket)] s
          (\<lambda>s. (Inr (), s\<lparr>s_buckets := s_buckets s + 1\<rparr>))) = (Inr r, s')"
    using assms(2) unfolding createBucket_def attempt_Inr by auto
  have none: "existing = None"
    using rest by (cases existing) auto
  with e show "content view s (bucket_key (b_name bucket)) = None"
    using db_get_row [OF assms(1)] by blast
  from rest none obtain db' where
    db': "view db' = apply_batch [Put (bucket_key (b_name bucket)) (encodeBucket bucket)] (view (s_db s))"
    and s': "s' = s\<lparr>s_db := db', s_buckets := s_buckets s + 1\<rparr>"
    by (simp only: option.case) (erule db_write_Inr [OF assms(1)], auto)
  from content_after_write [OF assms(1) db'] s'
  show "content view s' = (content view s)(bucket_key (b_name bucket) \<mapsto> encodeBucket bucket)"
    by simp
  show "counters s' = (s_buckets s + 1, s_objects s, s_bytes s, s_uploads s, s_orphans s)"
    by (simp add: s' counters_def)
qed

lemma deleteBucket_Inr:
  assumes "rocks_laws R view" "deleteBucket R name s = (Inr r, s')"
  shows "content view s (bucket_key name) \<noteq> None"
    "\<forall>k. prefix (objectPrefix name) k \<longrightarrow> content view s k = None"
    "\<forall>k. prefix (uploadByKeyPrefix name) k \<longrightarrow> content view s k = None"
    "content view s' = (content view s)(bucket_key name := None)"
    "counters s' = (s_buckets s - 1, s_objects s, s_bytes s, s_uploads s, s_orphans s)"
proof -
  obtain bucket objects uploads where b: "loadBucket R (s_db s) name = Inr bucket" "bucket \<noteq> None"
    and o: "hasAny R (s_db s) (objectPrefix name) = Inr objects" "\<not> objects"
    and u: "hasAny R (s_db s) (uploadByKeyPrefix name) = Inr uploads" "\<not> uploads"
    and w: "db_write R (s_syncWrites s) [Delete (bucket_key name)] s
      (\<lambda>s. (Inr (), s\<lparr>s_buckets := s_buckets s - 1\<rparr>)) = (Inr r, s')"
    using assms(2) unfolding deleteBucket_def attempt_Inr
    by (auto split: if_splits simp: attempt_Inr)
  show "content view s (bucket_key name) \<noteq> None"
    using loadBucket_content [OF assms(1) b(1)] b(2) by (auto simp: load_row_eqs)
  show "\<forall>k. prefix (objectPrefix name) k \<longrightarrow> content view s k = None"
    using hasAny_Inr [OF assms(1) _ o(1)] o(2) by auto
  show "\<forall>k. prefix (uploadByKeyPrefix name) k \<longrightarrow> content view s k = None"
    using hasAny_Inr [OF assms(1) _ u(1)] u(2) by auto
  obtain db' where db': "view db' = apply_batch [Delete (bucket_key name)] (view (s_db s))"
    and s': "s' = s\<lparr>s_db := db', s_buckets := s_buckets s - 1\<rparr>"
    using w by (elim db_write_Inr [OF assms(1)]) auto
  from content_after_write [OF assms(1) db'] s'
  show "content view s' = (content view s)(bucket_key name := None)" by simp
  show "counters s' = (s_buckets s - 1, s_objects s, s_bytes s, s_uploads s, s_orphans s)"
    by (simp add: s' counters_def)
qed

section \<open>Objects\<close>

definition replaced_bytes :: "ObjectRecord option \<Rightarrow> u64" where
  "replaced_bytes previous = (case previous of Some p \<Rightarrow> o_size p | None \<Rightarrow> 0)"

lemma putObject_Inr:
  assumes "rocks_laws R view" "putObject R clock bucket object durability s = (Inr out, s')"
  obtains previous where
    "content view s (bucket_key bucket) \<noteq> None"
    "load_row (decodeObject (o_key object)) (content view s (object_key bucket (o_key object))) = Inr previous"
    "out = \<lparr>po_releasedBlobId = map_option o_blobId previous, po_replacedBytes = replaced_bytes previous\<rparr>"
    "content view s' = fold op_result (publish_batch (object_key bucket (o_key object)) object
       (map_option o_blobId previous) (clock 0)) (content view s)"
    "counters s' = (s_buckets s, (if previous = None then s_objects s + 1 else s_objects s),
       s_bytes s - replaced_bytes previous + o_size object, s_uploads s,
       (if previous = None then s_orphans s - 1 else s_orphans s))"
proof -
  let ?k = "object_key bucket (o_key object)"
  from assms(2) obtain u previous where b: "requireBucket R (s_db s) bucket = Inr u"
    and p: "loadObject R (s_db s) ?k (o_key object) = Inr previous"
    and w: "db_write R (writeOptionsFor durability)
      (publish_batch ?k object (map_option o_blobId previous) (clock 0)) (replace_counters previous s)
      (\<lambda>s. (Inr \<lparr>po_releasedBlobId = map_option o_blobId previous,
         po_replacedBytes = (case previous of Some p \<Rightarrow> o_size p | None \<Rightarrow> 0)\<rparr>,
         s\<lparr>s_bytes := s_bytes s + o_size object\<rparr>)) = (Inr out, s')"
    unfolding putObject_def Let_def attempt_Inr by auto
  from w obtain db' where
    db': "view db' = apply_batch (publish_batch ?k object (map_option o_blobId previous) (clock 0))
      (view (s_db (replace_counters previous s)))"
    and out: "out = \<lparr>po_releasedBlobId = map_option o_blobId previous,
      po_replacedBytes = replaced_bytes previous\<rparr>"
    and s': "s' = (replace_counters previous s)\<lparr>s_db := db',
      s_bytes := s_bytes (replace_counters previous s) + o_size object\<rparr>"
    by (elim db_write_Inr [OF assms(1)]) (auto simp: replaced_bytes_def)
  have db: "s_db (replace_counters previous s) = s_db s"
    by (simp add: replace_counters_def split: option.splits)
  show thesis
  proof (rule that [OF requireBucket_row [OF assms(1) b] loadObject_content [OF assms(1) p] out])
    show "content view s' = fold op_result (publish_batch ?k object (map_option o_blobId previous)
        (clock 0)) (content view s)"
      using content_after_write [OF assms(1) db' [unfolded db]] s' by simp
    show "counters s' = (s_buckets s, (if previous = None then s_objects s + 1 else s_objects s),
       s_bytes s - replaced_bytes previous + o_size object, s_uploads s,
       (if previous = None then s_orphans s - 1 else s_orphans s))"
      by (cases previous) (simp_all add: s' counters_def replace_counters_def replaced_bytes_def)
  qed
qed

lemma deleteObject_Inr:
  assumes "rocks_laws R view" "deleteObject R clock bucket key durability s = (Inr out, s')"
  obtains existing where
    "content view s (bucket_key bucket) \<noteq> None"
    "load_row (decodeObject key) (content view s (object_key bucket key)) = Inr existing"
    "out = \<lparr>do_existed = (existing \<noteq> None), do_releasedBlobId = map_option o_blobId existing,
       do_releasedBytes = replaced_bytes existing\<rparr>"
    "existing = None \<longrightarrow> s' = s"
    "\<forall>object. existing = Some object \<longrightarrow> content view s' = fold op_result
       [Delete (object_key bucket key), Put (orphan_key (o_blobId object)) (orphanValue (clock 0))]
       (content view s)"
    "\<forall>object. existing = Some object \<longrightarrow>
       counters s' = (s_buckets s, s_objects s - 1, s_bytes s - o_size object, s_uploads s, s_orphans s + 1)"
proof -
  let ?k = "object_key bucket key"
  from assms(2) obtain u existing where b: "requireBucket R (s_db s) bucket = Inr u"
    and p: "loadObject R (s_db s) ?k key = Inr existing"
    and w: "(case existing of
           None \<Rightarrow> (Inr \<lparr>do_existed = False, do_releasedBlobId = None, do_releasedBytes = 0\<rparr>, s)
         | Some object \<Rightarrow>
             db_write R (writeOptionsFor durability)
               [Delete ?k, Put (orphan_key (o_blobId object)) (orphanValue (clock 0))] s
               (\<lambda>s. (Inr \<lparr>do_existed = True, do_releasedBlobId = Some (o_blobId object),
                        do_releasedBytes = o_size object\<rparr>,
                     s\<lparr>s_objects := s_objects s - 1, s_bytes := s_bytes s - o_size object,
                       s_orphans := s_orphans s + 1\<rparr>))) = (Inr out, s')"
    unfolding deleteObject_def Let_def attempt_Inr by auto
  note facts = requireBucket_row [OF assms(1) b] loadObject_content [OF assms(1) p]
  show thesis
  proof (cases existing)
    case None
    with w show thesis
      by (intro that [OF facts]) (auto simp: replaced_bytes_def)
  next
    case (Some object)
    from w Some obtain db' where
      db': "view db' = apply_batch
        [Delete ?k, Put (orphan_key (o_blobId object)) (orphanValue (clock 0))] (view (s_db s))"
      and out: "out = \<lparr>do_existed = True, do_releasedBlobId = Some (o_blobId object),
        do_releasedBytes = o_size object\<rparr>"
      and s': "s' = s\<lparr>s_db := db', s_objects := s_objects s - 1,
        s_bytes := s_bytes s - o_size object, s_orphans := s_orphans s + 1\<rparr>"
      by (simp only: option.case) (erule db_write_Inr [OF assms(1)], auto)
    show thesis
      using content_after_write [OF assms(1) db'] Some out
      by (intro that [OF facts]) (auto simp: replaced_bytes_def s' counters_def)
  qed
qed

section \<open>Multipart uploads and reclamation\<close>

lemma createUpload_Inr:
  assumes "rocks_laws R view" "createUpload R upload s = (Inr r, s')"
  shows "content view s (bucket_key (up_bucket upload)) \<noteq> None"
    "content view s' = (content view s)(uploadById (up_uploadId upload) \<mapsto> encodeUpload upload,
       uploadByKey (up_bucket upload) (up_key upload) (up_uploadId upload) \<mapsto> [])"
    "counters s' = (s_buckets s, s_objects s, s_bytes s, s_uploads s + 1, s_orphans s)"
proof -
  let ?batch = "[Put (uploadById (up_uploadId upload)) (encodeUpload upload),
    Put (uploadByKey (up_bucket upload) (up_key upload) (up_uploadId upload)) []]"
  from assms(2) obtain u where b: "requireBucket R (s_db s) (up_bucket upload) = Inr u"
    and w: "db_write R (s_syncWrites s) ?batch s (\<lambda>s. (Inr (), s\<lparr>s_uploads := s_uploads s + 1\<rparr>)) = (Inr r, s')"
    unfolding createUpload_def attempt_Inr by auto
  show "content view s (bucket_key (up_bucket upload)) \<noteq> None"
    by (rule requireBucket_row [OF assms(1) b])
  obtain db' where db': "view db' = apply_batch ?batch (view (s_db s))"
    and s': "s' = s\<lparr>s_db := db', s_uploads := s_uploads s + 1\<rparr>"
    using w by (elim db_write_Inr [OF assms(1)]) auto
  from content_after_write [OF assms(1) db'] s'
  show "content view s' = (content view s)(uploadById (up_uploadId upload) \<mapsto> encodeUpload upload,
       uploadByKey (up_bucket upload) (up_key upload) (up_uploadId upload) \<mapsto> [])" by simp
  show "counters s' = (s_buckets s, s_objects s, s_bytes s, s_uploads s + 1, s_orphans s)"
    by (simp add: s' counters_def)
qed

definition replaced_part_bytes :: "PartRecord option \<Rightarrow> u64" where
  "replaced_part_bytes previous = (case previous of Some p \<Rightarrow> p_size p | None \<Rightarrow> 0)"

definition part_batch :: "string \<Rightarrow> PartRecord \<Rightarrow> string option \<Rightarrow> TimestampMs \<Rightarrow> batch_op list" where
  "part_batch storedKey part released now =
     [Put storedKey (encodePart part), Delete (orphan_key (p_blobId part))] @
     (case released of None \<Rightarrow> [] | Some blobId \<Rightarrow> [Put (orphan_key blobId) (orphanValue now)])"

lemma putPart_Inr:
  assumes "rocks_laws R view" "putPart R clock uploadId part durability s = (Inr out, s')"
  obtains previous where
    "0 < p_partNumber part" "p_partNumber part \<le> kMaxPartNumber"
    "content view s (uploadById uploadId) \<noteq> None"
    "load_row (decodePart (p_partNumber part)) (content view s (part_key uploadId (p_partNumber part)))
       = Inr previous"
    "out = \<lparr>pp_releasedBlobId = map_option p_blobId previous,
       pp_replacedBytes = replaced_part_bytes previous\<rparr>"
    "content view s' = fold op_result (part_batch (part_key uploadId (p_partNumber part)) part
       (map_option p_blobId previous) (clock 0)) (content view s)"
    "counters s' = (s_buckets s, s_objects s, s_bytes s, s_uploads s,
       (if previous = None then s_orphans s - 1 else s_orphans s))"
proof -
  let ?k = "part_key uploadId (p_partNumber part)"
  have range: "\<not> (p_partNumber part = 0 \<or> p_partNumber part > kMaxPartNumber)"
    using assms(2) by (auto simp: putPart_def split: if_splits)
  define put where "put previous = db_write R (writeOptionsFor durability)
      (part_batch ?k part (map_option p_blobId previous) (clock 0))
      (if previous = None then s\<lparr>s_orphans := s_orphans s - 1\<rparr>
       else s\<lparr>s_orphans := s_orphans s - 1, s_orphans := s_orphans (s\<lparr>s_orphans := s_orphans s - 1\<rparr>) + 1\<rparr>)
      (\<lambda>s. (Inr \<lparr>pp_releasedBlobId = map_option p_blobId previous,
         pp_replacedBytes = replaced_part_bytes previous\<rparr>, s))" for previous
  have "attempt (loadUpload R (s_db s) uploadId) s (\<lambda>upload.
      if upload = None then (Inl (StorageError NoSuchUpload), s)
      else attempt (load (decodePart (p_partNumber part)) (db_get R (s_db s) ?k)) s put) = (Inr out, s')"
    using assms(2) unfolding putPart_def Let_def if_not_P [OF range] put_def part_batch_def
      replaced_part_bytes_def PutPartOutcome.simps .
  then obtain upload where u: "loadUpload R (s_db s) uploadId = Inr upload" "upload \<noteq> None"
    and rest: "attempt (load (decodePart (p_partNumber part)) (db_get R (s_db s) ?k)) s put = (Inr out, s')"
    unfolding attempt_Inr [of "loadUpload R (s_db s) uploadId"] by (auto split: if_splits)
  from rest obtain previous where
    p: "load (decodePart (p_partNumber part)) (db_get R (s_db s) ?k) = Inr previous"
    and w: "put previous = (Inr out, s')"
    unfolding attempt_Inr by blast
  note w = w [unfolded put_def]
  let ?s = "if previous = None then s\<lparr>s_orphans := s_orphans s - 1\<rparr>
       else s\<lparr>s_orphans := s_orphans s - 1, s_orphans := s_orphans (s\<lparr>s_orphans := s_orphans s - 1\<rparr>) + 1\<rparr>"
  from w obtain db' where
    db': "view db' = apply_batch (part_batch ?k part (map_option p_blobId previous) (clock 0)) (view (s_db ?s))"
    and out: "out = \<lparr>pp_releasedBlobId = map_option p_blobId previous,
         pp_replacedBytes = replaced_part_bytes previous\<rparr>"
    and s': "s' = ?s\<lparr>s_db := db'\<rparr>"
    by (elim db_write_Inr [OF assms(1)]) auto
  have db: "s_db ?s = s_db s" by simp
  show thesis
  proof (rule that [OF _ _ _ load_table_row [OF assms(1) p] out])
    show "0 < p_partNumber part" "p_partNumber part \<le> kMaxPartNumber"
      using range by (auto simp: word_gt_0)
    show "content view s (uploadById uploadId) \<noteq> None"
      using loadUpload_content [OF assms(1) u(1)] u(2) by (auto simp: load_row_eqs)
    show "content view s' = fold op_result (part_batch ?k part (map_option p_blobId previous) (clock 0))
        (content view s)"
      using content_after_write [OF assms(1) db' [unfolded db]] s' by simp
    show "counters s' = (s_buckets s, s_objects s, s_bytes s, s_uploads s,
       (if previous = None then s_orphans s - 1 else s_orphans s))"
      by (simp add: s' counters_def)
  qed
qed

lemma abortUpload_Inr:
  assumes "rocks_laws R view" "abortUpload R clock uploadId durability s = (Inr out, s')"
  obtains upload parts where
    "load_row (decodeUpload uploadId) (content view s (uploadById uploadId)) = Inr (Some upload)"
    "collectParts R (s_db s) uploadId = Inr parts"
    "out = \<lparr>ao_releasedBlobIds = map p_blobId parts, ao_releasedBytes = part_bytes parts,
       ao_bucket = up_bucket upload\<rparr>"
    "content view s' = fold op_result (retire_parts clock 0 uploadId parts @ retire_upload upload uploadId)
       (content view s)"
    "counters s' = (s_buckets s, s_objects s, s_bytes s, s_uploads s - 1,
       s_orphans s + of_nat (length parts))"
proof -
  from assms(2) obtain found where u: "loadUpload R (s_db s) uploadId = Inr found"
    and rest: "(case found of None \<Rightarrow> (Inl (StorageError NoSuchUpload), s)
       | Some upload \<Rightarrow> attempt (collectParts R (s_db s) uploadId) s (\<lambda>parts.
            db_write R (writeOptionsFor durability)
              (retire_parts clock 0 uploadId parts @ retire_upload upload uploadId) s
              (\<lambda>s. (Inr \<lparr>ao_releasedBlobIds = map p_blobId parts, ao_releasedBytes = part_bytes parts,
                 ao_bucket = up_bucket upload\<rparr>,
                 s\<lparr>s_uploads := s_uploads s - 1, s_orphans := s_orphans s + of_nat (length parts)\<rparr>))))
       = (Inr out, s')"
    unfolding abortUpload_def Let_def attempt_Inr AbortOutcome.simps length_map by auto
  from rest obtain upload where up: "found = Some upload"
    by (cases found) auto
  from rest [unfolded up option.case attempt_Inr] obtain parts where
    parts: "collectParts R (s_db s) uploadId = Inr parts"
    and w: "db_write R (writeOptionsFor durability)
              (retire_parts clock 0 uploadId parts @ retire_upload upload uploadId) s
              (\<lambda>s. (Inr \<lparr>ao_releasedBlobIds = map p_blobId parts, ao_releasedBytes = part_bytes parts,
                 ao_bucket = up_bucket upload\<rparr>,
                 s\<lparr>s_uploads := s_uploads s - 1, s_orphans := s_orphans s + of_nat (length parts)\<rparr>))
       = (Inr out, s')"
    by auto
  from w obtain db' where
    db': "view db' = apply_batch (retire_parts clock 0 uploadId parts @ retire_upload upload uploadId)
      (view (s_db s))"
    and out: "out = \<lparr>ao_releasedBlobIds = map p_blobId parts, ao_releasedBytes = part_bytes parts,
       ao_bucket = up_bucket upload\<rparr>"
    and s': "s' = s\<lparr>s_db := db', s_uploads := s_uploads s - 1,
      s_orphans := s_orphans s + of_nat (length parts)\<rparr>"
    by (elim db_write_Inr [OF assms(1)]) auto
  show thesis
    by (rule that [OF loadUpload_content [OF assms(1) u, unfolded up] parts out])
      (use content_after_write [OF assms(1) db'] in \<open>simp_all add: s' counters_def\<close>)
qed

lemma completeUpload_Inr:
  assumes "rocks_laws R view"
    and "completeUpload R clock bucket uploadId object durability s = (Inr out, s')"
  obtains upload previous parts where
    "content view s (bucket_key bucket) \<noteq> None"
    "load_row (decodeUpload uploadId) (content view s (uploadById uploadId)) = Inr (Some upload)"
    "load_row (decodeObject (o_key object)) (content view s (object_key bucket (o_key object))) = Inr previous"
    "collectParts R (s_db s) uploadId = Inr parts"
    "out = \<lparr>co_releasedBlobId = map_option o_blobId previous, co_replacedBytes = replaced_bytes previous,
       co_releasedPartBlobIds = map p_blobId parts, co_releasedPartBytes = part_bytes parts\<rparr>"
    "content view s' = fold op_result
       (publish_batch (object_key bucket (o_key object)) object (map_option o_blobId previous) (clock 0) @
        retire_parts clock (if previous = None then 0 else 1) uploadId parts @
        retire_upload upload uploadId) (content view s)"
    "counters s' = (s_buckets s, (if previous = None then s_objects s + 1 else s_objects s),
       s_bytes s - replaced_bytes previous + o_size object, s_uploads s - 1,
       (if previous = None then s_orphans s - 1 else s_orphans s) + of_nat (length parts))"
proof -
  let ?k = "object_key bucket (o_key object)"
  define batch where "batch previous parts upload =
       publish_batch ?k object (map_option o_blobId previous) (clock 0) @
       retire_parts clock (if previous = None then 0 else 1) uploadId parts @
       retire_upload upload uploadId" for previous :: "ObjectRecord option" and parts upload
  define result where "result previous parts =
      \<lparr>co_releasedBlobId = map_option o_blobId previous, co_replacedBytes = replaced_bytes previous,
       co_releasedPartBlobIds = map p_blobId parts, co_releasedPartBytes = part_bytes parts\<rparr>"
    for previous and parts :: "PartRecord list"
  from assms(2) obtain u found where b: "requireBucket R (s_db s) bucket = Inr u"
    and f: "loadUpload R (s_db s) uploadId = Inr found"
    and rest: "(case found of None \<Rightarrow> (Inl (StorageError NoSuchUpload), s)
       | Some upload \<Rightarrow> attempt (loadObject R (s_db s) ?k (o_key object)) s (\<lambda>previous.
            attempt (collectParts R (s_db s) uploadId) (replace_counters previous s) (\<lambda>parts.
              db_write R (writeOptionsFor durability) (batch previous parts upload)
                (replace_counters previous s)
                (\<lambda>s. (Inr (result previous parts), s\<lparr>s_bytes := s_bytes s + o_size object,
                   s_uploads := s_uploads s - 1, s_orphans := s_orphans s + of_nat (length parts)\<rparr>)))))
       = (Inr out, s')"
    unfolding completeUpload_def Let_def attempt_Inr CompleteOutcome.simps length_map
      option.map_disc_iff content_db batch_def result_def replaced_bytes_def
    by auto
  from rest obtain upload where up: "found = Some upload"
    by (cases found) auto
  from rest [unfolded up option.case attempt_Inr] obtain previous parts where
    p: "loadObject R (s_db s) ?k (o_key object) = Inr previous"
    and parts: "collectParts R (s_db s) uploadId = Inr parts"
    and w: "db_write R (writeOptionsFor durability) (batch previous parts upload)
                (replace_counters previous s)
                (\<lambda>s. (Inr (result previous parts), s\<lparr>s_bytes := s_bytes s + o_size object,
                   s_uploads := s_uploads s - 1, s_orphans := s_orphans s + of_nat (length parts)\<rparr>))
       = (Inr out, s')"
    by (auto simp only: attempt_Inr)
  let ?s = "replace_counters previous s"
  from w obtain db' where
    db': "view db' = apply_batch (batch previous parts upload) (view (s_db ?s))"
    and out: "out = result previous parts"
    and s': "s' = ?s\<lparr>s_db := db', s_bytes := s_bytes ?s + o_size object,
      s_uploads := s_uploads ?s - 1, s_orphans := s_orphans ?s + of_nat (length parts)\<rparr>"
    by (elim db_write_Inr [OF assms(1)]) auto
  have db: "s_db ?s = s_db s"
    by (simp add: replace_counters_def split: option.splits)
  show thesis
  proof (rule that [OF requireBucket_row [OF assms(1) b]
        loadUpload_content [OF assms(1) f, unfolded up] loadObject_content [OF assms(1) p] parts
        out [unfolded result_def]])
    show "content view s' = fold op_result
       (publish_batch ?k object (map_option o_blobId previous) (clock 0) @
        retire_parts clock (if previous = None then 0 else 1) uploadId parts @
        retire_upload upload uploadId) (content view s)"
      using content_after_write [OF assms(1) db' [unfolded db]] s' by (simp add: batch_def)
    show "counters s' = (s_buckets s, (if previous = None then s_objects s + 1 else s_objects s),
       s_bytes s - replaced_bytes previous + o_size object, s_uploads s - 1,
       (if previous = None then s_orphans s - 1 else s_orphans s) + of_nat (length parts))"
      by (cases previous) (simp_all add: s' counters_def replace_counters_def replaced_bytes_def)
  qed
qed

lemma trackBlob_Inr:
  assumes "rocks_laws R view" "trackBlob R clock blobId s = (Inr r, s')"
  shows "content view s' = (content view s)(orphan_key blobId \<mapsto> orphanValue (clock 0))"
    "counters s' = (s_buckets s, s_objects s, s_bytes s, s_uploads s, s_orphans s + 1)"
proof -
  obtain db' where db': "view db' = apply_batch [Put (orphan_key blobId) (orphanValue (clock 0))] (view (s_db s))"
    and s': "s' = s\<lparr>s_db := db', s_orphans := s_orphans s + 1\<rparr>"
    using assms(2) unfolding trackBlob_def by (elim db_write_Inr [OF assms(1)]) auto
  from content_after_write [OF assms(1) db'] s'
  show "content view s' = (content view s)(orphan_key blobId \<mapsto> orphanValue (clock 0))" by simp
  show "counters s' = (s_buckets s, s_objects s, s_bytes s, s_uploads s, s_orphans s + 1)"
    by (simp add: s' counters_def)
qed

text \<open>A call that writes one batch and moves no counter.\<close>

lemma plain_write_Inr:
  assumes "rocks_laws R view" "db_write R sync batch s (\<lambda>s. (Inr x, s)) = (Inr r, s')"
  shows "content view s' = fold op_result batch (content view s)" "counters s' = counters s"
  using assms(2) content_after_write [OF assms(1)]
  by (auto elim!: db_write_Inr [OF assms(1)])

end
