(* ===== verification/Counters.thy ===== *)
theory Counters
  imports Reclamation Store_Calls
begin

text \<open>
  The five counters of the metadata store against the rows they count. A \<open>tally\<close> sums a weight
  over all rows, in 64-bit arithmetic; each counter has its weight. The step lemmas show that
  a completed call moves every counter by exactly what its batch moves the tally, and the
  startup scan computes the tallies, so a reopened store reports what the running one did.
\<close>

section \<open>Tallies\<close>

definition tally :: "(string \<Rightarrow> string \<Rightarrow> u64) \<Rightarrow> (string \<rightharpoonup> string) \<Rightarrow> u64" where
  "tally f c = (\<Sum>k\<in>dom c. f k (the (c k)))"

definition weight :: "(string \<Rightarrow> string \<Rightarrow> u64) \<Rightarrow> (string \<rightharpoonup> string) \<Rightarrow> string \<Rightarrow> u64" where
  "weight f c k = (case c k of None \<Rightarrow> 0 | Some v \<Rightarrow> f k v)"

lemma weight_simps [simp]:
  "c k = None \<Longrightarrow> weight f c k = 0" "c k = Some v \<Longrightarrow> weight f c k = f k v"
  by (simp_all add: weight_def)

lemma tally_split:
  assumes "finite (dom c)"
  shows "tally f c = weight f c k + (\<Sum>x\<in>dom c - {k}. f x (the (c x)))"
proof (cases "k \<in> dom c")
  case True
  then show ?thesis
    using assms by (auto simp: tally_def weight_def sum.remove)
next
  case False
  then have "dom c - {k} = dom c" "c k = None" by auto
  then show ?thesis by (simp add: tally_def)
qed

lemma tally_put:
  assumes "finite (dom c)"
  shows "tally f (c(k \<mapsto> v)) = tally f c - weight f c k + f k v"
proof -
  have "(\<Sum>x\<in>dom (c(k \<mapsto> v)) - {k}. f x (the ((c(k \<mapsto> v)) x))) = (\<Sum>x\<in>dom c - {k}. f x (the (c x)))"
    by (rule sum.cong) auto
  then have "tally f (c(k \<mapsto> v)) = f k v + (\<Sum>x\<in>dom c - {k}. f x (the (c x)))"
    using assms tally_split [of "c(k \<mapsto> v)" f k] by simp
  with tally_split [OF assms, of f k] show ?thesis by (simp add: algebra_simps)
qed

lemma tally_delete:
  assumes "finite (dom c)"
  shows "tally f (c(k := None)) = tally f c - weight f c k"
proof -
  have "tally f (c(k := None)) = (\<Sum>x\<in>dom c - {k}. f x (the (c x)))"
    by (auto simp: tally_def intro!: sum.cong)
  with tally_split [OF assms, of f k] show ?thesis by (simp add: algebra_simps)
qed

lemma tally_omap:
  "omap_ok m \<Longrightarrow> tally f (map_of m) = (\<Sum>(k, v)\<leftarrow>m. f k v)"
proof (induction m)
  case Nil
  then show ?case by (simp add: tally_def)
next
  case (Cons e m)
  obtain k v where e: "e = (k, v)" by (cases e)
  with Cons.prems have "k \<notin> fst ` set m" "omap_ok m"
    using omap_ok_distinct [of "e # m"] by (auto simp: omap_ok_Cons)
  then have "map_of m k = None" by (simp add: map_of_eq_None_iff)
  then have "tally f ((map_of m)(k \<mapsto> v)) = tally f (map_of m) + f k v"
    by (simp only: tally_put finite_dom_map_of weight_simps) simp
  moreover have "map_of (e # m) = (map_of m)(k \<mapsto> v)"
    by (simp add: e fun_upd_def)
  ultimately show ?case
    using Cons.IH [OF \<open>omap_ok m\<close>] by (simp only: e list.map sum_list.Cons case_prod_conv) simp
qed

text \<open>What one row counts for.\<close>

definition w_row :: "char \<Rightarrow> string \<Rightarrow> string \<Rightarrow> u64" where
  "w_row tag k v = (if k \<noteq> [] \<and> hd k = tag then 1 else 0)"

definition w_bytes :: "string \<Rightarrow> string \<Rightarrow> u64" where
  "w_bytes k v =
     (if k \<noteq> [] \<and> hd k = kObject then (case stored_size v of Inl _ \<Rightarrow> 0 | Inr n \<Rightarrow> n) else 0)"

definition tallies :: "(string \<rightharpoonup> string) \<Rightarrow> u64 \<times> u64 \<times> u64 \<times> u64 \<times> u64" where
  "tallies c = (tally (w_row kBucket) c, tally (w_row kObject) c, tally w_bytes c,
     tally (w_row kUploadById) c, tally (w_row kOrphan) c)"

definition counters_ok :: "('db \<Rightarrow> (string, string) omap) \<Rightarrow> 'db store \<Rightarrow> bool" where
  "counters_ok view s \<longleftrightarrow> counters s = tallies (content view s)"

lemma size_of_object: "decodeObject key v = Inr object \<Longrightarrow> stored_size v = Inr (o_size object)"
  by (auto simp: decodeObject_def stored_size_def rbind_eq_Inr rbind_def split: sum.splits prod.splits)

lemma tags_all_ne [simp]:
  "kBucket \<noteq> kObject" "kBucket \<noteq> kUploadById" "kBucket \<noteq> kOrphan" "kBucket \<noteq> kPart" "kBucket \<noteq> kUploadByKey"
  "kObject \<noteq> kBucket" "kObject \<noteq> kUploadById" "kObject \<noteq> kPart" "kObject \<noteq> kUploadByKey"
  "kUploadById \<noteq> kBucket" "kUploadById \<noteq> kObject" "kUploadById \<noteq> kOrphan" "kUploadById \<noteq> kPart"
  "kUploadById \<noteq> kUploadByKey" "kUploadByKey \<noteq> kBucket" "kUploadByKey \<noteq> kObject"
  "kUploadByKey \<noteq> kUploadById" "kUploadByKey \<noteq> kOrphan" "kUploadByKey \<noteq> kPart"
  "kPart \<noteq> kBucket" "kPart \<noteq> kObject" "kPart \<noteq> kUploadById" "kPart \<noteq> kUploadByKey"
  "kOrphan \<noteq> kBucket" "kOrphan \<noteq> kUploadById" "kOrphan \<noteq> kUploadByKey"
  by (simp_all add: tag_defs)

lemma row_weights [simp]:
  "w_row tag (object_key b k) v = (if tag = kObject then 1 else 0)"
  "w_row tag (orphan_key i) v = (if tag = kOrphan then 1 else 0)"
  "w_row tag (bucket_key n) v = (if tag = kBucket then 1 else 0)"
  "w_row tag (uploadById u) v = (if tag = kUploadById then 1 else 0)"
  "w_row tag (uploadByKey b k u) v = (if tag = kUploadByKey then 1 else 0)"
  "w_row tag (part_key u p) v = (if tag = kPart then 1 else 0)"
  "w_bytes (orphan_key i) v = 0" "w_bytes (bucket_key n) v = 0" "w_bytes (uploadById u) v = 0"
  "w_bytes (uploadByKey b k u) v = 0" "w_bytes (part_key u p) v = 0"
  by (simp_all add: w_row_def w_bytes_def)

lemma weight_bytes_other [simp]:
  "weight w_bytes c (orphan_key i) = 0" "weight w_bytes c (bucket_key n) = 0"
  "weight w_bytes c (uploadById u) = 0" "weight w_bytes c (uploadByKey b k u) = 0"
  "weight w_bytes c (part_key u p) = 0"
  by (simp_all add: weight_def split: option.splits)

lemma weight_row_other:
  "tag \<noteq> kObject \<Longrightarrow> weight (w_row tag) c (object_key b k) = 0"
  "tag \<noteq> kOrphan \<Longrightarrow> weight (w_row tag) c (orphan_key i) = 0"
  "tag \<noteq> kBucket \<Longrightarrow> weight (w_row tag) c (bucket_key n) = 0"
  "tag \<noteq> kUploadById \<Longrightarrow> weight (w_row tag) c (uploadById u) = 0"
  "tag \<noteq> kUploadByKey \<Longrightarrow> weight (w_row tag) c (uploadByKey b k u) = 0"
  "tag \<noteq> kPart \<Longrightarrow> weight (w_row tag) c (part_key u p) = 0"
  by (simp_all add: weight_def split: option.splits)

lemma weight_upd_other [simp]: "k \<noteq> k' \<Longrightarrow> weight f (c(k' := x)) k = weight f c k"
  by (simp add: weight_def)

lemma finite_content [simp]: "finite (dom (content view s))"
  by (rule finite_dom_map_of)

lemmas tally_updates = tally_put tally_delete weight_row_other

section \<open>Every completed call keeps the counters exact\<close>

lemma weight_tracked:
  "tracked c b \<Longrightarrow> weight (w_row kOrphan) c (orphan_key b) = 1"
  "\<not> tracked c b \<Longrightarrow> weight (w_row kOrphan) c (orphan_key b) = 0"
  by (auto simp: tracked_def)

lemma weight_object:
  "load_row (decodeObject k) (c (object_key b k)) = Inr previous \<Longrightarrow>
   weight w_bytes c (object_key b k) = replaced_bytes previous \<and>
   weight (w_row kObject) c (object_key b k) = (if previous = None then 0 else 1)"
  by (cases previous)
    (auto simp: load_row_eqs replaced_bytes_def w_bytes_def dest: size_of_object)

lemma w_bytes_encodeObject: "object_ok object \<Longrightarrow> w_bytes (object_key b k) (encodeObject object) = o_size object"
  using size_of_object [OF decode_encode_exact(4)] by (simp add: w_bytes_def)

lemma createBucket_counters:
  assumes "rocks_laws R view" "createBucket R bucket s = (Inr r, s')" "counters_ok view s"
  shows "counters_ok view s'"
  using createBucket_Inr [OF assms(1,2)] assms(3)
  by (simp add: counters_ok_def tallies_def tally_updates counters_def)

lemma deleteBucket_counters:
  assumes "rocks_laws R view" "deleteBucket R name s = (Inr r, s')" "counters_ok view s"
  shows "counters_ok view s'"
  using deleteBucket_Inr [OF assms(1,2)] assms(3)
  by (auto simp: counters_ok_def tallies_def tally_updates counters_def)

lemma createUpload_counters:
  assumes "rocks_laws R view" "createUpload R upload s = (Inr r, s')" "counters_ok view s"
    and "content view s (uploadById (up_uploadId upload)) = None"
  shows "counters_ok view s'"
  using createUpload_Inr [OF assms(1,2)] assms(3,4)
  by (simp add: counters_ok_def tallies_def tally_updates counters_def)

lemma trackBlob_counters:
  assumes "rocks_laws R view" "trackBlob R clock b s = (Inr r, s')" "counters_ok view s"
    and "\<not> known (content view s) b"
  shows "counters_ok view s'"
  using trackBlob_Inr [OF assms(1,2)] assms(3,4)
  by (simp add: counters_ok_def tallies_def tally_updates counters_def known_def weight_tracked)

text \<open>What publishing an object does to the tallies.\<close>

lemma tallies_publish:
  assumes fin: "finite (dom c)" and inv: "blob_inv c"
    and row: "load_row (decodeObject (o_key object)) (c (object_key b (o_key object))) = Inr previous"
    and object: "object_ok object" "tracked c (o_blobId object)"
    and t: "tallies c = (n1, n2, n3, n4, n5)"
  shows "tallies (fold op_result (publish_batch (object_key b (o_key object)) object
      (map_option o_blobId previous) now) c) =
    (n1, (if previous = None then n2 + 1 else n2), n3 - replaced_bytes previous + o_size object, n4,
     (if previous = None then n5 - 1 else n5))"
proof -
  note w = weight_object [where c = c, OF row] weight_tracked(1) [OF object(2)]
    w_bytes_encodeObject [OF object(1)]
  have ref: "refers c (object_key b (o_key object)) = map_option o_blobId previous"
    by (rule refers_object_row [where c = c, OF row])
  show ?thesis
  proof (cases previous)
    case None
    then show ?thesis
      using t w fin by (auto simp: publish_batch_def tallies_def tally_updates)
  next
    case (Some p)
    then have "refers c (object_key b (o_key object)) = Some (o_blobId p)"
      using ref by simp
    with inv have rel: "\<not> tracked c (o_blobId p)"
      by (auto simp: blob_inv_def)
    with object have ne: "o_blobId p \<noteq> o_blobId object" by auto
    from Some show ?thesis
      using t w fin weight_tracked(2) [OF rel] ne
      by (auto simp: publish_batch_def tallies_def tally_updates)
  qed
qed

lemma putObject_counters:
  assumes laws: "rocks_laws R view" and run: "putObject R clock b object d s = (Inr out, s')"
    and ok: "counters_ok view s" and inv: "blob_inv (content view s)"
    and object: "object_ok object" "tracked (content view s) (o_blobId object)"
  shows "counters_ok view s'"
proof -
  obtain previous where row: "load_row (decodeObject (o_key object))
      (content view s (object_key b (o_key object))) = Inr previous"
    and c: "content view s' = fold op_result (publish_batch (object_key b (o_key object)) object
       (map_option o_blobId previous) (clock 0)) (content view s)"
    and n: "counters s' = (s_buckets s, (if previous = None then s_objects s + 1 else s_objects s),
       s_bytes s - replaced_bytes previous + o_size object, s_uploads s,
       (if previous = None then s_orphans s - 1 else s_orphans s))"
    by (rule putObject_Inr [OF laws run])
  show ?thesis
    using tallies_publish [where c = "content view s", OF finite_content [of view s] inv row object, of "s_buckets s" "s_objects s" "s_bytes s"
        "s_uploads s" "s_orphans s"] ok
    unfolding counters_ok_def n c by (simp add: counters_def)
qed

lemma deleteObject_counters:
  assumes laws: "rocks_laws R view" and run: "deleteObject R clock b k d s = (Inr out, s')"
    and ok: "counters_ok view s" and inv: "blob_inv (content view s)"
  shows "counters_ok view s'"
proof -
  obtain existing where row: "load_row (decodeObject k) (content view s (object_key b k)) = Inr existing"
    and none: "existing = None \<longrightarrow> s' = s"
    and some: "\<forall>object. existing = Some object \<longrightarrow> content view s' = fold op_result
       [Delete (object_key b k), Put (orphan_key (o_blobId object)) (orphanValue (clock 0))]
       (content view s)"
      "\<forall>object. existing = Some object \<longrightarrow>
       counters s' = (s_buckets s, s_objects s - 1, s_bytes s - o_size object, s_uploads s, s_orphans s + 1)"
    by (rule deleteObject_Inr [OF laws run])
  show ?thesis
  proof (cases existing)
    case None
    with none ok show ?thesis by simp
  next
    case (Some object)
    with refers_object_row [where c = "content view s", OF row] inv have "\<not> tracked (content view s) (o_blobId object)"
      by (auto simp: blob_inv_def)
    with some [rule_format, OF Some] weight_object [where c = "content view s", OF row] ok Some show ?thesis
      by (auto simp: counters_ok_def tallies_def tally_updates counters_def weight_tracked
          replaced_bytes_def)
  qed
qed

text \<open>Retiring parts queues each part's blob once.\<close>

lemma part_blobs_distinct:
  assumes rows: "part_rows c u parts" and inv: "blob_inv c"
    and sorted: "sorted_wrt (<) (map p_partNumber parts)"
  shows "distinct (map p_blobId parts)" "\<forall>p\<in>set parts. \<not> tracked c (p_blobId p)"
proof -
  have ref: "refers c (part_key u (p_partNumber p)) = Some (p_blobId p)" if "p \<in> set parts" for p
    using rows that by (auto simp: part_rows_def refers_def intro: blob_of_part)
  then show "\<forall>p\<in>set parts. \<not> tracked c (p_blobId p)"
    using inv unfolding blob_inv_def by blast
  have nums: "distinct (map p_partNumber parts)"
    using sorted by (simp add: strict_sorted_iff)
  have "inj_on p_blobId (set parts)"
  proof (rule inj_onI)
    fix p q
    assume p: "p \<in> set parts" and q: "q \<in> set parts" and eq: "p_blobId p = p_blobId q"
    then have "part_key u (p_partNumber p) = part_key u (p_partNumber q)"
      using ref [OF p] ref [OF q] inv unfolding blob_inv_def by metis
    then have "p_partNumber p = p_partNumber q" by simp
    then show "p = q"
      using nums p q by (auto simp: distinct_map dest: inj_onD)
  qed
  then show "distinct (map p_blobId parts)"
    using nums by (simp add: distinct_map)
qed

lemma tallies_retire_parts:
  "finite (dom c) \<Longrightarrow> distinct (map p_blobId parts) \<Longrightarrow> \<forall>p\<in>set parts. \<not> tracked c (p_blobId p) \<Longrightarrow>
   tallies c = (n1, n2, n3, n4, n5) \<Longrightarrow>
   tallies (fold op_result (retire_parts clock i u parts) c) = (n1, n2, n3, n4, n5 + of_nat (length parts))"
proof (induction parts arbitrary: c i n5)
  case (Cons p parts)
  let ?c = "c(part_key u (p_partNumber p) := None, orphan_key (p_blobId p) \<mapsto> orphanValue (clock i))"
  have "tallies ?c = (n1, n2, n3, n4, n5 + 1)"
    using Cons.prems by (auto simp: tallies_def tally_updates weight_tracked)
  moreover have "p_blobId q \<noteq> p_blobId p" if "q \<in> set parts" for q
    using Cons.prems(2) imageI [OF that, of p_blobId] by auto
  then have "\<forall>q\<in>set parts. \<not> tracked ?c (p_blobId q)"
    using Cons.prems(3) by (auto simp: tracked_def)
  moreover have "finite (dom ?c)" "distinct (map p_blobId parts)"
    using Cons.prems by auto
  ultimately have "tallies (fold op_result (retire_parts clock (Suc i) u parts) ?c) =
      (n1, n2, n3, n4, n5 + 1 + of_nat (length parts))"
    by (intro Cons.IH)
  then show ?case
    unfolding retire_parts_Cons by (simp add: algebra_simps)
qed (simp add: retire_parts_def)

lemma retire_parts_upload_row:
  "fold op_result (retire_parts clock i u parts) c (uploadById u) = c (uploadById u)"
  by (subst retire_parts_rows) auto

lemma finite_fold_op_result: "finite (dom c) \<Longrightarrow> finite (dom (fold op_result batch c))"
proof (induction batch arbitrary: c)
  case (Cons x batch)
  have "finite (dom (op_result x c))"
    using Cons.prems by (cases x) auto
  from Cons.IH [OF this] show ?case by simp
qed simp

lemma tallies_retire:
  assumes fin: "finite (dom c)" and inv: "blob_inv c" and rows: "part_rows c u parts"
    and sorted: "sorted_wrt (<) (map p_partNumber parts)"
    and upload: "c (uploadById u) \<noteq> None" and t: "tallies c = (n1, n2, n3, n4, n5)"
  shows "tallies (fold op_result (retire_parts clock i u parts @ retire_upload upload u) c) =
    (n1, n2, n3, n4 - 1, n5 + of_nat (length parts))"
proof -
  let ?c = "fold op_result (retire_parts clock i u parts) c"
  have "tallies ?c = (n1, n2, n3, n4, n5 + of_nat (length parts))"
    by (rule tallies_retire_parts [OF fin part_blobs_distinct [OF rows inv sorted] t])
  moreover have "?c (uploadById u) \<noteq> None"
    using upload by (simp add: retire_parts_upload_row)
  ultimately show ?thesis
    using finite_fold_op_result [OF fin]
    by (auto simp: retire_upload_def tallies_def tally_updates)
qed

lemma abortUpload_counters:
  assumes laws: "rocks_laws R view" and run: "abortUpload R clock u d s = (Inr out, s')"
    and ok: "counters_ok view s" and inv: "blob_inv (content view s)"
  shows "counters_ok view s'"
proof -
  obtain upload parts where
    up: "load_row (decodeUpload u) (content view s (uploadById u)) = Inr (Some upload)"
    and parts: "collectParts R (s_db s) u = Inr parts"
    and c: "content view s' = fold op_result (retire_parts clock 0 u parts @ retire_upload upload u)
       (content view s)"
    and n: "counters s' = (s_buckets s, s_objects s, s_bytes s, s_uploads s - 1,
       s_orphans s + of_nat (length parts))"
    by (rule abortUpload_Inr [OF laws run])
  have "content view s (uploadById u) \<noteq> None"
    using up by (auto simp: load_row_eqs)
  from tallies_retire [where c = "content view s", OF finite_content [of view s] inv
      collectParts_part_rows [OF laws parts] collectParts_sorted [OF laws parts] this
      ok [unfolded counters_ok_def counters_def, symmetric]]
  show ?thesis
    unfolding counters_ok_def n c by simp
qed

lemma completeUpload_counters:
  assumes laws: "rocks_laws R view" and run: "completeUpload R clock b u object d s = (Inr out, s')"
    and ok: "counters_ok view s" and inv: "blob_inv (content view s)"
    and object: "object_ok object" "tracked (content view s) (o_blobId object)"
  shows "counters_ok view s'"
proof -
  let ?k = "object_key b (o_key object)"
  obtain upload previous parts where
    up: "load_row (decodeUpload u) (content view s (uploadById u)) = Inr (Some upload)"
    and row: "load_row (decodeObject (o_key object)) (content view s ?k) = Inr previous"
    and parts: "collectParts R (s_db s) u = Inr parts"
    and c: "content view s' = fold op_result
       (publish_batch ?k object (map_option o_blobId previous) (clock 0) @
        retire_parts clock (if previous = None then 0 else 1) u parts @
        retire_upload upload u) (content view s)"
    and n: "counters s' = (s_buckets s, (if previous = None then s_objects s + 1 else s_objects s),
       s_bytes s - replaced_bytes previous + o_size object, s_uploads s - 1,
       (if previous = None then s_orphans s - 1 else s_orphans s) + of_nat (length parts))"
    by (rule completeUpload_Inr [OF laws run])
  define c1 where "c1 = fold op_result (publish_batch ?k object (map_option o_blobId previous) (clock 0))
      (content view s)"
  have t1: "tallies c1 = (s_buckets s, (if previous = None then s_objects s + 1 else s_objects s),
      s_bytes s - replaced_bytes previous + o_size object, s_uploads s,
      (if previous = None then s_orphans s - 1 else s_orphans s))"
    unfolding c1_def
    by (rule tallies_publish [where c = "content view s", OF finite_content [of view s] inv row object])
      (use ok in \<open>simp add: counters_ok_def counters_def\<close>)
  have inv1: "blob_inv c1"
    using owner_safe_publish [where c = "content view s", OF row object] inv
    by (simp add: owner_safe_def c1_def)
  have rows1: "part_rows c1 u parts"
    by (rule part_rows_cong [OF _ collectParts_part_rows [OF laws parts]])
      (simp add: c1_def publish_keeps_parts)
  have up1: "c1 (uploadById u) \<noteq> None"
  proof -
    have "c1 (uploadById u) = content view s (uploadById u)"
      unfolding c1_def
      by (rule fold_op_result_other) (auto simp: publish_batch_def split: option.splits)
    then show ?thesis using up by (auto simp: load_row_eqs)
  qed
  have "finite (dom c1)"
    unfolding c1_def by (intro finite_fold_op_result finite_content)
  from tallies_retire [OF this inv1 rows1 collectParts_sorted [OF laws parts] up1 t1]
  show ?thesis
    unfolding counters_ok_def n c by (simp add: c1_def)
qed

lemma putPart_counters:
  assumes laws: "rocks_laws R view" and run: "putPart R clock u part d s = (Inr out, s')"
    and ok: "counters_ok view s" and inv: "blob_inv (content view s)"
    and part: "part_ok part" "tracked (content view s) (p_blobId part)"
  shows "counters_ok view s'"
proof -
  let ?k = "part_key u (p_partNumber part)"
  obtain previous where
    row: "load_row (decodePart (p_partNumber part)) (content view s ?k) = Inr previous"
    and c: "content view s' = fold op_result (part_batch ?k part
       (map_option p_blobId previous) (clock 0)) (content view s)"
    and n: "counters s' = (s_buckets s, s_objects s, s_bytes s, s_uploads s,
       (if previous = None then s_orphans s - 1 else s_orphans s))"
    by (rule putPart_Inr [OF laws run])
  have "\<not> tracked (content view s) (p_blobId p)" if "previous = Some p" for p
    using refers_part_row [where c = "content view s", OF row] inv that by (auto simp: blob_inv_def)
  with part(2) have "previous = Some p \<Longrightarrow> p_blobId p \<noteq> p_blobId part" for p by auto
  with ok weight_tracked(1) [OF part(2)] \<open>\<And>p. previous = Some p \<Longrightarrow> \<not> tracked (content view s) (p_blobId p)\<close>
  show ?thesis
    unfolding counters_ok_def n c
    by (cases previous) (auto simp: part_batch_def tallies_def tally_updates counters_def weight_tracked)
qed

text \<open>Calls on the tables that are not counted.\<close>

lemma tallies_uncounted:
  "finite (dom c) \<Longrightarrow> \<forall>k\<in>op_key ` set batch. hd k \<notin> {kBucket, kObject, kUploadById, kOrphan} \<Longrightarrow>
   tallies (fold op_result batch c) = tallies c"
proof (induction batch arbitrary: c)
  case (Cons x batch)
  then obtain k where k: "op_key x = k" "hd k \<notin> {kBucket, kObject, kUploadById, kOrphan}" by auto
  then have w: "w_row kBucket k v = 0" "w_row kObject k v = 0" "w_bytes k v = 0"
    "w_row kUploadById k v = 0" "w_row kOrphan k v = 0" for v
    by (auto simp: w_row_def w_bytes_def)
  then have "weight (w_row kBucket) c k = 0" "weight (w_row kObject) c k = 0" "weight w_bytes c k = 0"
    "weight (w_row kUploadById) c k = 0" "weight (w_row kOrphan) c k = 0"
    by (auto simp: weight_def split: option.splits)
  with w k Cons.prems(1) have "tallies (op_result x c) = tallies c"
    by (cases x) (auto simp: tallies_def tally_put tally_delete)
  moreover have "finite (dom (op_result x c))"
    using Cons.prems(1) by (cases x) auto
  ultimately show ?case
    using Cons by simp
qed simp

lemma uncounted_write:
  assumes "rocks_laws R view" "db_write R sync batch s (\<lambda>s. (Inr x, s)) = (Inr r, s')"
    and "\<forall>k\<in>op_key ` set batch. hd k \<notin> {kBucket, kObject, kUploadById, kOrphan}" "counters_ok view s"
  shows "counters_ok view s'"
  using plain_write_Inr [OF assms(1,2)] tallies_uncounted [OF finite_content [of view s] assms(3)] assms(4)
  by (simp add: counters_ok_def)

section \<open>Steps and runs\<close>

lemma completed_cases:
  assumes "completed r s s'"
  obtains x where "r = Inr x" | "s' = s"
  using assms by (auto simp: completed_def)

lemma delete_row_counters:
  assumes "rocks_laws R view" "delete_row R key s = (Inr x, s')"
    and "hd key \<notin> {kBucket, kObject, kUploadById, kOrphan}" "counters_ok view s"
  shows "counters_ok view s'"
proof -
  obtain stored :: "string option" where rest: "(if stored = None then (Inr False, s)
      else db_write R (writeOptionsFor Strict) [Delete key] s (\<lambda>s. (Inr True, s))) = (Inr x, s')"
    using assms(2) unfolding delete_row_def attempt_Inr by blast
  show ?thesis
  proof (cases "stored = None")
    case True
    with rest assms(4) show ?thesis by simp
  next
    case False
    with rest have "db_write R (writeOptionsFor Strict) [Delete key] s (\<lambda>s. (Inr True, s)) = (Inr x, s')"
      by simp
    then show ?thesis
      by (rule uncounted_write [OF assms(1)]) (use assms in auto)
  qed
qed

lemma updateBucket_counters:
  assumes "rocks_laws R view" "updateBucket R bucket s = (Inr x, s')" "counters_ok view s"
  shows "counters_ok view s'"
proof -
  obtain existing where e: "loadBucket R (s_db s) (b_name bucket) = Inr existing" "existing \<noteq> None"
    and w: "db_write R (s_syncWrites s) [Put (bucket_key (b_name bucket)) (encodeBucket bucket)] s
      (\<lambda>s. (Inr (), s)) = (Inr x, s')"
    using assms(2) unfolding updateBucket_def attempt_Inr by (auto split: if_splits)
  have "content view s (bucket_key (b_name bucket)) \<noteq> None"
    using loadBucket_content [OF assms(1) e(1)] e(2) by (auto simp: load_row_eqs)
  with plain_write_Inr [OF assms(1) w] assms(3) show ?thesis
    by (auto simp: counters_ok_def tallies_def tally_updates)
qed

lemma hd_tables [simp]:
  "hd (user_key n) = kUser" "hd (accessKey_key n) = kAccessKey" "hd (meta_key n) = kMeta"
  "hd (audit_key i) = kAudit"
  by (simp_all add: key_defs appendBigEndian64_def)

lemma uncounted_tags:
  "kUser \<notin> {kBucket, kObject, kUploadById, kOrphan}" "kAccessKey \<notin> {kBucket, kObject, kUploadById, kOrphan}"
  "kMeta \<notin> {kBucket, kObject, kUploadById, kOrphan}" "kAudit \<notin> {kBucket, kObject, kUploadById, kOrphan}"
  by (simp_all add: tag_defs)

lemma appendAudit_counters:
  assumes "rocks_laws R view" "appendAudit R entry s = (Inr x, s')" "counters_ok view s"
  shows "counters_ok view s'"
proof -
  let ?s = "s\<lparr>s_auditSequence := s_auditSequence s + 1\<rparr>"
  have "counters_ok view ?s"
    using assms(3) by (simp add: counters_ok_def counters_def)
  then show ?thesis
    using assms(2) unfolding appendAudit_def Let_def
    by (elim uncounted_write [OF assms(1), rotated 2]) (use uncounted_tags in \<open>auto split: if_splits\<close>)
qed

text \<open>The calls that write one row of a table that is not counted.\<close>

lemma single_write_counters:
  assumes "rocks_laws R view" "db_write R sync [x] s (\<lambda>s. (Inr (), s)) = (r, s')" "completed r s s'"
    and "hd (op_key x) \<notin> {kBucket, kObject, kUploadById, kOrphan}" "counters_ok view s"
  shows "counters_ok view s'"
  using assms(3)
proof (rule completed_cases)
  fix y
  assume "r = Inr y"
  with assms(2) have "db_write R sync [x] s (\<lambda>s. (Inr (), s)) = (Inr y, s')" by simp
  then show ?thesis
    by (rule uncounted_write [OF assms(1)]) (use assms(4,5) in auto)
qed (use assms(5) in simp)

lemma store_step_counters:
  assumes laws: "rocks_laws R view" and step: "store_step R view True s s'"
    and ok: "counters_ok view s" and inv: "blob_inv (content view s)"
  shows "counters_ok view s'"
  using step
proof cases
  case (step_createBucket bucket r)
  from step_createBucket(1) show ?thesis
    by (simp, elim completed_cases)
      (use step_createBucket(2) createBucket_counters [OF laws] ok in auto)
next
  case (step_deleteBucket name r)
  from step_deleteBucket(1) show ?thesis
    by (simp, elim completed_cases)
      (use step_deleteBucket(2) deleteBucket_counters [OF laws] ok in auto)
next
  case (step_updateBucket bucket r)
  from step_updateBucket(1) show ?thesis
    by (simp, elim completed_cases)
      (use step_updateBucket(2) updateBucket_counters [OF laws] ok in auto)
next
  case (step_putUser user r)
  then show ?thesis
    using single_write_counters [OF laws _ _ _ ok] uncounted_tags unfolding putUser_def by fastforce
next
  case (step_deleteUser username r)
  from step_deleteUser(1) show ?thesis
    by (simp, elim completed_cases)
      (use step_deleteUser(2) delete_row_counters [OF laws] uncounted_tags ok in
        \<open>auto simp: deleteUser_def\<close>)
next
  case (step_putAdmin admin r)
  then show ?thesis
    using single_write_counters [OF laws _ _ _ ok] uncounted_tags unfolding putAdmin_def by fastforce
next
  case (step_deleteAdmin r)
  then show ?thesis
    using single_write_counters [OF laws _ _ _ ok] uncounted_tags unfolding deleteAdmin_def by fastforce
next
  case (step_putInstanceSettings settings r)
  then show ?thesis
    using single_write_counters [OF laws _ _ _ ok] uncounted_tags unfolding putInstanceSettings_def by fastforce
next
  case (step_putAccessKey key r)
  then show ?thesis
    using single_write_counters [OF laws _ _ _ ok] uncounted_tags unfolding putAccessKey_def by fastforce
next
  case (step_deleteAccessKey keyId r)
  from step_deleteAccessKey(1) show ?thesis
    by (simp, elim completed_cases)
      (use step_deleteAccessKey(2) delete_row_counters [OF laws] uncounted_tags ok in
        \<open>auto simp: deleteAccessKey_def\<close>)
next
  case (step_appendAudit entry r)
  from step_appendAudit(1) show ?thesis
    by (simp, elim completed_cases) (use step_appendAudit(2) appendAudit_counters [OF laws] ok in auto)
next
  case (step_putObject clock b object d r)
  from step_putObject(1) show ?thesis
    by (simp, elim completed_cases)
      (use step_putObject putObject_counters [OF laws _ ok inv] ok in auto)
next
  case (step_deleteObject clock b k d r)
  from step_deleteObject(1) show ?thesis
    by (simp, elim completed_cases)
      (use step_deleteObject deleteObject_counters [OF laws _ ok inv] ok in auto)
next
  case (step_createUpload upload r)
  from step_createUpload(1) show ?thesis
    by (simp, elim completed_cases)
      (use step_createUpload createUpload_counters [OF laws _ ok] ok in auto)
next
  case (step_putPart clock u part d r)
  from step_putPart(1) show ?thesis
    by (simp, elim completed_cases) (use step_putPart putPart_counters [OF laws _ ok inv] ok in auto)
next
  case (step_abortUpload clock u d r)
  from step_abortUpload(1) show ?thesis
    by (simp, elim completed_cases)
      (use step_abortUpload abortUpload_counters [OF laws _ ok inv] ok in auto)
next
  case (step_completeUpload clock b u object d r)
  from step_completeUpload(1) show ?thesis
    by (simp, elim completed_cases)
      (use step_completeUpload completeUpload_counters [OF laws _ ok inv] ok in auto)
next
  case (step_trackBlob clock b r)
  from step_trackBlob(1) show ?thesis
    by (simp, elim completed_cases) (use step_trackBlob trackBlob_counters [OF laws _ ok] ok in auto)
qed

section \<open>The startup scan\<close>

lemma seed_row_tally:
  assumes "seed_row k v sd = Inr sd'"
  shows "sd_buckets sd' = sd_buckets sd + w_row kBucket k v"
    "sd_objects sd' = sd_objects sd + w_row kObject k v"
    "sd_bytes sd' = sd_bytes sd + w_bytes k v"
    "sd_uploads sd' = sd_uploads sd + w_row kUploadById k v"
    "sd_orphans sd' = sd_orphans sd + w_row kOrphan k v"
proof -
  consider "k = []" | "k \<noteq> []" "hd k = kBucket" | "k \<noteq> []" "hd k = kUploadById" |
    "k \<noteq> []" "hd k = kOrphan" | "k \<noteq> []" "hd k = kPart" | "k \<noteq> []" "hd k = kObject" |
    "k \<noteq> []" "hd k \<notin> {kBucket, kUploadById, kOrphan, kPart, kObject}"
    by blast
  then have "sd_buckets sd' = sd_buckets sd + w_row kBucket k v \<and>
    sd_objects sd' = sd_objects sd + w_row kObject k v \<and>
    sd_bytes sd' = sd_bytes sd + w_bytes k v \<and>
    sd_uploads sd' = sd_uploads sd + w_row kUploadById k v \<and>
    sd_orphans sd' = sd_orphans sd + w_row kOrphan k v"
    using assms
    by cases (auto simp: seed_row_def w_row_def w_bytes_def Let_def split: sum.splits option.splits)
  then show "sd_buckets sd' = sd_buckets sd + w_row kBucket k v"
    "sd_objects sd' = sd_objects sd + w_row kObject k v"
    "sd_bytes sd' = sd_bytes sd + w_bytes k v"
    "sd_uploads sd' = sd_uploads sd + w_row kUploadById k v"
    "sd_orphans sd' = sd_orphans sd + w_row kOrphan k v"
    by simp_all
qed

lemma seed_rows_tally:
  "seed_rows es sd = Inr sd' \<Longrightarrow>
   sd_buckets sd' = sd_buckets sd + (\<Sum>(k, v)\<leftarrow>es. w_row kBucket k v) \<and>
   sd_objects sd' = sd_objects sd + (\<Sum>(k, v)\<leftarrow>es. w_row kObject k v) \<and>
   sd_bytes sd' = sd_bytes sd + (\<Sum>(k, v)\<leftarrow>es. w_bytes k v) \<and>
   sd_uploads sd' = sd_uploads sd + (\<Sum>(k, v)\<leftarrow>es. w_row kUploadById k v) \<and>
   sd_orphans sd' = sd_orphans sd + (\<Sum>(k, v)\<leftarrow>es. w_row kOrphan k v)"
proof (induction es sd rule: seed_rows.induct)
  case (2 stored v es sd)
  from 2(2) obtain sd1 where row: "seed_row stored v sd = Inr sd1" and rest: "seed_rows es sd1 = Inr sd'"
    by (cases "seed_row stored v sd") simp_all
  from 2(1) [OF row rest] seed_row_tally [OF row] show ?case
    by (simp add: add.assoc)
qed simp

lemma seek_all:
  "omap_ok m \<Longrightarrow> seek_entries m None [] = m"
  by (simp add: seek_entries_def)

lemma seedCounters_Inr:
  assumes laws: "rocks_laws R view" and run: "seedCounters R s = (Inr u, s')"
  shows "s_db s' = s_db s" "counters_ok view s'"
proof -
  obtain es st where es: "rk_seek R (s_db s) None [] = (es, st)"
    by (cases "rk_seek R (s_db s) None []")
  from run have "\<exists>sd. seed_rows es seed0 = Inr sd \<and>
      (case check st of
         Some e \<Rightarrow> (Inl e, s)
       | None \<Rightarrow> let s = s\<lparr>s_charges := join_parts sd\<rparr> in
           (case seedAuditSequence R s of
              (Inl e, s) \<Rightarrow> (Inl e, s)
            | (Inr _, s) \<Rightarrow> (Inr (), s\<lparr>s_buckets := sd_buckets sd, s_objects := sd_objects sd,
                 s_bytes := sd_bytes sd, s_uploads := sd_uploads sd, s_orphans := sd_orphans sd\<rparr>))) =
      (Inr u, s')"
    unfolding seedCounters_def es prod.case by (rule attempt_Inr [THEN iffD1])
  then obtain sd where sd: "seed_rows es seed0 = Inr sd" and rest:
    "(case check st of
        Some e \<Rightarrow> (Inl e, s)
      | None \<Rightarrow> let s = s\<lparr>s_charges := join_parts sd\<rparr> in
          (case seedAuditSequence R s of
             (Inl e, s) \<Rightarrow> (Inl e, s)
           | (Inr _, s) \<Rightarrow> (Inr (), s\<lparr>s_buckets := sd_buckets sd, s_objects := sd_objects sd,
                s_bytes := sd_bytes sd, s_uploads := sd_uploads sd, s_orphans := sd_orphans sd\<rparr>))) =
     (Inr u, s')"
    by (elim exE conjE)
  have st: "st = StatusOk"
    using rest by (cases st) simp_all
  obtain r t where a: "seedAuditSequence R (s\<lparr>s_charges := join_parts sd\<rparr>) = (r, t)"
    by (cases "seedAuditSequence R (s\<lparr>s_charges := join_parts sd\<rparr>)")
  have full: "es = view (s_db s)"
    using rocks_seek_Ok [OF laws es [unfolded st]] seek_all [OF rocks_laws_omap_ok [OF laws]] by simp
  have db: "s_db t = s_db s"
    using a
    by (auto simp: seedAuditSequence_def Let_def split: prod.splits list.splits option.splits)
  from rest a st have s': "s' = t\<lparr>s_buckets := sd_buckets sd, s_objects := sd_objects sd,
      s_bytes := sd_bytes sd, s_uploads := sd_uploads sd, s_orphans := sd_orphans sd\<rparr>"
    by (auto split: sum.splits)
  with db show "s_db s' = s_db s" by simp
  have "counters s' = tallies (map_of (view (s_db s)))"
    using seed_rows_tally [OF sd] rocks_laws_omap_ok [OF laws, of "s_db s"]
    by (simp add: s' counters_def tallies_def tally_omap full seed0_def)
  then show "counters_ok view s'"
    using \<open>s_db s' = s_db s\<close> by (simp add: counters_ok_def)
qed

lemma verifyFormatVersion_Inr:
  assumes laws: "rocks_laws R view" and run: "verifyFormatVersion R s = (Inr u, s')"
  shows "tallies (content view s') = tallies (content view s)"
proof -
  obtain stored where rest: "(case stored of
         None \<Rightarrow> db_write R (s_syncWrites s) [Put format_version_key ''1''] s (\<lambda>s. (Inr (), s))
       | Some v \<Rightarrow> if strtoull v \<noteq> kStorageFormatVersion then (Inl (StorageError Corruption), s)
           else (Inr (), s)) = (Inr u, s')"
    using run unfolding verifyFormatVersion_def attempt_Inr by blast
  show ?thesis
  proof (cases stored)
    case None
    with rest have "db_write R (s_syncWrites s) [Put format_version_key ''1''] s (\<lambda>s. (Inr (), s)) = (Inr u, s')"
      by simp
    from plain_write_Inr [OF laws this] show ?thesis
      using tallies_uncounted [OF finite_content [of view s], of "[Put format_version_key ''1'']"]
        uncounted_tags by (simp add: format_version_key_def)
  next
    case (Some v)
    with rest show ?thesis by (auto split: if_splits)
  qed
qed

lemma openRocksMetadataStore_Inr:
  assumes laws: "rocks_laws R view" and run: "openRocksMetadataStore R w db = (Inr u, s)"
  shows "counters_ok view s" "tallies (content view s) = tallies (map_of (view db))"
proof -
  define s0 where "s0 = \<lparr>s_db = db, s_syncWrites = w, s_auditSequence = 0, s_charges = [],
     s_buckets = 0, s_objects = 0, s_bytes = 0, s_uploads = 0, s_orphans = 0\<rparr>"
  from run obtain v s1 where v: "verifyFormatVersion R s0 = (Inr v, s1)" and s: "seedCounters R s1 = (Inr u, s)"
    unfolding openRocksMetadataStore_def Let_def s0_def [symmetric]
    by (cases "verifyFormatVersion R s0") (auto split: sum.splits)
  show "counters_ok view s"
    by (rule seedCounters_Inr [OF laws s])
  show "tallies (content view s) = tallies (map_of (view db))"
    using verifyFormatVersion_Inr [OF laws v] seedCounters_Inr(1) [OF laws s] by (simp add: s0_def)
qed

text \<open>Forgetting payloads that are queued, each named once, moves the queue's counter exactly.\<close>

lemma tally_rows:
  "finite (dom c) \<Longrightarrow> tally (w_row tag) c = of_nat (card {k \<in> dom c. k \<noteq> [] \<and> hd k = tag})"
  by (simp add: tally_def w_row_def sum.If_cases Int_def)

lemma tallies_forget:
  assumes "finite (dom c)" "distinct blobIds" "\<forall>b \<in> set blobIds. tracked c b" "tallies c = (n1, n2, n3, n4, n5)"
  shows "tallies (fold op_result (map (\<lambda>b. Delete (orphan_key b)) blobIds) c) =
    (n1, n2, n3, n4, n5 - of_nat (length blobIds))"
  using assms
proof (induction blobIds arbitrary: c n5)
  case (Cons b bs)
  let ?c = "c(orphan_key b := None)"
  have "tallies ?c = (n1, n2, n3, n4, n5 - 1)"
    using Cons.prems weight_tracked(1) [of c b] by (simp add: tallies_def tally_updates)
  moreover have "\<forall>b' \<in> set bs. tracked ?c b'"
    using Cons.prems(2,3) by (auto simp: tracked_def)
  ultimately have "tallies (fold op_result (map (\<lambda>b. Delete (orphan_key b)) bs) ?c) =
      (n1, n2, n3, n4, n5 - 1 - of_nat (length bs))"
    using Cons.prems(1,2) by (intro Cons.IH) (simp_all del: fun_upd_apply)
  then show ?case by (simp add: algebra_simps del: fun_upd_apply)
qed simp

lemma queued_rows:
  assumes "finite (dom c)" "distinct blobIds" "\<forall>b \<in> set blobIds. tracked c b"
  shows "length blobIds \<le> card {k \<in> dom c. k \<noteq> [] \<and> hd k = kOrphan}"
proof -
  have "inj_on orphan_key (set blobIds)" by (auto simp: inj_on_def)
  then have "length blobIds = card (orphan_key ` set blobIds)"
    using assms(2) by (simp add: card_image distinct_card)
  also have "\<dots> \<le> card {k \<in> dom c. k \<noteq> [] \<and> hd k = kOrphan}"
    using assms(1,3) by (intro card_mono) (auto simp: tracked_def orphan_key_def tagged_def)
  finally show ?thesis .
qed

lemma forgetOrphans_counters:
  assumes laws: "rocks_laws R view" and run: "forgetOrphans R blobIds s = (Inr u, s')"
    and ok: "counters_ok view s"
    and queued: "distinct blobIds" "\<forall>b \<in> set blobIds. tracked (content view s) b"
    and small: "card {k \<in> dom (content view s). k \<noteq> [] \<and> hd k = kOrphan} < 2 ^ 64"
  shows "counters_ok view s'"
proof (cases "blobIds = []")
  case True
  with run ok show ?thesis by (simp add: forgetOrphans_def)
next
  case False
  let ?batch = "map (\<lambda>b. Delete (orphan_key b)) blobIds"
  let ?n = "of_nat (length blobIds) :: u64"
  obtain db' where db': "view db' = apply_batch ?batch (view (s_db s))"
    and s': "s' = s\<lparr>s_db := db', s_orphans := (if s_orphans s > ?n then s_orphans s - ?n else 0)\<rparr>"
    using run unfolding forgetOrphans_def if_not_P [OF False]
    by (elim db_write_Inr [OF laws]) (auto simp: Let_def)
  have orphans: "s_orphans s = of_nat (card {k \<in> dom (content view s). k \<noteq> [] \<and> hd k = kOrphan})"
    using ok tally_rows [OF finite_content [of view s], of kOrphan]
    by (simp add: counters_ok_def counters_def tallies_def)
  have "?n \<le> s_orphans s"
    using queued_rows [OF finite_content [of view s] queued] small
    by (simp add: word_le_nat_alt orphans unat_of_nat take_bit_nat_eq_self)
  then have "(if s_orphans s > ?n then s_orphans s - ?n else 0) = s_orphans s - ?n"
    by (cases "s_orphans s = ?n") (simp_all add: order_less_le)
  moreover have "tallies (content view s) = (s_buckets s, s_objects s, s_bytes s, s_uploads s, s_orphans s)"
    using ok by (simp add: counters_ok_def counters_def)
  note tallies_forget [OF finite_content [of view s] queued this]
  ultimately show ?thesis
    using content_after_write [OF laws db'] by (simp add: counters_ok_def counters_def s')
qed

text \<open>
  A call that completed, or reclamation as the engine runs it: \<open>forgetOrphans\<close> on payloads that
  are queued, each named once, and fewer than \<open>2 ^ 64\<close> of them queued.
\<close>

inductive counted_step ::
    "'db rocksdb \<Rightarrow> ('db \<Rightarrow> (string, string) omap) \<Rightarrow> 'db store \<Rightarrow> 'db store \<Rightarrow> bool"
  for R view where
  step_call: "store_step R view True s s' \<Longrightarrow> counted_step R view s s'"
| step_reclaimed:
    "forgetOrphans R blobIds s = (r, s') \<Longrightarrow> completed r s s' \<Longrightarrow> distinct blobIds \<Longrightarrow>
     \<forall>b \<in> set blobIds. tracked (content view s) b \<Longrightarrow>
     card {k \<in> dom (content view s). k \<noteq> [] \<and> hd k = kOrphan} < 2 ^ 64 \<Longrightarrow> counted_step R view s s'"

definition exact :: "('db \<Rightarrow> (string, string) omap) \<Rightarrow> 'db store \<Rightarrow> bool" where
  "exact view s \<longleftrightarrow> counters_ok view s \<and> blob_inv (content view s)"

lemma counted_step_exact:
  assumes laws: "rocks_laws R view" and step: "counted_step R view s s'" and ok: "exact view s"
  shows "exact view s'"
  using step
proof cases
  case step_call
  with ok store_step_counters [OF laws step_call] store_step_owner_safe [OF laws step_call] show ?thesis
    by (simp add: exact_def owner_safe_def)
next
  case (step_reclaimed blobIds r)
  have "blob_inv (content view s')"
    using forgetOrphans_blob_inv [OF laws step_reclaimed(1)] ok by (simp add: exact_def)
  moreover have "counters_ok view s'"
    using step_reclaimed(2)
  proof (rule completed_cases)
    fix u
    assume "r = Inr u"
    with step_reclaimed(1) have "forgetOrphans R blobIds s = (Inr u, s')" by simp
    moreover have "counters_ok view s" using ok by (simp add: exact_def)
    ultimately show ?thesis by (rule forgetOrphans_counters [OF laws _ _ step_reclaimed(3-5)])
  qed (use ok in \<open>simp add: exact_def\<close>)
  ultimately show ?thesis by (simp add: exact_def)
qed

interpretation exact_counters:
  preserved "\<lambda>s s'. rocks_laws R view \<and> counted_step R view s s'" "exact view" for R view
  by unfold_locales (blast intro: counted_step_exact)

lemma usage_counters: "usage s = usage t \<longleftrightarrow> counters s = counters t"
  by (simp add: usage_def counters_def)


text \<open>The demonstration queues a payload, which is then reclaimed.\<close>

definition demo_forgotten :: "batch_op list store" where
  "demo_forgotten = snd (forgetOrphans memory_rocks [''y''] demo4)"

lemma demo_reclaimed: "counted_step memory_rocks memory_view demo4 demo_forgotten"
proof (rule step_reclaimed)
  have ran: "fst (forgetOrphans memory_rocks [''y''] demo4) = Inr ()" by code_simp
  then show "forgetOrphans memory_rocks [''y''] demo4 = (Inr (), demo_forgotten)"
    by (simp add: demo_forgotten_def prod_eq_iff)
  show "completed (Inr ()) demo4 demo_forgotten" by (simp add: completed_def)
  show "\<forall>b \<in> set [''y'']. tracked (content memory_view demo4) b"
    unfolding tracked_def by code_simp
  have "card {k \<in> dom (content memory_view demo4). k \<noteq> [] \<and> hd k = kOrphan} \<le> card (dom (content memory_view demo4))"
    by (rule card_mono) auto
  also have "\<dots> \<le> length (memory_view (s_db demo4))"
    by (simp add: dom_map_of_conv_image_fst) (metis card_length length_map set_map)
  also have "length (memory_view (s_db demo4)) < 100" by code_simp
  finally show "card {k \<in> dom (content memory_view demo4). k \<noteq> [] \<and> hd k = kOrphan} < 2 ^ 64" by simp
qed simp


end
