(* ===== verification/Listing.thy ===== *)
theory Listing
  imports Counters
begin

text \<open>
  The paged listings of the metadata store (storage/rocksdb_metadata_store.cpp): objects with
  prefix and delimiter, uploads by key, and the uploads a sweep finds stale. An iterator is
  what \<open>rk_seek\<close> delivers: the entries still to come and the status it ends with, which is not
  seen before they are used up; a second \<open>Seek\<close> replaces both.
\<close>

definition it_status :: "entries \<times> rocks_status \<Rightarrow> rocks_status" where
  "it_status it = (if fst it = [] then snd it else StatusOk)"

section \<open>Objects\<close>

text \<open>\<open>find\<close> on the rest of a string that starts at offset \<open>i\<close>, and \<open>std::string_view::find\<close>.\<close>

fun find_at :: "string \<Rightarrow> nat \<Rightarrow> string \<Rightarrow> nat option" where
  "find_at d i s =
     (if prefix d s then Some i else case s of [] \<Rightarrow> None | _ # s' \<Rightarrow> find_at d (Suc i) s')"

declare find_at.simps [simp del]

definition string_find :: "string \<Rightarrow> string \<Rightarrow> nat \<Rightarrow> nat option" where
  "string_find s d pos = (if pos \<le> length s then find_at d pos (drop pos s) else None)"

definition resumePoint :: "string \<Rightarrow> ListObjectsRequest \<Rightarrow> string" where
  "resumePoint tablePrefix request =
     (if lo_startAfter request = [] \<or> lo_startAfter request < lo_prefix request
      then tablePrefix @ lo_prefix request
      else
        let past = tablePrefix @ lo_startAfter request @ [kSeparator] in
        if lo_delimiter request \<noteq> [] \<and> suffix (lo_delimiter request) (lo_startAfter request)
        then (case upperBound (tablePrefix @ lo_startAfter request) of
                Some next \<Rightarrow> next | None \<Rightarrow> past)
        else past)"

record listing =
  li_objects :: "ObjectRecord list"
  li_common :: "string list"
  li_last :: string

definition no_listing :: listing where
  "no_listing = \<lparr>li_objects = [], li_common = [], li_last = []\<rparr>"

text \<open>
  The loop. Each turn emits an object or a common prefix, so the number of entries the page
  still has room for decides the recursion.
\<close>

fun list_loop ::
    "'db rocksdb \<Rightarrow> 'db \<Rightarrow> string \<Rightarrow> ListObjectsRequest \<Rightarrow> nat \<Rightarrow> entries \<times> rocks_status \<Rightarrow> listing \<Rightarrow>
     exn + listing \<times> entries \<times> rocks_status" where
  "list_loop R db table request 0 it acc = Inr (acc, it)"
| "list_loop R db table request (Suc room) it acc =
     (case it of
        ([], status) \<Rightarrow> Inr (acc, it)
      | ((stored, v) # es, status) \<Rightarrow>
          if \<not> prefix (table @ lo_prefix request) stored then Inr (acc, it)
          else
            let key = drop (length table) stored in
            case (if lo_delimiter request = [] then None
                  else string_find key (lo_delimiter request) (length (lo_prefix request))) of
              Some split \<Rightarrow>
                let common = take (split + length (lo_delimiter request)) key;
                    acc = acc\<lparr>li_common := li_common acc @ [common], li_last := common\<rparr>
                in (case upperBound (table @ common) of
                      None \<Rightarrow> Inr (acc, it)
                    | Some next \<Rightarrow>
                        list_loop R db table request room
                          (rk_seek R db (upperBound (table @ lo_prefix request)) next) acc)
            | None \<Rightarrow>
                (case decodeObject key v of
                   Inl e \<Rightarrow> Inl e
                 | Inr object \<Rightarrow>
                     list_loop R db table request room (es, status)
                       (acc\<lparr>li_objects := li_objects acc @ [object], li_last := o_key object\<rparr>)))"

definition listObjects ::
    "'db rocksdb \<Rightarrow> string \<Rightarrow> ListObjectsRequest \<Rightarrow> 'db store \<Rightarrow> exn + ListObjectsResult" where
  "listObjects R bucket request s =
     (case requireBucket R (s_db s) bucket of
        Inl e \<Rightarrow> Inl e
      | Inr _ \<Rightarrow>
          if lo_maxKeys request = 0 then
            (case hasAny R (s_db s) (objectPrefix bucket @ lo_prefix request) of
               Inl e \<Rightarrow> Inl e
             | Inr any \<Rightarrow> Inr \<lparr>lor_objects = [], lor_commonPrefixes = [], lor_truncated = any,
                 lor_nextStartAfter = []\<rparr>)
          else
            let table = objectPrefix bucket;
                scan = table @ lo_prefix request
            in case list_loop R (s_db s) table request (unat (lo_maxKeys request))
                  (rk_seek R (s_db s) (upperBound scan) (resumePoint table request)) no_listing of
                 Inl e \<Rightarrow> Inl e
               | Inr (acc, es, status) \<Rightarrow>
                   (case check (it_status (es, status)) of
                      Some e \<Rightarrow> Inl e
                    | None \<Rightarrow>
                        let more = (case es of [] \<Rightarrow> False | (stored, _) # _ \<Rightarrow> prefix scan stored)
                        in Inr \<lparr>lor_objects = li_objects acc, lor_commonPrefixes = li_common acc,
                             lor_truncated = more,
                             lor_nextStartAfter = (if more then li_last acc else [])\<rparr>))"

section \<open>Uploads\<close>

fun upload_loop ::
    "'db rocksdb \<Rightarrow> 'db \<Rightarrow> string \<Rightarrow> ListUploadsRequest \<Rightarrow> entries \<Rightarrow> ListUploadsResult \<Rightarrow>
     exn + ListUploadsResult \<times> entries" where
  "upload_loop R db bucket request [] result = Inr (result, [])"
| "upload_loop R db bucket request ((stored, v) # es) result =
     (if \<not> prefix (uploadByKeyPrefix bucket) stored then Inr (result, (stored, v) # es)
      else case uploadKeyParts stored bucket of
        None \<Rightarrow> upload_loop R db bucket request es result
      | Some (key, uploadId) \<Rightarrow>
          if lu_keyMarker request \<noteq> [] \<and>
             (key < lu_keyMarker request \<or>
              key = lu_keyMarker request \<and> uploadId \<le> lu_uploadIdMarker request)
          then upload_loop R db bucket request es result
          else if lu_prefix request \<noteq> [] \<and> \<not> prefix (lu_prefix request) key then
            (if lu_prefix request < key then Inr (result, (stored, v) # es)
             else upload_loop R db bucket request es result)
          else if length (lur_uploads result) = unat (lu_maxUploads request) then
            Inr (result\<lparr>lur_truncated := True\<rparr>, (stored, v) # es)
          else
            (case loadUpload R db uploadId of
               Inl e \<Rightarrow> Inl e
             | Inr None \<Rightarrow> upload_loop R db bucket request es result
             | Inr (Some upload) \<Rightarrow>
                 upload_loop R db bucket request es
                   (result\<lparr>lur_nextKeyMarker := up_key upload, lur_nextUploadIdMarker := up_uploadId upload,
                      lur_uploads := lur_uploads result @ [upload]\<rparr>)))"

definition no_uploads :: ListUploadsResult where
  "no_uploads = \<lparr>lur_uploads = [], lur_truncated = False, lur_nextKeyMarker = [],
     lur_nextUploadIdMarker = []\<rparr>"

definition listUploads ::
    "'db rocksdb \<Rightarrow> string \<Rightarrow> ListUploadsRequest \<Rightarrow> 'db store \<Rightarrow> exn + ListUploadsResult" where
  "listUploads R bucket request s =
     (case requireBucket R (s_db s) bucket of
        Inl e \<Rightarrow> Inl e
      | Inr _ \<Rightarrow>
          if lu_maxUploads request = 0 then Inr no_uploads
          else
            let p = uploadByKeyPrefix bucket;
                seek = (if lu_keyMarker request \<noteq> []
                        then uploadByKey bucket (lu_keyMarker request) (lu_uploadIdMarker request)
                        else if lu_prefix request \<noteq> [] then p @ lu_prefix request else p)
            in case rk_seek R (s_db s) (upperBound p) seek of (es, status) \<Rightarrow>
                 (case upload_loop R (s_db s) bucket request es no_uploads of
                    Inl e \<Rightarrow> Inl e
                  | Inr (result, rest) \<Rightarrow>
                      (case check (it_status (rest, status)) of
                         Some e \<Rightarrow> Inl e
                       | None \<Rightarrow>
                           Inr (if lur_truncated result then result
                                else result\<lparr>lur_nextKeyMarker := [], lur_nextUploadIdMarker := []\<rparr>))))"

text \<open>The sweep's scan; \<open>cutoff\<close> and the creation times are signed.\<close>

fun stale_rows :: "nat \<Rightarrow> i64 \<Rightarrow> entries \<Rightarrow> UploadRecord list \<Rightarrow> exn + UploadRecord list \<times> entries" where
  "stale_rows limit cutoff [] stale = Inr (stale, [])"
| "stale_rows limit cutoff ((stored, v) # es) stale =
     (if \<not> length stale < limit then Inr (stale, (stored, v) # es)
      else if \<not> prefix [kUploadById] stored then Inr (stale, (stored, v) # es)
      else case decodeUpload (drop (length [kUploadById]) stored) v of
        Inl e \<Rightarrow> Inl e
      | Inr upload \<Rightarrow>
          if sint cutoff \<le> sint (up_createdAt upload) then stale_rows limit cutoff es stale
          else stale_rows limit cutoff es (stale @ [upload]))"

definition listUploadsCreatedBefore ::
    "'db rocksdb \<Rightarrow> nat \<Rightarrow> i64 \<Rightarrow> 'db store \<Rightarrow> exn + UploadRecord list" where
  "listUploadsCreatedBefore R limit cutoff s =
     (if limit = 0 then Inr []
      else case rk_seek R (s_db s) (upperBound [kUploadById]) [kUploadById] of (es, status) \<Rightarrow>
        (case stale_rows limit cutoff es [] of
           Inl e \<Rightarrow> Inl e
         | Inr (stale, rest) \<Rightarrow>
             (case check (it_status (rest, status)) of Some e \<Rightarrow> Inl e | None \<Rightarrow> Inr stale)))"

section \<open>A page without delimiter\<close>

text \<open>The rows under a prefix of a bucket, in key order, and the key of such a row.\<close>

definition rows_under :: "(string, string) omap \<Rightarrow> string \<Rightarrow> string \<Rightarrow> entries" where
  "rows_under m bucket p = filter (\<lambda>(k, _). prefix (objectPrefix bucket @ p) k) m"

definition row_key :: "string \<Rightarrow> string \<times> string \<Rightarrow> string" where
  "row_key bucket e = drop (length (objectPrefix bucket)) (fst e)"

lemma rows_under_key:
  "e \<in> set (rows_under m bucket p) \<Longrightarrow> fst e = object_key bucket (row_key bucket e) \<and> prefix p (row_key bucket e)"
  by (auto simp: rows_under_def row_key_def object_key_def prefix_def)

lemma rows_under_sorted: "omap_ok m \<Longrightarrow> sorted_wrt (\<lambda>x y. fst x < fst y) (rows_under m bucket p)"
  by (simp add: rows_under_def sorted_wrt_filter omap_ok_def sorted_wrt_map)

lemma row_key_less:
  assumes "x \<in> set (rows_under m bucket p)" "y \<in> set (rows_under m bucket p)"
  shows "fst x < fst y \<longleftrightarrow> row_key bucket x < row_key bucket y"
  using rows_under_key [OF assms(1)] rows_under_key [OF assms(2)] object_key_less by metis

lemma resumePoint_le:
  assumes "lo_delimiter request = [] \<or> \<not> suffix (lo_delimiter request) (lo_startAfter request)"
    and "prefix (lo_prefix request) key"
  shows "resumePoint table request \<le> table @ key \<longleftrightarrow>
    lo_startAfter request = [] \<or> lo_startAfter request < key"
proof -
  have le: "lo_prefix request \<le> key" using assms(2) by (rule prefix_imp_le)
  have succ: "a @ [kSeparator] \<le> key \<longleftrightarrow> a < key" for a
  proof (induction a arbitrary: key)
    case Nil
    then show ?case
      by (cases key) (simp_all add: kSeparator_def NUL_le [unfolded order_le_less])
  next
    case (Cons c a)
    then show ?case by (cases key) auto
  qed
  show ?thesis
    using assms(1) le succ [of "lo_startAfter request"]
    by (auto simp: resumePoint_def Let_def)
qed

lemma page_entries:
  assumes "lo_delimiter request = [] \<or> \<not> suffix (lo_delimiter request) (lo_startAfter request)"
  shows "seek_entries m (upperBound (objectPrefix bucket @ lo_prefix request))
      (resumePoint (objectPrefix bucket) request) =
    filter (\<lambda>e. lo_startAfter request = [] \<or> lo_startAfter request < row_key bucket e)
      (rows_under m bucket (lo_prefix request))"
proof -
  let ?t = "objectPrefix bucket" and ?p = "lo_prefix request"
  obtain u where u: "upperBound (?t @ ?p) = Some u" by fastforce
  have low: "?t @ ?p \<le> resumePoint ?t request"
  proof (cases "lo_startAfter request = [] \<or> lo_startAfter request < ?p")
    case False
    then have "?p \<le> lo_startAfter request @ [kSeparator]"
      by (meson linorder_not_le order.trans prefix_imp_le prefix_def)
    with False assms show ?thesis by (auto simp: resumePoint_def Let_def)
  qed (simp add: resumePoint_def)
  have "resumePoint ?t request \<le> k \<and> k < u \<longleftrightarrow> prefix (?t @ ?p) k \<and>
      (lo_startAfter request = [] \<or> lo_startAfter request < drop (length ?t) k)" for k
  proof (cases "prefix (?t @ ?p) k")
    case True
    then obtain key where k: "k = ?t @ key" "prefix ?p key" by (auto simp: prefix_def)
    with resumePoint_le [OF assms k(2), of ?t] upperBound_range [OF u, of k] True show ?thesis by auto
  next
    case False
    with upperBound_range [OF u, of k] low show ?thesis by auto
  qed
  then show ?thesis
    by (simp add: seek_entries_def rows_under_def u row_key_def case_prod_beta' cong: conj_cong)
qed

text \<open>The rows all decode, and what they decode to.\<close>

definition object_of :: "string \<Rightarrow> string \<times> string \<Rightarrow> ObjectRecord" where
  "object_of bucket e = projr (decodeObject (row_key bucket e) (snd e))"

definition readable :: "string \<Rightarrow> entries \<Rightarrow> bool" where
  "readable bucket es \<longleftrightarrow> list_all (\<lambda>e. isl (decodeObject (row_key bucket e) (snd e)) = False) es"

lemma readable_Nil [simp]: "readable bucket []"
  by (simp add: readable_def)

lemma readable_Cons [simp]:
  "readable bucket (e # es) \<longleftrightarrow>
     decodeObject (row_key bucket e) (snd e) = Inr (object_of bucket e) \<and> readable bucket es"
  by (cases "decodeObject (row_key bucket e) (snd e)") (simp_all add: readable_def object_of_def)

lemma readable_sub: "readable bucket es \<Longrightarrow> set fs \<subseteq> set es \<Longrightarrow> readable bucket fs"
  by (auto simp: readable_def list_all_iff)

lemma decodeObject_key: "decodeObject key v = Inr object \<Longrightarrow> o_key object = key"
  by (auto simp: decodeObject_def rbind_eq_Inr)

lemma readable_o_key: "readable bucket es \<Longrightarrow> e \<in> set es \<Longrightarrow> o_key (object_of bucket e) = row_key bucket e"
  by (induction es) (auto dest: decodeObject_key)

lemma list_loop_plain:
  assumes "lo_delimiter request = []"
    and "\<forall>e\<in>set es. prefix (objectPrefix bucket @ lo_prefix request) (fst e)" "readable bucket es"
  shows "list_loop R db (objectPrefix bucket) request n (es, st) acc =
    Inr (acc\<lparr>li_objects := li_objects acc @ map (object_of bucket) (take n es),
         li_last := (if take n es = [] then li_last acc else o_key (object_of bucket (last (take n es))))\<rparr>,
       drop n es, st)"
  using assms(2,3)
proof (induction n arbitrary: es acc)
  case (Suc n)
  show ?case
  proof (cases es)
    case Nil
    with Suc.prems show ?thesis by simp
  next
    case (Cons e es')
    obtain k v where e: "e = (k, v)" by (cases e)
    from Cons Suc.prems have "prefix (objectPrefix bucket @ lo_prefix request) k"
      "decodeObject (drop (length (objectPrefix bucket)) k) v = Inr (object_of bucket e)"
      by (simp_all add: e row_key_def)
    with Suc.IH [of es'] Suc.prems Cons assms(1) show ?thesis
      by (simp add: e)
  qed
qed simp

text \<open>Behind the last key of a page come exactly the rows the page left out.\<close>

lemma filter_behind:
  assumes "sorted_wrt (\<lambda>x y. f x < (f y :: 'a::linorder)) es" "0 < n" "n \<le> length es"
  shows "filter (\<lambda>e. f (last (take n es)) < f e) es = drop n es"
proof -
  obtain m where n: "n = Suc m" using assms(2) by (cases n) auto
  let ?x = "es ! m"
  have m: "m < length es" using assms(3) n by simp
  have es: "es = take m es @ ?x # drop n es"
    using m n by (simp add: Cons_nth_drop_Suc)
  have last: "last (take n es) = ?x"
    using m n by (simp add: take_Suc_conv_app_nth)
  have "sorted_wrt (\<lambda>x y. f x < f y) (take m es @ ?x # drop n es)"
    using assms(1) es by simp
  then have "\<forall>e\<in>set (take m es). f e < f ?x" "\<forall>e\<in>set (drop n es). f ?x < f e"
    by (auto simp: sorted_wrt_append)
  then have "filter (\<lambda>e. f ?x < f e) (take m es) = []" "filter (\<lambda>e. f ?x < f e) (drop n es) = drop n es"
    by (auto simp: filter_empty_conv)
  then have "filter (\<lambda>e. f ?x < f e) (take m es @ ?x # drop n es) = drop n es" by simp
  with es last show ?thesis by simp
qed

text \<open>One page: the first \<open>maxKeys\<close> objects behind the marker, and whether there are more.\<close>

definition behind :: "ListObjectsRequest \<Rightarrow> string \<Rightarrow> entries \<Rightarrow> entries" where
  "behind request bucket rows =
     filter (\<lambda>e. lo_startAfter request = [] \<or> lo_startAfter request < row_key bucket e) rows"

lemma listObjects_page:
  fixes s :: "'db store"
  assumes laws: "rocks_laws R view" "rocks_healthy R"
    and bucket: "content view s (bucket_key bucket) \<noteq> None"
    and request: "lo_delimiter request = []" "lo_maxKeys request \<noteq> 0"
    and rows: "readable bucket (rows_under (view (s_db s)) bucket (lo_prefix request))"
  shows "listObjects R bucket request s =
    (let es = behind request bucket (rows_under (view (s_db s)) bucket (lo_prefix request));
         n = unat (lo_maxKeys request)
     in Inr \<lparr>lor_objects = map (object_of bucket) (take n es), lor_commonPrefixes = [],
        lor_truncated = (n < length es),
        lor_nextStartAfter = (if n < length es then row_key bucket (last (take n es)) else [])\<rparr>)"
proof -
  let ?rows = "rows_under (view (s_db s)) bucket (lo_prefix request)" and ?t = "objectPrefix bucket"
  let ?es = "behind request bucket ?rows" and ?n = "unat (lo_maxKeys request)"
  have ok: "readable bucket ?es" by (rule readable_sub [OF rows]) (auto simp: behind_def)
  have seek: "rk_seek R (s_db s) (upperBound (?t @ lo_prefix request)) (resumePoint ?t request) = (?es, StatusOk)"
    using seek_healthy [OF laws] page_entries [of request "view (s_db s)" bucket] request(1)
    by (simp add: behind_def)
  have pre: "\<forall>e\<in>set ?es. prefix (?t @ lo_prefix request) (fst e)"
    by (auto simp: behind_def rows_under_def)
  have req: "requireBucket R (s_db s) bucket = Inr ()"
    using bucket db_get_healthy [OF laws, of "s_db s" "bucket_key bucket"] by (auto simp: requireBucket_def)
  have n: "0 < ?n" using request(2) by (simp add: unat_gt_0)
  have more: "(case drop ?n ?es of [] \<Rightarrow> False | (stored, _) # _ \<Rightarrow> prefix (?t @ lo_prefix request) stored) \<longleftrightarrow> ?n < length ?es"
  proof (cases "drop ?n ?es")
    case (Cons e rest)
    then have "e \<in> set ?es" by (metis in_set_dropD list.set_intros(1))
    moreover have "\<not> length ?es \<le> ?n" using Cons by (metis drop_eq_Nil list.distinct(1))
    ultimately show ?thesis using pre Cons by (cases e) auto
  qed (simp add: drop_eq_Nil)
  have "o_key (object_of bucket (last (take ?n ?es))) = row_key bucket (last (take ?n ?es))" if "?n < length ?es"
  proof (rule readable_o_key [OF ok])
    have "take ?n ?es \<noteq> []" using that n by auto
    then show "last (take ?n ?es) \<in> set ?es" by (metis last_in_set in_set_takeD)
  qed
  with more n show ?thesis
    using list_loop_plain [OF request(1) pre ok, of R "s_db s" ?n StatusOk no_listing] request(2)
    by (auto simp: listObjects_def req seek Let_def it_status_def no_listing_def)
qed

section \<open>Pages with a delimiter\<close>

text \<open>One turn of the loop on an entry under the prefix: an object, or a common prefix and a jump.\<close>

lemma list_loop_turn:
  assumes "list_loop R db table request (Suc room) ((stored, v) # es, st) acc = Inr (acc', it)"
  obtains "acc' = acc"
  | key object where "stored = table @ key" "prefix (lo_prefix request) key" "o_key object = key"
      "list_loop R db table request room (es, st)
         (acc\<lparr>li_objects := li_objects acc @ [object], li_last := key\<rparr>) = Inr (acc', it)"
  | key common where "stored = table @ key" "prefix common key"
      "acc' = acc\<lparr>li_common := li_common acc @ [common], li_last := common\<rparr>"
  | key common jump where "stored = table @ key" "prefix common key" "upperBound (table @ common) = Some jump"
      "list_loop R db table request room (rk_seek R db (upperBound (table @ lo_prefix request)) jump)
         (acc\<lparr>li_common := li_common acc @ [common], li_last := common\<rparr>) = Inr (acc', it)"
proof (cases "prefix (table @ lo_prefix request) stored")
  case False
  with assms that(1) show thesis by simp
next
  case True
  then obtain key where key: "stored = table @ key" "prefix (lo_prefix request) key"
    by (auto simp: prefix_def)
  let ?split = "if lo_delimiter request = [] then None
      else string_find key (lo_delimiter request) (length (lo_prefix request))"
  show thesis
  proof (cases ?split)
    case None
    with assms key obtain object where "decodeObject key v = Inr object"
      "list_loop R db table request room (es, st)
         (acc\<lparr>li_objects := li_objects acc @ [object], li_last := o_key object\<rparr>) = Inr (acc', it)"
      by (auto simp: Let_def split: sum.splits)
    with that(2) key decodeObject_key show thesis by metis
  next
    case (Some split)
    let ?common = "take (split + length (lo_delimiter request)) key"
    have c: "prefix ?common key" by (rule take_is_prefix)
    show thesis
    proof (cases "upperBound (table @ ?common)")
      case None
      with assms Some key that(3) [OF key(1) c] show thesis by (simp add: Let_def)
    next
      case (Some jump)
      with assms \<open>?split = Some split\<close> key that(4) [OF key(1) c Some] show thesis by (simp add: Let_def)
    qed
  qed
qed

lemma below_upperBound: "upperBound p = Some u \<Longrightarrow> prefix p k \<Longrightarrow> k < u"
  using upperBound_range by blast

lemma seek_set:
  assumes "rocks_laws R view" "rk_seek R db upper target = (es, st)"
  shows "\<forall>e\<in>set es. target \<le> fst e" "sorted_wrt (\<lambda>x y. fst x < fst y) es"
proof -
  from assms have sub: "prefix es (seek_entries (view db) upper target)" by (auto simp: rocks_laws_def)
  then show "\<forall>e\<in>set es. target \<le> fst e"
    by (auto dest!: set_mono_prefix simp: seek_entries_def)
  have "sorted_wrt (\<lambda>x y. fst x < fst y) (seek_entries (view db) upper target)"
    using rocks_laws_omap_ok [OF assms(1), of db]
    by (simp add: seek_entries_def sorted_wrt_filter omap_ok_def sorted_wrt_map)
  with sub show "sorted_wrt (\<lambda>x y. fst x < fst y) es" by (auto simp: prefix_def sorted_wrt_append)
qed

text \<open>Everything a page lists comes from the rows at or behind the one it starts from.\<close>

definition comes_from :: "string \<Rightarrow> string \<Rightarrow> listing \<Rightarrow> bool" where
  "comes_from table start acc \<longleftrightarrow>
     (\<forall>x\<in>o_key ` set (li_objects acc) \<union> set (li_common acc). \<exists>key. start \<le> table @ key \<and> prefix x key)"

lemma comes_from_add:
  assumes "comes_from table start acc" "start \<le> table @ key" "prefix x key"
  shows "comes_from table start (acc\<lparr>li_common := li_common acc @ [x], li_last := x\<rparr>)"
    "o_key object = x \<Longrightarrow> comes_from table start (acc\<lparr>li_objects := li_objects acc @ [object], li_last := x\<rparr>)"
  using assms by (auto simp: comes_from_def)

lemma list_loop_comes_from:
  assumes laws: "rocks_laws R view"
  shows "list_loop R db table request n (es, st) acc = Inr (acc', it) \<Longrightarrow>
    \<forall>e\<in>set es. start \<le> fst e \<Longrightarrow> comes_from table start acc \<Longrightarrow> comes_from table start acc'"
proof (induction n arbitrary: es st acc)
  case (Suc n)
  show ?case
  proof (cases es)
    case Nil
    with Suc.prems show ?thesis by simp
  next
    case (Cons e es1)
    obtain stored v where e: "e = (stored, v)" by (cases e)
    have start: "start \<le> stored" "\<forall>e\<in>set es1. start \<le> fst e" using Suc.prems(2) by (simp_all add: Cons e)
    show ?thesis
    proof (rule list_loop_turn [OF Suc.prems(1) [unfolded Cons e]])
      assume "acc' = acc"
      with Suc.prems(3) show ?thesis by simp
    next
      fix key object
      assume "stored = table @ key" "o_key object = key" and loop: "list_loop R db table request n (es1, st)
         (acc\<lparr>li_objects := li_objects acc @ [object], li_last := key\<rparr>) = Inr (acc', it)"
      with start(1) comes_from_add(2) [OF Suc.prems(3), of key key object]
      show ?thesis by (intro Suc.IH [OF loop start(2)]) simp
    next
      fix key common
      assume "stored = table @ key" "prefix common key"
        "acc' = acc\<lparr>li_common := li_common acc @ [common], li_last := common\<rparr>"
      with start(1) comes_from_add(1) [OF Suc.prems(3), of key common] show ?thesis by simp
    next
      fix key common jump
      assume key: "stored = table @ key" "prefix common key" and bound: "upperBound (table @ common) = Some jump"
        and loop: "list_loop R db table request n (rk_seek R db (upperBound (table @ lo_prefix request)) jump)
         (acc\<lparr>li_common := li_common acc @ [common], li_last := common\<rparr>) = Inr (acc', it)"
      obtain es2 st2 where seek: "rk_seek R db (upperBound (table @ lo_prefix request)) jump = (es2, st2)"
        by (cases "rk_seek R db (upperBound (table @ lo_prefix request)) jump")
      have "stored < jump" using below_upperBound [OF bound, of stored] key by simp
      then have "\<forall>e\<in>set es2. start \<le> fst e"
        using seek_set(1) [OF laws seek] start(1) by fastforce
      then show ?thesis
        using start(1) key comes_from_add(1) [OF Suc.prems(3), of key common]
        by (intro Suc.IH [OF loop [unfolded seek]]) simp_all
    qed
  qed
qed simp

text \<open>A page whose last entry is an object lists nothing behind that object.\<close>

definition ends_at_last :: "string \<Rightarrow> listing \<Rightarrow> bool" where
  "ends_at_last p acc \<longleftrightarrow> li_last acc \<in> set (li_common acc) \<or>
     (li_last acc = [] \<or> prefix p (li_last acc)) \<and>
     (\<forall>x\<in>o_key ` set (li_objects acc) \<union> set (li_common acc). x \<le> li_last acc)"

definition all_before :: "string \<Rightarrow> listing \<Rightarrow> entries \<Rightarrow> bool" where
  "all_before table acc es \<longleftrightarrow>
     (\<forall>x\<in>o_key ` set (li_objects acc) \<union> set (li_common acc). \<forall>e\<in>set es. table @ x < fst e)"

lemma all_before_add:
  assumes "\<forall>x\<in>o_key ` set (li_objects acc) \<union> set (li_common acc). table @ x < stored"
    and "\<forall>e\<in>set es. stored < fst e" "\<forall>e\<in>set es. table @ y < fst e"
    and "o_key ` set (li_objects acc') \<union> set (li_common acc') = insert y (o_key ` set (li_objects acc) \<union> set (li_common acc))"
  shows "all_before table acc' es"
proof -
  have "table @ x < fst e" if "x \<in> insert y (o_key ` set (li_objects acc) \<union> set (li_common acc))" "e \<in> set es" for x e
    using that assms(1-3) less_trans by blast
  then show ?thesis unfolding all_before_def assms(4) by blast
qed

lemma list_loop_ends:
  assumes laws: "rocks_laws R view"
  shows "list_loop R db table request n (es, st) acc = Inr (acc', it) \<Longrightarrow>
    sorted_wrt (\<lambda>x y. fst x < fst y) es \<Longrightarrow> all_before table acc es \<Longrightarrow> ends_at_last (lo_prefix request) acc \<Longrightarrow>
    ends_at_last (lo_prefix request) acc'"
proof (induction n arbitrary: es st acc)
  case (Suc n)
  show ?case
  proof (cases es)
    case Nil
    with Suc.prems show ?thesis by simp
  next
    case (Cons e es1)
    obtain stored v where e: "e = (stored, v)" by (cases e)
    have es1: "sorted_wrt (\<lambda>x y. fst x < fst y) es1" "\<forall>e\<in>set es1. stored < fst e"
      using Suc.prems(2) by (simp_all add: Cons e)
    have before: "\<forall>x\<in>o_key ` set (li_objects acc) \<union> set (li_common acc). table @ x < stored"
      using Suc.prems(3) by (simp add: all_before_def Cons e)
    show ?thesis
    proof (rule list_loop_turn [OF Suc.prems(1) [unfolded Cons e]])
      assume "acc' = acc"
      with Suc.prems(4) show ?thesis by simp
    next
      fix key object
      assume key: "stored = table @ key" "prefix (lo_prefix request) key" "o_key object = key"
        and loop: "list_loop R db table request n (es1, st)
         (acc\<lparr>li_objects := li_objects acc @ [object], li_last := key\<rparr>) = Inr (acc', it)"
      have "all_before table (acc\<lparr>li_objects := li_objects acc @ [object], li_last := key\<rparr>) es1"
        using key by (intro all_before_add [OF before es1(2)]) (auto simp: es1(2) [unfolded key(1)])
      moreover have "ends_at_last (lo_prefix request) (acc\<lparr>li_objects := li_objects acc @ [object], li_last := key\<rparr>)"
        using before key by (auto simp: ends_at_last_def intro!: order_less_imp_le)
      ultimately show ?thesis by (rule Suc.IH [OF loop es1(1)])
    next
      fix key common
      assume "acc' = acc\<lparr>li_common := li_common acc @ [common], li_last := common\<rparr>"
      then show ?thesis by (simp add: ends_at_last_def)
    next
      fix key common jump
      assume key: "stored = table @ key" "prefix common key" and bound: "upperBound (table @ common) = Some jump"
        and loop: "list_loop R db table request n (rk_seek R db (upperBound (table @ lo_prefix request)) jump)
         (acc\<lparr>li_common := li_common acc @ [common], li_last := common\<rparr>) = Inr (acc', it)"
      obtain es2 st2 where seek: "rk_seek R db (upperBound (table @ lo_prefix request)) jump = (es2, st2)"
        by (cases "rk_seek R db (upperBound (table @ lo_prefix request)) jump")
      have "stored < jump" "table @ common < jump"
        using below_upperBound [OF bound, of stored] below_upperBound [OF bound, of "table @ common"] key by simp_all
      then have "all_before table (acc\<lparr>li_common := li_common acc @ [common], li_last := common\<rparr>) es2"
        using seek_set(1) [OF laws seek]
        by (intro all_before_add [OF before, of _ common]) (auto intro: order_less_le_trans)
      then show ?thesis
        using seek_set(2) [OF laws seek]
        by (intro Suc.IH [OF loop [unfolded seek]]) (simp_all add: ends_at_last_def)
    qed
  qed
qed simp

text \<open>What a page reports is what its loop collected.\<close>

lemma listObjects_loop:
  assumes "listObjects R bucket request s = Inr page" "lo_maxKeys request \<noteq> 0"
  obtains acc it where "list_loop R (s_db s) (objectPrefix bucket) request (unat (lo_maxKeys request))
      (rk_seek R (s_db s) (upperBound (objectPrefix bucket @ lo_prefix request))
        (resumePoint (objectPrefix bucket) request)) no_listing = Inr (acc, it)"
    "lor_objects page = li_objects acc" "lor_commonPrefixes page = li_common acc"
    "lor_truncated page \<longrightarrow> lor_nextStartAfter page = li_last acc"
  using assms by (auto simp: listObjects_def Let_def split: sum.splits option.splits prod.splits if_splits)

definition listed_names :: "ListObjectsResult \<Rightarrow> string set" where
  "listed_names page = o_key ` set (lor_objects page) \<union> set (lor_commonPrefixes page)"

lemma page_behind_marker:
  assumes "rocks_laws R view" "listObjects R bucket request s = Inr page"
    and "lo_delimiter request \<noteq> []" "suffix (lo_delimiter request) (lo_startAfter request)"
    and "prefix (lo_prefix request) (lo_startAfter request)" "prefix (lo_startAfter request) x"
  shows "x \<notin> listed_names page"
proof (cases "lo_maxKeys request = 0")
  case True
  with assms(2) show ?thesis
    by (auto simp: listObjects_def listed_names_def split: sum.splits)
next
  case False
  let ?t = "objectPrefix bucket" and ?k = "lo_startAfter request"
  obtain acc it where loop: "list_loop R (s_db s) ?t request (unat (lo_maxKeys request))
      (rk_seek R (s_db s) (upperBound (?t @ lo_prefix request)) (resumePoint ?t request)) no_listing = Inr (acc, it)"
    and page: "lor_objects page = li_objects acc" "lor_commonPrefixes page = li_common acc"
    by (rule listObjects_loop [OF assms(2) False])
  obtain u where u: "upperBound (?t @ ?k) = Some u" by fastforce
  have "?k \<noteq> []" "\<not> ?k < lo_prefix request"
    using assms(3,4) prefix_imp_le [OF assms(5)] by auto
  with assms(3,4) u have resume: "resumePoint ?t request = u" by (simp add: resumePoint_def)
  obtain es st where seek: "rk_seek R (s_db s) (upperBound (?t @ lo_prefix request)) u = (es, st)"
    by (cases "rk_seek R (s_db s) (upperBound (?t @ lo_prefix request)) u")
  have "comes_from ?t u acc"
    by (rule list_loop_comes_from [OF assms(1) loop [unfolded resume seek] seek_set(1) [OF assms(1) seek]])
      (simp add: comes_from_def no_listing_def)
  moreover have False if "u \<le> ?t @ key" "prefix x key" for key
    using below_upperBound [OF u, of "?t @ key"] that assms(6) by (auto dest: prefix_order.trans)
  ultimately show ?thesis
    by (auto simp: comes_from_def listed_names_def page)
qed

section \<open>All pages\<close>

text \<open>A client that follows the markers, for at most so many pages.\<close>

fun all_pages ::
    "nat \<Rightarrow> 'db rocksdb \<Rightarrow> string \<Rightarrow> ListObjectsRequest \<Rightarrow> 'db store \<Rightarrow> (exn + ObjectRecord list) option" where
  "all_pages 0 R bucket request s = None"
| "all_pages (Suc n) R bucket request s =
     (case listObjects R bucket request s of
        Inl e \<Rightarrow> Some (Inl e)
      | Inr page \<Rightarrow>
          if \<not> lor_truncated page then Some (Inr (lor_objects page))
          else
            (case all_pages n R bucket (request\<lparr>lo_startAfter := lor_nextStartAfter page\<rparr>) s of
               Some (Inr rest) \<Rightarrow> Some (Inr (lor_objects page @ rest))
             | other \<Rightarrow> other))"

lemma all_pages_behind:
  fixes s :: "'db store"
  assumes laws: "rocks_laws R view" "rocks_healthy R"
    and bucket: "content view s (bucket_key bucket) \<noteq> None"
    and rows: "readable bucket (rows_under (view (s_db s)) bucket p)"
    and keys: "\<forall>e\<in>set (rows_under (view (s_db s)) bucket p). row_key bucket e \<noteq> []"
  shows "lo_delimiter request = [] \<Longrightarrow> lo_maxKeys request \<noteq> 0 \<Longrightarrow> lo_prefix request = p \<Longrightarrow>
    length (behind request bucket (rows_under (view (s_db s)) bucket p)) < n \<Longrightarrow>
    all_pages n R bucket request s =
      Some (Inr (map (object_of bucket) (behind request bucket (rows_under (view (s_db s)) bucket p))))"
proof (induction n arbitrary: request)
  case (Suc n)
  let ?rows = "rows_under (view (s_db s)) bucket p"
  let ?es = "behind request bucket ?rows" and ?m = "unat (lo_maxKeys request)"
  have page: "listObjects R bucket request s =
    Inr \<lparr>lor_objects = map (object_of bucket) (take ?m ?es), lor_commonPrefixes = [],
        lor_truncated = (?m < length ?es),
        lor_nextStartAfter = (if ?m < length ?es then row_key bucket (last (take ?m ?es)) else [])\<rparr>"
    using listObjects_page [OF laws bucket Suc.prems(1,2)] rows Suc.prems(3) by (simp add: Let_def)
  show ?case
  proof (cases "?m < length ?es")
    case False
    with page show ?thesis by simp
  next
    case True
    have m: "0 < ?m" using Suc.prems(2) by (simp add: unat_gt_0)
    let ?x = "last (take ?m ?es)"
    have "take ?m ?es \<noteq> []" using True m by auto
    then have x: "?x \<in> set ?es" by (metis last_in_set in_set_takeD)
    then have some: "row_key bucket ?x \<noteq> []" using keys by (auto simp: behind_def)
    let ?next = "request\<lparr>lo_startAfter := row_key bucket ?x\<rparr>"
    have sorted: "sorted_wrt (\<lambda>a b. row_key bucket a < row_key bucket b) ?es"
    proof -
      have "sorted_wrt (\<lambda>a b. fst a < fst b) ?rows"
        by (rule rows_under_sorted [OF rocks_laws_omap_ok [OF laws(1)]])
      then have "sorted_wrt (\<lambda>a b. row_key bucket a < row_key bucket b) ?rows"
        by (rule sorted_wrt_mono_rel [rotated]) (simp add: row_key_less)
      then show ?thesis by (simp add: behind_def sorted_wrt_filter)
    qed
    have after: "lo_startAfter request = [] \<or> lo_startAfter request < row_key bucket ?x"
      using x by (auto simp: behind_def)
    have "behind ?next bucket ?rows = filter (\<lambda>e. row_key bucket ?x < row_key bucket e) ?es"
      using after some by (auto simp: behind_def intro!: filter_cong dest: less_trans)
    also have "\<dots> = drop ?m ?es"
      using filter_behind [OF sorted m] True by simp
    finally have rest: "behind ?next bucket ?rows = drop ?m ?es" .
    have "all_pages n R bucket ?next s = Some (Inr (map (object_of bucket) (drop ?m ?es)))"
      using Suc.IH [of ?next] Suc.prems True m by (simp add: rest)
    with page True show ?thesis
      by (simp add: map_append [symmetric] del: map_append)
  qed
qed simp

section \<open>Properties\<close>

text \<open>A bucket with a folder marker and two objects under it.\<close>

definition folder_store :: "batch_op list store" where
  "folder_store = empty_store\<lparr>s_db := s_db empty_store @
     [Put (bucket_key ''b'') (encodeBucket demo_bucket),
      Put (object_key ''b'' ''a/'') (encodeObject (demo_object ''a/'' ''x'')),
      Put (object_key ''b'' ''a/1'') (encodeObject (demo_object ''a/1'' ''y'')),
      Put (object_key ''b'' ''a/2'') (encodeObject (demo_object ''a/2'' ''z''))]\<rparr>"

definition demo_request :: "string \<Rightarrow> string \<Rightarrow> u32 \<Rightarrow> ListObjectsRequest" where
  "demo_request delimiter startAfter n = \<lparr>lo_prefix = ''a/'', lo_delimiter = delimiter,
     lo_startAfter = startAfter, lo_maxKeys = n\<rparr>"

text \<open>
  C14: Paging loses nothing and repeats nothing. On a healthy database a client that lists a
  bucket without a delimiter in pages of any size and follows the markers gets, after at most
  one page more than there are objects, every object under the prefix exactly once, in key
  order.
\<close>

theorem paging_lists_every_object:
  fixes s :: "'db store"
  assumes "rocks_laws R view" "rocks_healthy R" "content view s (bucket_key bucket) \<noteq> None"
    and "readable bucket (rows_under (view (s_db s)) bucket (lo_prefix request))"
    and "list_all (\<lambda>e. row_key bucket e \<noteq> []) (rows_under (view (s_db s)) bucket (lo_prefix request))"
    and "lo_delimiter request = []" "lo_maxKeys request \<noteq> 0" "lo_startAfter request = []"
  shows "all_pages (Suc (length (rows_under (view (s_db s)) bucket (lo_prefix request)))) R bucket request s =
    Some (Inr (map (object_of bucket) (rows_under (view (s_db s)) bucket (lo_prefix request)))) \<and>
    sorted_wrt (\<lambda>o1 o2. o_key o1 < o_key o2)
      (map (object_of bucket) (rows_under (view (s_db s)) bucket (lo_prefix request)))"
proof
  let ?rows = "rows_under (view (s_db s)) bucket (lo_prefix request)"
  have "behind request bucket ?rows = ?rows" using assms(8) by (simp add: behind_def)
  then show "all_pages (Suc (length ?rows)) R bucket request s = Some (Inr (map (object_of bucket) ?rows))"
    using all_pages_behind [OF assms(1,2,3,4) _ assms(6,7) refl, of "Suc (length ?rows)"] assms(5)
    by (simp add: list_all_iff)
  have "sorted_wrt (\<lambda>a b. fst a < fst b) ?rows"
    by (rule rows_under_sorted [OF rocks_laws_omap_ok [OF assms(1)]])
  then have "sorted_wrt (\<lambda>a b. o_key (object_of bucket a) < o_key (object_of bucket b)) ?rows"
    by (rule sorted_wrt_mono_rel [rotated]) (simp add: row_key_less readable_o_key [OF assms(4)])
  then show "sorted_wrt (\<lambda>o1 o2. o_key o1 < o_key o2) (map (object_of bucket) ?rows)"
    by (simp add: sorted_wrt_map)
qed

theorem paging_lists_every_object_witness:
  "all_pages 4 memory_rocks ''b'' (demo_request [] [] 1) folder_store =
   Some (Inr (map (object_of ''b'') (rows_under (memory_view (s_db folder_store)) ''b'' ''a/'')))"
proof -
  have rows: "length (rows_under (memory_view (s_db folder_store)) ''b'' ''a/'') = 3"
    "readable ''b'' (rows_under (memory_view (s_db folder_store)) ''b'' ''a/'')"
    "list_all (\<lambda>e. row_key ''b'' e \<noteq> []) (rows_under (memory_view (s_db folder_store)) ''b'' ''a/'')"
    "content memory_view folder_store (bucket_key ''b'') \<noteq> None"
    unfolding readable_def by code_simp+
  then show ?thesis
    using paging_lists_every_object [OF memory_rocks_laws memory_rocks_healthy rows(4),
        of "demo_request [] [] 1"]
    by (simp add: demo_request_def eval_nat_numeral del: all_pages.simps)
qed

text \<open>
  C24: A page that ends at a folder marker hides the folder. When a page of a listing with a
  delimiter ends at an object whose key ends with that delimiter, and is truncated there, then
  nothing else that begins with this key is listed, as an object or as a common prefix, by that
  page or by the one that continues from its marker, whatever the store holds there: the
  resume point takes every marker that ends with the delimiter for a common prefix.
\<close>

theorem folder_marker_hides_folder:
  assumes "rocks_laws R view" "lo_delimiter request \<noteq> []"
    and "listObjects R bucket request s = Inr page" "lor_truncated page"
    and "lor_nextStartAfter page \<notin> set (lor_commonPrefixes page)"
    and "suffix (lo_delimiter request) (lor_nextStartAfter page)"
    and "listObjects R bucket (request\<lparr>lo_startAfter := lor_nextStartAfter page\<rparr>) s = Inr following"
    and "prefix (lor_nextStartAfter page) x" "x \<noteq> lor_nextStartAfter page"
  shows "x \<notin> listed_names page \<and> x \<notin> listed_names following"
proof -
  let ?t = "objectPrefix bucket" and ?k = "lor_nextStartAfter page"
  have k: "?k \<noteq> []" using assms(2,6) by auto
  have some: "lo_maxKeys request \<noteq> 0"
    using assms(3) k by (auto simp: listObjects_def split: sum.splits)
  obtain acc it where loop: "list_loop R (s_db s) ?t request (unat (lo_maxKeys request))
      (rk_seek R (s_db s) (upperBound (?t @ lo_prefix request)) (resumePoint ?t request)) no_listing = Inr (acc, it)"
    and page: "lor_objects page = li_objects acc" "lor_commonPrefixes page = li_common acc" "?k = li_last acc"
    by (rule listObjects_loop [OF assms(3) some]) (use assms(4) in blast)
  obtain es st where seek: "rk_seek R (s_db s) (upperBound (?t @ lo_prefix request)) (resumePoint ?t request) = (es, st)"
    by (cases "rk_seek R (s_db s) (upperBound (?t @ lo_prefix request)) (resumePoint ?t request)")
  have "ends_at_last (lo_prefix request) acc"
    by (rule list_loop_ends [OF assms(1) loop [unfolded seek] seek_set(2) [OF assms(1) seek]])
      (simp_all add: all_before_def ends_at_last_def no_listing_def)
  with k page assms(5) have p: "prefix (lo_prefix request) ?k" and last: "\<forall>y\<in>listed_names page. y \<le> ?k"
    by (auto simp: ends_at_last_def listed_names_def)
  have "?k < x" using prefix_imp_le [OF assms(8)] assms(9) by simp
  with last have "x \<notin> listed_names page" by auto
  moreover have "x \<notin> listed_names following"
    using page_behind_marker [OF assms(1,7)] assms(2,6,8) p by simp
  ultimately show ?thesis by blast
qed

theorem folder_marker_hides_folder_witness:
  "\<exists>page following.
     map_sum id (map o_key \<circ> lor_objects) (listObjects memory_rocks ''b'' (demo_request ''/'' [] 1000) folder_store) =
       Inr [''a/'', ''a/1'', ''a/2''] \<and>
     listObjects memory_rocks ''b'' (demo_request ''/'' [] 1) folder_store = Inr page \<and>
     listObjects memory_rocks ''b'' ((demo_request ''/'' [] 1)\<lparr>lo_startAfter := lor_nextStartAfter page\<rparr>) folder_store =
       Inr following \<and> \<not> lor_truncated following \<and>
     ''a/1'' \<notin> listed_names page \<union> listed_names following \<and> ''a/2'' \<notin> listed_names page \<union> listed_names following"
proof -
  define page where "page = projr (listObjects memory_rocks ''b'' (demo_request ''/'' [] 1) folder_store)"
  define following where "following = projr (listObjects memory_rocks ''b''
     ((demo_request ''/'' [] 1)\<lparr>lo_startAfter := ''a/''\<rparr>) folder_store)"
  have first: "listObjects memory_rocks ''b'' (demo_request ''/'' [] 1) folder_store = Inr page"
    "lor_truncated page" "lor_commonPrefixes page = []" "lor_nextStartAfter page = ''a/''"
    unfolding page_def by code_simp+
  have second: "listObjects memory_rocks ''b'' ((demo_request ''/'' [] 1)\<lparr>lo_startAfter := ''a/''\<rparr>) folder_store =
      Inr following" "\<not> lor_truncated following"
    unfolding following_def by code_simp+
  have ends: "suffix ''/'' ''a/''" by code_simp
  have all: "map_sum id (map o_key \<circ> lor_objects) (listObjects memory_rocks ''b'' (demo_request ''/'' [] 1000) folder_store) =
      Inr [''a/'', ''a/1'', ''a/2'']" by code_simp
  have "x \<notin> listed_names page \<union> listed_names following" if "x \<in> {''a/1'', ''a/2''}" for x
    using folder_marker_hides_folder [OF memory_rocks_laws _ first(1,2), of following x] first(3,4) second(1) ends that
    by (auto simp: demo_request_def)
  with all first second show ?thesis by (intro exI [of _ page] exI [of _ following]) simp
qed

text \<open>
  A key marker without an upload-id marker does not skip the uploads under that key: the
  upload on \<open>m\<close> is listed again by a request that resumes behind \<open>m\<close>.
\<close>

theorem key_marker_alone_repeats_uploads:
  "map_sum id (map up_key \<circ> lur_uploads) (listUploads memory_rocks ''b''
     \<lparr>lu_prefix = [], lu_keyMarker = ''m'', lu_uploadIdMarker = [], lu_maxUploads = 10\<rparr> demo5) = Inr [''m'']"
  by code_simp

end
