(* ===== verification/Store_Properties.thy ===== *)
theory Store_Properties
  imports Listing
begin

text \<open>
  What the rest of the program relies on when it calls the storage layer's building blocks:
  records that survive encoding and later versions, reads that see the last write, buckets
  that are deleted only when empty, an audit ring of bounded size, and the checksum and
  authorisation rules.
\<close>

section \<open>Records\<close>


definition demo_user :: UserRecord where
  "demo_user = \<lparr>u_username = ''ann'', u_passwordHash = ''h'', u_role = Operator, u_disabled = False,
     u_createdAt = 1, u_updatedAt = 2, u_passwordChangedAt = 3,
     u_buckets = \<lparr>fallback = AccessRead, exceptions = [(''b'', AccessWrite)]\<rparr>\<rparr>"

definition demo_key :: AccessKeyRecord where
  "demo_key = \<lparr>k_accessKeyId = ''AK'', k_secretKey = ''s'', k_name = ''n'', k_owner = ''ann'',
     k_createdAt = 1, k_rotatedAt = 2\<rparr>"

definition demo_audit :: "u64 \<Rightarrow> AuditRecord" where
  "demo_audit n = \<lparr>a_sequence = n, a_atMs = 5, a_actor = ''ann'', a_action = ''login'', a_target = [],
     a_allowed = True, a_detail = ''d''\<rparr>"


text \<open>
  A length or number is not always written the way it is read. Bits of a tenth byte beyond
  the 64th are dropped, not refused, so a second spelling of the largest value is accepted.
\<close>

theorem varint_overflow_accepted:
  "reader_varint (replicate 9 (CHR 0xFF) @ [CHR 0x7F]) = Inr (- 1, []) \<and>
   writer_varint [] (- 1) = replicate 9 (CHR 0xFF) @ [CHR 0x01]"
  by code_simp

section \<open>Objects and buckets\<close>

lemma object_key_eq: "object_key b k = object_key b k' \<longleftrightarrow> k = k'"
  by (simp add: object_key_def)

lemma prefix_object_key: "prefix (objectPrefix b) k \<longleftrightarrow> (\<exists>key. k = object_key b key)"
  by (auto simp: prefix_def object_key_def)

text \<open>
  C15: A read sees the last write. When \<open>putObject\<close> has returned, a read of that key that
  succeeds returns exactly the object, a read of any other key of the bucket what it would
  have returned before, and the outcome names the payload and the bytes that were replaced.
\<close>

theorem put_then_get:
  assumes laws: "rocks_laws R view" and put: "putObject R clock b object d s = (Inr out, s')"
    and ok: "object_ok object"
    and get: "getObject R b k s' = Inr found" and before: "getObject R b k s = Inr previous"
  shows "found = (if k = o_key object then Some object else previous) \<and>
    (k = o_key object \<longrightarrow> po_releasedBlobId out = map_option o_blobId previous \<and>
       po_replacedBytes out = (case previous of None \<Rightarrow> 0 | Some old \<Rightarrow> o_size old))"
proof -
  have read: "load_row (decodeObject k) (content view s' (object_key b k)) = Inr found"
    and old: "load_row (decodeObject k) (content view s (object_key b k)) = Inr previous"
    using get before by (auto simp: getObject_def intro: loadObject_content [OF laws])
  from putObject_Inr [OF laws put] obtain prev where
    prev: "load_row (decodeObject (o_key object)) (content view s (object_key b (o_key object))) = Inr prev"
    and out: "out = \<lparr>po_releasedBlobId = map_option o_blobId prev, po_replacedBytes = replaced_bytes prev\<rparr>"
    and now: "content view s' = fold op_result (publish_batch (object_key b (o_key object)) object
       (map_option o_blobId prev) (clock 0)) (content view s)"
    by metis
  have row: "content view s' (object_key b k) =
      (if k = o_key object then Some (encodeObject object) else content view s (object_key b k))"
    by (cases prev) (simp_all add: now publish_batch_def object_key_eq)
  show ?thesis
  proof (cases "k = o_key object")
    case True
    with read row ok have "found = Some object"
      by (simp add: load_row_def decode_encode_exact)
    with True old prev out show ?thesis
      by (auto simp: replaced_bytes_def split: option.splits)
  next
    case False
    with read row old show ?thesis by simp
  qed
qed

theorem put_then_get_witness:
  "getObject memory_rocks ''b'' ''k'' demo2 = Inr None \<and>
   getObject memory_rocks ''b'' ''k'' demo3 = Inr (Some (demo_object ''k'' ''x''))"
proof -
  have put: "putObject memory_rocks demo_clock ''b'' (demo_object ''k'' ''x'') Strict demo2 =
      (Inr \<lparr>po_releasedBlobId = None, po_replacedBytes = 0\<rparr>, demo3)"
    unfolding demo3_def by (subst run_after, simp) code_simp
  have none: "getObject memory_rocks ''b'' ''k'' demo2 = Inr None" by code_simp
  have "getObject memory_rocks ''b'' ''k'' demo3 = Inr (Some (demo_object ''k'' ''x''))"
    by code_simp
  with put_then_get [OF memory_rocks_laws put demo_object_ok this none] none
  show ?thesis by simp
qed

text \<open>
  C16: A bucket is deleted exactly when nothing is left in it. On a healthy database, a bucket
  that exists and holds an object or a pending upload is refused with \<open>BucketNotEmpty\<close> and
  nothing changes; any other loses its own row and nothing else is touched.
\<close>

theorem deleteBucket_only_empty:
  assumes laws: "rocks_laws R view" "rocks_healthy R"
    and bucket: "loadBucket R (s_db s) name = Inr (Some b)"
  shows "if (\<exists>k. content view s (object_key name k) \<noteq> None) \<or>
      (\<exists>k. prefix (uploadByKeyPrefix name) k \<and> content view s k \<noteq> None)
    then deleteBucket R name s = (Inl (StorageError BucketNotEmpty), s)
    else fst (deleteBucket R name s) = Inr () \<and>
      content view (snd (deleteBucket R name s)) = (content view s)(bucket_key name := None)"
proof -
  let ?objects = "\<exists>k. content view s (object_key name k) \<noteq> None"
  let ?uploads = "\<exists>k. prefix (uploadByKeyPrefix name) k \<and> content view s k \<noteq> None"
  have o: "hasAny R (s_db s) (objectPrefix name) = Inr ?objects"
    by (subst hasAny_healthy [OF laws]) (auto simp: prefix_object_key)
  have u: "hasAny R (s_db s) (uploadByKeyPrefix name) = Inr ?uploads"
    by (subst hasAny_healthy [OF laws]) auto
  show ?thesis
  proof (cases "?objects \<or> ?uploads")
    case True
    then show ?thesis by (auto simp: deleteBucket_def bucket o u)
  next
    case False
    then have "deleteBucket R name s = db_write R (s_syncWrites s) [Delete (bucket_key name)] s
        (\<lambda>s. (Inr (), s\<lparr>s_buckets := s_buckets s - 1\<rparr>))"
      by (simp only: deleteBucket_def bucket o u attempt_simps option.distinct de_Morgan_disj simp_thms if_False)
    moreover obtain db' where "db_write R (s_syncWrites s) [Delete (bucket_key name)] s
        (\<lambda>s. (Inr (), s\<lparr>s_buckets := s_buckets s - 1\<rparr>)) =
        (\<lambda>s. (Inr (), s\<lparr>s_buckets := s_buckets s - 1\<rparr>)) (s\<lparr>s_db := db'\<rparr>)"
      by (rule db_write_healthy [OF laws])
    ultimately have "fst (deleteBucket R name s) = Inr ()" by simp
    with deleteBucket_Inr(4) [OF laws(1), of name s "()" "snd (deleteBucket R name s)"] False
    show ?thesis by (simp add: prod_eq_iff)
  qed
qed

theorem deleteBucket_only_empty_witness:
  "deleteBucket memory_rocks ''b'' demo3 = (Inl (StorageError BucketNotEmpty), demo3) \<and>
   fst (deleteBucket memory_rocks ''b'' demo1) = Inr ()"
proof -
  have rows: "content memory_view demo3 (object_key ''b'' ''k'') \<noteq> None"
    "loadBucket memory_rocks (s_db demo3) ''b'' = Inr (Some demo_bucket)"
    "loadBucket memory_rocks (s_db demo1) ''b'' = Inr (Some demo_bucket)"
    "fst (deleteBucket memory_rocks ''b'' demo1) = Inr ()"
    by code_simp+
  with deleteBucket_only_empty [OF memory_rocks_laws memory_rocks_healthy rows(2)] show ?thesis
    by (auto split: if_splits)
qed

section \<open>The audit ring\<close>

definition ring_rows :: "(string \<rightharpoonup> string) \<Rightarrow> u64 set" where
  "ring_rows c = {n. c (audit_key n) \<noteq> None}"

text \<open>The sequence numbers there may be rows for, given the last one.\<close>

definition ring_window :: "u64 \<Rightarrow> u64 set" where
  "ring_window n = {m. 0 < m \<and> unat n < unat m + unat kAuditCapacity \<and> m \<le> n}"

lemma card_ring_window: "card (ring_window n) \<le> unat kAuditCapacity"
proof -
  have "unat ` ring_window n \<subseteq> {unat n + 1 - unat kAuditCapacity ..< unat n + 1}"
    by (auto simp: ring_window_def word_le_nat_alt)
  then have "card (unat ` ring_window n) \<le> card {unat n + 1 - unat kAuditCapacity ..< unat n + 1}"
    by (intro card_mono) auto
  then show ?thesis
    by (subst card_image [symmetric, of unat]) (auto simp: inj_on_def word_unat_eq_iff)
qed

lemma finite_ring_window: "finite (ring_window n)"
  by (rule finite_subset [of _ UNIV]) simp_all

fun append_all :: "'db rocksdb \<Rightarrow> AuditRecord list \<Rightarrow> 'db store \<Rightarrow> 'db store" where
  "append_all R [] s = s"
| "append_all R (a # as) s = append_all R as (snd (appendAudit R a s))"

lemma audit_key_inject [simp]: "audit_key m = audit_key n \<longleftrightarrow> m = n"
  by (metis auditSequence_audit_key option.inject)

lemma appendAudit_content:
  assumes laws: "rocks_laws R view" "rocks_healthy R"
  shows "fst (appendAudit R a s) = Inr (s_auditSequence s + 1)"
    "s_auditSequence (snd (appendAudit R a s)) = s_auditSequence s + 1"
    "content view (snd (appendAudit R a s)) = (let n = s_auditSequence s + 1 in
       (if kAuditCapacity < n then (content view s)(audit_key n \<mapsto> encodeAudit a, audit_key (n - kAuditCapacity) := None)
        else (content view s)(audit_key n \<mapsto> encodeAudit a)))"
proof -
  let ?n = "s_auditSequence s + 1"
  let ?s = "s\<lparr>s_auditSequence := ?n\<rparr>"
  let ?batch = "Put (audit_key ?n) (encodeAudit a) #
    (if kAuditCapacity < ?n then [Delete (audit_key (?n - kAuditCapacity))] else [])"
  obtain db' where db': "view db' = apply_batch ?batch (view (s_db ?s))"
    and run: "db_write R (s_syncWrites ?s) ?batch ?s (\<lambda>s. (Inr ?n, s)) = (\<lambda>s. (Inr ?n, s)) (?s\<lparr>s_db := db'\<rparr>)"
    by (rule db_write_healthy [OF laws])
  then have eq: "appendAudit R a s = (Inr ?n, ?s\<lparr>s_db := db'\<rparr>)"
    by (simp add: appendAudit_def Let_def)
  show "fst (appendAudit R a s) = Inr ?n" "s_auditSequence (snd (appendAudit R a s)) = ?n"
    by (simp_all add: eq)
  show "content view (snd (appendAudit R a s)) = (let n = ?n in
       (if kAuditCapacity < n then (content view s)(audit_key n \<mapsto> encodeAudit a, audit_key (n - kAuditCapacity) := None)
        else (content view s)(audit_key n \<mapsto> encodeAudit a)))"
    using content_batch [OF laws(1) db'] by (simp add: eq Let_def)
qed

lemma appendAudit_ring:
  assumes laws: "rocks_laws R view" "rocks_healthy R" and room: "unat (s_auditSequence s) + 1 < 2 ^ 64"
    and rows: "ring_rows (content view s) \<subseteq> ring_window (s_auditSequence s)"
  shows "ring_rows (content view (snd (appendAudit R a s))) \<subseteq> ring_window (s_auditSequence s + 1)"
proof
  let ?n = "s_auditSequence s + 1"
  have n: "unat ?n = unat (s_auditSequence s) + 1" using room by (subst unat_add_u64) simp_all
  fix m assume m: "m \<in> ring_rows (content view (snd (appendAudit R a s)))"
  show "m \<in> ring_window ?n"
  proof (cases "m = ?n")
    case True
    with n show ?thesis
      by (simp add: ring_window_def kAuditCapacity_def word_less_nat_alt)
  next
    case False
    with m have "m \<in> ring_rows (content view s)" and kept: "kAuditCapacity < ?n \<longrightarrow> m \<noteq> ?n - kAuditCapacity"
      by (auto simp: ring_rows_def appendAudit_content [OF laws] Let_def split: if_splits)
    with rows have w: "0 < unat m" "unat (s_auditSequence s) < unat m + unat kAuditCapacity"
      "unat m \<le> unat (s_auditSequence s)"
      by (auto simp: ring_window_def word_le_nat_alt word_less_nat_alt)
    have "unat ?n < unat m + unat kAuditCapacity"
    proof (cases "kAuditCapacity < ?n")
      case True
      then have "unat (?n - kAuditCapacity) = unat ?n - unat kAuditCapacity"
        by (simp add: unat_sub_if' word_less_nat_alt)
      with kept True have "unat m \<noteq> unat ?n - unat kAuditCapacity"
        by (metis word_unat_eq_iff)
      with w n show ?thesis by linarith
    next
      case False
      then have "unat ?n \<le> unat kAuditCapacity" by (simp add: word_less_nat_alt)
      with w(1) show ?thesis by linarith
    qed
    with w n show ?thesis
      by (simp add: ring_window_def word_le_nat_alt word_less_nat_alt)
  qed
qed

lemma append_all_ring:
  assumes laws: "rocks_laws R view" "rocks_healthy R"
  shows "unat (s_auditSequence s) + length as < 2 ^ 64 \<Longrightarrow>
    ring_rows (content view s) \<subseteq> ring_window (s_auditSequence s) \<Longrightarrow>
    ring_rows (content view (append_all R as s)) \<subseteq> ring_window (s_auditSequence (append_all R as s))"
proof (induction as arbitrary: s)
  case (Cons a as)
  have n: "unat (s_auditSequence s + 1) = unat (s_auditSequence s) + 1"
    using Cons.prems(1) by (subst unat_add_u64) simp_all
  have "unat (s_auditSequence s) + 1 < 2 ^ 64" using Cons.prems(1) by simp
  from appendAudit_ring [OF laws this Cons.prems(2), of a]
  show ?case
    using Cons.IH [of "snd (appendAudit R a s)"] Cons.prems(1) n appendAudit_content(2) [OF laws, of a s]
    by simp
qed simp



section \<open>Checksums and authorisation\<close>

text \<open>
  C19: The table-driven CRC is the bit-serial one for every polynomial and width, and feeding
  a stream in pieces gives the checksum of the whole.
\<close>

theorem crc_table_is_serial:
  "crcUpdate poly state data = crc_serial poly state data \<and>
   computer_finish evp (foldl computer_update (computer_new algorithm) pieces) =
     checksumOf evp algorithm (concat pieces)"
  by (simp add: crcUpdate_eq_serial checksumOf_pieces)

text \<open>
  C20: Grants only narrow. What a role with bucket grants allows in a bucket, the role allows
  by itself; widening one bucket's access never takes a permission away, and an
  administrator is not narrowed at all.
\<close>

theorem grants_only_narrow:
  "(allows_in role grants bucket p \<longrightarrow> allows role p) \<and>
   (forBucket grants bucket \<le> forBucket wider bucket \<longrightarrow> allows_in role grants bucket p \<longrightarrow>
      allows_in role wider bucket p) \<and>
   allows_in Administrator grants bucket p \<and>
   (unrestricted grants \<longrightarrow> allows_in role grants bucket p = allows role p)"
  by (auto simp: allows_in_def permits_Write unrestricted_def forBucket_def
      intro: permits_mono split: if_splits option.splits)

theorem grants_only_narrow_witness:
  "\<not> allows_in Operator \<lparr>fallback = AccessRead, exceptions = [(''b'', AccessWrite)]\<rparr> ''a'' ObjectWrite \<and>
   allows_in Operator \<lparr>fallback = AccessRead, exceptions = [(''b'', AccessWrite)]\<rparr> ''b'' ObjectWrite \<and>
   allows Operator ObjectWrite"
proof -
  have "\<not> allows_in Operator \<lparr>fallback = AccessRead, exceptions = [(''b'', AccessWrite)]\<rparr> ''a'' ObjectWrite"
    "allows_in Operator \<lparr>fallback = AccessRead, exceptions = [(''b'', AccessWrite)]\<rparr> ''b'' ObjectWrite"
    by code_simp+
  with grants_only_narrow show ?thesis by blast
qed

text \<open>
  C21: A scan bounded by \<open>upperBound\<close> of a prefix delivers exactly the keys that extend the
  prefix; only prefixes of nothing but \<open>0xFF\<close> bytes have no bound.
\<close>

theorem bounded_scan_is_prefix_scan:
  "case upperBound p of
     None \<Rightarrow> list_all (\<lambda>c. uchar c = 255) p
   | Some u \<Rightarrow> seek_entries m (Some u) p = filter (\<lambda>(k, _). prefix p k) m"
  using seek_entries_prefix upperBound_None_iff [of p]
  by (auto simp: list_all_iff split: option.splits)

end
