(* ===== verification/Cache_Provider.thy ===== *)
theory Cache_Provider
  imports Prelude
begin

text \<open>
  The cache seam (cache/cache_provider.hpp): the operations every backend offers, as a record of
  functions, and the contract the callers rely on, as the locale \<open>cache_tier\<close>: a cache may
  forget, but it answers only what was last set under the key and has not expired.
\<close>

record 'c provider =
  pv_get :: "int \<Rightarrow> string \<Rightarrow> 'c \<Rightarrow> string option \<times> 'c"
  pv_set :: "int \<Rightarrow> string \<Rightarrow> string option \<Rightarrow> int \<Rightarrow> 'c \<Rightarrow> 'c"
  pv_del :: "string \<Rightarrow> 'c \<Rightarrow> bool \<times> 'c"
  pv_evict :: "int \<Rightarrow> u64 \<Rightarrow> 'c \<Rightarrow> nat \<times> 'c"
  pv_clear :: "'c \<Rightarrow> 'c"

definition provider_put :: "'c provider \<Rightarrow> int \<Rightarrow> string \<Rightarrow> string \<Rightarrow> int \<Rightarrow> 'c \<Rightarrow> 'c" where
  "provider_put P ticks key v ttl = pv_set P ticks key (Some v) ttl"

definition kNever :: int where
  "kNever = 2 ^ 63 - 1"

text \<open>The deadline of a time-to-live in seconds, at the given time in milliseconds.\<close>

definition expiryFrom :: "int \<Rightarrow> int \<Rightarrow> int" where
  "expiryFrom ticks ttl = (if ttl = 0 then kNever else ticks + ttl * 1000)"

section \<open>The reference: a map with deadlines that never forgets\<close>

type_synonym cached = "string \<Rightarrow> (string \<times> int) option"

datatype cache_call =
    Get int string
  | Set int string "string option" int
  | Del string
  | Evict int u64
  | Clear

fun spec_call :: "cache_call \<Rightarrow> cached \<Rightarrow> cached" where
  "spec_call (Get t k) m = m"
| "spec_call (Set t k v ttl) m = m(k := map_option (\<lambda>v. (v, expiryFrom t ttl)) v)"
| "spec_call (Del k) m = m(k := None)"
| "spec_call (Evict t b) m = m"
| "spec_call Clear m = Map.empty"

fun perform :: "'c provider \<Rightarrow> cache_call \<Rightarrow> 'c \<Rightarrow> 'c" where
  "perform P (Get t k) c = snd (pv_get P t k c)"
| "perform P (Set t k v ttl) c = pv_set P t k v ttl c"
| "perform P (Del k) c = snd (pv_del P k c)"
| "perform P (Evict t b) c = snd (pv_evict P t b c)"
| "perform P Clear c = pv_clear P c"

section \<open>The contract\<close>

locale cache_tier =
  fixes P :: "'c provider"
    and tier_ok :: "'c \<Rightarrow> bool"
    and stored :: "'c \<Rightarrow> cached"
  assumes ok_perform: "tier_ok c \<Longrightarrow> tier_ok (perform P call c)"
    and stored_perform: "tier_ok c \<Longrightarrow> stored (perform P call c) \<subseteq>\<^sub>m spec_call call (stored c)"
    and get_answer: "tier_ok c \<Longrightarrow> fst (pv_get P t k c) =
      (case stored c k of None \<Rightarrow> None | Some (v, d) \<Rightarrow> if t < d then Some v else None)"
begin

lemma spec_call_mono: "m \<subseteq>\<^sub>m n \<Longrightarrow> spec_call call m \<subseteq>\<^sub>m spec_call call n"
  by (cases call) (auto simp: map_le_def)

lemma run_ok: "tier_ok c \<Longrightarrow> tier_ok (fold (perform P) calls c)"
  by (induction calls arbitrary: c) (simp_all add: ok_perform)

lemma run_stored:
  "tier_ok c \<Longrightarrow> stored c \<subseteq>\<^sub>m m \<Longrightarrow> stored (fold (perform P) calls c) \<subseteq>\<^sub>m fold spec_call calls m"
proof (induction calls arbitrary: c m)
  case (Cons call calls)
  have "stored (perform P call c) \<subseteq>\<^sub>m spec_call call m"
    using stored_perform [OF Cons.prems(1)] spec_call_mono [OF Cons.prems(2)] by (rule map_le_trans)
  then show ?case
    using Cons.IH [OF ok_perform [OF Cons.prems(1)]] by simp
qed simp

lemma answer_is_current:
  assumes "tier_ok c" "stored c \<subseteq>\<^sub>m m" "fst (pv_get P t k (fold (perform P) calls c)) = Some v"
  shows "\<exists>d. fold spec_call calls m k = Some (v, d) \<and> t < d"
proof -
  from assms(3) obtain d where d: "stored (fold (perform P) calls c) k = Some (v, d)" "t < d"
    unfolding get_answer [OF run_ok [OF assms(1)]] by (auto split: option.splits if_splits)
  with run_stored [OF assms(1,2), of calls] show ?thesis
    by (metis domI map_le_def)
qed

end

end
