(* ===== verification/Memory_Cache.thy ===== *)
theory Memory_Cache
  imports Cache_Provider
begin

text \<open>
  The in-process cache (cache/memory_cache.hpp, cache/memory_cache.cpp): shards of a map and an
  eviction list with a byte budget and second-chance eviction.

  A shard's \<open>unordered_map\<close> is an association list from keys to nodes, its doubly linked list
  the list of the keys of its nodes, \<open>head\<close> first. \<open>std::hash\<close> is the parameter \<open>hash\<close>. Ticks
  are integers; each call is given what the steady clock shows. The shared lock of \<open>get\<close>
  and its exclusive one are the two definitions \<open>get_shared\<close> and \<open>get_expired\<close>.
\<close>

section \<open>Nodes and shards\<close>

definition kEntryOverheadBytes :: u64 where
  "kEntryOverheadBytes = 128"

definition kMinShardBudgetBytes :: u64 where
  "kMinShardBudgetBytes = 1024 * 1024"

record node =
  n_key :: string
  n_value :: string
  n_bytes :: u64
  n_expiresAt :: int
  n_accessed :: bool

record shard =
  sh_map :: "(string \<times> node) list"
  sh_order :: "string list"
  sh_bytes :: u64
  sh_budget :: u64
  sh_hits :: u64
  sh_misses :: u64
  sh_evictions :: u64
  sh_expirations :: u64
  sh_rejections :: u64

definition new_shard :: "u64 \<Rightarrow> shard" where
  "new_shard budget = \<lparr>sh_map = [], sh_order = [], sh_bytes = 0, sh_budget = budget, sh_hits = 0,
     sh_misses = 0, sh_evictions = 0, sh_expirations = 0, sh_rejections = 0\<rparr>"

definition unlink :: "string \<Rightarrow> shard \<Rightarrow> shard" where
  "unlink key sh = sh\<lparr>sh_order := remove1 key (sh_order sh)\<rparr>"

definition pushFront :: "string \<Rightarrow> shard \<Rightarrow> shard" where
  "pushFront key sh = sh\<lparr>sh_order := key # sh_order sh\<rparr>"

definition node_bytes :: "string \<Rightarrow> shard \<Rightarrow> u64" where
  "node_bytes key sh = (case map_of (sh_map sh) key of Some n \<Rightarrow> n_bytes n | None \<Rightarrow> 0)"

definition node_accessed :: "string \<Rightarrow> shard \<Rightarrow> bool" where
  "node_accessed key sh = (case map_of (sh_map sh) key of Some n \<Rightarrow> n_accessed n | None \<Rightarrow> False)"

definition set_accessed :: "bool \<Rightarrow> string \<Rightarrow> shard \<Rightarrow> shard" where
  "set_accessed a key sh =
     (case map_of (sh_map sh) key of
        None \<Rightarrow> sh
      | Some n \<Rightarrow> sh\<lparr>sh_map := AList.update key (n\<lparr>n_accessed := a\<rparr>) (sh_map sh)\<rparr>)"

definition removeLocked :: "string \<Rightarrow> shard \<Rightarrow> shard" where
  "removeLocked key sh =
     (let sh = sh\<lparr>sh_bytes := sh_bytes sh - node_bytes key sh\<rparr>;
          sh = unlink key sh
      in sh\<lparr>sh_map := AList.delete key (sh_map sh)\<rparr>)"

text \<open>The pass over the tail of the list; the number of reprieves left decides the recursion.\<close>

fun evict_loop :: "nat \<Rightarrow> shard \<Rightarrow> bool \<times> shard" where
  "evict_loop reprieves sh =
     (if sh_order sh = [] then (False, sh)
      else
        let victim = last (sh_order sh) in
        case reprieves of
          0 \<Rightarrow> (True, (removeLocked victim sh)\<lparr>sh_evictions := sh_evictions sh + 1\<rparr>)
        | Suc n \<Rightarrow>
            if node_accessed victim sh
            then evict_loop n (pushFront victim (unlink victim (set_accessed False victim sh)))
            else (True, (removeLocked victim sh)\<lparr>sh_evictions := sh_evictions sh + 1\<rparr>))"

declare evict_loop.simps [simp del]

definition evictOneLocked :: "shard \<Rightarrow> bool \<times> shard" where
  "evictOneLocked sh = evict_loop (length (sh_map sh)) sh"

fun purge_loop :: "(string \<times> node) list \<Rightarrow> int \<Rightarrow> nat \<Rightarrow> shard \<Rightarrow> nat \<times> shard" where
  "purge_loop [] ticks removed sh = (removed, sh)"
| "purge_loop ((key, n) # rest) ticks removed sh =
     (if ticks < n_expiresAt n then purge_loop rest ticks removed sh
      else purge_loop rest ticks (removed + 1)
        ((unlink key (sh\<lparr>sh_bytes := sh_bytes sh - n_bytes n\<rparr>))\<lparr>sh_map := AList.delete key (sh_map sh)\<rparr>))"

definition purgeExpiredLocked :: "int \<Rightarrow> shard \<Rightarrow> nat \<times> shard" where
  "purgeExpiredLocked ticks sh =
     (case purge_loop (sh_map sh) ticks 0 sh of (removed, sh) \<Rightarrow>
        (removed, sh\<lparr>sh_expirations := sh_expirations sh + of_nat removed\<rparr>))"

text \<open>Every eviction shortens the list, so \<open>while (shard.bytes > limit && evictOneLocked(shard))\<close> ends.\<close>

lemma order_unlink [simp]: "sh_order (unlink k sh) = remove1 k (sh_order sh)"
  by (simp add: unlink_def)

lemma order_pushFront [simp]: "sh_order (pushFront k sh) = k # sh_order sh"
  by (simp add: pushFront_def)

lemma order_set_accessed [simp]: "sh_order (set_accessed a k sh) = sh_order sh"
  by (simp add: set_accessed_def split: option.splits)

lemma order_removeLocked [simp]: "sh_order (removeLocked k sh) = remove1 k (sh_order sh)"
  by (simp add: removeLocked_def Let_def)

lemma length_remove1_last [simp]: "xs \<noteq> [] \<Longrightarrow> length (remove1 (last xs) xs) = length xs - 1"
  by (simp add: length_remove1)

lemma evict_loop_shorter:
  "evict_loop n sh = (True, sh') \<Longrightarrow> length (sh_order sh') < length (sh_order sh)"
proof (induction n arbitrary: sh)
  case (Suc n)
  show ?case
  proof (cases "sh_order sh \<noteq> [] \<and> node_accessed (last (sh_order sh)) sh")
    case True
    let ?v = "last (sh_order sh)"
    from True Suc.prems have "evict_loop n (pushFront ?v (unlink ?v (set_accessed False ?v sh))) = (True, sh')"
      by (simp add: evict_loop.simps [of "Suc n"] Let_def)
    from Suc.IH [OF this] True show ?thesis by simp
  next
    case False
    with Suc.prems show ?thesis
      by (auto simp: evict_loop.simps [of "Suc n"] Let_def split: if_splits)
  qed
qed (auto simp: evict_loop.simps [of 0] Let_def split: if_splits)

function evict_until :: "u64 \<Rightarrow> nat \<Rightarrow> shard \<Rightarrow> nat \<times> shard" where
  "evict_until limit removed sh =
     (if limit < sh_bytes sh then
        (case evictOneLocked sh of
           (True, sh') \<Rightarrow> evict_until limit (removed + 1) sh'
         | (False, sh') \<Rightarrow> (removed, sh'))
      else (removed, sh))"
  by pat_completeness auto

termination
  by (relation "measure (\<lambda>(_, _, sh). length (sh_order sh))")
    (simp_all add: evictOneLocked_def evict_loop_shorter)

declare evict_until.simps [simp del]

section \<open>The cache\<close>

record cache =
  c_maxBytes :: u64
  c_shards :: "shard list"

text \<open>\<open>while (result * 2 <= value) result *= 2\<close>, for the values up to 64 it is called with.\<close>

function floor_loop :: "nat \<Rightarrow> nat \<Rightarrow> nat" where
  "floor_loop value result = (if 0 < result \<and> result * 2 \<le> value then floor_loop value (result * 2) else result)"
  by pat_completeness auto

termination
  by (relation "measure (\<lambda>(value, result). value - result)") auto

declare floor_loop.simps [simp del]

definition floorPowerOfTwo :: "nat \<Rightarrow> nat" where
  "floorPowerOfTwo value = floor_loop value 1"

definition shard_count :: "u64 \<Rightarrow> u32 \<Rightarrow> nat" where
  "shard_count maxBytes shards =
     (let count = if shards = 0 then 8 else unat shards;
          count = min count 64;
          affordable = max 1 (unat (maxBytes div kMinShardBudgetBytes));
          count = min count affordable
      in floorPowerOfTwo count)"

definition new_cache :: "u64 \<Rightarrow> u32 \<Rightarrow> cache" where
  "new_cache maxBytes shards =
     (let count = shard_count maxBytes shards in
      \<lparr>c_maxBytes = maxBytes, c_shards = replicate count (new_shard (maxBytes div of_nat count))\<rparr>)"

definition shard_index :: "(string \<Rightarrow> u64) \<Rightarrow> string \<Rightarrow> cache \<Rightarrow> nat" where
  "shard_index hash key c = unat (hash key AND (of_nat (length (c_shards c)) - 1))"

definition shardFor :: "(string \<Rightarrow> u64) \<Rightarrow> string \<Rightarrow> cache \<Rightarrow> shard" where
  "shardFor hash key c = c_shards c ! shard_index hash key c"

definition on_shard :: "(string \<Rightarrow> u64) \<Rightarrow> string \<Rightarrow> (shard \<Rightarrow> 'a \<times> shard) \<Rightarrow> cache \<Rightarrow> 'a \<times> cache" where
  "on_shard hash key f c =
     (case f (shardFor hash key c) of (x, sh) \<Rightarrow>
        (x, c\<lparr>c_shards := (c_shards c)[shard_index hash key c := sh]\<rparr>))"

text \<open>Under the shared lock: a miss, a hit, or an expired entry to drop (\<open>None\<close>).\<close>

definition get_shared :: "int \<Rightarrow> string \<Rightarrow> shard \<Rightarrow> string option option \<times> shard" where
  "get_shared ticks key sh =
     (case map_of (sh_map sh) key of
        None \<Rightarrow> (Some None, sh\<lparr>sh_misses := sh_misses sh + 1\<rparr>)
      | Some n \<Rightarrow>
          if ticks < n_expiresAt n
          then (Some (Some (n_value n)), (set_accessed True key sh)\<lparr>sh_hits := sh_hits sh + 1\<rparr>)
          else (None, sh))"

definition get_expired :: "int \<Rightarrow> string \<Rightarrow> shard \<Rightarrow> shard" where
  "get_expired ticks key sh =
     (let sh = (case map_of (sh_map sh) key of
            None \<Rightarrow> sh
          | Some n \<Rightarrow>
              if n_expiresAt n \<le> ticks
              then (removeLocked key sh)\<lparr>sh_expirations := sh_expirations sh + 1\<rparr> else sh)
      in sh\<lparr>sh_misses := sh_misses sh + 1\<rparr>)"

definition shard_get :: "int \<Rightarrow> string \<Rightarrow> shard \<Rightarrow> string option \<times> shard" where
  "shard_get ticks key sh =
     (case get_shared ticks key sh of
        (Some answer, sh) \<Rightarrow> (answer, sh)
      | (None, sh) \<Rightarrow> (None, get_expired ticks key sh))"

definition cache_get :: "(string \<Rightarrow> u64) \<Rightarrow> int \<Rightarrow> string \<Rightarrow> cache \<Rightarrow> string option \<times> cache" where
  "cache_get hash ticks key = on_shard hash key (shard_get ticks key)"

definition shard_del :: "string \<Rightarrow> shard \<Rightarrow> bool \<times> shard" where
  "shard_del key sh =
     (case map_of (sh_map sh) key of
        None \<Rightarrow> (False, sh)
      | Some _ \<Rightarrow> (True, removeLocked key sh))"

definition cache_del :: "(string \<Rightarrow> u64) \<Rightarrow> string \<Rightarrow> cache \<Rightarrow> bool \<times> cache" where
  "cache_del hash key = on_shard hash key (shard_del key)"

definition entry_cost :: "string \<Rightarrow> string \<Rightarrow> u64" where
  "entry_cost key v = of_nat (length key) + of_nat (length v) + kEntryOverheadBytes"

definition shard_set :: "int \<Rightarrow> string \<Rightarrow> string \<Rightarrow> int \<Rightarrow> shard \<Rightarrow> shard" where
  "shard_set ticks key v ttl sh =
     (let bytes = entry_cost key v;
          expiresAt = expiryFrom ticks ttl
      in if sh_budget sh < bytes then
           (let sh = (case map_of (sh_map sh) key of
                  None \<Rightarrow> sh | Some _ \<Rightarrow> removeLocked key sh)
            in sh\<lparr>sh_rejections := sh_rejections sh + 1\<rparr>)
         else
           let sh = (case map_of (sh_map sh) key of
                  Some n \<Rightarrow>
                    let sh = sh\<lparr>sh_bytes := sh_bytes sh - n_bytes n\<rparr>;
                        n = n\<lparr>n_value := v, n_bytes := bytes, n_expiresAt := expiresAt, n_accessed := False\<rparr>;
                        sh = sh\<lparr>sh_map := AList.update key n (sh_map sh), sh_bytes := sh_bytes sh + bytes\<rparr>
                    in pushFront key (unlink key sh)
                | None \<Rightarrow>
                    let n = \<lparr>n_key = key, n_value = v, n_bytes = bytes, n_expiresAt = expiresAt,
                             n_accessed = False\<rparr>;
                        sh = pushFront key (sh\<lparr>sh_map := AList.update key n (sh_map sh)\<rparr>)
                    in sh\<lparr>sh_bytes := sh_bytes sh + bytes\<rparr>)
           in snd (evict_until (sh_budget sh) 0 sh))"

definition cache_set ::
  "(string \<Rightarrow> u64) \<Rightarrow> int \<Rightarrow> string \<Rightarrow> string option \<Rightarrow> int \<Rightarrow> cache \<Rightarrow> cache" where
  "cache_set hash ticks key v ttl c =
     (case v of
        None \<Rightarrow> snd (cache_del hash key c)
      | Some v \<Rightarrow> snd (on_shard hash key (\<lambda>sh. ((), shard_set ticks key v ttl sh)) c))"

definition shard_evict :: "int \<Rightarrow> u64 \<Rightarrow> shard \<Rightarrow> nat \<times> shard" where
  "shard_evict ticks perShard sh =
     (case purgeExpiredLocked ticks sh of (removed, sh) \<Rightarrow> evict_until perShard removed sh)"

definition cache_evict :: "int \<Rightarrow> u64 \<Rightarrow> cache \<Rightarrow> nat \<times> cache" where
  "cache_evict ticks budget c =
     (let perShard = budget div of_nat (length (c_shards c));
          results = map (shard_evict ticks perShard) (c_shards c)
      in (sum_list (map fst results), c\<lparr>c_shards := map snd results\<rparr>))"

definition shard_clear :: "shard \<Rightarrow> shard" where
  "shard_clear sh = sh\<lparr>sh_map := [], sh_order := [], sh_bytes := 0\<rparr>"

definition cache_clear :: "cache \<Rightarrow> cache" where
  "cache_clear c = c\<lparr>c_shards := map shard_clear (c_shards c)\<rparr>"

record CacheStats =
  st_hits :: u64
  st_misses :: u64
  st_evictions :: u64
  st_expirations :: u64
  st_rejections :: u64
  st_errors :: u64
  st_entries :: u64
  st_bytes :: u64
  st_limitBytes :: u64
  st_healthy :: bool

definition cache_stats :: "cache \<Rightarrow> CacheStats" where
  "cache_stats c =
     foldl (\<lambda>out sh. out\<lparr>st_hits := st_hits out + sh_hits sh, st_misses := st_misses out + sh_misses sh,
         st_evictions := st_evictions out + sh_evictions sh, st_expirations := st_expirations out + sh_expirations sh,
         st_rejections := st_rejections out + sh_rejections sh,
         st_entries := st_entries out + of_nat (length (sh_map sh)), st_bytes := st_bytes out + sh_bytes sh\<rparr>)
       \<lparr>st_hits = 0, st_misses = 0, st_evictions = 0, st_expirations = 0, st_rejections = 0, st_errors = 0,
        st_entries = 0, st_bytes = 0, st_limitBytes = c_maxBytes c, st_healthy = True\<rparr>
       (c_shards c)"


section \<open>Well-formed shards\<close>

text \<open>What a shard holds under a key: the value and its deadline.\<close>

definition held :: "shard \<Rightarrow> string \<Rightarrow> (string \<times> int) option" where
  "held sh k = map_option (\<lambda>n. (n_value n, n_expiresAt n)) (map_of (sh_map sh) k)"

abbreviation mass :: "(string \<times> node) list \<Rightarrow> nat" where
  "mass \<equiv> assoc_sum (\<lambda>n. unat (n_bytes n))"

definition shard_ok :: "shard \<Rightarrow> bool" where
  "shard_ok sh \<longleftrightarrow> distinct (map fst (sh_map sh)) \<and> distinct (sh_order sh) \<and>
     set (sh_order sh) = fst ` set (sh_map sh) \<and> (\<forall>(k, n)\<in>set (sh_map sh). n_key n = k) \<and>
     mass (sh_map sh) = unat (sh_bytes sh)"

lemma shard_okI:
  assumes "distinct (map fst (sh_map sh))" "distinct (sh_order sh)"
    "set (sh_order sh) = fst ` set (sh_map sh)"
    "\<And>k n. (k, n) \<in> set (sh_map sh) \<Longrightarrow> n_key n = k" "mass (sh_map sh) = unat (sh_bytes sh)"
  shows "shard_ok sh"
  using assms by (auto simp: shard_ok_def)

lemma shard_okD:
  assumes "shard_ok sh"
  shows "distinct (map fst (sh_map sh))" "distinct (sh_order sh)"
    "set (sh_order sh) = fst ` set (sh_map sh)"
    "\<And>k n. (k, n) \<in> set (sh_map sh) \<Longrightarrow> n_key n = k" "mass (sh_map sh) = unat (sh_bytes sh)"
  using assms by (auto simp: shard_ok_def)

lemma mass_split:
  "shard_ok sh \<Longrightarrow> unat (sh_bytes sh) =
     unat (node_bytes k sh) + assoc_except (\<lambda>n. unat (n_bytes n)) k (sh_map sh)"
  using assoc_sum_split [OF shard_okD(1), of sh "\<lambda>n. unat (n_bytes n)" k] shard_okD(5) [of sh]
  by (simp add: node_bytes_def split: option.splits)

lemma removeLocked_simps [simp]:
  "sh_map (removeLocked k sh) = AList.delete k (sh_map sh)"
  "sh_budget (removeLocked k sh) = sh_budget sh"
  "sh_bytes (removeLocked k sh) = sh_bytes sh - node_bytes k sh"
  by (simp_all add: removeLocked_def Let_def unlink_def)

lemma held_removeLocked [simp]: "held (removeLocked k sh) = (held sh)(k := None)"
  by (rule ext) (simp add: held_def delete_conv')

lemma remove_ok:
  assumes "shard_ok sh"
  shows "shard_ok (removeLocked k sh)"
proof (rule shard_okI)
  show "mass (sh_map (removeLocked k sh)) = unat (sh_bytes (removeLocked k sh))"
    using mass_split [OF assms, of k] by (simp add: assoc_sum_delete unat_sub_if')
  show "set (sh_order (removeLocked k sh)) = fst ` set (sh_map (removeLocked k sh))"
    using shard_okD(2,3) [OF assms] by (auto simp: AList.delete_eq)
qed (use shard_okD [OF assms] in \<open>auto simp: AList.delete_eq distinct_map_filter\<close>)

lemma shard_ok_stats [simp]:
  "shard_ok (sh\<lparr>sh_hits := n\<rparr>) = shard_ok sh" "shard_ok (sh\<lparr>sh_misses := n\<rparr>) = shard_ok sh"
  "shard_ok (sh\<lparr>sh_evictions := n\<rparr>) = shard_ok sh" "shard_ok (sh\<lparr>sh_expirations := n\<rparr>) = shard_ok sh"
  "shard_ok (sh\<lparr>sh_rejections := n\<rparr>) = shard_ok sh"
  by (simp_all add: shard_ok_def)

lemma held_stats [simp]:
  "held (sh\<lparr>sh_hits := n\<rparr>) = held sh" "held (sh\<lparr>sh_misses := n\<rparr>) = held sh"
  "held (sh\<lparr>sh_evictions := n\<rparr>) = held sh" "held (sh\<lparr>sh_expirations := n\<rparr>) = held sh"
  "held (sh\<lparr>sh_rejections := n\<rparr>) = held sh"
  by (simp_all add: held_def fun_eq_iff)

lemma set_accessed_simps [simp]:
  "sh_bytes (set_accessed a k sh) = sh_bytes sh" "sh_budget (set_accessed a k sh) = sh_budget sh"
  by (simp_all add: set_accessed_def split: option.splits)

lemma held_set_accessed [simp]: "held (set_accessed a k sh) = held sh"
  by (rule ext) (simp add: held_def set_accessed_def update_conv' split: option.splits)

lemma update_in_place:
  "k \<in> fst ` set es \<Longrightarrow> fst ` set (AList.update k v es) = fst ` set es"
  by (simp add: dom_update insert_absorb)

lemma set_assoc_update_subset: "set (AList.update k v es) \<subseteq> insert (k, v) (set es)"
  by (induction es) auto

lemma set_accessed_ok:
  assumes "shard_ok sh"
  shows "shard_ok (set_accessed a k sh)"
proof (cases "map_of (sh_map sh) k")
  case (Some n)
  then have k: "(k, n) \<in> set (sh_map sh)" by (rule map_of_SomeD)
  have sh: "sh_map (set_accessed a k sh) = AList.update k (n\<lparr>n_accessed := a\<rparr>) (sh_map sh)"
    by (simp add: set_accessed_def Some)
  show ?thesis
  proof (rule shard_okI)
    show "mass (sh_map (set_accessed a k sh)) = unat (sh_bytes (set_accessed a k sh))"
      using mass_split [OF assms, of k] Some
      by (simp add: sh assoc_sum_update [OF shard_okD(1) [OF assms]] node_bytes_def)
    show "distinct (map fst (sh_map (set_accessed a k sh)))"
      using shard_okD(1) [OF assms] by (simp add: sh distinct_update)
    show "set (sh_order (set_accessed a k sh)) = fst ` set (sh_map (set_accessed a k sh))"
    proof -
      have "k \<in> fst ` set (sh_map sh)" using k by (metis fst_conv image_eqI)
      from update_in_place [OF this] show ?thesis
        using shard_okD(3) [OF assms] by (simp add: sh)
    qed
    show "n_key n' = k'" if "(k', n') \<in> set (sh_map (set_accessed a k sh))" for k' n'
    proof -
      from that have "(k', n') = (k, n\<lparr>n_accessed := a\<rparr>) \<or> (k', n') \<in> set (sh_map sh)"
        using set_assoc_update_subset [of k "n\<lparr>n_accessed := a\<rparr>" "sh_map sh"] by (simp only: sh) blast
      then show ?thesis
        using shard_okD(4) [OF assms k] shard_okD(4) [OF assms, of k' n'] by (elim disjE) simp_all
    qed
  qed (use shard_okD(2) [OF assms] in simp)
qed (simp add: set_accessed_def assms)

definition to_front :: "string \<Rightarrow> shard \<Rightarrow> shard" where
  "to_front k sh = pushFront k (unlink k sh)"

lemma to_front_simps [simp]:
  "sh_map (to_front k sh) = sh_map sh" "sh_bytes (to_front k sh) = sh_bytes sh"
  "sh_budget (to_front k sh) = sh_budget sh" "held (to_front k sh) = held sh"
  "sh_order (to_front k sh) = k # remove1 k (sh_order sh)"
  by (simp_all add: to_front_def pushFront_def unlink_def held_def fun_eq_iff)

lemma to_front_ok: "shard_ok sh \<Longrightarrow> k \<in> set (sh_order sh) \<Longrightarrow> shard_ok (to_front k sh)"
  by (auto simp: shard_ok_def to_front_def pushFront_def unlink_def)

section \<open>Eviction\<close>

lemma evict_loop_keeps:
  assumes "evict_loop n sh = (b, sh')" "shard_ok sh"
  shows "shard_ok sh' \<and> sh_budget sh' = sh_budget sh \<and> held sh' \<subseteq>\<^sub>m held sh \<and> (b \<longleftrightarrow> sh_order sh \<noteq> [])"
  using assms
proof (induction n arbitrary: sh)
  case (Suc n)
  let ?v = "last (sh_order sh)"
  show ?case
  proof (cases "sh_order sh \<noteq> [] \<and> node_accessed ?v sh")
    case True
    then have "?v \<in> set (sh_order (set_accessed False ?v sh))" by simp
    then have ok: "shard_ok (to_front ?v (set_accessed False ?v sh))"
      by (intro to_front_ok set_accessed_ok Suc.prems(2))
    from True Suc.prems(1) have "evict_loop n (to_front ?v (set_accessed False ?v sh)) = (b, sh')"
      by (simp add: evict_loop.simps [of "Suc n"] Let_def to_front_def)
    from Suc.IH [OF this ok] True show ?thesis by simp
  next
    case False
    with Suc.prems remove_ok [OF Suc.prems(2)] show ?thesis
      by (auto simp: evict_loop.simps [of "Suc n"] Let_def map_le_def split: if_splits)
  qed
next
  case 0
  with remove_ok [OF 0(2)] show ?case
    by (auto simp: evict_loop.simps [of 0] Let_def map_le_def split: if_splits)
qed

lemma evict_until_keeps:
  assumes "evict_until limit r sh = (n, sh')" "shard_ok sh"
  shows "shard_ok sh' \<and> sh_budget sh' = sh_budget sh \<and> held sh' \<subseteq>\<^sub>m held sh \<and> sh_bytes sh' \<le> limit"
  using assms
proof (induction limit r sh rule: evict_until.induct)
  case (1 limit r sh)
  show ?case
  proof (cases "limit < sh_bytes sh")
    case False
    with 1 show ?thesis by (simp add: evict_until.simps [of limit r sh])
  next
    case True
    obtain b sh1 where e: "evictOneLocked sh = (b, sh1)" by (cases "evictOneLocked sh")
    note kept = evict_loop_keeps [OF e [unfolded evictOneLocked_def] 1(3)]
    show ?thesis
    proof (cases b)
      case True
      with 1(2) e \<open>limit < sh_bytes sh\<close> have "evict_until limit (r + 1) sh1 = (n, sh')"
        by (simp add: evict_until.simps [of limit r sh])
      from 1(1) [OF \<open>limit < sh_bytes sh\<close> e [symmetric] _ this] True kept show ?thesis
        by (auto intro: map_le_trans)
    next
      case False
      with kept have "sh_map sh = []"
        using shard_okD(3) [OF 1(3)] by simp
      then have "sh_bytes sh = 0"
        using shard_okD(5) [OF 1(3)] by (simp add: unat_eq_0)
      with True show ?thesis by simp
    qed
  qed
qed

lemma purge_loop_keeps:
  assumes "purge_loop es ticks r sh = (n, sh')" "shard_ok sh" "distinct (map fst es)"
    and "\<And>k n. (k, n) \<in> set es \<Longrightarrow> map_of (sh_map sh) k = Some n"
  shows "shard_ok sh' \<and> sh_budget sh' = sh_budget sh \<and> held sh' \<subseteq>\<^sub>m held sh \<and>
    sh_bytes sh' \<le> sh_bytes sh"
  using assms
proof (induction es ticks r sh rule: purge_loop.induct)
  case (2 key m rest ticks removed sh)
  show ?case
  proof (cases "ticks < n_expiresAt m")
    case True
    with 2(3-6) 2(1) [OF True] show ?thesis by simp
  next
    case False
    have m: "map_of (sh_map sh) key = Some m" by (rule 2(6)) simp
    then have step: "(unlink key (sh\<lparr>sh_bytes := sh_bytes sh - n_bytes m\<rparr>))\<lparr>sh_map := AList.delete key (sh_map sh)\<rparr>
        = removeLocked key sh"
      by (simp add: removeLocked_def Let_def unlink_def node_bytes_def)
    have "map_of (sh_map (removeLocked key sh)) k = Some n" if "(k, n) \<in> set rest" for k n
    proof -
      have "k \<noteq> key" using that 2(5) by force
      then show ?thesis using 2(6) that by (simp add: delete_conv')
    qed
    moreover have "purge_loop rest ticks (removed + 1) (removeLocked key sh) = (n, sh')"
      using 2(3) False by (simp add: step)
    ultimately have "shard_ok sh' \<and> sh_budget sh' = sh_budget (removeLocked key sh) \<and>
        held sh' \<subseteq>\<^sub>m held (removeLocked key sh) \<and> sh_bytes sh' \<le> sh_bytes (removeLocked key sh)"
      using 2(2) [OF False, unfolded step] 2(5) remove_ok [OF 2(4)]
      by (simp del: removeLocked_simps held_removeLocked)
    moreover have "sh_bytes (removeLocked key sh) \<le> sh_bytes sh"
      using mass_split [OF 2(4), of key] by (simp add: word_le_nat_alt unat_sub_if')
    moreover have "held (removeLocked key sh) \<subseteq>\<^sub>m held sh"
      by (simp add: map_le_def)
    ultimately show ?thesis
      by (auto intro: map_le_trans order_trans)
  qed
qed simp

lemma purgeExpired_keeps:
  assumes "purgeExpiredLocked ticks sh = (n, sh')" "shard_ok sh"
  shows "shard_ok sh' \<and> sh_budget sh' = sh_budget sh \<and> held sh' \<subseteq>\<^sub>m held sh \<and>
    sh_bytes sh' \<le> sh_bytes sh"
proof -
  obtain r sh1 where p: "purge_loop (sh_map sh) ticks 0 sh = (r, sh1)"
    by (cases "purge_loop (sh_map sh) ticks 0 sh")
  have "\<And>k n. (k, n) \<in> set (sh_map sh) \<Longrightarrow> map_of (sh_map sh) k = Some n"
    using shard_okD(1) [OF assms(2)] by simp
  from purge_loop_keeps [OF p assms(2) shard_okD(1) [OF assms(2)] this] assms(1) p show ?thesis
    by (auto simp: purgeExpiredLocked_def)
qed

section \<open>The operations of a shard\<close>

text \<open>A shard within its budget, which is small enough for sums of charges not to wrap.\<close>

definition within :: "u64 \<Rightarrow> shard \<Rightarrow> bool" where
  "within budget sh \<longleftrightarrow> shard_ok sh \<and> sh_budget sh = budget \<and> sh_bytes sh \<le> budget"

lemma new_shard_within: "within budget (new_shard budget)"
  by (simp add: within_def shard_ok_def new_shard_def)

lemma held_new_shard [simp]: "held (new_shard budget) = Map.empty"
  by (rule ext) (simp add: held_def new_shard_def)

lemma within_stats [simp]:
  "within b (sh\<lparr>sh_hits := n\<rparr>) = within b sh" "within b (sh\<lparr>sh_misses := n\<rparr>) = within b sh"
  "within b (sh\<lparr>sh_evictions := n\<rparr>) = within b sh" "within b (sh\<lparr>sh_expirations := n\<rparr>) = within b sh"
  "within b (sh\<lparr>sh_rejections := n\<rparr>) = within b sh"
  by (simp_all add: within_def)

lemma remove_within: "within b sh \<Longrightarrow> within b (removeLocked k sh)"
  using mass_split [of sh k] by (auto simp: within_def remove_ok word_le_nat_alt unat_sub_if')

lemma set_accessed_within: "within b sh \<Longrightarrow> within b (set_accessed a k sh)"
  by (simp add: within_def set_accessed_ok)

lemma shard_get_within:
  assumes "within b sh" "shard_get ticks key sh = (v, sh')"
  shows "within b sh'" "held sh' \<subseteq>\<^sub>m held sh"
    "v = (case held sh key of None \<Rightarrow> None | Some (x, d) \<Rightarrow> if ticks < d then Some x else None)"
proof -
  show "within b sh'" "held sh' \<subseteq>\<^sub>m held sh"
    using assms remove_within [OF assms(1), of key] set_accessed_within [OF assms(1), of True key]
    by (auto simp: shard_get_def get_shared_def get_expired_def Let_def map_le_def
        split: option.splits if_splits)
  show "v = (case held sh key of None \<Rightarrow> None | Some (x, d) \<Rightarrow> if ticks < d then Some x else None)"
    using assms(2) by (auto simp: shard_get_def get_shared_def held_def split: option.splits if_splits)
qed

lemma shard_del_within:
  assumes "within b sh" "shard_del key sh = (r, sh')"
  shows "within b sh'" "held sh' = (held sh)(key := None)" "r \<longleftrightarrow> held sh key \<noteq> None"
  using assms remove_within [OF assms(1), of key]
  by (auto simp: shard_del_def held_def fun_eq_iff delete_conv' split: option.splits)

lemma evict_until_within:
  "shard_ok sh \<Longrightarrow> within (sh_budget sh) (snd (evict_until (sh_budget sh) r sh))"
  "shard_ok sh \<Longrightarrow> held (snd (evict_until limit r sh)) \<subseteq>\<^sub>m held sh"
  using evict_until_keeps by (metis prod.collapse within_def)+

text \<open>What \<open>set\<close> puts in place before it evicts.\<close>

definition placed :: "string \<Rightarrow> node \<Rightarrow> shard \<Rightarrow> shard" where
  "placed key n sh =
     sh\<lparr>sh_map := AList.update key n (sh_map sh), sh_order := key # remove1 key (sh_order sh),
        sh_bytes := sh_bytes sh - node_bytes key sh + n_bytes n\<rparr>"

lemma placed_ok:
  assumes "within b sh" "unat b < 2 ^ 63" "n_key n = key" "n_bytes n \<le> b"
  shows "shard_ok (placed key n sh)"
proof (rule shard_okI)
  note ok = assms(1) [unfolded within_def, THEN conjunct1]
  let ?rest = "assoc_except (\<lambda>n. unat (n_bytes n)) key (sh_map sh)"
  have rest: "unat (sh_bytes sh) = unat (node_bytes key sh) + ?rest"
    by (rule mass_split [OF ok])
  have "unat (sh_bytes sh) < 2 ^ 63" "unat (n_bytes n) < 2 ^ 63"
    using assms by (simp_all add: within_def word_le_nat_alt)
  with rest have "unat (sh_bytes sh - node_bytes key sh + n_bytes n) = ?rest + unat (n_bytes n)"
    by (subst unat_add_u64) (simp_all add: unat_sub_if')
  then show "mass (sh_map (placed key n sh)) = unat (sh_bytes (placed key n sh))"
    by (simp add: placed_def assoc_sum_update [OF shard_okD(1) [OF ok]])
  show "distinct (map fst (sh_map (placed key n sh)))"
    using shard_okD(1) [OF ok] by (simp add: placed_def distinct_update)
  show "distinct (sh_order (placed key n sh))"
    using shard_okD(2) [OF ok] by (simp add: placed_def)
  show "set (sh_order (placed key n sh)) = fst ` set (sh_map (placed key n sh))"
    using shard_okD(2,3) [OF ok] by (auto simp: placed_def dom_update)
  show "n_key n' = k" if "(k, n') \<in> set (sh_map (placed key n sh))" for k n'
  proof -
    from that have "(k, n') = (key, n) \<or> (k, n') \<in> set (sh_map sh)"
      using set_assoc_update_subset [of key n "sh_map sh"] by (simp add: placed_def) blast
    then show ?thesis using assms(3) shard_okD(4) [OF ok, of k n'] by (elim disjE) simp_all
  qed
qed

lemma placed_simps [simp]:
  "sh_budget (placed key n sh) = sh_budget sh"
  "held (placed key n sh) = (held sh)(key \<mapsto> (n_value n, n_expiresAt n))"
  by (simp_all add: placed_def held_def fun_eq_iff update_conv')

lemma order_then_bytes: "sh\<lparr>sh_order := a, sh_bytes := b\<rparr> = sh\<lparr>sh_bytes := b, sh_order := a\<rparr>"
  by simp

lemma shard_set_placed:
  assumes "shard_ok sh" "\<not> sh_budget sh < entry_cost key v"
  obtains n where "n_key n = key" "n_value n = v" "n_bytes n = entry_cost key v"
    "n_expiresAt n = expiryFrom ticks ttl"
    "shard_set ticks key v ttl sh = snd (evict_until (sh_budget sh) 0 (placed key n sh))"
proof (cases "map_of (sh_map sh) key")
  case None
  then have "key \<notin> set (sh_order sh)"
    using shard_okD(3) [OF assms(1)] by (simp add: map_of_eq_None_iff)
  with None assms(2) show ?thesis
    by (intro that [of "\<lparr>n_key = key, n_value = v, n_bytes = entry_cost key v,
          n_expiresAt = expiryFrom ticks ttl, n_accessed = False\<rparr>"])
      (simp_all add: shard_set_def Let_def placed_def node_bytes_def to_front_def pushFront_def
        unlink_def remove1_idem)
next
  case (Some n)
  then have "n_key n = key"
    using shard_okD(4) [OF assms(1)] by (blast dest: map_of_SomeD)
  with Some assms(2) show ?thesis
    by (intro that [of "n\<lparr>n_value := v, n_bytes := entry_cost key v,
          n_expiresAt := expiryFrom ticks ttl, n_accessed := False\<rparr>"])
      (simp_all add: shard_set_def Let_def placed_def node_bytes_def to_front_def pushFront_def
        unlink_def order_then_bytes)
qed

lemma shard_set_within:
  assumes "within b sh" "unat b < 2 ^ 63"
  shows "within b (shard_set ticks key v ttl sh)"
    "held (shard_set ticks key v ttl sh) \<subseteq>\<^sub>m (held sh)(key \<mapsto> (v, expiryFrom ticks ttl))"
proof -
  have "within b (shard_set ticks key v ttl sh) \<and>
    held (shard_set ticks key v ttl sh) \<subseteq>\<^sub>m (held sh)(key \<mapsto> (v, expiryFrom ticks ttl))"
  proof (cases "sh_budget sh < entry_cost key v")
    case True
    then show ?thesis
      using assms(1) remove_within [OF assms(1), of key]
      by (auto simp: shard_set_def Let_def map_le_def held_def split: option.splits)
  next
    case False
    have ok: "shard_ok sh" and b: "sh_budget sh = b" using assms(1) by (simp_all add: within_def)
    from shard_set_placed [OF ok False] obtain n where n: "n_key n = key" "n_value n = v"
      "n_bytes n = entry_cost key v" "n_expiresAt n = expiryFrom ticks ttl"
      and run: "shard_set ticks key v ttl sh = snd (evict_until (sh_budget sh) 0 (placed key n sh))"
      by metis
    have "shard_ok (placed key n sh)"
      using False b n by (intro placed_ok [OF assms]) simp_all
    from evict_until_within [OF this] n b show ?thesis
      by (simp add: run)
  qed
  then show "within b (shard_set ticks key v ttl sh)"
    "held (shard_set ticks key v ttl sh) \<subseteq>\<^sub>m (held sh)(key \<mapsto> (v, expiryFrom ticks ttl))"
    by blast+
qed

lemma shard_evict_within:
  assumes "within b sh" "shard_evict ticks limit sh = (n, sh')"
  shows "within b sh'" "held sh' \<subseteq>\<^sub>m held sh" "sh_bytes sh' \<le> limit"
proof -
  obtain r sh1 where p: "purgeExpiredLocked ticks sh = (r, sh1)"
    by (cases "purgeExpiredLocked ticks sh")
  with assms(2) have e: "evict_until limit r sh1 = (n, sh')" by (simp add: shard_evict_def)
  have ok: "shard_ok sh" using assms(1) by (simp add: within_def)
  note purged = purgeExpired_keeps [OF p ok]
  note evicted = evict_until_keeps [OF e purged [THEN conjunct1]]
  show "held sh' \<subseteq>\<^sub>m held sh" "sh_bytes sh' \<le> limit"
    using purged evicted by (auto intro: map_le_trans)
  have "sh_bytes sh' \<le> sh_bytes sh1"
  proof (cases "limit < sh_bytes sh1")
    case True
    then show ?thesis
      using evicted [THEN conjunct2, THEN conjunct2, THEN conjunct2] by (simp add: order.strict_implies_order le_less_trans)
  next
    case False
    with e show ?thesis by (simp add: evict_until.simps [of limit r sh1])
  qed
  with purged evicted assms(1) show "within b sh'"
    by (auto simp: within_def intro: order_trans)
qed

lemma shard_calls_within:
  assumes "within b sh"
  shows "within b (snd (shard_get ticks key sh))" "held (snd (shard_get ticks key sh)) \<subseteq>\<^sub>m held sh"
    "fst (shard_get ticks key sh) =
      (case held sh key of None \<Rightarrow> None | Some (x, d) \<Rightarrow> if ticks < d then Some x else None)"
    "within b (snd (shard_del key sh))" "held (snd (shard_del key sh)) = (held sh)(key := None)"
    "within b (snd (shard_evict ticks limit sh))" "held (snd (shard_evict ticks limit sh)) \<subseteq>\<^sub>m held sh"
  using shard_get_within [OF assms, of ticks key "fst (shard_get ticks key sh)" "snd (shard_get ticks key sh)"]
    shard_del_within [OF assms, of key "fst (shard_del key sh)" "snd (shard_del key sh)"]
    shard_evict_within [OF assms, of ticks limit "fst (shard_evict ticks limit sh)" "snd (shard_evict ticks limit sh)"]
  by simp_all

section \<open>The operations of the cache\<close>

definition stored :: "(string \<Rightarrow> u64) \<Rightarrow> cache \<Rightarrow> cached" where
  "stored hash c k = held (shardFor hash k c) k"

definition cache_ok :: "cache \<Rightarrow> bool" where
  "cache_ok c \<longleftrightarrow> c_shards c \<noteq> [] \<and> length (c_shards c) \<le> 64 \<and> unat (c_maxBytes c) < 2 ^ 63 \<and>
     (\<forall>sh\<in>set (c_shards c). within (c_maxBytes c div of_nat (length (c_shards c))) sh)"

definition memory_provider :: "(string \<Rightarrow> u64) \<Rightarrow> cache provider" where
  "memory_provider hash = \<lparr>pv_get = cache_get hash, pv_set = cache_set hash, pv_del = cache_del hash,
     pv_evict = cache_evict, pv_clear = cache_clear\<rparr>"

lemma shard_index_bound:
  assumes "cache_ok c"
  shows "shard_index hash k c < length (c_shards c)"
proof -
  let ?n = "length (c_shards c)"
  have n: "0 < ?n" "?n \<le> 64" using assms by (simp_all add: cache_ok_def)
  then have "unat (of_nat ?n :: u64) = ?n" by (simp add: unat_of_nat)
  then have "unat (of_nat ?n - 1 :: u64) = ?n - 1"
    using n by (subst unat_sub) (simp_all add: word_le_nat_alt Suc_le_eq)
  moreover have "hash k AND (of_nat ?n - 1) \<le> (of_nat ?n - 1 :: u64)"
    by (rule word_and_le1)
  ultimately have "unat (hash k AND (of_nat ?n - 1)) \<le> ?n - 1"
    by (simp add: word_le_nat_alt)
  with n(1) show ?thesis
    unfolding shard_index_def by linarith
qed

definition share :: "cache \<Rightarrow> u64" where
  "share c = c_maxBytes c div of_nat (length (c_shards c))"

lemma cache_ok_shard:
  assumes "cache_ok c"
  shows "within (share c) (shardFor hash k c)" "unat (share c) < 2 ^ 63"
proof -
  show "within (share c) (shardFor hash k c)"
    using assms shard_index_bound [OF assms, of hash k] by (simp add: cache_ok_def shardFor_def share_def)
  have "unat (share c) \<le> unat (c_maxBytes c)"
    by (simp add: share_def unat_div div_le_dividend)
  also have "\<dots> < 2 ^ 63" using assms by (simp add: cache_ok_def)
  finally show "unat (share c) < 2 ^ 63" .
qed

lemma on_shard_ok:
  assumes "cache_ok c" "within (share c) (snd (f (shardFor hash k c)))"
  shows "cache_ok (snd (on_shard hash k f c))"
  using assms shard_index_bound [OF assms(1), of hash k] set_update_subset_insert
  by (auto simp: on_shard_def cache_ok_def share_def split_def dest!: subsetD [OF set_update_subset_insert])

lemma stored_on_shard:
  assumes "cache_ok c"
    and "held (snd (f (shardFor hash k c))) \<subseteq>\<^sub>m g (held (shardFor hash k c))"
    and "\<And>m k'. k' \<noteq> k \<Longrightarrow> g m k' = m k'" and "\<And>m n. m k = n k \<Longrightarrow> g m k = g n k"
  shows "stored hash (snd (on_shard hash k f c)) \<subseteq>\<^sub>m g (stored hash c)"
proof -
  let ?i = "shard_index hash k c" and ?c' = "snd (on_shard hash k f c)"
  have i: "?i < length (c_shards c)" by (rule shard_index_bound [OF assms(1)])
  have index: "shard_index hash k' ?c' = shard_index hash k' c" for k'
    by (simp add: on_shard_def shard_index_def split_def)
  have now: "stored hash ?c' k' = (if shard_index hash k' c = ?i
      then held (snd (f (shardFor hash k c))) k' else stored hash c k')" for k'
    using i by (simp add: stored_def shardFor_def index) (simp add: on_shard_def split_def shardFor_def)
  have before: "stored hash c k' = held (shardFor hash k c) k'" if "shard_index hash k' c = ?i" for k'
    using that by (simp add: stored_def shardFor_def)
  show ?thesis
  proof (unfold map_le_def, rule ballI)
    fix k' assume k': "k' \<in> dom (stored hash ?c')"
    show "stored hash ?c' k' = g (stored hash c) k'"
    proof (cases "shard_index hash k' c = ?i")
      case False
      then have "k' \<noteq> k" by auto
      with False show ?thesis by (simp add: now assms(3))
    next
      case True
      with k' have "k' \<in> dom (held (snd (f (shardFor hash k c))))" by (auto simp: now)
      with assms(2) have "held (snd (f (shardFor hash k c))) k' = g (held (shardFor hash k c)) k'"
        by (simp add: map_le_def)
      moreover have "g (held (shardFor hash k c)) k' = g (stored hash c) k'"
        using True before assms(3) assms(4) [of "held (shardFor hash k c)" "stored hash c"]
        by (cases "k' = k") simp_all
      ultimately show ?thesis using True by (simp add: now)
    qed
  qed
qed

lemma map_shards_ok:
  assumes "cache_ok c" "\<And>sh. within (share c) sh \<Longrightarrow> within (share c) (f sh)"
  shows "cache_ok (c\<lparr>c_shards := map f (c_shards c)\<rparr>)"
  using assms by (auto simp: cache_ok_def share_def)

lemma stored_map_shards:
  "cache_ok c \<Longrightarrow> stored hash (c\<lparr>c_shards := map f (c_shards c)\<rparr>) k = held (f (shardFor hash k c)) k"
  using shard_index_bound [of c hash k] by (simp add: stored_def shardFor_def shard_index_def)

lemma shard_clear_within: "within b sh \<Longrightarrow> within b (shard_clear sh)"
  by (simp add: within_def shard_ok_def shard_clear_def)

interpretation memory: cache_tier "memory_provider hash" cache_ok "stored hash" for hash
proof
  fix c call assume ok: "cache_ok c"
  note calls = shard_calls_within [OF cache_ok_shard(1) [OF ok]]
  show "cache_ok (perform (memory_provider hash) call c)"
  proof (cases call)
    case (Get t k)
    with on_shard_ok [OF ok, where f = "shard_get t k", OF calls(1)] show ?thesis
      by (simp add: memory_provider_def cache_get_def)
  next
    case (Set t k v ttl)
    then show ?thesis
      using on_shard_ok [OF ok, where f = "shard_del k", OF calls(4)]
        on_shard_ok [OF ok, of "\<lambda>sh. ((), shard_set t k x ttl sh)" hash k for x]
        shard_set_within(1) [OF cache_ok_shard [OF ok]]
      by (cases v) (simp_all add: memory_provider_def cache_set_def cache_del_def)
  next
    case (Del k)
    with on_shard_ok [OF ok, where f = "shard_del k", OF calls(4)] show ?thesis
      by (simp add: memory_provider_def cache_del_def)
  next
    case (Evict t b)
    with map_shards_ok [OF ok, of "\<lambda>sh. snd (shard_evict t (b div of_nat (length (c_shards c))) sh)"]
      shard_calls_within(6) show ?thesis
      by (simp add: memory_provider_def cache_evict_def Let_def comp_def)
  next
    case Clear
    with map_shards_ok [OF ok, of shard_clear] shard_clear_within show ?thesis
      by (simp add: memory_provider_def cache_clear_def)
  qed
next
  fix c call assume ok: "cache_ok c"
  note calls = shard_calls_within [OF cache_ok_shard(1) [OF ok]]
  have deleted: "stored hash (snd (on_shard hash k (shard_del k) c)) \<subseteq>\<^sub>m (stored hash c)(k := None)" for k
    by (rule stored_on_shard [OF ok, where g = "\<lambda>m. m(k := None)"]) (simp_all add: calls(5))
  show "stored hash (perform (memory_provider hash) call c) \<subseteq>\<^sub>m spec_call call (stored hash c)"
  proof (cases call)
    case (Get t k)
    have "stored hash (snd (on_shard hash k (shard_get t k) c)) \<subseteq>\<^sub>m stored hash c"
      by (rule stored_on_shard [OF ok, where g = "\<lambda>m. m"]) (simp_all add: calls(2))
    with Get show ?thesis by (simp add: memory_provider_def cache_get_def)
  next
    case (Del k)
    with deleted show ?thesis by (simp add: memory_provider_def cache_del_def)
  next
    case (Set t k v ttl)
    have "stored hash (snd (on_shard hash k (\<lambda>sh. ((), shard_set t k x ttl sh)) c)) \<subseteq>\<^sub>m
        (stored hash c)(k \<mapsto> (x, expiryFrom t ttl))" for x
      by (rule stored_on_shard [OF ok, where g = "\<lambda>m. m(k \<mapsto> (x, expiryFrom t ttl))"])
        (simp_all add: shard_set_within(2) [OF cache_ok_shard [OF ok]])
    with Set deleted show ?thesis
      by (cases v) (simp_all add: memory_provider_def cache_set_def cache_del_def)
  next
    case (Evict t b)
    define l where "l = b div of_nat (length (c_shards c))"
    have "perform (memory_provider hash) call c = c\<lparr>c_shards := map (\<lambda>sh. snd (shard_evict t l sh)) (c_shards c)\<rparr>"
      by (simp add: Evict memory_provider_def cache_evict_def Let_def comp_def l_def)
    then have "stored hash (perform (memory_provider hash) call c) k = held (snd (shard_evict t l (shardFor hash k c))) k" for k
      using stored_map_shards [OF ok, of hash "\<lambda>sh. snd (shard_evict t l sh)" k] by simp
    moreover have "held (snd (shard_evict t l (shardFor hash k c))) k = stored hash c k"
      if "k \<in> dom (held (snd (shard_evict t l (shardFor hash k c))))" for k
      using that shard_calls_within(7) [OF cache_ok_shard(1) [OF ok, of hash k], of t l]
      by (simp add: map_le_def stored_def)
    ultimately show ?thesis
      unfolding Evict by (auto simp: map_le_def dom_def)
  next
    case Clear
    have "perform (memory_provider hash) call c = c\<lparr>c_shards := map shard_clear (c_shards c)\<rparr>"
      by (simp add: Clear memory_provider_def cache_clear_def)
    then have "stored hash (perform (memory_provider hash) call c) k = held (shard_clear (shardFor hash k c)) k" for k
      using stored_map_shards [OF ok, of hash shard_clear k] by simp
    then show ?thesis
      by (simp add: map_le_def shard_clear_def held_def dom_def)
  qed
next
  fix c t k assume ok: "cache_ok c"
  then show "fst (pv_get (memory_provider hash) t k c) =
      (case stored hash c k of None \<Rightarrow> None | Some (v, d) \<Rightarrow> if t < d then Some v else None)"
    by (simp add: memory_provider_def cache_get_def on_shard_def split_def stored_def
        shard_calls_within(3) [OF cache_ok_shard(1) [OF ok]])
qed

section \<open>The constructor\<close>

lemma floor_loop_power:
  "\<lbrakk>result = 2 ^ i; result \<le> n\<rbrakk> \<Longrightarrow>
   \<exists>j. floor_loop n result = 2 ^ j \<and> floor_loop n result \<le> n \<and> n < 2 * floor_loop n result"
proof (induction n result arbitrary: i rule: floor_loop.induct)
  case (1 n result)
  show ?case
  proof (cases "0 < result \<and> result * 2 \<le> n")
    case True
    then have "\<exists>j. floor_loop n (result * 2) = 2 ^ j \<and> floor_loop n (result * 2) \<le> n \<and>
        n < 2 * floor_loop n (result * 2)"
      using 1(1) [OF True, of "Suc i"] 1(2) by simp
    with True show ?thesis by (simp add: floor_loop.simps [of n result])
  next
    case False
    then have "floor_loop n result = result" by (auto simp: floor_loop.simps [of n result])
    with False 1(2,3) show ?thesis by auto
  qed
qed

lemma floorPowerOfTwo:
  assumes "1 \<le> n"
  obtains j where "floorPowerOfTwo n = 2 ^ j" "floorPowerOfTwo n \<le> n" "n < 2 * floorPowerOfTwo n"
  using floor_loop_power [of 1 0 n] assms by (auto simp: floorPowerOfTwo_def)

lemma shard_count_bounds:
  obtains j where "shard_count m s = 2 ^ j" "1 \<le> shard_count m s" "shard_count m s \<le> 64"
proof -
  let ?n = "min (min (if s = 0 then 8 else unat s) 64) (max 1 (unat (m div kMinShardBudgetBytes)))"
  have n: "1 \<le> ?n" "?n \<le> 64" by (auto simp: unat_gt_0 Suc_le_eq)
  from floorPowerOfTwo [OF n(1)] obtain j where "floorPowerOfTwo ?n = 2 ^ j" "floorPowerOfTwo ?n \<le> ?n" .
  moreover have "shard_count m s = floorPowerOfTwo ?n"
    by (simp add: shard_count_def Let_def)
  moreover have "1 \<le> (2::nat) ^ j" by simp
  ultimately show ?thesis using that [of j] n by simp
qed

lemma new_cache_ok:
  assumes "unat m < 2 ^ 63"
  shows "cache_ok (new_cache m s)" "stored hash (new_cache m s) = Map.empty"
proof -
  obtain j where "1 \<le> shard_count m s" "shard_count m s \<le> 64"
    by (rule shard_count_bounds)
  then show ok: "cache_ok (new_cache m s)"
    using assms by (simp add: cache_ok_def new_cache_def Let_def new_shard_within)
  have "shardFor hash k (new_cache m s) = new_shard (m div of_nat (shard_count m s))" for k
    using shard_index_bound [OF ok, of hash k] by (simp add: shardFor_def new_cache_def Let_def)
  then show "stored hash (new_cache m s) = Map.empty"
    by (intro ext) (simp add: stored_def)
qed

section \<open>Properties\<close>

text \<open>
  C6: The cache never serves a stale, foreign or expired value. After any sequence of calls on
  a new cache, whatever the hash function and whatever was evicted in between, a value \<open>get\<close>
  returns is the one last set under that key, not deleted or cleared since, and its deadline
  is later than now.
\<close>

theorem memory_cache_refines_map:
  assumes "unat m < 2 ^ 63"
    and "fst (cache_get hash t k (fold (perform (memory_provider hash)) calls (new_cache m s))) = Some v"
  shows "\<exists>d. fold spec_call calls Map.empty k = Some (v, d) \<and> t < d"
  using memory.answer_is_current [OF new_cache_ok(1) [OF assms(1)], of hash s Map.empty t k calls v]
    assms(2) new_cache_ok(2) [OF assms(1)] by (simp add: memory_provider_def)

theorem memory_cache_refines_map_witness:
  "fst (cache_get (\<lambda>k. 0) 2 ''k'' (fold (perform (memory_provider (\<lambda>k. 0)))
     [Set 1 ''k'' (Some ''v'') 3, Set 1 ''j'' (Some ''w'') 0, Del ''j''] (new_cache 1048576 1))) = Some ''v'' \<and>
   (\<exists>d. fold spec_call [Set 1 ''k'' (Some ''v'') 3, Set 1 ''j'' (Some ''w'') 0, Del ''j''] Map.empty ''k'' =
     Some (''v'', d) \<and> 2 < d)"
proof -
  have one: "new_cache 1048576 1 = \<lparr>c_maxBytes = 1048576, c_shards = [new_shard 1048576]\<rparr>"
    by (simp add: new_cache_def shard_count_def kMinShardBudgetBytes_def floorPowerOfTwo_def
        floor_loop.simps [of "Suc 0"] Let_def)
  have get: "fst (cache_get (\<lambda>k. 0) 2 ''k'' (fold (perform (memory_provider (\<lambda>k. 0)))
     [Set 1 ''k'' (Some ''v'') 3, Set 1 ''j'' (Some ''w'') 0, Del ''j''] (new_cache 1048576 1))) = Some ''v''"
    unfolding one by code_simp
  show ?thesis
    using get memory_cache_refines_map [OF _ get] by simp
qed

text \<open>
  C7: The byte budget holds after every call, not only after the sweep: on every run from a
  new cache the bytes charged to all shards together stay within the configured budget, and
  each shard's charge is the sum of what its entries cost.
\<close>

theorem cache_within_budget:
  assumes "unat m < 2 ^ 63"
  shows "let c = fold (perform (memory_provider hash)) calls (new_cache m s) in
    (\<Sum>sh\<leftarrow>c_shards c. unat (sh_bytes sh)) \<le> unat (c_maxBytes c) \<and>
    list_all (\<lambda>sh. mass (sh_map sh) = unat (sh_bytes sh)) (c_shards c)"
proof -
  define c where "c = fold (perform (memory_provider hash)) calls (new_cache m s)"
  have ok: "cache_ok c"
    unfolding c_def by (rule memory.run_ok [OF new_cache_ok(1) [OF assms]])
  let ?n = "length (c_shards c)" and ?b = "share c"
  have each: "unat (sh_bytes sh) \<le> unat ?b" "shard_ok sh" if "sh \<in> set (c_shards c)" for sh
    using ok that by (simp_all add: cache_ok_def within_def share_def word_le_nat_alt)
  have "(\<Sum>sh\<leftarrow>c_shards c. unat (sh_bytes sh)) \<le> (\<Sum>sh\<leftarrow>c_shards c. unat ?b)"
    by (rule sum_list_mono) (rule each)
  also have "\<dots> = ?n * unat ?b" by (simp add: sum_list_triv)
  also have "\<dots> = ?n * (unat (c_maxBytes c) div ?n)"
    using ok by (simp add: share_def unat_div unat_of_nat cache_ok_def)
  also have "\<dots> \<le> unat (c_maxBytes c)" by simp
  finally show ?thesis
    using each(2) by (simp add: Let_def c_def [symmetric] list_all_iff shard_okD(5))
qed

theorem cache_within_budget_witness:
  "let c = fold (perform (memory_provider (\<lambda>k. 0)))
      [Set 1 ''a'' (Some ''v'') 0, Set 2 ''b'' (Some ''w'') 0, Set 3 ''c'' (Some ''x'') 0] (new_cache 300 1)
   in (\<Sum>sh\<leftarrow>c_shards c. unat (sh_bytes sh)) \<le> unat (c_maxBytes c) \<and>
      map (\<lambda>sh. (map fst (sh_map sh), sh_evictions sh)) (c_shards c) = [([''b'', ''c''], 1)]"
proof -
  have one: "new_cache 300 1 = \<lparr>c_maxBytes = 300, c_shards = [new_shard 300]\<rparr>"
    by (simp add: new_cache_def shard_count_def kMinShardBudgetBytes_def floorPowerOfTwo_def
        floor_loop.simps [of "Suc 0"] Let_def)
  have "map (\<lambda>sh. (map fst (sh_map sh), sh_evictions sh)) (c_shards (fold (perform (memory_provider (\<lambda>k. 0)))
      [Set 1 ''a'' (Some ''v'') 0, Set 2 ''b'' (Some ''w'') 0, Set 3 ''c'' (Some ''x'') 0] (new_cache 300 1))) =
      [([''b'', ''c''], 1)]"
    unfolding one by code_simp
  then show ?thesis
    using cache_within_budget [of 300 "\<lambda>k. 0"
        "[Set 1 ''a'' (Some ''v'') 0, Set 2 ''b'' (Some ''w'') 0, Set 3 ''c'' (Some ''x'') 0]" 1]
    by (simp add: Let_def)
qed

text \<open>
  The shard of a key is the hash modulo the number of shards, because the options always
  resolve to a power of two between 1 and 64; so the index is in bounds and every shard is used.
\<close>

theorem shard_selection:
  "(\<exists>j\<le>6. shard_count m s = 2 ^ j) \<and>
   shard_index hash k (new_cache m s) = unat (hash k) mod shard_count m s"
proof -
  obtain j where j: "shard_count m s = 2 ^ j" "1 \<le> shard_count m s" "shard_count m s \<le> 64"
    by (rule shard_count_bounds)
  have "(2::nat) ^ j \<le> 2 ^ 6" using j by simp
  then have le: "j \<le> 6" by (simp only: power_increasing_iff)
  have "of_nat (shard_count m s) - (1 :: u64) = mask j"
    by (simp add: j(1) mask_eq_exp_minus_1)
  then have "shard_index hash k (new_cache m s) = unat (take_bit j (hash k))"
    by (simp add: shard_index_def new_cache_def Let_def take_bit_eq_mask)
  also have "\<dots> = unat (hash k) mod 2 ^ j"
    by (simp only: unsigned_take_bit_eq take_bit_eq_mod [where 'a = nat])
  finally show ?thesis using j(1) le by auto
qed

end
