(* ===== verification/Fallback_Cache.thy ===== *)
theory Fallback_Cache
  imports Memory_Cache
begin

text \<open>
  The two-tier cache with its circuit breaker (cache/fallback_cache.hpp,
  cache/fallback_cache.cpp): a local tier in front of a shared one that may fail.

  The local tier is any \<open>provider\<close>; the shared one, which talks to something outside the
  process, is a record of operations that may throw. Times are milliseconds of the steady
  clock; a call is given the time \<open>t\<close> at which it starts and the time \<open>t'\<close> at which the
  shared tier has answered or failed.
\<close>

record fallback_options =
  failureThreshold :: u32
  initialCooldown :: int
  maxCooldown :: int
  localTtlCap :: int

record 's remote =
  rm_get :: "string \<Rightarrow> 's \<Rightarrow> (unit + string option) \<times> 's"
  rm_set :: "string \<Rightarrow> string option \<Rightarrow> int \<Rightarrow> 's \<Rightarrow> (unit + unit) \<times> 's"
  rm_del :: "string \<Rightarrow> 's \<Rightarrow> (unit + bool) \<times> 's"
  rm_clear :: "'s \<Rightarrow> (unit + unit) \<times> 's"

record breaker =
  consecutiveFailures :: u32
  probeInFlight :: bool
  cooldown :: int
  openUntil :: int

record ('s, 'l) fallback =
  fb_shared :: 's
  fb_local :: 'l
  fb_breaker :: breaker
  fb_hits :: u64
  fb_misses :: u64
  fb_errors :: u64
  fb_bypassed :: u64

definition new_breaker :: "fallback_options \<Rightarrow> breaker" where
  "new_breaker opts = \<lparr>consecutiveFailures = 0, probeInFlight = False,
     cooldown = initialCooldown opts, openUntil = 0\<rparr>"

definition new_fallback :: "fallback_options \<Rightarrow> 's \<Rightarrow> 'l \<Rightarrow> ('s, 'l) fallback" where
  "new_fallback opts shared local = \<lparr>fb_shared = shared, fb_local = local,
     fb_breaker = new_breaker opts, fb_hits = 0, fb_misses = 0, fb_errors = 0, fb_bypassed = 0\<rparr>"

definition localTtl :: "fallback_options \<Rightarrow> int \<Rightarrow> int" where
  "localTtl opts requested = (if requested = 0 then localTtlCap opts else min requested (localTtlCap opts))"

section \<open>The breaker\<close>

definition sharedHealthy :: "fallback_options \<Rightarrow> breaker \<Rightarrow> bool" where
  "sharedHealthy opts b \<longleftrightarrow> consecutiveFailures b < failureThreshold opts"

definition allowShared :: "fallback_options \<Rightarrow> int \<Rightarrow> breaker \<Rightarrow> bool \<times> breaker" where
  "allowShared opts t b =
     (if consecutiveFailures b < failureThreshold opts then (True, b)
      else if t < openUntil b then (False, b)
      else if probeInFlight b then (False, b)
      else (True, b\<lparr>probeInFlight := True\<rparr>))"

definition recordSuccess :: "fallback_options \<Rightarrow> breaker \<Rightarrow> breaker" where
  "recordSuccess opts b =
     b\<lparr>consecutiveFailures := 0, probeInFlight := False, cooldown := initialCooldown opts\<rparr>"

definition recordFailure :: "fallback_options \<Rightarrow> int \<Rightarrow> breaker \<Rightarrow> breaker" where
  "recordFailure opts t b =
     (let wasHealthy = consecutiveFailures b < failureThreshold opts;
          b = b\<lparr>consecutiveFailures := consecutiveFailures b + 1, probeInFlight := False\<rparr>
      in if consecutiveFailures b < failureThreshold opts then b
         else
           let b = (if wasHealthy then b\<lparr>cooldown := initialCooldown opts\<rparr>
                    else b\<lparr>cooldown := min (cooldown b * 2) (maxCooldown opts)\<rparr>)
           in b\<lparr>openUntil := t + cooldown b\<rparr>)"

section \<open>The operations\<close>

definition fb_failed :: "fallback_options \<Rightarrow> int \<Rightarrow> ('s, 'l) fallback \<Rightarrow> ('s, 'l) fallback" where
  "fb_failed opts t f = f\<lparr>fb_errors := fb_errors f + 1, fb_breaker := recordFailure opts t (fb_breaker f)\<rparr>"

definition fb_succeeded :: "fallback_options \<Rightarrow> ('s, 'l) fallback \<Rightarrow> ('s, 'l) fallback" where
  "fb_succeeded opts f = f\<lparr>fb_breaker := recordSuccess opts (fb_breaker f)\<rparr>"

definition fallback_get ::
  "'s remote \<Rightarrow> 'l provider \<Rightarrow> fallback_options \<Rightarrow> int \<Rightarrow> int \<Rightarrow> string \<Rightarrow> ('s, 'l) fallback \<Rightarrow>
   string option \<times> ('s, 'l) fallback" where
  "fallback_get S L opts t t' key f =
     (case pv_get L t key (fb_local f) of
        (Some v, l) \<Rightarrow> (Some v, f\<lparr>fb_local := l, fb_hits := fb_hits f + 1\<rparr>)
      | (None, l) \<Rightarrow>
          let f = f\<lparr>fb_local := l\<rparr> in
          case allowShared opts t (fb_breaker f) of
            (False, b) \<Rightarrow>
              (None, f\<lparr>fb_breaker := b, fb_bypassed := fb_bypassed f + 1, fb_misses := fb_misses f + 1\<rparr>)
          | (True, b) \<Rightarrow>
              let f = f\<lparr>fb_breaker := b\<rparr> in
              (case rm_get S key (fb_shared f) of
                 (Inl _, s) \<Rightarrow>
                   let f = fb_failed opts t' (f\<lparr>fb_shared := s\<rparr>)
                   in (None, f\<lparr>fb_misses := fb_misses f + 1\<rparr>)
               | (Inr None, s) \<Rightarrow>
                   let f = fb_succeeded opts (f\<lparr>fb_shared := s\<rparr>)
                   in (None, f\<lparr>fb_misses := fb_misses f + 1\<rparr>)
               | (Inr (Some v), s) \<Rightarrow>
                   let f = fb_succeeded opts (f\<lparr>fb_shared := s\<rparr>)
                   in (Some v, f\<lparr>fb_local := pv_set L t' key (Some v) (localTtlCap opts) (fb_local f),
                                 fb_hits := fb_hits f + 1\<rparr>)))"

definition fallback_set ::
  "'s remote \<Rightarrow> 'l provider \<Rightarrow> fallback_options \<Rightarrow> int \<Rightarrow> int \<Rightarrow> string \<Rightarrow> string option \<Rightarrow> int \<Rightarrow>
   ('s, 'l) fallback \<Rightarrow> ('s, 'l) fallback" where
  "fallback_set S L opts t t' key v ttl f =
     (let f = f\<lparr>fb_local := pv_set L t key v (localTtl opts ttl) (fb_local f)\<rparr> in
      case allowShared opts t (fb_breaker f) of
        (False, b) \<Rightarrow> f\<lparr>fb_breaker := b, fb_bypassed := fb_bypassed f + 1\<rparr>
      | (True, b) \<Rightarrow>
          (case rm_set S key v ttl (fb_shared f) of
             (Inl _, s) \<Rightarrow> fb_failed opts t' (f\<lparr>fb_breaker := b, fb_shared := s\<rparr>)
           | (Inr _, s) \<Rightarrow> fb_succeeded opts (f\<lparr>fb_breaker := b, fb_shared := s\<rparr>)))"

definition fallback_del ::
  "'s remote \<Rightarrow> 'l provider \<Rightarrow> fallback_options \<Rightarrow> int \<Rightarrow> int \<Rightarrow> string \<Rightarrow> ('s, 'l) fallback \<Rightarrow>
   bool \<times> ('s, 'l) fallback" where
  "fallback_del S L opts t t' key f =
     (case pv_del L key (fb_local f) of (localHad, l) \<Rightarrow>
        let f = f\<lparr>fb_local := l\<rparr> in
        case allowShared opts t (fb_breaker f) of
          (False, b) \<Rightarrow> (localHad, f\<lparr>fb_breaker := b, fb_bypassed := fb_bypassed f + 1\<rparr>)
        | (True, b) \<Rightarrow>
            (case rm_del S key (fb_shared f) of
               (Inl _, s) \<Rightarrow> (localHad, fb_failed opts t' (f\<lparr>fb_breaker := b, fb_shared := s\<rparr>))
             | (Inr sharedHad, s) \<Rightarrow>
                 (localHad \<or> sharedHad, fb_succeeded opts (f\<lparr>fb_breaker := b, fb_shared := s\<rparr>))))"

definition fallback_evict ::
  "'l provider \<Rightarrow> int \<Rightarrow> u64 \<Rightarrow> ('s, 'l) fallback \<Rightarrow> nat \<times> ('s, 'l) fallback" where
  "fallback_evict L t budget f =
     (case pv_evict L t budget (fb_local f) of (n, l) \<Rightarrow> (n, f\<lparr>fb_local := l\<rparr>))"

definition fallback_clear ::
  "'s remote \<Rightarrow> 'l provider \<Rightarrow> fallback_options \<Rightarrow> int \<Rightarrow> int \<Rightarrow> ('s, 'l) fallback \<Rightarrow> ('s, 'l) fallback" where
  "fallback_clear S L opts t t' f =
     (let f = f\<lparr>fb_local := pv_clear L (fb_local f)\<rparr> in
      case allowShared opts t (fb_breaker f) of
        (False, b) \<Rightarrow> f\<lparr>fb_breaker := b\<rparr>
      | (True, b) \<Rightarrow>
          (case rm_clear S (fb_shared f) of
             (Inl _, s) \<Rightarrow> fb_failed opts t' (f\<lparr>fb_breaker := b, fb_shared := s\<rparr>)
           | (Inr _, s) \<Rightarrow> fb_succeeded opts (f\<lparr>fb_breaker := b, fb_shared := s\<rparr>)))"

text \<open>Counted here, not summed from the tiers.\<close>

definition fallback_stats ::
  "('l \<Rightarrow> CacheStats) \<Rightarrow> fallback_options \<Rightarrow> ('s, 'l) fallback \<Rightarrow> CacheStats" where
  "fallback_stats local_stats opts f =
     (local_stats (fb_local f))\<lparr>st_hits := fb_hits f, st_misses := fb_misses f, st_errors := fb_errors f,
        st_healthy := sharedHealthy opts (fb_breaker f)\<rparr>"

text \<open>A call with its times, and what it does to the state.\<close>

datatype fallback_call =
    FGet string
  | FSet string "string option" int
  | FDel string
  | FEvict u64
  | FClear

fun fallback_perform ::
  "'s remote \<Rightarrow> 'l provider \<Rightarrow> fallback_options \<Rightarrow> int \<times> int \<times> fallback_call \<Rightarrow>
   ('s, 'l) fallback \<Rightarrow> ('s, 'l) fallback" where
  "fallback_perform S L opts (t, t', FGet k) f = snd (fallback_get S L opts t t' k f)"
| "fallback_perform S L opts (t, t', FSet k v ttl) f = fallback_set S L opts t t' k v ttl f"
| "fallback_perform S L opts (t, t', FDel k) f = snd (fallback_del S L opts t t' k f)"
| "fallback_perform S L opts (t, t', FEvict b) f = snd (fallback_evict L t b f)"
| "fallback_perform S L opts (t, t', FClear) f = fallback_clear S L opts t t' f"

lemmas fallback_defs = fallback_get_def fallback_set_def fallback_del_def fallback_evict_def
  fallback_clear_def fb_failed_def fb_succeeded_def Let_def split_def

section \<open>The breaker over time\<close>

definition options_ok :: "fallback_options \<Rightarrow> bool" where
  "options_ok opts \<longleftrightarrow> 0 < failureThreshold opts \<and> 0 < initialCooldown opts \<and>
     initialCooldown opts \<le> maxCooldown opts"

definition breaker_open :: "fallback_options \<Rightarrow> int \<Rightarrow> breaker \<Rightarrow> bool" where
  "breaker_open opts t b \<longleftrightarrow> \<not> sharedHealthy opts b \<and> t < openUntil b"

lemma allowShared_open: "breaker_open opts t b \<Longrightarrow> allowShared opts t b = (False, b)"
  by (simp add: breaker_open_def sharedHealthy_def allowShared_def)

text \<open>\<open>n\<close> failures in a row from a healthy breaker, at the given times.\<close>

fun failures :: "fallback_options \<Rightarrow> int list \<Rightarrow> breaker \<Rightarrow> breaker" where
  "failures opts [] b = b"
| "failures opts (t # ts) b = failures opts ts (recordFailure opts t b)"

lemma failures_append: "failures opts (ts @ us) b = failures opts us (failures opts ts b)"
  by (induction ts arbitrary: b) simp_all

definition backoff :: "fallback_options \<Rightarrow> nat \<Rightarrow> int" where
  "backoff opts n = min (initialCooldown opts * 2 ^ n) (maxCooldown opts)"

lemma backoff_Suc:
  "options_ok opts \<Longrightarrow> backoff opts (Suc n) = min (backoff opts n * 2) (maxCooldown opts)"
  by (auto simp: backoff_def options_ok_def min_def)

lemma failures_count:
  assumes "consecutiveFailures b = 0" "length ts < 2 ^ 32"
  shows "unat (consecutiveFailures (failures opts ts b)) = length ts"
  using assms(2)
proof (induction ts rule: rev_induct)
  case Nil
  then show ?case using assms(1) by simp
next
  case (snoc t ts)
  have "consecutiveFailures (failures opts (ts @ [t]) b) = consecutiveFailures (failures opts ts b) + 1"
    by (simp add: failures_append recordFailure_def Let_def)
  with snoc show ?case by (simp add: unat_word_ariths)
qed

lemma failures_no_probe: "\<not> probeInFlight b \<Longrightarrow> \<not> probeInFlight (failures opts ts b)"
  by (induction ts arbitrary: b) (simp_all add: recordFailure_def Let_def)

lemma failures_backoff:
  assumes "options_ok opts" "consecutiveFailures b = 0"
    and "unat (failureThreshold opts) \<le> length ts" "length ts < 2 ^ 32"
  shows "unat (consecutiveFailures (failures opts ts b)) = length ts \<and>
    cooldown (failures opts ts b) = backoff opts (length ts - unat (failureThreshold opts)) \<and>
    openUntil (failures opts ts b) = last ts + cooldown (failures opts ts b) \<and>
    \<not> sharedHealthy opts (failures opts ts b)"
proof -
  note count = failures_count [OF assms(2)]
  let ?h = "unat (failureThreshold opts)"
  have h: "0 < ?h" using assms(1) by (simp add: options_ok_def word_less_nat_alt)
  have "cooldown (failures opts ts b) = backoff opts (length ts - ?h) \<and>
    openUntil (failures opts ts b) = last ts + cooldown (failures opts ts b)"
    using assms(3,4)
  proof (induction ts rule: rev_induct)
    case Nil
    then show ?case using h by simp
  next
    case (snoc t ts)
    let ?b = "failures opts ts b"
    have n: "unat (consecutiveFailures ?b) = length ts" using snoc.prems by (intro count) simp
    moreover have "unat (consecutiveFailures ?b + 1) = Suc (length ts)"
      using n snoc.prems by (simp add: unat_word_ariths)
    ultimately have still: "\<not> consecutiveFailures ?b + 1 < failureThreshold opts"
      and before: "consecutiveFailures ?b < failureThreshold opts \<longleftrightarrow> length ts < ?h"
      using snoc.prems by (simp_all add: word_less_nat_alt)
    show ?case
    proof (cases "length ts < ?h")
      case True
      then have "Suc (length ts) - ?h = 0" by simp
      moreover have "backoff opts 0 = initialCooldown opts"
        using assms(1) by (simp add: backoff_def options_ok_def)
      ultimately show ?thesis
        using True before still by (simp add: failures_append recordFailure_def Let_def)
    next
      case False
      then have "Suc (length ts) - ?h = Suc (length ts - ?h)" by simp
      with False before still snoc backoff_Suc [OF assms(1)] show ?thesis
        by (simp add: failures_append recordFailure_def Let_def)
    qed
  qed
  moreover have "\<not> sharedHealthy opts (failures opts ts b)"
    using count [OF assms(4)] assms(3) by (simp add: sharedHealthy_def word_less_nat_alt)
  ultimately show ?thesis using count [OF assms(4)] by blast
qed

definition demo_backoff :: fallback_options where
  "demo_backoff = \<lparr>failureThreshold = 3, initialCooldown = 500, maxCooldown = 1500, localTtlCap = 5\<rparr>"



text \<open>
  C9: While the breaker is open no call touches the shared tier: its state and the breaker's
  are what they were, whatever the call is, so an outage costs a request nothing but a miss.
\<close>

theorem open_breaker_bypasses:
  assumes "breaker_open opts t (fb_breaker f)"
  shows "fb_shared (fallback_perform S L opts (t, t', call) f) = fb_shared f \<and>
    fb_breaker (fallback_perform S L opts (t, t', call) f) = fb_breaker f \<and>
    fb_errors (fallback_perform S L opts (t, t', call) f) = fb_errors f"
  using allowShared_open [OF assms]
  by (cases call) (auto simp: fallback_defs split: option.splits prod.splits)

text \<open>At the end of the cooldown one caller carries the probe, and until it reports the others are refused.\<close>

lemma one_probe:
  assumes "\<not> sharedHealthy opts b" "\<not> t < openUntil b" "\<not> probeInFlight b"
  shows "fst (allowShared opts t b)" "fst (allowShared opts u (snd (allowShared opts t b))) = False"
  using assms by (simp_all add: allowShared_def sharedHealthy_def)

definition demo_options :: fallback_options where
  "demo_options = \<lparr>failureThreshold = 1, initialCooldown = 500, maxCooldown = 30000, localTtlCap = 5\<rparr>"

text \<open>A shared tier that answers \<open>v\<close> to everything, and one that is down. Both count calls.\<close>

definition answering :: "string \<Rightarrow> nat remote" where
  "answering v = \<lparr>rm_get = \<lambda>k s. (Inr (Some v), Suc s), rm_set = \<lambda>k v ttl s. (Inr (), Suc s),
     rm_del = \<lambda>k s. (Inr True, Suc s), rm_clear = \<lambda>s. (Inr (), Suc s)\<rparr>"

definition unreachable :: "nat remote" where
  "unreachable = \<lparr>rm_get = \<lambda>k s. (Inl (), Suc s), rm_set = \<lambda>k v ttl s. (Inl (), Suc s),
     rm_del = \<lambda>k s. (Inl (), Suc s), rm_clear = \<lambda>s. (Inl (), Suc s)\<rparr>"

definition demo_fallback :: "(nat, cache) fallback" where
  "demo_fallback = new_fallback demo_options 0 \<lparr>c_maxBytes = 1048576, c_shards = [new_shard 1048576]\<rparr>"

theorem open_breaker_bypasses_witness:
  "fb_shared (fold (fallback_perform unreachable (memory_provider (\<lambda>k. 0)) demo_options)
     [(1, 2, FGet ''k''), (3, 4, FGet ''k'')] demo_fallback) = 1"
proof -
  let ?step = "fallback_perform unreachable (memory_provider (\<lambda>k. 0)) demo_options"
  let ?f = "?step (1, 2, FGet ''k'') demo_fallback"
  have "breaker_open demo_options 3 (fb_breaker ?f)" "fb_shared ?f = 1"
    unfolding breaker_open_def by code_simp+
  with open_breaker_bypasses [of demo_options 3 ?f unreachable "memory_provider (\<lambda>k. 0)" 4 "FGet ''k''"]
  show ?thesis by simp
qed

section \<open>What the local tier holds\<close>

lemma localTtl_bounds:
  "0 < localTtlCap opts \<Longrightarrow> localTtl opts ttl \<noteq> 0 \<and> localTtl opts ttl \<le> localTtlCap opts"
  by (auto simp: localTtl_def min_def)

text \<open>
  For each key, the value the last call that stored a copy stored there, and when: a \<open>set\<close> as it
  starts, a \<open>get\<close> that misses locally when the shared tier has answered. Eviction does not enter.
\<close>

type_synonym copy_log = "string \<rightharpoonup> string \<times> int"

fun log_call ::
  "'s remote \<Rightarrow> 'l provider \<Rightarrow> fallback_options \<Rightarrow> int \<times> int \<times> fallback_call \<Rightarrow>
   ('s, 'l) fallback \<Rightarrow> copy_log \<Rightarrow> copy_log" where
  "log_call S L opts (t, t', FGet k) f log =
     (if fst (pv_get L t k (fb_local f)) = None \<and> fst (allowShared opts t (fb_breaker f)) then
        (case fst (rm_get S k (fb_shared f)) of Inr (Some v) \<Rightarrow> log(k \<mapsto> (v, t')) | _ \<Rightarrow> log)
      else log)"
| "log_call S L opts (t, t', FSet k v ttl) f log = log(k := map_option (\<lambda>v. (v, t)) v)"
| "log_call S L opts (t, t', FDel k) f log = log(k := None)"
| "log_call S L opts (t, t', FEvict b) f log = log"
| "log_call S L opts (t, t', FClear) f log = Map.empty"

fun copy_log ::
  "'s remote \<Rightarrow> 'l provider \<Rightarrow> fallback_options \<Rightarrow> (int \<times> int \<times> fallback_call) list \<Rightarrow>
   ('s, 'l) fallback \<Rightarrow> copy_log \<Rightarrow> copy_log" where
  "copy_log S L opts [] f log = log"
| "copy_log S L opts (c # cs) f log =
     copy_log S L opts cs (fallback_perform S L opts c f) (log_call S L opts c f log)"

text \<open>Every copy is the logged one, and its deadline at most \<open>cap\<close> seconds after it was stored.\<close>

definition copies_logged :: "int \<Rightarrow> cached \<Rightarrow> copy_log \<Rightarrow> bool" where
  "copies_logged cap m log \<longleftrightarrow>
     (\<forall>k v d. m k = Some (v, d) \<longrightarrow> (\<exists>start. log k = Some (v, start) \<and> d \<le> start + cap * 1000))"

lemma copies_logged_sub: "copies_logged cap n log \<Longrightarrow> m \<subseteq>\<^sub>m n \<Longrightarrow> copies_logged cap m log"
  unfolding copies_logged_def map_le_def by (metis domI)

lemma copies_logged_empty: "copies_logged cap Map.empty log"
  by (simp add: copies_logged_def)

lemma copies_logged_drop: "copies_logged cap m log \<Longrightarrow> copies_logged cap (m(k := None)) (log(k := None))"
  by (simp add: copies_logged_def)

lemma copies_logged_set:
  assumes "copies_logged cap m log" "ttl \<noteq> 0" "ttl \<le> cap"
  shows "copies_logged cap (m(k := map_option (\<lambda>v. (v, expiryFrom t ttl)) v))
    (log(k := map_option (\<lambda>v. (v, t)) v))"
  using assms by (auto simp: copies_logged_def expiryFrom_def)

text \<open>What each call does to the local tier.\<close>

lemma fb_result_local [simp]:
  "fb_local (fb_failed opts t f) = fb_local f" "fb_local (fb_succeeded opts f) = fb_local f"
  by (simp_all add: fb_failed_def fb_succeeded_def)

lemma fallback_get_logged:
  obtains "fb_local (snd (fallback_get S L opts t t' k f)) = snd (pv_get L t k (fb_local f))"
      "log_call S L opts (t, t', FGet k) f log = log"
  | v where "fb_local (snd (fallback_get S L opts t t' k f)) =
      pv_set L t' k (Some v) (localTtlCap opts) (snd (pv_get L t k (fb_local f)))"
      "log_call S L opts (t, t', FGet k) f log = log(k \<mapsto> (v, t'))"
proof -
  obtain a l where g: "pv_get L t k (fb_local f) = (a, l)" by (cases "pv_get L t k (fb_local f)")
  obtain ok b where b: "allowShared opts t (fb_breaker f) = (ok, b)"
    by (cases "allowShared opts t (fb_breaker f)")
  obtain r s where r: "rm_get S k (fb_shared f) = (r, s)" by (cases "rm_get S k (fb_shared f)")
  show ?thesis
  proof (cases "a = None \<and> ok \<and> (\<exists>v. r = Inr (Some v))")
    case True
    with g b r that(2) show ?thesis by (auto simp: fallback_get_def Let_def)
  next
    case False
    with g b r that(1) show ?thesis
      by (cases r) (auto simp: fallback_get_def Let_def split: option.splits bool.splits)
  qed
qed

lemma fallback_calls_local [simp]:
  "fb_local (fallback_set S L opts t t' k v ttl f) = pv_set L t k v (localTtl opts ttl) (fb_local f)"
  "fb_local (snd (fallback_del S L opts t t' k f)) = snd (pv_del L k (fb_local f))"
  "fb_local (snd (fallback_evict L t b f)) = snd (pv_evict L t b (fb_local f))"
  "fb_local (fallback_clear S L opts t t' f) = pv_clear L (fb_local f)"
  by (simp_all add: fallback_set_def fallback_del_def fallback_evict_def fallback_clear_def Let_def
      split: prod.splits bool.splits sum.splits)

context cache_tier
begin

lemma get_keeps: "tier_ok c \<Longrightarrow> tier_ok (snd (pv_get P t k c)) \<and> stored (snd (pv_get P t k c)) \<subseteq>\<^sub>m stored c"
  using ok_perform [of c "Get t k"] stored_perform [of c "Get t k"] by simp

lemma del_keeps:
  "tier_ok c \<Longrightarrow> tier_ok (snd (pv_del P k c)) \<and> stored (snd (pv_del P k c)) \<subseteq>\<^sub>m (stored c)(k := None)"
  using ok_perform [of c "Del k"] stored_perform [of c "Del k"] by simp

lemma set_keeps:
  "tier_ok c \<Longrightarrow> tier_ok (pv_set P t k v ttl c) \<and>
   stored (pv_set P t k v ttl c) \<subseteq>\<^sub>m (stored c)(k := map_option (\<lambda>v. (v, expiryFrom t ttl)) v)"
  using ok_perform [of c "Set t k v ttl"] stored_perform [of c "Set t k v ttl"] by simp

lemma evict_keeps: "tier_ok c \<Longrightarrow> tier_ok (snd (pv_evict P t b c)) \<and> stored (snd (pv_evict P t b c)) \<subseteq>\<^sub>m stored c"
  using ok_perform [of c "Evict t b"] stored_perform [of c "Evict t b"] by simp

lemma clear_keeps: "tier_ok c \<Longrightarrow> tier_ok (pv_clear P c) \<and> stored (pv_clear P c) = Map.empty"
  using ok_perform [of c Clear] stored_perform [of c Clear] by (simp add: map_le_def fun_eq_iff) blast

lemma set_keeps_logged:
  assumes "tier_ok c \<and> copies_logged cap (stored c) log" "ttl \<noteq> 0" "ttl \<le> cap"
  shows "tier_ok (pv_set P t k v ttl c) \<and>
    copies_logged cap (stored (pv_set P t k v ttl c)) (log(k := map_option (\<lambda>v. (v, t)) v))"
  using set_keeps [of c t k v ttl] assms(1)
    copies_logged_sub [OF copies_logged_set [OF _ assms(2,3), of "stored c" log k t v]] by blast

lemma fallback_perform_logged:
  assumes cap: "0 < localTtlCap opts"
    and start: "tier_ok (fb_local f) \<and> copies_logged (localTtlCap opts) (stored (fb_local f)) log"
  shows "tier_ok (fb_local (fallback_perform S P opts call f)) \<and>
    copies_logged (localTtlCap opts) (stored (fb_local (fallback_perform S P opts call f)))
      (log_call S P opts call f log)"
proof -
  obtain t t' c where call: "call = (t, t', c)" by (cases call)
  have got: "tier_ok (snd (pv_get P t k (fb_local f))) \<and>
      copies_logged (localTtlCap opts) (stored (snd (pv_get P t k (fb_local f)))) log" for k
    using start get_keeps [of "fb_local f" t k] copies_logged_sub by blast
  show ?thesis
  proof (cases c)
    case (FGet k)
    show ?thesis
    proof (cases rule: fallback_get_logged [where S = S and L = P and opts = opts and t = t and t' = t' and k = k and f = f and log = log])
      case 1
      with got show ?thesis by (simp add: call FGet del: log_call.simps)
    next
      case (2 v)
      with set_keeps_logged [OF got [of k], of "localTtlCap opts" t' k "Some v"] cap show ?thesis
        by (simp add: call FGet del: log_call.simps)
    qed
  next
    case (FSet k v ttl)
    with set_keeps_logged [OF start, of "localTtl opts ttl" t k v] localTtl_bounds [OF cap, of ttl] show ?thesis
      by (simp add: call)
  next
    case (FDel k)
    with del_keeps [of "fb_local f" k] start copies_logged_drop copies_logged_sub show ?thesis
      by (simp add: call) blast
  next
    case (FEvict b)
    with evict_keeps [of "fb_local f" t b] start copies_logged_sub show ?thesis
      by (simp add: call) blast
  next
    case FClear
    with clear_keeps [of "fb_local f"] start copies_logged_empty show ?thesis
      by (simp add: call)
  qed
qed

lemma fallback_run_logged:
  assumes "0 < localTtlCap opts"
  shows "tier_ok (fb_local f) \<and> copies_logged (localTtlCap opts) (stored (fb_local f)) log \<Longrightarrow>
    tier_ok (fb_local (fold (fallback_perform S P opts) calls f)) \<and>
    copies_logged (localTtlCap opts) (stored (fb_local (fold (fallback_perform S P opts) calls f)))
      (copy_log S P opts calls f log)"
proof (induction calls arbitrary: f log)
  case (Cons c calls)
  from Cons.IH [OF fallback_perform_logged [OF assms Cons.prems]] show ?case by simp
qed simp

lemma local_answer:
  assumes "tier_ok (fb_local f) \<and> copies_logged cap (stored (fb_local f)) log"
    and "fst (pv_get P u k (fb_local f)) = Some v"
  shows "\<exists>start. log k = Some (v, start) \<and> u < start + cap * 1000"
proof -
  from assms obtain d where "stored (fb_local f) k = Some (v, d)" "u < d"
    by (auto simp: get_answer split: option.splits if_splits)
  with assms(1) show ?thesis unfolding copies_logged_def by (meson order_less_le_trans)
qed

end

text \<open>
  C10: No local copy outlives the cap. After any run of calls with the memory cache as the local
  tier, whatever the shared tier answered, what the local tier serves under a key is what the
  last call that stored a copy stored there, and less than \<open>localTtlCap\<close> seconds have passed
  since that call stored it, however often it has been read in between: a value another
  instance has changed is served for at most that long, also one stored without expiry.
\<close>

theorem local_copies_expire:
  assumes "0 < localTtlCap opts" "unat m < 2 ^ 63"
    and "fst (cache_get hash u k (fb_local
      (fold (fallback_perform S (memory_provider hash) opts) calls (new_fallback opts s (new_cache m n))))) = Some v"
  shows "\<exists>start. copy_log S (memory_provider hash) opts calls (new_fallback opts s (new_cache m n)) Map.empty k =
      Some (v, start) \<and> u < start + localTtlCap opts * 1000"
proof -
  have "cache_ok (fb_local (new_fallback opts s (new_cache m n))) \<and>
    copies_logged (localTtlCap opts) (stored hash (fb_local (new_fallback opts s (new_cache m n)))) Map.empty"
    by (simp add: new_fallback_def new_cache_ok [OF assms(2)] copies_logged_empty)
  note run = memory.fallback_run_logged [OF assms(1) this]
  from assms(3) have "fst (pv_get (memory_provider hash) u k (fb_local
      (fold (fallback_perform S (memory_provider hash) opts) calls (new_fallback opts s (new_cache m n))))) = Some v"
    by (simp add: memory_provider_def)
  with run show ?thesis by (rule memory.local_answer)
qed

theorem local_copies_expire_witness:
  "fst (cache_get (\<lambda>k. 0) 5001 ''k'' (fb_local (fold (fallback_perform (answering ''v'')
     (memory_provider (\<lambda>k. 0)) demo_options) [(1, 2, FGet ''k''), (4000, 4001, FGet ''k'')]
     (new_fallback demo_options 0 (new_cache 1048576 1))))) = Some ''v'' \<and>
   fst (cache_get (\<lambda>k. 0) 5002 ''k'' (fb_local (fold (fallback_perform (answering ''v'')
     (memory_provider (\<lambda>k. 0)) demo_options) [(1, 2, FGet ''k''), (4000, 4001, FGet ''k'')]
     (new_fallback demo_options 0 (new_cache 1048576 1))))) = None"
proof -
  have one: "new_cache 1048576 1 = \<lparr>c_maxBytes = 1048576, c_shards = [new_shard 1048576]\<rparr>"
    by (simp add: new_cache_def shard_count_def kMinShardBudgetBytes_def floorPowerOfTwo_def
        floor_loop.simps [of "Suc 0"] Let_def)
  let ?calls = "[(1, 2, FGet ''k''), (4000, 4001, FGet ''k'')]"
  let ?f = "new_fallback demo_options 0 (new_cache 1048576 1)"
  have log: "copy_log (answering ''v'') (memory_provider (\<lambda>k. 0)) demo_options ?calls ?f Map.empty ''k'' = Some (''v'', 2)"
    unfolding one by code_simp
  have hit: "fst (cache_get (\<lambda>k. 0) 5001 ''k'' (fb_local (fold (fallback_perform (answering ''v'')
     (memory_provider (\<lambda>k. 0)) demo_options) ?calls ?f))) = Some ''v''"
    unfolding one by code_simp
  have "fst (cache_get (\<lambda>k. 0) 5002 ''k'' (fb_local (fold (fallback_perform (answering ''v'')
     (memory_provider (\<lambda>k. 0)) demo_options) ?calls ?f))) \<noteq> Some v" for v
  proof
    assume a: "fst (cache_get (\<lambda>k. 0) 5002 ''k'' (fb_local (fold (fallback_perform (answering ''v'')
     (memory_provider (\<lambda>k. 0)) demo_options) ?calls ?f))) = Some v"
    from local_copies_expire [OF _ _ a] log show False by (simp add: demo_options_def)
  qed
  with hit show ?thesis by (cases "fst (cache_get (\<lambda>k. 0) 5002 ''k'' (fb_local (fold (fallback_perform (answering ''v'')
     (memory_provider (\<lambda>k. 0)) demo_options) ?calls ?f)))") auto
qed

end
