(* ===== verification/Quota.thy ===== *)
theory Quota
  imports Errors "HOL-Library.Multiset"
begin

text \<open>
  The quota ledger (storage/quota.hpp, storage/quota.cpp): per-bucket allocations, the charges
  against them and the claims writes hold while they are in flight.

  The hash map of entries is an association list; nothing the ledger returns depends on its
  order except \<open>all\<close>, which sorts. A \<open>Reservation\<close> is a record whose \<open>ledger_\<close> pointer is a
  flag, since there is one ledger. Each operation returns the ledger it leaves. The mutex makes
  every operation one step.
\<close>

section \<open>Capacities\<close>

record BucketCapacity =
  quotaBytes :: u64
  usedBytes :: u64
  pendingBytes :: u64
  reservedBytes :: u64

text \<open>\<open>QuotaLedger::Entry\<close> has the same members and the same \<open>chargedBytes\<close>.\<close>

type_synonym Entry = BucketCapacity

definition no_entry :: Entry where
  "no_entry = \<lparr>quotaBytes = 0, usedBytes = 0, pendingBytes = 0, reservedBytes = 0\<rparr>"

definition unlimited :: "BucketCapacity \<Rightarrow> bool" where
  "unlimited c \<longleftrightarrow> quotaBytes c = 0"

definition chargedBytes :: "BucketCapacity \<Rightarrow> u64" where
  "chargedBytes c = usedBytes c + pendingBytes c + reservedBytes c"

definition take_bytes :: "u64 \<Rightarrow> u64 \<Rightarrow> u64" where
  "take_bytes held amount = (if amount < held then held - amount else 0)"

definition remainingBytes :: "BucketCapacity \<Rightarrow> u64 option" where
  "remainingBytes c = (if unlimited c then None else Some (take_bytes (quotaBytes c) (chargedBytes c)))"

record InstanceCapacity =
  allocatableBytes :: u64
  allocatedBytes :: u64
  ic_usedBytes :: u64
  unlimitedBuckets :: u64

definition instance_remainingBytes :: "InstanceCapacity \<Rightarrow> u64" where
  "instance_remainingBytes c = take_bytes (allocatableBytes c) (allocatedBytes c)"

section \<open>The ledger\<close>

record ledger =
  l_buckets :: "(string \<times> Entry) list"
  l_allocatable :: u64

definition new_ledger :: "u64 \<Rightarrow> ledger" where
  "new_ledger allocatable = \<lparr>l_buckets = [], l_allocatable = allocatable\<rparr>"

record Reservation =
  r_held :: bool
  r_bucket :: string
  r_bytes :: u64

definition no_reservation :: Reservation where
  "no_reservation = \<lparr>r_held = False, r_bucket = [], r_bytes = 0\<rparr>"

definition put_entry :: "string \<Rightarrow> Entry \<Rightarrow> ledger \<Rightarrow> ledger" where
  "put_entry bucket e l = l\<lparr>l_buckets := AList.update bucket e (l_buckets l)\<rparr>"

text \<open>\<open>entryFor\<close> creates the entry it does not find, unlimited and empty.\<close>

definition entryFor :: "string \<Rightarrow> ledger \<Rightarrow> Entry \<times> ledger" where
  "entryFor bucket l =
     (case map_of (l_buckets l) bucket of
        Some e \<Rightarrow> (e, l)
      | None \<Rightarrow> (no_entry, put_entry bucket no_entry l))"

subsection \<open>Membership\<close>

definition ledger_seed :: "string \<Rightarrow> u64 \<Rightarrow> u64 \<Rightarrow> u64 \<Rightarrow> ledger \<Rightarrow> ledger" where
  "ledger_seed bucket quota used pending =
     put_entry bucket \<lparr>quotaBytes = quota, usedBytes = used, pendingBytes = pending, reservedBytes = 0\<rparr>"

definition ledger_track :: "string \<Rightarrow> u64 \<Rightarrow> ledger \<Rightarrow> ledger" where
  "ledger_track bucket quota l =
     (case entryFor bucket l of (e, l) \<Rightarrow> put_entry bucket (e\<lparr>quotaBytes := quota\<rparr>) l)"

definition ledger_forget :: "string \<Rightarrow> ledger \<Rightarrow> ledger" where
  "ledger_forget bucket l = l\<lparr>l_buckets := AList.delete bucket (l_buckets l)\<rparr>"

subsection \<open>Allocations\<close>

fun allocated_loop :: "string \<Rightarrow> (string \<times> Entry) list \<Rightarrow> u64 \<Rightarrow> u64" where
  "allocated_loop except [] acc = acc"
| "allocated_loop except ((name, entry) # rest) acc =
     (if name = except then allocated_loop except rest acc
      else allocated_loop except rest (acc + quotaBytes entry))"

definition allocatedLocked :: "string \<Rightarrow> ledger \<Rightarrow> u64" where
  "allocatedLocked except l = allocated_loop except (l_buckets l) 0"

definition ledger_setQuota :: "string \<Rightarrow> u64 \<Rightarrow> ledger \<Rightarrow> (exn + unit) \<times> ledger" where
  "ledger_setQuota bucket quota l =
     (case entryFor bucket l of (entry, l) \<Rightarrow>
        if quota \<noteq> 0 \<and> quota < chargedBytes entry then (Inl (StorageError QuotaBelowUsage), l)
        else if l_allocatable l \<noteq> 0 \<and> quota \<noteq> 0 \<and>
          l_allocatable l < allocatedLocked bucket l + quota
        then (Inl (StorageError InsufficientCapacity), l)
        else (Inr (), put_entry bucket (entry\<lparr>quotaBytes := quota\<rparr>) l))"

definition admitAllocation :: "u64 \<Rightarrow> ledger \<Rightarrow> exn + unit" where
  "admitAllocation quota l =
     (if l_allocatable l = 0 \<or> quota = 0 then Inr ()
      else if l_allocatable l < allocatedLocked [] l + quota
      then Inl (StorageError InsufficientCapacity)
      else Inr ())"

subsection \<open>Admission\<close>

text \<open>The claim that was passed in is returned with the result, for the caller keeps it on a throw.\<close>

definition ledger_extend ::
  "Reservation \<Rightarrow> string \<Rightarrow> u64 \<Rightarrow> ledger \<Rightarrow> (exn + unit) \<times> Reservation \<times> ledger" where
  "ledger_extend r bucket bytes l =
     (if r_held r \<and> r_bucket r \<noteq> bucket then (Inl (StorageError Internal), r, l)
      else if bytes \<le> r_bytes r then (Inr (), r, l)
      else
        let wanted = bytes - r_bytes r in
        case entryFor bucket l of (entry, l) \<Rightarrow>
          if quotaBytes entry \<noteq> 0 \<and> quotaBytes entry < chargedBytes entry + wanted
          then (Inl (StorageError QuotaExceeded), r, l)
          else (Inr (), \<lparr>r_held = True, r_bucket = bucket, r_bytes = bytes\<rparr>,
                put_entry bucket (entry\<lparr>reservedBytes := reservedBytes entry + wanted\<rparr>) l))"

definition ledger_reserve :: "string \<Rightarrow> u64 \<Rightarrow> ledger \<Rightarrow> (exn + Reservation) \<times> ledger" where
  "ledger_reserve bucket bytes l =
     (case ledger_extend no_reservation bucket bytes l of
        (Inl e, r, l) \<Rightarrow> (Inl e, l)
      | (Inr _, r, l) \<Rightarrow> (Inr r, l))"

definition giveBack :: "string \<Rightarrow> u64 \<Rightarrow> ledger \<Rightarrow> ledger" where
  "giveBack bucket bytes l =
     (if bytes = 0 then l
      else case map_of (l_buckets l) bucket of
        None \<Rightarrow> l
      | Some e \<Rightarrow> put_entry bucket (e\<lparr>reservedBytes := take_bytes (reservedBytes e) bytes\<rparr>) l)"

definition reservation_release :: "Reservation \<Rightarrow> ledger \<Rightarrow> Reservation \<times> ledger" where
  "reservation_release r l =
     (if \<not> r_held r then (r, l)
      else (r\<lparr>r_held := False, r_bytes := 0\<rparr>, giveBack (r_bucket r) (r_bytes r) l))"

text \<open>Move assignment: the claim held before is released, the other one is emptied.\<close>

definition reservation_move ::
  "Reservation \<Rightarrow> Reservation \<Rightarrow> ledger \<Rightarrow> Reservation \<times> Reservation \<times> ledger" where
  "reservation_move this other l =
     (case reservation_release this l of (this, l) \<Rightarrow>
        (\<lparr>r_held = r_held other, r_bucket = r_bucket other, r_bytes = r_bytes other\<rparr>,
         other\<lparr>r_held := False, r_bytes := 0\<rparr>, l))"

subsection \<open>Settlement\<close>

definition consumeLocked :: "Entry \<Rightarrow> Reservation \<Rightarrow> Entry \<times> Reservation" where
  "consumeLocked entry r =
     (if \<not> r_held r then (entry, r)
      else (entry\<lparr>reservedBytes := take_bytes (reservedBytes entry) (r_bytes r)\<rparr>,
            r\<lparr>r_held := False, r_bytes := 0\<rparr>))"

text \<open>The claim is a by-value argument: what is left of it is destroyed on return.\<close>

definition recordObject :: "string \<Rightarrow> Reservation \<Rightarrow> u64 \<Rightarrow> u64 \<Rightarrow> ledger \<Rightarrow> ledger" where
  "recordObject bucket r stored replaced l =
     (case entryFor bucket l of (entry, l) \<Rightarrow>
      case consumeLocked entry r of (entry, r) \<Rightarrow>
        snd (reservation_release r (put_entry bucket
          (entry\<lparr>usedBytes := take_bytes (usedBytes entry + stored) replaced\<rparr>) l)))"

definition recordPart :: "string \<Rightarrow> Reservation \<Rightarrow> u64 \<Rightarrow> u64 \<Rightarrow> ledger \<Rightarrow> ledger" where
  "recordPart bucket r stored replaced l =
     (case entryFor bucket l of (entry, l) \<Rightarrow>
      case consumeLocked entry r of (entry, r) \<Rightarrow>
        snd (reservation_release r (put_entry bucket
          (entry\<lparr>pendingBytes := take_bytes (pendingBytes entry + stored) replaced\<rparr>) l)))"

definition recordDeletion :: "string \<Rightarrow> u64 \<Rightarrow> ledger \<Rightarrow> ledger" where
  "recordDeletion bucket released l =
     (if released = 0 then l
      else case entryFor bucket l of (entry, l) \<Rightarrow>
        put_entry bucket (entry\<lparr>usedBytes := take_bytes (usedBytes entry) released\<rparr>) l)"

definition recordUploadAborted :: "string \<Rightarrow> u64 \<Rightarrow> ledger \<Rightarrow> ledger" where
  "recordUploadAborted bucket released l =
     (if released = 0 then l
      else case entryFor bucket l of (entry, l) \<Rightarrow>
        put_entry bucket (entry\<lparr>pendingBytes := take_bytes (pendingBytes entry) released\<rparr>) l)"

definition recordUploadCompleted :: "string \<Rightarrow> u64 \<Rightarrow> u64 \<Rightarrow> u64 \<Rightarrow> ledger \<Rightarrow> ledger" where
  "recordUploadCompleted bucket stored replaced released l =
     (case entryFor bucket l of (entry, l) \<Rightarrow>
        put_entry bucket
          (entry\<lparr>pendingBytes := take_bytes (pendingBytes entry) released,
                 usedBytes := take_bytes (usedBytes entry + stored) replaced\<rparr>) l)"

subsection \<open>Reporting\<close>

definition capacity :: "string \<Rightarrow> ledger \<Rightarrow> BucketCapacity" where
  "capacity bucket l = (case map_of (l_buckets l) bucket of Some e \<Rightarrow> e | None \<Rightarrow> no_entry)"

definition capacities :: "ledger \<Rightarrow> (string \<times> BucketCapacity) list" where
  "capacities l = sort_key fst (l_buckets l)"

fun instance_loop :: "(string \<times> Entry) list \<Rightarrow> InstanceCapacity \<Rightarrow> InstanceCapacity" where
  "instance_loop [] c = c"
| "instance_loop ((name, entry) # rest) c =
     instance_loop rest
       (c\<lparr>allocatedBytes := allocatedBytes c + quotaBytes entry,
          ic_usedBytes := ic_usedBytes c + usedBytes entry,
          unlimitedBuckets := (if quotaBytes entry = 0 then unlimitedBuckets c + 1 else unlimitedBuckets c)\<rparr>)"

definition instance_capacity :: "ledger \<Rightarrow> InstanceCapacity" where
  "instance_capacity l = instance_loop (l_buckets l)
     \<lparr>allocatableBytes = l_allocatable l, allocatedBytes = 0, ic_usedBytes = 0, unlimitedBuckets = 0\<rparr>"

section \<open>What the operations do to the capacities\<close>

lemma capacity_put_entry [simp]:
  "capacity b (put_entry bucket e l) = (if b = bucket then e else capacity b l)"
  by (simp add: capacity_def put_entry_def update_conv')

lemma put_entry_allocatable [simp]: "l_allocatable (put_entry bucket e l) = l_allocatable l"
  by (simp add: put_entry_def)

lemma entryFor_simps [simp]:
  "fst (entryFor bucket l) = capacity bucket l"
  "capacity b (snd (entryFor bucket l)) = capacity b l"
  "l_allocatable (snd (entryFor bucket l)) = l_allocatable l"
  by (auto simp: entryFor_def capacity_def put_entry_def update_conv' split: option.splits)

definition charge :: "ledger \<Rightarrow> string \<Rightarrow> nat" where
  "charge l b = unat (usedBytes (capacity b l)) + unat (pendingBytes (capacity b l)) +
     unat (reservedBytes (capacity b l))"

lemma take_bytes_0 [simp]: "take_bytes a 0 = a"
  by (cases "a = 0") (simp_all add: take_bytes_def word_gt_0)

lemma unat_take_bytes: "unat (take_bytes a b) = unat a - unat b"
  by (simp add: take_bytes_def word_less_nat_alt unat_sub_if')

lemma unat_chargedBytes:
  "charge l b < 2 ^ 64 \<Longrightarrow> unat (chargedBytes (capacity b l)) = charge l b"
  unfolding charge_def chargedBytes_def by (simp add: unat_word_ariths)

text \<open>What one call may do to the charges and claims of a bucket.\<close>

lemma extend_Inl:
  assumes "ledger_extend r bucket n l = (Inl e, r', l')"
  shows "r' = r" "capacity b l' = capacity b l"
  using assms by (auto simp: ledger_extend_def split_def Let_def split: if_splits)

lemma extend_Inr:
  assumes "ledger_extend r bucket n l = (Inr u, r', l')"
  obtains "n \<le> r_bytes r" "r' = r" "l' = l"
  | "r_bytes r < n" "r_held r \<longrightarrow> r_bucket r = bucket"
    "r' = \<lparr>r_held = True, r_bucket = bucket, r_bytes = n\<rparr>"
    "quotaBytes (capacity bucket l) \<noteq> 0 \<longrightarrow>
       \<not> quotaBytes (capacity bucket l) < chargedBytes (capacity bucket l) + (n - r_bytes r)"
    "\<And>b. capacity b l' = (if b = bucket then (capacity bucket l)\<lparr>reservedBytes :=
       reservedBytes (capacity bucket l) + (n - r_bytes r)\<rparr> else capacity b l)"
proof (cases "n \<le> r_bytes r")
  case True
  with assms that(1) show ?thesis
    by (auto simp: ledger_extend_def split: if_splits)
next
  case False
  with assms show ?thesis
    by (intro that(2)) (auto simp: ledger_extend_def Let_def split_def split: if_splits)
qed

lemma capacity_giveBack:
  "capacity b (giveBack bucket n l) = (if b = bucket \<and> n \<noteq> 0 then
     (capacity bucket l)\<lparr>reservedBytes := take_bytes (reservedBytes (capacity bucket l)) n\<rparr> else capacity b l)"
  by (auto simp: giveBack_def split: option.splits) (simp_all add: capacity_def no_entry_def take_bytes_def)

lemma record_capacity:
  "capacity b (recordObject bucket r stored replaced l) =
     (if b = bucket then (fst (consumeLocked (capacity bucket l) r))\<lparr>usedBytes :=
        take_bytes (usedBytes (capacity bucket l) + stored) replaced\<rparr> else capacity b l)"
  "capacity b (recordPart bucket r stored replaced l) =
     (if b = bucket then (fst (consumeLocked (capacity bucket l) r))\<lparr>pendingBytes :=
        take_bytes (pendingBytes (capacity bucket l) + stored) replaced\<rparr> else capacity b l)"
  "capacity b (recordDeletion bucket n l) =
     (if b = bucket \<and> n \<noteq> 0 then (capacity bucket l)\<lparr>usedBytes :=
        take_bytes (usedBytes (capacity bucket l)) n\<rparr> else capacity b l)"
  "capacity b (recordUploadAborted bucket n l) =
     (if b = bucket \<and> n \<noteq> 0 then (capacity bucket l)\<lparr>pendingBytes :=
        take_bytes (pendingBytes (capacity bucket l)) n\<rparr> else capacity b l)"
  "capacity b (recordUploadCompleted bucket stored replaced n l) =
     (if b = bucket then (capacity bucket l)\<lparr>pendingBytes := take_bytes (pendingBytes (capacity bucket l)) n,
        usedBytes := take_bytes (usedBytes (capacity bucket l) + stored) replaced\<rparr> else capacity b l)"
  by (simp_all add: recordObject_def recordPart_def recordDeletion_def recordUploadAborted_def
      recordUploadCompleted_def consumeLocked_def reservation_release_def split_def)

lemma membership_capacity:
  "capacity b (ledger_seed bucket quota used pending l) =
     (if b = bucket then \<lparr>quotaBytes = quota, usedBytes = used, pendingBytes = pending, reservedBytes = 0\<rparr>
      else capacity b l)"
  "capacity b (ledger_track bucket quota l) =
     (if b = bucket then (capacity bucket l)\<lparr>quotaBytes := quota\<rparr> else capacity b l)"
  "capacity b (ledger_forget bucket l) = (if b = bucket then no_entry else capacity b l)"
  by (simp_all add: ledger_seed_def ledger_track_def split_def)
    (simp add: ledger_forget_def capacity_def delete_conv')

lemma setQuota_Inl: "ledger_setQuota bucket quota l = (Inl e, l') \<Longrightarrow> capacity b l' = capacity b l"
  by (auto simp: ledger_setQuota_def split_def split: if_splits)

lemma setQuota_Inr:
  assumes "ledger_setQuota bucket quota l = (Inr u, l')"
  shows "quota \<noteq> 0 \<longrightarrow> \<not> quota < chargedBytes (capacity bucket l)"
    "capacity b l' = (if b = bucket then (capacity bucket l)\<lparr>quotaBytes := quota\<rparr> else capacity b l)"
  using assms by (auto simp: ledger_setQuota_def split_def split: if_splits)

section \<open>Runs of the ledger and the claims in flight\<close>

text \<open>
  A state is the ledger and the multiset of the claims its writers hold. The guards leave out
  what the ledger does not survive, and what the last theorems of this theory are about: a
  settlement stores no more than was claimed in that bucket, a completed upload turns pending
  bytes into at most as many used ones, a bucket is seeded (from what the store holds, within
  its allocation) or forgotten while nobody holds a claim on it, and no sum of charges reaches
  \<open>2 ^ 64\<close>.
\<close>

inductive ledger_step :: "ledger \<times> Reservation multiset \<Rightarrow> ledger \<times> Reservation multiset \<Rightarrow> bool" where
  admitted:
    "ledger_reserve bucket n l = (Inr r, l') \<Longrightarrow> charge l bucket + unat n < 2 ^ 64 \<Longrightarrow>
     ledger_step (l, M) (l', add_mset r M)"
| refused: "ledger_reserve bucket n l = (Inl e, l') \<Longrightarrow> ledger_step (l, M) (l', M)"
| extended:
    "ledger_extend r bucket n l = (x, r', l') \<Longrightarrow> charge l bucket + unat n < 2 ^ 64 \<Longrightarrow>
     ledger_step (l, add_mset r M) (l', add_mset r' M)"
| released: "reservation_release r l = (r', l') \<Longrightarrow> ledger_step (l, add_mset r M) (l', M)"
| object_stored:
    "r_held r \<longrightarrow> r_bucket r = bucket \<Longrightarrow> stored \<le> r_bytes r \<Longrightarrow>
     ledger_step (l, add_mset r M) (recordObject bucket r stored replaced l, M)"
| part_stored:
    "r_held r \<longrightarrow> r_bucket r = bucket \<Longrightarrow> stored \<le> r_bytes r \<Longrightarrow>
     ledger_step (l, add_mset r M) (recordPart bucket r stored replaced l, M)"
| deleted: "ledger_step (l, M) (recordDeletion bucket n l, M)"
| upload_aborted: "ledger_step (l, M) (recordUploadAborted bucket n l, M)"
| upload_completed:
    "stored \<le> n \<Longrightarrow> n \<le> pendingBytes (capacity bucket l) \<Longrightarrow>
     ledger_step (l, M) (recordUploadCompleted bucket stored replaced n l, M)"
| quota_set: "ledger_setQuota bucket q l = (x, l') \<Longrightarrow> ledger_step (l, M) (l', M)"
| seeded:
    "\<forall>r\<in>#M. r_held r \<longrightarrow> r_bucket r \<noteq> bucket \<Longrightarrow>
     unat used + unat pending < 2 ^ 64 \<Longrightarrow> quota \<noteq> 0 \<longrightarrow> unat used + unat pending \<le> unat quota \<Longrightarrow>
     ledger_step (l, M) (ledger_seed bucket quota used pending l, M)"
| tracked_new:
    "map_of (l_buckets l) bucket = None \<Longrightarrow> ledger_step (l, M) (ledger_track bucket q l, M)"
| forgotten:
    "\<forall>r\<in>#M. r_held r \<longrightarrow> r_bucket r \<noteq> bucket \<Longrightarrow> ledger_step (l, M) (ledger_forget bucket l, M)"

definition claimed :: "Reservation multiset \<Rightarrow> string \<Rightarrow> nat" where
  "claimed M b = (\<Sum>r\<in>#M. if r_bucket r = b then unat (r_bytes r) else 0)"

definition total_charge :: "BucketCapacity \<Rightarrow> nat" where
  "total_charge c = unat (usedBytes c) + unat (pendingBytes c) + unat (reservedBytes c)"

definition charge_ok :: "BucketCapacity \<Rightarrow> nat \<Rightarrow> bool" where
  "charge_ok c n \<longleftrightarrow> n = unat (reservedBytes c) \<and> total_charge c < 2 ^ 64 \<and>
     (quotaBytes c \<noteq> 0 \<longrightarrow> total_charge c \<le> unat (quotaBytes c))"

definition claims_ok :: "Reservation multiset \<Rightarrow> bool" where
  "claims_ok M \<longleftrightarrow> (\<forall>r\<in>#M. \<not> r_held r \<longrightarrow> r_bytes r = 0)"

definition ledger_ok :: "ledger \<times> Reservation multiset \<Rightarrow> bool" where
  "ledger_ok = (\<lambda>(l, M). (\<forall>b. charge_ok (capacity b l) (claimed M b)) \<and> claims_ok M)"

lemma claimed_simps [simp]:
  "claimed {#} b = 0"
  "claimed (add_mset r M) b = (if r_bucket r = b then unat (r_bytes r) else 0) + claimed M b"
  by (simp_all add: claimed_def)

lemma claims_ok_simps [simp]:
  "claims_ok {#}" "claims_ok (add_mset r M) \<longleftrightarrow> (\<not> r_held r \<longrightarrow> r_bytes r = 0) \<and> claims_ok M"
  by (auto simp: claims_ok_def)

lemma charge_total: "charge l b = total_charge (capacity b l)"
  by (simp add: charge_def total_charge_def)

subsection \<open>One bucket at a time\<close>

lemma unat_charged: "total_charge c < 2 ^ 64 \<Longrightarrow> unat (chargedBytes c) = total_charge c"
  by (simp add: chargedBytes_def total_charge_def unat_word_ariths)

lemma charge_ok_claim:
  assumes "charge_ok c n" "total_charge c + unat w < 2 ^ 64"
    and "quotaBytes c \<noteq> 0 \<longrightarrow> \<not> quotaBytes c < chargedBytes c + w"
  shows "charge_ok (c\<lparr>reservedBytes := reservedBytes c + w\<rparr>) (n + unat w)"
proof -
  have "unat (chargedBytes c + w) = total_charge c + unat w"
    using assms(1,2) by (simp add: charge_ok_def unat_add_u64 unat_charged)
  moreover have "unat (reservedBytes c + w) = unat (reservedBytes c) + unat w"
    using assms(2) by (intro unat_add_u64) (simp add: total_charge_def)
  ultimately show ?thesis
    using assms by (auto simp: charge_ok_def total_charge_def word_less_nat_alt not_less)
qed

lemma charge_ok_release:
  "charge_ok c n \<Longrightarrow> charge_ok (c\<lparr>reservedBytes := take_bytes (reservedBytes c) k\<rparr>) (n - unat k)"
  by (auto simp: charge_ok_def total_charge_def unat_take_bytes)

lemma charge_ok_settle:
  assumes "charge_ok c n" "unat k \<le> n" "unat stored \<le> unat k"
  shows "charge_ok (c\<lparr>reservedBytes := take_bytes (reservedBytes c) k,
       usedBytes := take_bytes (usedBytes c + stored) replaced\<rparr>) (n - unat k)"
    "charge_ok (c\<lparr>reservedBytes := take_bytes (reservedBytes c) k,
       pendingBytes := take_bytes (pendingBytes c + stored) replaced\<rparr>) (n - unat k)"
proof -
  have "unat (usedBytes c + stored) = unat (usedBytes c) + unat stored"
    "unat (pendingBytes c + stored) = unat (pendingBytes c) + unat stored"
    using assms by (intro unat_add_u64; simp add: charge_ok_def total_charge_def)+
  with assms show "charge_ok (c\<lparr>reservedBytes := take_bytes (reservedBytes c) k,
       usedBytes := take_bytes (usedBytes c + stored) replaced\<rparr>) (n - unat k)"
    "charge_ok (c\<lparr>reservedBytes := take_bytes (reservedBytes c) k,
       pendingBytes := take_bytes (pendingBytes c + stored) replaced\<rparr>) (n - unat k)"
    by (auto simp: charge_ok_def total_charge_def unat_take_bytes)
qed

lemma charge_ok_lower:
  "charge_ok c n \<Longrightarrow> charge_ok (c\<lparr>usedBytes := take_bytes (usedBytes c) k\<rparr>) n"
  "charge_ok c n \<Longrightarrow> charge_ok (c\<lparr>pendingBytes := take_bytes (pendingBytes c) k\<rparr>) n"
  by (auto simp: charge_ok_def total_charge_def unat_take_bytes)

lemma charge_ok_complete:
  assumes "charge_ok c n" "stored \<le> k" "k \<le> pendingBytes c"
  shows "charge_ok (c\<lparr>pendingBytes := take_bytes (pendingBytes c) k,
       usedBytes := take_bytes (usedBytes c + stored) replaced\<rparr>) n"
proof -
  have "unat stored \<le> unat k" "unat k \<le> unat (pendingBytes c)"
    using assms(2,3) by (simp_all add: word_le_nat_alt)
  moreover from this have "unat (usedBytes c + stored) = unat (usedBytes c) + unat stored"
    using assms(1) by (intro unat_add_u64) (simp add: charge_ok_def total_charge_def)
  ultimately show ?thesis
    using assms(1) by (auto simp: charge_ok_def total_charge_def unat_take_bytes)
qed

lemma charge_ok_quota:
  assumes "charge_ok c n" "q \<noteq> 0 \<longrightarrow> \<not> q < chargedBytes c"
  shows "charge_ok (c\<lparr>quotaBytes := q\<rparr>) n"
proof -
  from assms(1) have "unat (chargedBytes c) = total_charge c"
    by (simp add: charge_ok_def unat_charged)
  with assms show ?thesis
    by (auto simp: charge_ok_def total_charge_def word_less_nat_alt not_less)
qed

lemma charge_ok_empty: "charge_ok no_entry 0" "charge_ok (no_entry\<lparr>quotaBytes := q\<rparr>) 0"
  by (simp_all add: charge_ok_def no_entry_def total_charge_def)

lemma ledger_okI:
  "(\<And>b. charge_ok (capacity b l) (claimed M b)) \<Longrightarrow> claims_ok M \<Longrightarrow> ledger_ok (l, M)"
  by (simp add: ledger_ok_def)

lemma ledger_okD:
  assumes "ledger_ok (l, M)"
  shows "charge_ok (capacity b l) (claimed M b)" "claims_ok M"
  using assms by (simp_all add: ledger_ok_def)

lemma claimed_elsewhere:
  "r_bucket r \<noteq> b \<or> r_bytes r = 0 \<Longrightarrow> claimed (add_mset r M) b = claimed M b"
  by auto

lemma ledger_extend_ok:
  assumes ok: "ledger_ok (l, add_mset r M)" and run: "ledger_extend r bucket n l = (x, r', l')"
    and room: "x = Inr () \<longrightarrow> charge l bucket + unat n < 2 ^ 64"
  shows "ledger_ok (l', add_mset r' M)"
proof (cases x)
  case (Inl e)
  with run extend_Inl [of r bucket n l e r' l'] ok show ?thesis
    by (simp add: ledger_ok_def)
next
  case (Inr u)
  from run [unfolded Inr] show ?thesis
  proof (cases rule: extend_Inr)
    case 1
    with ok show ?thesis by simp
  next
    case 2
    have c: "charge_ok (capacity bucket l) (claimed (add_mset r M) bucket)"
      using ok by (simp add: ledger_ok_def)
    have own: "r_bucket r \<noteq> bucket \<Longrightarrow> r_bytes r = 0"
      using 2(2) ok by (auto simp: ledger_ok_def)
    have w: "unat (n - r_bytes r) = unat n - unat (r_bytes r)"
      using 2(1) by (simp add: unat_sub word_less_nat_alt word_le_nat_alt)
    have now: "claimed (add_mset r' M) bucket = claimed (add_mset r M) bucket + unat (n - r_bytes r)"
      using 2(1) own by (auto simp: 2(3) w word_less_nat_alt)
    have fits: "total_charge (capacity bucket l) + unat (n - r_bytes r) < 2 ^ 64"
      using room Inr by (simp add: w charge_total)
    have left: "capacity bucket l' = (capacity bucket l)\<lparr>reservedBytes :=
        reservedBytes (capacity bucket l) + (n - r_bytes r)\<rparr>"
      by (simp add: 2(5))
    have "charge_ok (capacity bucket l') (claimed (add_mset r' M) bucket)"
      unfolding now left by (rule charge_ok_claim [OF c fits 2(4)])
    moreover have "charge_ok (capacity b l') (claimed (add_mset r' M) b)" if "b \<noteq> bucket" for b
    proof -
      have "claimed (add_mset r' M) b = claimed (add_mset r M) b"
        using that own by (subst (1 2) claimed_elsewhere) (auto simp: 2(3))
      with ledger_okD(1) [OF ok, of b] that show ?thesis by (simp only: 2(5) if_False)
    qed
    ultimately have "charge_ok (capacity b l') (claimed (add_mset r' M) b)" for b
      by (cases "b = bucket") blast+
    moreover have "claims_ok (add_mset r' M)"
      using ledger_okD(2) [OF ok] by (simp add: 2(3))
    ultimately show ?thesis by (rule ledger_okI)
  qed
qed

lemma ledger_reserve_ok:
  assumes ok: "ledger_ok (l, M)" and run: "ledger_reserve bucket n l = (x, l')"
  shows "x = Inl e \<Longrightarrow> ledger_ok (l', M)"
    "x = Inr r \<Longrightarrow> charge l bucket + unat n < 2 ^ 64 \<Longrightarrow> ledger_ok (l', add_mset r M)"
proof -
  obtain y r' l1 where e: "ledger_extend no_reservation bucket n l = (y, r', l1)"
    by (cases "ledger_extend no_reservation bucket n l")
  have start: "ledger_ok (l, add_mset no_reservation M)"
    using ok by (simp add: ledger_ok_def no_reservation_def)
  from run e have x: "x = (case y of Inl e \<Rightarrow> Inl e | Inr _ \<Rightarrow> Inr r')" "l' = l1"
    by (auto simp: ledger_reserve_def split: sum.splits)
  show "ledger_ok (l', M)" if "x = Inl e"
  proof -
    from that x have y: "y = Inl e" by (cases y) simp_all
    with e extend_Inl [of no_reservation bucket n l e r' l1] ok x(2) show ?thesis
      by (simp add: ledger_ok_def)
  qed
  show "ledger_ok (l', add_mset r M)" if "x = Inr r" "charge l bucket + unat n < 2 ^ 64"
    using ledger_extend_ok [OF start e] that x by (cases y) simp_all
qed

lemma reservation_release_ok:
  assumes ok: "ledger_ok (l, add_mset r M)" and run: "reservation_release r l = (r', l')"
  shows "ledger_ok (l', M)"
proof (cases "r_held r")
  case False
  then have "r_bytes r = 0"
    using ledger_okD(2) [OF ok] by simp
  then have "charge_ok (capacity b l) (claimed M b)" for b
    using ledger_okD(1) [OF ok, of b] claimed_elsewhere [of r b M] by metis
  moreover have "l' = l"
    using False run by (simp add: reservation_release_def)
  ultimately show ?thesis
    using ledger_okD(2) [OF ok] by (simp add: ledger_okI)
next
  case True
  with run have l': "l' = giveBack (r_bucket r) (r_bytes r) l"
    by (simp add: reservation_release_def)
  have "charge_ok (capacity b l') (claimed M b)" for b
  proof -
    have c: "charge_ok (capacity b l) (claimed (add_mset r M) b)"
      using ok by (simp add: ledger_ok_def)
    show ?thesis
    proof (cases "b = r_bucket r \<and> r_bytes r \<noteq> 0")
      case True
      with charge_ok_release [OF c, of "r_bytes r"] show ?thesis
        by (simp add: l' capacity_giveBack)
    next
      case False
      then have "claimed (add_mset r M) b = claimed M b" "capacity b l' = capacity b l"
        by (auto simp: l' capacity_giveBack)
      with c show ?thesis by (simp only:)
    qed
  qed
  with ok show ?thesis by (simp add: ledger_ok_def)
qed

lemma record_ok:
  assumes ok: "ledger_ok (l, add_mset r M)" and own: "r_held r \<longrightarrow> r_bucket r = bucket"
    and enough: "stored \<le> r_bytes r"
  shows "ledger_ok (recordObject bucket r stored replaced l, M)"
    "ledger_ok (recordPart bucket r stored replaced l, M)"
proof -
  let ?c = "capacity bucket l"
  have c: "charge_ok ?c (claimed (add_mset r M) bucket)"
    using ok by (simp add: ledger_ok_def)
  have r: "\<not> r_held r \<Longrightarrow> r_bytes r = 0" and M: "claims_ok M"
    using ok by (simp_all add: ledger_ok_def)
  have le: "unat (r_bytes r) \<le> claimed (add_mset r M) bucket"
    using own r by auto
  have less: "unat stored \<le> unat (r_bytes r)"
    using enough by (simp add: word_le_nat_alt)
  have rest: "claimed M bucket = claimed (add_mset r M) bucket - unat (r_bytes r)"
    using own r by auto
  have consumed: "fst (consumeLocked ?c r) = ?c\<lparr>reservedBytes := take_bytes (reservedBytes ?c) (r_bytes r)\<rparr>"
    using r by (simp add: consumeLocked_def)
  have others: "charge_ok (capacity b l) (claimed M b)" if "b \<noteq> bucket" for b
  proof -
    have "claimed (add_mset r M) b = claimed M b"
      using own r that by (intro claimed_elsewhere) auto
    with ledger_okD(1) [OF ok, of b] show ?thesis by (simp only:)
  qed
  show "ledger_ok (recordObject bucket r stored replaced l, M)"
  proof (rule ledger_okI [OF _ M])
    show "charge_ok (capacity b (recordObject bucket r stored replaced l)) (claimed M b)" for b
      using charge_ok_settle(1) [OF c le less, of replaced] others
      by (cases "b = bucket") (simp_all only: record_capacity consumed rest if_True if_False simp_thms)
  qed
  show "ledger_ok (recordPart bucket r stored replaced l, M)"
  proof (rule ledger_okI [OF _ M])
    show "charge_ok (capacity b (recordPart bucket r stored replaced l)) (claimed M b)" for b
      using charge_ok_settle(2) [OF c le less, of replaced] others
      by (cases "b = bucket") (simp_all only: record_capacity consumed rest if_True if_False simp_thms)
  qed
qed

lemma ledger_step_ok:
  assumes "ledger_step x y" "ledger_ok x"
  shows "ledger_ok y"
  using assms
proof (cases rule: ledger_step.cases)
  case (admitted bucket n l r l' M)
  with assms(2) ledger_reserve_ok(2) [of l M bucket n "Inr r" l' r] show ?thesis by simp
next
  case (refused bucket n l e l' M)
  with assms(2) ledger_reserve_ok(1) [of l M bucket n "Inl e" l' e] show ?thesis by simp
next
  case (extended r bucket n l x r' l' M)
  with assms(2) ledger_extend_ok [of l r M bucket n x r' l'] show ?thesis by simp
next
  case (released r l r' l' M)
  with assms(2) reservation_release_ok show ?thesis by metis
next
  case (object_stored r bucket stored l M replaced)
  with assms(2) record_ok(1) show ?thesis by simp
next
  case (part_stored r bucket stored l M replaced)
  with assms(2) record_ok(2) show ?thesis by simp
next
  case (deleted l M bucket n)
  with assms(2) charge_ok_lower(1) show ?thesis by (auto simp: ledger_ok_def record_capacity)
next
  case (upload_aborted l M bucket n)
  with assms(2) charge_ok_lower(2) show ?thesis by (auto simp: ledger_ok_def record_capacity)
next
  case (upload_completed stored n bucket l M replaced)
  with assms(2) charge_ok_complete show ?thesis by (auto simp: ledger_ok_def record_capacity)
next
  case (quota_set bucket q l x l' M)
  show ?thesis
  proof (cases x)
    case (Inl e)
    with quota_set assms(2) setQuota_Inl [of bucket q l e l'] show ?thesis
      by (simp add: ledger_ok_def)
  next
    case (Inr u)
    with quota_set assms(2) setQuota_Inr [of bucket q l u l'] charge_ok_quota show ?thesis
      by (auto simp: ledger_ok_def)
  qed
next
  case (seeded M bucket used pending quota l)
  have "claimed M bucket = 0" if "claims_ok M"
    using seeded(3) that by (auto simp: claimed_def claims_ok_def)
  with seeded assms(2) show ?thesis
    by (auto simp: ledger_ok_def ledger_seed_def charge_ok_def total_charge_def)
next
  case (tracked_new l bucket M q)
  then have "capacity bucket l = no_entry" by (simp add: capacity_def)
  with tracked_new assms(2) charge_ok_empty show ?thesis
    by (auto simp: ledger_ok_def membership_capacity charge_ok_def total_charge_def no_entry_def)
next
  case (forgotten M bucket l)
  have "claimed M bucket = 0" if "claims_ok M"
    using forgotten(3) that by (auto simp: claimed_def claims_ok_def)
  with forgotten assms(2) charge_ok_empty(1) show ?thesis
    by (auto simp: ledger_ok_def membership_capacity)
qed

lemma ledger_run_ok: "ledger_step\<^sup>*\<^sup>* x y \<Longrightarrow> ledger_ok x \<Longrightarrow> ledger_ok y"
  by (induction rule: rtranclp_induct) (simp_all add: ledger_step_ok)

lemma new_ledger_ok: "ledger_ok (new_ledger a, {#})"
  by (simp add: ledger_ok_def new_ledger_def capacity_def charge_ok_empty)



section \<open>The instance-wide ceiling\<close>

definition allocations :: "ledger \<Rightarrow> nat" where
  "allocations l = assoc_sum (\<lambda>e. unat (quotaBytes e)) (l_buckets l)"

abbreviation sum_except :: "string \<Rightarrow> (string \<times> Entry) list \<Rightarrow> nat" where
  "sum_except \<equiv> assoc_except (\<lambda>e. unat (quotaBytes e))"

definition names_ok :: "ledger \<Rightarrow> bool" where
  "names_ok l \<longleftrightarrow> distinct (map fst (l_buckets l)) \<and> [] \<notin> fst ` set (l_buckets l)"

lemma sum_except_le: "sum_except b (l_buckets l) \<le> allocations l"
  by (simp add: allocations_def assoc_except_le)

lemma allocated_loop_unat:
  "unat sum0 + sum_except b es < 2 ^ 64 \<Longrightarrow>
   unat (allocated_loop b es sum0) = unat sum0 + sum_except b es"
proof (induction es arbitrary: sum0)
  case (Cons x es)
  obtain n e where x: "x = (n, e)" by (cases x)
  show ?case
  proof (cases "n = b")
    case True
    with Cons x show ?thesis by simp
  next
    case False
    with Cons.prems x have "unat (sum0 + quotaBytes e) = unat sum0 + unat (quotaBytes e)"
      by (intro unat_add_u64) simp
    with False Cons.IH [of "sum0 + quotaBytes e"] Cons.prems x show ?thesis by simp
  qed
qed simp

lemma allocatedLocked_unat:
  "sum_except b (l_buckets l) < 2 ^ 64 \<Longrightarrow> unat (allocatedLocked b l) = sum_except b (l_buckets l)"
  using allocated_loop_unat [of 0 b "l_buckets l"] by (simp add: allocatedLocked_def)

lemma allocations_put_entry:
  "names_ok l \<Longrightarrow> allocations (put_entry b e l) = unat (quotaBytes e) + sum_except b (l_buckets l)"
  by (simp add: allocations_def put_entry_def names_ok_def assoc_sum_update)

lemma names_ok_put_entry: "names_ok l \<Longrightarrow> b \<noteq> [] \<Longrightarrow> names_ok (put_entry b e l)"
  by (auto simp: names_ok_def put_entry_def distinct_update dom_update)

lemma sum_except_put_entry [simp]:
  "sum_except b (l_buckets (put_entry b e l)) = sum_except b (l_buckets l)"
  by (simp add: put_entry_def)

lemma sum_except_entryFor [simp]:
  "sum_except b (l_buckets (snd (entryFor b l))) = sum_except b (l_buckets l)"
  by (simp add: entryFor_def split: option.splits)

lemma names_ok_entryFor: "names_ok l \<Longrightarrow> b \<noteq> [] \<Longrightarrow> names_ok (snd (entryFor b l))"
  by (simp add: entryFor_def names_ok_put_entry split: option.splits)

lemma allocations_entryFor: "names_ok l \<Longrightarrow> allocations (snd (entryFor b l)) \<le> allocations l"
  using sum_except_le [of b l]
  by (auto simp: entryFor_def allocations_put_entry no_entry_def split: option.splits)

text \<open>
  Administrators one at a time: allocations replaced, buckets created after \<open>admitAllocation\<close>
  and buckets forgotten. Sizes stay below \<open>2 ^ 63\<close>.
\<close>

inductive allocation_step :: "ledger \<Rightarrow> ledger \<Rightarrow> bool" where
  set_quota:
    "ledger_setQuota bucket q l = (x, l') \<Longrightarrow> bucket \<noteq> [] \<Longrightarrow> unat q < 2 ^ 63 \<Longrightarrow> allocation_step l l'"
| created:
    "admitAllocation q l = Inr () \<Longrightarrow> bucket \<noteq> [] \<Longrightarrow> unat q < 2 ^ 63 \<Longrightarrow>
     allocation_step l (ledger_track bucket q l)"
| dropped: "allocation_step l (ledger_forget bucket l)"

definition ceiling_ok :: "ledger \<Rightarrow> bool" where
  "ceiling_ok l \<longleftrightarrow> names_ok l \<and> l_allocatable l \<noteq> 0 \<and> unat (l_allocatable l) < 2 ^ 63 \<and>
     allocations l \<le> unat (l_allocatable l)"

lemma unat_allocated_plus:
  assumes "ceiling_ok l" "unat q < 2 ^ 63"
  shows "unat (allocatedLocked b l + q) = sum_except b (l_buckets l) + unat q"
proof -
  have "sum_except b (l_buckets l) < 2 ^ 63"
    using assms(1) sum_except_le [of b l] by (simp add: ceiling_ok_def allocations_def)
  with assms(2) show ?thesis
    by (subst unat_add_u64) (simp_all add: allocatedLocked_unat)
qed

lemma allocatedLocked_entryFor:
  "names_ok l \<Longrightarrow> ceiling_ok l \<Longrightarrow> allocatedLocked b (snd (entryFor b l)) = allocatedLocked b l"
proof -
  assume "ceiling_ok l"
  then have "sum_except b (l_buckets l) < 2 ^ 64"
    using sum_except_le [of b l] by (simp add: ceiling_ok_def allocations_def)
  then show ?thesis
    using allocatedLocked_unat [of b l] allocatedLocked_unat [of b "snd (entryFor b l)"]
    by (metis sum_except_entryFor word_unat_eq_iff)
qed

lemma allocation_step_ok:
  assumes "allocation_step l l'" "ceiling_ok l"
  shows "ceiling_ok l'"
  using assms
proof (cases rule: allocation_step.cases)
  case (set_quota bucket q x)
  have names: "names_ok l" using assms(2) by (simp add: ceiling_ok_def)
  note plus = unat_allocated_plus [OF assms(2) set_quota(3), of bucket]
    and same = allocatedLocked_entryFor [OF names assms(2), of bucket]
  have kept: "ceiling_ok (snd (entryFor bucket l))"
    using assms(2) names_ok_entryFor [OF names set_quota(2)] allocations_entryFor [OF names, of bucket]
    by (simp add: ceiling_ok_def)
  have "allocations (put_entry bucket (e\<lparr>quotaBytes := q\<rparr>) (snd (entryFor bucket l))) \<le> unat (l_allocatable l)"
    if "q = 0 \<or> \<not> l_allocatable l < allocatedLocked bucket l + q" for e :: Entry
  proof -
    have "unat q + sum_except bucket (l_buckets l) \<le> unat (l_allocatable l)"
      using that plus assms(2) sum_except_le [of bucket l]
      by (auto simp: word_less_nat_alt not_less ceiling_ok_def allocations_def)
    then show ?thesis
      using names_ok_entryFor [OF names set_quota(2)] by (simp add: allocations_put_entry)
  qed
  then show ?thesis
    using set_quota kept names_ok_put_entry [OF names_ok_entryFor [OF names set_quota(2)] set_quota(2)]
    by (auto simp: ledger_setQuota_def split_def same ceiling_ok_def split: if_splits)
next
  case (created q bucket)
  have names: "names_ok l" using assms(2) by (simp add: ceiling_ok_def)
  have "unat (allocatedLocked [] l + q) = allocations l + unat q"
    using unat_allocated_plus [OF assms(2) created(4), of "[]"] names assoc_except_absent [of "[]" "l_buckets l"]
    by (simp add: names_ok_def allocations_def)
  with created(2) assms(2) have "q = 0 \<or> allocations l + unat q \<le> unat (l_allocatable l)"
    by (auto simp: admitAllocation_def ceiling_ok_def word_less_nat_alt not_less split: if_splits)
  then have "unat q + sum_except bucket (l_buckets l) \<le> unat (l_allocatable l)"
    using assms(2) sum_except_le [of bucket l] by (auto simp: ceiling_ok_def allocations_def)
  then show ?thesis
    using assms(2) names_ok_entryFor [OF names created(3)] created(1)
      names_ok_put_entry [OF names_ok_entryFor [OF names created(3)] created(3)]
    by (simp add: ledger_track_def split_def ceiling_ok_def allocations_put_entry)
next
  case (dropped bucket)
  have "distinct (map fst (AList.delete bucket (l_buckets l)))"
    "[] \<notin> fst ` set (AList.delete bucket (l_buckets l))"
    using assms(2) by (auto simp: ceiling_ok_def names_ok_def AList.delete_eq distinct_map_filter)
  then show ?thesis
    using assms(2) dropped sum_except_le [of bucket l]
    by (auto simp: ceiling_ok_def names_ok_def ledger_forget_def allocations_def assoc_sum_delete)
qed

lemma allocation_run_ok: "allocation_step\<^sup>*\<^sup>* l l' \<Longrightarrow> ceiling_ok l \<Longrightarrow> ceiling_ok l'"
  by (induction rule: rtranclp_induct) (simp_all add: allocation_step_ok)

text \<open>
  C5: Administrators one after the other, none of whom asks for \<open>2 ^ 63\<close> bytes or more, never
  hand out more than an instance of less than \<open>2 ^ 63\<close> allocatable bytes has. From an empty
  ledger, however buckets are created after admission, re-allocated and forgotten, each call
  finished before the next, the allocations add up to at most the allocatable capacity. Beyond
  these bounds the sums wrap, and interleaved creations pass the ceiling: see the two theorems
  that follow.
\<close>

theorem allocations_within_ceiling:
  assumes "allocation_step\<^sup>*\<^sup>* (new_ledger a) l" "a \<noteq> 0" "unat a < 2 ^ 63"
  shows "allocations l \<le> unat a \<and> l_allocatable l \<noteq> 0"
proof -
  have "ceiling_ok (new_ledger a)"
    using assms(2,3) by (simp add: ceiling_ok_def new_ledger_def names_ok_def allocations_def)
  moreover have "l_allocatable l = l_allocatable (new_ledger a)"
    using assms(1)
  proof (induction rule: rtranclp_induct)
    case (step x y)
    from step(2) have "l_allocatable y = l_allocatable x"
      by cases (auto simp: ledger_setQuota_def ledger_track_def ledger_forget_def split_def split: if_splits)
    with step(3) show ?case by simp
  qed simp
  ultimately show ?thesis
    using allocation_run_ok [OF assms(1)] by (simp add: ceiling_ok_def new_ledger_def)
qed

theorem allocations_within_ceiling_witness:
  "allocations (ledger_track ''b'' 60 (new_ledger 100)) \<le> 100 \<and>
   l_allocatable (ledger_track ''b'' 60 (new_ledger 100)) \<noteq> 0"
proof -
  have "allocation_step (new_ledger 100) (ledger_track ''b'' 60 (new_ledger 100))"
    by (rule created) (code_simp, simp, simp)
  from allocations_within_ceiling [OF r_into_rtranclp [where r = allocation_step, OF this]] show ?thesis by simp
qed

lemma allocations_track_new:
  assumes "names_ok l" "b \<noteq> []" "b \<notin> fst ` set (l_buckets l)"
  shows "names_ok (ledger_track b q l)" "allocations (ledger_track b q l) = allocations l + unat q"
    "fst ` set (l_buckets (ledger_track b q l)) = insert b (fst ` set (l_buckets l))"
    "l_allocatable (ledger_track b q l) = l_allocatable l"
proof -
  have none: "map_of (l_buckets l) b = None" using assms(3) by (simp add: map_of_eq_None_iff)
  then have track: "ledger_track b q l =
      put_entry b (no_entry\<lparr>quotaBytes := q\<rparr>) (put_entry b no_entry l)"
    by (simp add: ledger_track_def entryFor_def)
  have names: "names_ok (put_entry b no_entry l)" by (rule names_ok_put_entry [OF assms(1,2)])
  show "names_ok (ledger_track b q l)" unfolding track by (rule names_ok_put_entry [OF names assms(2)])
  show "allocations (ledger_track b q l) = allocations l + unat q"
    unfolding track allocations_put_entry [OF names]
    using assoc_except_absent [OF assms(3)] by (simp add: allocations_def)
  show "fst ` set (l_buckets (ledger_track b q l)) = insert b (fst ` set (l_buckets l))"
    by (simp add: track put_entry_def dom_update)
  show "l_allocatable (ledger_track b q l) = l_allocatable l" by (simp add: track)
qed

text \<open>
  C11: The sums of the checks wrap. Whatever the ceiling of the instance, as soon as other
  buckets hold any allocation, the request for exactly what is missing from it to \<open>2 ^ 64\<close> is
  accepted, and the allocations then add up to \<open>2 ^ 64\<close>. Whatever the allocation of a bucket, as
  soon as it is charged for anything, the claim that makes its charge wrap is accepted, and the
  bucket then counts as empty.
\<close>

theorem huge_requests_wrap:
  assumes "names_ok l" "bucket \<noteq> []" "0 < sum_except bucket (l_buckets l)" "sum_except bucket (l_buckets l) < 2 ^ 64"
    and "chargedBytes (capacity bucket l) \<le> - allocatedLocked bucket l" "chargedBytes (capacity b l) \<noteq> 0"
  shows "(\<exists>l'. ledger_setQuota bucket (- allocatedLocked bucket l) l = (Inr (), l') \<and> allocations l' = 2 ^ 64) \<and>
    (\<exists>r l'. ledger_reserve b (- chargedBytes (capacity b l)) l = (Inr r, l') \<and>
       r_bytes r = - chargedBytes (capacity b l) \<and> chargedBytes (capacity b l') = 0)"
proof
  let ?a = "allocatedLocked bucket l"
  let ?l = "snd (entryFor bucket l)"
  have a: "unat ?a = sum_except bucket (l_buckets l)"
    by (rule allocatedLocked_unat [OF assms(4)])
  have q: "unat (- ?a) = 2 ^ 64 - sum_except bucket (l_buckets l)"
    using unat_sub_if' [of 0 "?a"] a assms(3) by simp
  have same: "allocatedLocked bucket ?l = ?a"
    using allocatedLocked_unat [of bucket ?l] assms(4) a by (simp add: word_unat_eq_iff)
  have names: "names_ok ?l" by (rule names_ok_entryFor [OF assms(1,2)])
  let ?l' = "put_entry bucket ((capacity bucket l)\<lparr>quotaBytes := - ?a\<rparr>) ?l"
  have "ledger_setQuota bucket (- ?a) l = (Inr (), ?l')"
    using assms(5) by (simp add: ledger_setQuota_def split_def same not_less)
  moreover have "allocations ?l' = 2 ^ 64"
    using q assms(4) by (simp add: allocations_put_entry [OF names])
  ultimately show "\<exists>l'. ledger_setQuota bucket (- ?a) l = (Inr (), l') \<and> allocations l' = 2 ^ 64" by blast
  let ?c = "chargedBytes (capacity b l)"
  show "\<exists>r l'. ledger_reserve b (- ?c) l = (Inr r, l') \<and> r_bytes r = - ?c \<and> chargedBytes (capacity b l') = 0"
    using assms(6)
    by (simp add: ledger_reserve_def ledger_extend_def no_reservation_def split_def Let_def)
      (simp add: chargedBytes_def algebra_simps)
qed

theorem huge_requests_wrap_witness:
  "fst (ledger_setQuota ''c'' (- 60) (ledger_seed ''b'' 60 5 0 (new_ledger 100))) = Inr () \<and>
   (\<exists>r l'. ledger_reserve ''b'' (- 5) (ledger_seed ''b'' 60 5 0 (new_ledger 100)) = (Inr r, l') \<and>
      r_bytes r = - 5 \<and> chargedBytes (capacity ''b'' l') = 0)"
proof -
  let ?l = "ledger_seed ''b'' 60 5 0 (new_ledger 100)"
  have "names_ok ?l" "sum_except ''c'' (l_buckets ?l) = 60"
    by (simp_all add: names_ok_def ledger_seed_def new_ledger_def put_entry_def)
  moreover have a: "allocatedLocked ''c'' ?l = 60" "chargedBytes (capacity ''b'' ?l) = 5"
    "chargedBytes (capacity ''c'' ?l) = 0"
    by code_simp+
  ultimately show ?thesis
    using huge_requests_wrap [of ?l "''c''" "''b''"] by auto
qed

text \<open>
  C12: Admission and tracking are two steps, and tracking does not check again. Whenever two
  creations would each fit but not both, and both are admitted before either is tracked, the
  allocations pass the ceiling by exactly what was not left; one after the other, the second
  is refused.
\<close>

theorem racing_creations_pass_ceiling:
  assumes "ceiling_ok l" "b \<noteq> []" "c \<noteq> []" "b \<noteq> c" "{b, c} \<inter> fst ` set (l_buckets l) = {}"
    and "q \<noteq> 0" "unat p < 2 ^ 63" "unat q < 2 ^ 63"
    and "admitAllocation p l = Inr ()" "admitAllocation q l = Inr ()"
    and "unat (l_allocatable l) < allocations l + unat p + unat q"
  shows "allocations (ledger_track c q (ledger_track b p l)) = allocations l + unat p + unat q \<and>
    l_allocatable (ledger_track c q (ledger_track b p l)) = l_allocatable l \<and>
    admitAllocation q (ledger_track b p l) = Inl (StorageError InsufficientCapacity)"
proof -
  have names: "names_ok l" and absent: "b \<notin> fst ` set (l_buckets l)" "c \<notin> fst ` set (l_buckets l)"
    using assms(1,5) by (auto simp: ceiling_ok_def)
  note first = allocations_track_new [OF names assms(2) absent(1), of p]
  have "c \<notin> fst ` set (l_buckets (ledger_track b p l))"
    using absent(2) assms(4) by (simp add: first(3))
  note second = allocations_track_new [OF first(1) assms(3) this, of q]
  have "allocation_step l (ledger_track b p l)"
    by (rule created [OF assms(9,2,7)])
  from allocation_step_ok [OF this assms(1)] have ok: "ceiling_ok (ledger_track b p l)" .
  have "unat (allocatedLocked [] (ledger_track b p l) + q) = allocations l + unat p + unat q"
    using unat_allocated_plus [OF ok assms(8), of "[]"] assoc_except_absent [of "[]" "l_buckets (ledger_track b p l)"] first
    by (simp add: names_ok_def allocations_def)
  then have "admitAllocation q (ledger_track b p l) = Inl (StorageError InsufficientCapacity)"
    using assms(1,6,11) first(4) by (simp add: admitAllocation_def ceiling_ok_def word_less_nat_alt)
  then show ?thesis using first second by simp
qed

theorem racing_creations_pass_ceiling_witness:
  "allocations (ledger_track ''c'' 60 (ledger_track ''b'' 60 (new_ledger 100))) = 120 \<and>
   admitAllocation 60 (ledger_track ''b'' 60 (new_ledger 100)) = Inl (StorageError InsufficientCapacity)"
proof -
  have ok: "ceiling_ok (new_ledger 100)" "allocations (new_ledger 100) = 0"
    by (simp_all add: ceiling_ok_def names_ok_def new_ledger_def allocations_def)
  have "admitAllocation 60 (new_ledger 100) = Inr ()" by code_simp
  with racing_creations_pass_ceiling [OF ok(1), of "''b''" "''c''" 60 60] ok(2) show ?thesis
    by (simp add: new_ledger_def)
qed

text \<open>
  C13: A claim that outlives its bucket frees somebody else's. Whenever a bucket is deleted while
  a writer holds a claim on it and created again, giving that claim up takes its size out of
  what the new bucket has reserved, although the claims on the new bucket are all still held:
  a second claim no larger than the first disappears from the tally, and the room it holds is
  handed out again.
\<close>

theorem claim_of_deleted_bucket_frees_another:
  assumes "ledger_reserve b n l = (Inr first, l1)" "0 < n"
    and "ledger_reserve b m (ledger_track b q (ledger_forget b l1)) = (Inr second, l2)" "0 < m"
    and "m \<le> n" "0 < k" "k \<le> q \<or> q = 0"
    and "l3 = snd (reservation_release first l2)"
  shows "reservedBytes (capacity b l2) = m \<and> reservedBytes (capacity b l3) = 0 \<and>
    r_held second \<and> r_bytes second = m \<and>
    (\<exists>third l4. ledger_reserve b k l3 = (Inr third, l4) \<and> r_bytes third = k \<and> reservedBytes (capacity b l4) = k)"
proof -
  have reserved: "r = \<lparr>r_held = True, r_bucket = b, r_bytes = j\<rparr> \<and>
      capacity b l' = (capacity b x)\<lparr>reservedBytes := reservedBytes (capacity b x) + j\<rparr>"
    if "ledger_reserve b j x = (Inr r, l')" "0 < j" for j r x l'
    using that by (auto simp: ledger_reserve_def ledger_extend_def no_reservation_def split_def Let_def split: if_splits)
  have empty: "capacity b (ledger_track b q (ledger_forget b l1)) = no_entry\<lparr>quotaBytes := q\<rparr>"
    by (simp add: membership_capacity)
  from reserved [OF assms(3,4)] empty have l2: "capacity b l2 = no_entry\<lparr>quotaBytes := q, reservedBytes := m\<rparr>"
    and second: "r_held second" "r_bytes second = m"
    by (simp_all add: no_entry_def)
  from reserved [OF assms(1,2)] assms(2,5,8) l2 have l3: "capacity b l3 = no_entry\<lparr>quotaBytes := q\<rparr>"
    by (auto simp: reservation_release_def capacity_giveBack take_bytes_def no_entry_def not_less)
  have "\<exists>third l4. ledger_reserve b k l3 = (Inr third, l4) \<and> r_bytes third = k \<and> reservedBytes (capacity b l4) = k"
    using assms(6,7) l3
    by (auto simp: ledger_reserve_def ledger_extend_def no_reservation_def split_def Let_def no_entry_def chargedBytes_def
        not_less)
  then show ?thesis using l2 l3 second by (simp add: no_entry_def)
qed

theorem claim_of_deleted_bucket_frees_another_witness:
  "(let l1 = snd (ledger_reserve ''b'' 8 (ledger_track ''b'' 10 (new_ledger 0)));
        l2 = snd (ledger_reserve ''b'' 8 (ledger_track ''b'' 10 (ledger_forget ''b'' l1)));
        l3 = snd (reservation_release \<lparr>r_held = True, r_bucket = ''b'', r_bytes = 8\<rparr> l2)
    in \<exists>third l4. ledger_reserve ''b'' 8 l3 = (Inr third, l4) \<and> r_bytes third = 8)"
proof -
  define r where "r = \<lparr>r_held = True, r_bucket = ''b'', r_bytes = 8 :: u64\<rparr>"
  let ?l0 = "ledger_track ''b'' 10 (new_ledger 0)"
  let ?l1 = "snd (ledger_reserve ''b'' 8 ?l0)"
  let ?l2 = "snd (ledger_reserve ''b'' 8 (ledger_track ''b'' 10 (ledger_forget ''b'' ?l1)))"
  have 1: "ledger_reserve ''b'' 8 ?l0 = (Inr r, ?l1)"
    "ledger_reserve ''b'' 8 (ledger_track ''b'' 10 (ledger_forget ''b'' ?l1)) = (Inr r, ?l2)"
    unfolding r_def by code_simp+
  from claim_of_deleted_bucket_frees_another [OF 1(1) _ 1(2), of 8] show ?thesis
    by (simp add: Let_def r_def) blast
qed

section \<open>What the console shows\<close>

lemma capacities_sorted: "sorted (map fst (capacities l))"
  by (simp add: capacities_def)

lemma capacities_lookup:
  "distinct (map fst (l_buckets l)) \<Longrightarrow>
   (b, c) \<in> set (capacities l) \<longleftrightarrow> b \<in> fst ` set (l_buckets l) \<and> capacity b l = c"
  using map_of_eq_Some_iff [of "l_buckets l" b c] map_of_eq_None_iff [of "l_buckets l" b]
  by (cases "map_of (l_buckets l) b") (auto simp: capacities_def capacity_def)

end
