(* ===== verification/Posix.thy ===== *)
theory Posix
  imports Errors
begin

text \<open>
  The file system calls the payload store makes. The kernel is not part of the repository, so
  it is a parameter: the record \<open>posix\<close> holds one entry point per call, on a state \<open>'f\<close> that
  nothing else inspects. \<open>posix_laws\<close> states what POSIX promises of them relative to a \<open>view\<close> of
  the state: the names of regular files, the content of each inode and the open descriptors.
  Every call may fail; a failed call changes nothing but for \<open>close\<close>, which gives the
  descriptor up either way, and for directories, which the view does not show.

  \<open>memory_posix q\<close> is a concrete instance that never fails and transfers at most \<open>q + 1\<close> bytes
  per call, so short writes and short reads do occur.
\<close>

section \<open>The interface\<close>

datatype errno = EINTR | ENOENT | EEXIST | EOTHER

type_synonym fd = nat

record file_info =
  st_size :: u64
  st_mtimeMs :: i64

record space_info =
  f_frsize :: u64
  f_bsize :: u64
  f_blocks :: u64
  f_bfree :: u64
  f_bavail :: u64

text \<open>
  \<open>px_create\<close> is \<open>open\<close> with \<open>O_WRONLY | O_CREAT | O_EXCL\<close>, \<open>px_open\<close> with \<open>O_RDONLY\<close> and
  \<open>px_opendir\<close> with \<open>O_RDONLY | O_DIRECTORY\<close>. \<open>px_remove\<close> and \<open>px_create_directories\<close> are
  the \<open>std::filesystem\<close> functions, which report through an error code. \<open>px_list\<close> and \<open>px_walk\<close>
  are the flat and the recursive iteration over the regular files below a directory: the
  error that ended it, if any, and the paths delivered before.
\<close>

record 'f posix =
  px_create :: "'f \<Rightarrow> string \<Rightarrow> (errno + fd) \<times> 'f"
  px_write :: "'f \<Rightarrow> fd \<Rightarrow> string \<Rightarrow> (errno + nat) \<times> 'f"
  px_fsync :: "'f \<Rightarrow> fd \<Rightarrow> (errno + unit) \<times> 'f"
  px_close :: "'f \<Rightarrow> fd \<Rightarrow> (errno + unit) \<times> 'f"
  px_rename :: "'f \<Rightarrow> string \<Rightarrow> string \<Rightarrow> (errno + unit) \<times> 'f"
  px_open :: "'f \<Rightarrow> string \<Rightarrow> (errno + fd) \<times> 'f"
  px_opendir :: "'f \<Rightarrow> string \<Rightarrow> (errno + fd) \<times> 'f"
  px_fstat :: "'f \<Rightarrow> fd \<Rightarrow> errno + file_info"
  px_stat :: "'f \<Rightarrow> string \<Rightarrow> errno + file_info"
  px_pread :: "'f \<Rightarrow> fd \<Rightarrow> u64 \<Rightarrow> u64 \<Rightarrow> (errno + string) \<times> 'f"
  px_create_directories :: "'f \<Rightarrow> string \<Rightarrow> (errno + unit) \<times> 'f"
  px_remove :: "'f \<Rightarrow> string \<Rightarrow> (errno + bool) \<times> 'f"
  px_exists :: "'f \<Rightarrow> string \<Rightarrow> errno + bool"
  px_list :: "'f \<Rightarrow> string \<Rightarrow> errno option \<times> string list"
  px_walk :: "'f \<Rightarrow> string \<Rightarrow> errno option \<times> string list"
  px_statvfs :: "'f \<Rightarrow> string \<Rightarrow> errno + space_info"

section \<open>What POSIX promises\<close>

text \<open>A descriptor is an inode and, for a file opened for writing, the offset it writes at.\<close>

record fsview =
  names :: "string \<rightharpoonup> nat"
  bytes :: "nat \<Rightarrow> string"
  fds :: "fd \<rightharpoonup> nat \<times> nat"

definition fresh_inode :: "nat \<Rightarrow> fsview \<Rightarrow> bool" where
  "fresh_inode i v \<longleftrightarrow> i \<notin> ran (names v) \<and> (\<forall>fd j off. fds v fd = Some (j, off) \<longrightarrow> i \<noteq> j)"

definition created :: "string \<Rightarrow> errno + fd \<Rightarrow> fsview \<Rightarrow> fsview \<Rightarrow> bool" where
  "created p r v v' \<longleftrightarrow>
     (case r of
        Inl e \<Rightarrow> v' = v
      | Inr fd \<Rightarrow> names v p = None \<and> fds v fd = None \<and>
          (\<exists>i. fresh_inode i v \<and>
             v' = v\<lparr>names := (names v)(p \<mapsto> i), bytes := (bytes v)(i := []), fds := (fds v)(fd \<mapsto> (i, 0))\<rparr>))"

definition written :: "fd \<Rightarrow> string \<Rightarrow> errno + nat \<Rightarrow> fsview \<Rightarrow> fsview \<Rightarrow> bool" where
  "written fd data r v v' \<longleftrightarrow>
     (case r of
        Inl e \<Rightarrow> v' = v
      | Inr n \<Rightarrow> n \<le> length data \<and> (data \<noteq> [] \<longrightarrow> 0 < n) \<and>
          (\<exists>i off. fds v fd = Some (i, off) \<and>
             v' = v\<lparr>bytes := (bytes v)(i := take off (bytes v i) @ take n data @ drop (off + n) (bytes v i)),
                    fds := (fds v)(fd \<mapsto> (i, off + n))\<rparr>))"

definition renamed :: "string \<Rightarrow> string \<Rightarrow> errno + unit \<Rightarrow> fsview \<Rightarrow> fsview \<Rightarrow> bool" where
  "renamed src dst r v v' \<longleftrightarrow>
     (case r of
        Inl e \<Rightarrow> v' = v
      | Inr _ \<Rightarrow> (\<exists>i. names v src = Some i \<and> v' = v\<lparr>names := (names v)(src := None, dst \<mapsto> i)\<rparr>))"

definition opened :: "string \<Rightarrow> errno + fd \<Rightarrow> fsview \<Rightarrow> fsview \<Rightarrow> bool" where
  "opened p r v v' \<longleftrightarrow>
     (case r of
        Inl e \<Rightarrow> v' = v \<and> (e = ENOENT \<longrightarrow> names v p = None)
      | Inr fd \<Rightarrow> fds v fd = None \<and>
          (\<exists>i. names v p = Some i \<and> v' = v\<lparr>fds := (fds v)(fd \<mapsto> (i, 0))\<rparr>))"

definition removed :: "string \<Rightarrow> errno + bool \<Rightarrow> fsview \<Rightarrow> fsview \<Rightarrow> bool" where
  "removed p r v v' \<longleftrightarrow>
     (case r of
        Inl e \<Rightarrow> v' = v
      | Inr was \<Rightarrow> (was \<longleftrightarrow> names v p \<noteq> None) \<and> v' = v\<lparr>names := (names v)(p := None)\<rparr>)"

text \<open>A read delivers a non-empty piece of what is left behind the offset, or the end.\<close>

definition was_read :: "fd \<Rightarrow> u64 \<Rightarrow> u64 \<Rightarrow> errno + string \<Rightarrow> fsview \<Rightarrow> bool" where
  "was_read fd count offset r v \<longleftrightarrow>
     (case r of
        Inl e \<Rightarrow> True
      | Inr data \<Rightarrow> (\<exists>i off. fds v fd = Some (i, off) \<and>
          prefix data (take (unat count) (drop (unat offset) (bytes v i))) \<and>
          (data = [] \<longrightarrow> take (unat count) (drop (unat offset) (bytes v i)) = [])))"

definition dir_of :: "string \<Rightarrow> string \<Rightarrow> bool" where
  "dir_of d p \<longleftrightarrow> prefix (d @ ''/'') p"

definition listed :: "string \<Rightarrow> errno option \<times> string list \<Rightarrow> fsview \<Rightarrow> bool" where
  "listed d r v \<longleftrightarrow> distinct (snd r) \<and> set (snd r) \<subseteq> {p \<in> dom (names v). dir_of d p} \<and>
     (fst r = None \<longrightarrow> set (snd r) = {p \<in> dom (names v). dir_of d p})"

definition posix_laws :: "'f posix \<Rightarrow> ('f \<Rightarrow> fsview) \<Rightarrow> bool" where
  "posix_laws P view \<longleftrightarrow>
     (\<forall>f p r f'. px_create P f p = (r, f') \<longrightarrow> created p r (view f) (view f')) \<and>
     (\<forall>f fd data r f'. px_write P f fd data = (r, f') \<longrightarrow> written fd data r (view f) (view f')) \<and>
     (\<forall>f fd. view (snd (px_fsync P f fd)) = view f) \<and>
     (\<forall>f fd. view (snd (px_close P f fd)) = (view f)\<lparr>fds := (fds (view f))(fd := None)\<rparr>) \<and>
     (\<forall>f src dst r f'. px_rename P f src dst = (r, f') \<longrightarrow> renamed src dst r (view f) (view f')) \<and>
     (\<forall>f p r f'. px_open P f p = (r, f') \<longrightarrow> opened p r (view f) (view f')) \<and>
     (\<forall>f p r f'. px_opendir P f p = (r, f') \<longrightarrow>
        view f' = view f \<and> (\<forall>fd. r = Inr fd \<longrightarrow> fds (view f) fd = None)) \<and>
     (\<forall>f fd s. px_fstat P f fd = Inr s \<longrightarrow>
        (\<exists>i off. fds (view f) fd = Some (i, off) \<and> unat (st_size s) = length (bytes (view f) i))) \<and>
     (\<forall>f p s. px_stat P f p = Inr s \<longrightarrow>
        (\<exists>i. names (view f) p = Some i \<and> unat (st_size s) = length (bytes (view f) i))) \<and>
     (\<forall>f fd n off r f'. px_pread P f fd n off = (r, f') \<longrightarrow>
        view f' = view f \<and> was_read fd n off r (view f)) \<and>
     (\<forall>f p. view (snd (px_create_directories P f p)) = view f) \<and>
     (\<forall>f p r f'. px_remove P f p = (r, f') \<longrightarrow> removed p r (view f) (view f')) \<and>
     (\<forall>f p b. px_exists P f p = Inr b \<longrightarrow> (b \<longleftrightarrow> names (view f) p \<noteq> None)) \<and>
     (\<forall>f d. listed d (px_walk P f d) (view f))"

section \<open>The laws one by one\<close>

lemma px_create_law: "posix_laws P view \<Longrightarrow> px_create P f p = (r, f') \<Longrightarrow> created p r (view f) (view f')"
  and px_write_law: "posix_laws P view \<Longrightarrow> px_write P f fd data = (x, f') \<Longrightarrow> written fd data x (view f) (view f')"
  and px_fsync_law: "posix_laws P view \<Longrightarrow> px_fsync P f fd = (u, f') \<Longrightarrow> view f' = view f"
  and px_close_law: "posix_laws P view \<Longrightarrow> px_close P f fd = (u, f') \<Longrightarrow>
    view f' = (view f)\<lparr>fds := (fds (view f))(fd := None)\<rparr>"
  and px_rename_law: "posix_laws P view \<Longrightarrow> px_rename P f p q = (u, f') \<Longrightarrow> renamed p q u (view f) (view f')"
  and px_open_law: "posix_laws P view \<Longrightarrow> px_open P f p = (r, f') \<Longrightarrow> opened p r (view f) (view f')"
  and px_opendir_law: "posix_laws P view \<Longrightarrow> px_opendir P f p = (r, f') \<Longrightarrow>
    view f' = view f \<and> (\<forall>fd. r = Inr fd \<longrightarrow> fds (view f) fd = None)"
  and px_fstat_law: "posix_laws P view \<Longrightarrow> px_fstat P f fd = Inr s \<Longrightarrow>
    \<exists>i off. fds (view f) fd = Some (i, off) \<and> unat (st_size s) = length (bytes (view f) i)"
  and px_stat_law: "posix_laws P view \<Longrightarrow> px_stat P f p = Inr s \<Longrightarrow>
    \<exists>i. names (view f) p = Some i \<and> unat (st_size s) = length (bytes (view f) i)"
  and px_pread_law: "posix_laws P view \<Longrightarrow> px_pread P f fd n off = (y, f') \<Longrightarrow>
    view f' = view f \<and> was_read fd n off y (view f)"
  and px_create_directories_law: "posix_laws P view \<Longrightarrow> px_create_directories P f p = (u, f') \<Longrightarrow> view f' = view f"
  and px_remove_law: "posix_laws P view \<Longrightarrow> px_remove P f p = (z, f') \<Longrightarrow> removed p z (view f) (view f')"
  and px_exists_law: "posix_laws P view \<Longrightarrow> px_exists P f p = Inr b \<Longrightarrow> b \<longleftrightarrow> names (view f) p \<noteq> None"
  and px_walk_law: "posix_laws P view \<Longrightarrow> listed d (px_walk P f d) (view f)"
  unfolding posix_laws_def by (blast | metis snd_conv)+

section \<open>A concrete instance\<close>

record memfs =
  m_names :: "(string \<times> nat) list"
  m_bytes :: "(nat \<times> string) list"
  m_fds :: "(fd \<times> nat \<times> nat) list"
  m_next :: nat

definition empty_memfs :: memfs where
  "empty_memfs = \<lparr>m_names = [], m_bytes = [], m_fds = [], m_next = 0\<rparr>"

definition m_content :: "memfs \<Rightarrow> nat \<Rightarrow> string" where
  "m_content f i = (case map_of (m_bytes f) i of None \<Rightarrow> [] | Some s \<Rightarrow> s)"

text \<open>Numbers from \<open>m_next\<close> on are in use neither as an inode nor as a descriptor.\<close>

definition memfs_next :: "memfs \<Rightarrow> nat" where
  "memfs_next f = Suc (fold max (m_next f # map snd (m_names f) @ map fst (m_fds f) @ map (fst \<circ> snd) (m_fds f)) 0)"

definition memory_view_fs :: "memfs \<Rightarrow> fsview" where
  "memory_view_fs f = \<lparr>names = map_of (m_names f), bytes = m_content f, fds = map_of (m_fds f)\<rparr>"

definition mem_create :: "memfs \<Rightarrow> string \<Rightarrow> (errno + fd) \<times> memfs" where
  "mem_create f p =
     (case map_of (m_names f) p of
        Some _ \<Rightarrow> (Inl EEXIST, f)
      | None \<Rightarrow>
          let i = memfs_next f in
          (Inr i, f\<lparr>m_names := AList.update p i (m_names f), m_bytes := AList.update i [] (m_bytes f),
             m_fds := AList.update i (i, 0) (m_fds f), m_next := i\<rparr>))"

definition mem_write :: "nat \<Rightarrow> memfs \<Rightarrow> fd \<Rightarrow> string \<Rightarrow> (errno + nat) \<times> memfs" where
  "mem_write q f fd data =
     (case map_of (m_fds f) fd of
        None \<Rightarrow> (Inl EOTHER, f)
      | Some (i, off) \<Rightarrow>
          let n = min (Suc q) (length data); c = m_content f i in
          (Inr n, f\<lparr>m_bytes := AList.update i (take off c @ take n data @ drop (off + n) c) (m_bytes f),
             m_fds := AList.update fd (i, off + n) (m_fds f)\<rparr>))"

definition mem_rename :: "memfs \<Rightarrow> string \<Rightarrow> string \<Rightarrow> (errno + unit) \<times> memfs" where
  "mem_rename f src dst =
     (case map_of (m_names f) src of
        None \<Rightarrow> (Inl ENOENT, f)
      | Some i \<Rightarrow> (Inr (), f\<lparr>m_names := AList.update dst i (AList.delete src (m_names f))\<rparr>))"

definition mem_open :: "memfs \<Rightarrow> string \<Rightarrow> (errno + fd) \<times> memfs" where
  "mem_open f p =
     (case map_of (m_names f) p of
        None \<Rightarrow> (Inl ENOENT, f)
      | Some i \<Rightarrow> let fd = memfs_next f in
          (Inr fd, f\<lparr>m_fds := AList.update fd (i, 0) (m_fds f), m_next := fd\<rparr>))"

text \<open>A file whose size does not fit into 64 bits cannot be stat'ed.\<close>

definition mem_info :: "string \<Rightarrow> errno + file_info" where
  "mem_info s =
     (let n = of_nat (length s) :: u64 in
      if unat n = length s then Inr \<lparr>st_size = n, st_mtimeMs = 0\<rparr> else Inl EOTHER)"

definition mem_pread :: "nat \<Rightarrow> memfs \<Rightarrow> fd \<Rightarrow> u64 \<Rightarrow> u64 \<Rightarrow> (errno + string) \<times> memfs" where
  "mem_pread q f fd count offset =
     (case map_of (m_fds f) fd of
        None \<Rightarrow> (Inl EOTHER, f)
      | Some (i, off) \<Rightarrow>
          (Inr (take (Suc q) (take (unat count) (drop (unat offset) (m_content f i)))), f))"

definition memory_posix :: "nat \<Rightarrow> memfs posix" where
  "memory_posix q =
     \<lparr>px_create = mem_create, px_write = mem_write q,
      px_fsync = (\<lambda>f fd. (Inr (), f)),
      px_close = (\<lambda>f fd. (Inr (), f\<lparr>m_fds := AList.delete fd (m_fds f)\<rparr>)),
      px_rename = mem_rename, px_open = mem_open,
      px_opendir = (\<lambda>f p. (Inr (memfs_next f), f)),
      px_fstat = (\<lambda>f fd. case map_of (m_fds f) fd of
         None \<Rightarrow> Inl EOTHER | Some (i, off) \<Rightarrow> mem_info (m_content f i)),
      px_stat = (\<lambda>f p. case map_of (m_names f) p of
         None \<Rightarrow> Inl ENOENT | Some i \<Rightarrow> mem_info (m_content f i)),
      px_pread = mem_pread q,
      px_create_directories = (\<lambda>f p. (Inr (), f)),
      px_remove = (\<lambda>f p. (Inr (map_of (m_names f) p \<noteq> None), f\<lparr>m_names := AList.delete p (m_names f)\<rparr>)),
      px_exists = (\<lambda>f p. Inr (map_of (m_names f) p \<noteq> None)),
      px_list = (\<lambda>f d. (None, remdups (filter (dir_of d) (map fst (m_names f))))),
      px_walk = (\<lambda>f d. (None, remdups (filter (dir_of d) (map fst (m_names f))))),
      px_statvfs = (\<lambda>f p. Inr \<lparr>f_frsize = 4096, f_bsize = 4096, f_blocks = 1000000, f_bfree = 500000,
         f_bavail = 400000\<rparr>)\<rparr>"

lemma fold_max_ge: "x \<in> set xs \<or> x \<le> n \<Longrightarrow> x \<le> fold max xs (n::nat)"
  by (induction xs arbitrary: n) (auto simp: le_max_iff_disj)

lemma less_memfs_next:
  "map_of (m_names f) p = Some i \<Longrightarrow> i < memfs_next f"
  "map_of (m_fds f) fd = Some (j, off) \<Longrightarrow> fd < memfs_next f \<and> j < memfs_next f"
proof -
  have le: "x \<in> set (m_next f # map snd (m_names f) @ map fst (m_fds f) @ map (fst \<circ> snd) (m_fds f)) \<Longrightarrow>
      x < memfs_next f" for x
    unfolding memfs_next_def less_Suc_eq_le by (rule fold_max_ge, rule disjI1)
  show "i < memfs_next f" if "map_of (m_names f) p = Some i"
    using map_of_SomeD [OF that] by (intro le) (auto intro: rev_image_eqI)
  show "fd < memfs_next f \<and> j < memfs_next f" if "map_of (m_fds f) fd = Some (j, off)"
    using map_of_SomeD [OF that] by (intro conjI le) (auto intro: rev_image_eqI)
qed

lemma map_of_m_next [simp]: "map_of (m_fds f) (memfs_next f) = None"
  using less_memfs_next(2) [of f "memfs_next f"] by (cases "map_of (m_fds f) (memfs_next f)") auto

lemma m_content_update [simp]:
  "m_content (f\<lparr>m_bytes := AList.update i s (m_bytes f)\<rparr>) = (m_content f)(i := s)"
  by (auto simp: m_content_def update_conv' fun_eq_iff)

lemma m_content_other [simp]:
  "m_content (f\<lparr>m_names := x\<rparr>) = m_content f" "m_content (f\<lparr>m_fds := y\<rparr>) = m_content f"
  "m_content (f\<lparr>m_next := z\<rparr>) = m_content f"
  by (simp_all add: m_content_def fun_eq_iff)

lemma memory_view_fields [simp]:
  "names (memory_view_fs f) = map_of (m_names f)" "bytes (memory_view_fs f) = m_content f"
  "fds (memory_view_fs f) = map_of (m_fds f)"
  by (simp_all add: memory_view_fs_def)

lemma fsview_eqI: "names v = names w \<Longrightarrow> bytes v = bytes w \<Longrightarrow> fds v = fds w \<Longrightarrow> v = (w :: fsview)"
  by simp

lemma memory_fresh: "fresh_inode (memfs_next f) (memory_view_fs f)"
  using less_memfs_next by (fastforce simp: fresh_inode_def ran_def)

lemma mem_create_law: "mem_create f p = (r, f') \<Longrightarrow> created p r (memory_view_fs f) (memory_view_fs f')"
  using memory_fresh [of f]
  by (auto simp: mem_create_def created_def Let_def split: option.splits
      intro!: exI [of _ "memfs_next f"] fsview_eqI)
    (simp_all add: update_conv' fun_eq_iff m_content_def)

lemma mem_write_law: "mem_write q f fd data = (x, f') \<Longrightarrow> written fd data x (memory_view_fs f) (memory_view_fs f')"
  by (auto simp: mem_write_def written_def Let_def split: option.splits intro!: fsview_eqI)
    (simp_all add: update_conv' fun_eq_iff m_content_def)

lemma mem_rename_law: "mem_rename f p q = (r, f') \<Longrightarrow> renamed p q r (memory_view_fs f) (memory_view_fs f')"
  by (auto simp: mem_rename_def renamed_def split: option.splits intro!: fsview_eqI)
    (simp_all add: update_conv' delete_conv' fun_eq_iff)

lemma mem_open_law: "mem_open f p = (r, f') \<Longrightarrow> opened p r (memory_view_fs f) (memory_view_fs f')"
  by (auto simp: mem_open_def opened_def Let_def split: option.splits intro!: fsview_eqI)
    (simp_all add: update_conv' fun_eq_iff)

lemma mem_info_size: "mem_info s = Inr i \<Longrightarrow> unat (st_size i) = length s"
  by (auto simp: mem_info_def Let_def split: if_splits)

lemma mem_pread_law:
  "mem_pread q f fd n off = (y, f') \<Longrightarrow> f' = f \<and> was_read fd n off y (memory_view_fs f)"
proof -
  have "prefix (take (Suc q) s) s" "take (Suc q) s = [] \<Longrightarrow> s = []" for s :: string
    by (auto simp: take_is_prefix)
  then show "mem_pread q f fd n off = (y, f') \<Longrightarrow> f' = f \<and> was_read fd n off y (memory_view_fs f)"
    unfolding mem_pread_def was_read_def by (auto simp del: take_take split: option.splits)
qed

lemma memory_posix_laws: "posix_laws (memory_posix q) memory_view_fs"
  unfolding posix_laws_def
proof (intro conjI)
  show "\<forall>f fd. memory_view_fs (snd (px_close (memory_posix q) f fd)) =
      (memory_view_fs f)\<lparr>fds := (fds (memory_view_fs f))(fd := None)\<rparr>"
    by (auto simp: memory_posix_def delete_conv' intro!: fsview_eqI)
  show "\<forall>f p r f'. px_remove (memory_posix q) f p = (r, f') \<longrightarrow>
      removed p r (memory_view_fs f) (memory_view_fs f')"
    by (auto simp: memory_posix_def removed_def delete_conv' intro!: fsview_eqI)
  show "\<forall>f d. listed d (px_walk (memory_posix q) f d) (memory_view_fs f)"
    by (auto simp: memory_posix_def listed_def dom_map_of_conv_image_fst)
qed (auto simp: memory_posix_def mem_create_law mem_write_law mem_rename_law mem_open_law
    dest!: mem_pread_law mem_info_size split: option.splits prod.splits)

end
