(* ===== verification/Digest.thy ===== *)
theory Digest
  imports Errors
begin

text \<open>
  Payload digests (storage/digest.hpp, storage/digest.cpp): the MD5 and SHA-256 an object is
  recorded under, hexadecimal rendering and the ETag of a multipart object. The two hash
  functions are OpenSSL's, the parameter \<open>H\<close> of type \<open>hashes\<close>; feeding a context piece by piece
  is feeding it the concatenation. OpenSSL's own failures (allocation) are not modelled.
\<close>

section \<open>Hexadecimal\<close>

definition kHexDigits :: string where
  "kHexDigits = ''0123456789abcdef''"

definition toHex :: "string \<Rightarrow> string" where
  "toHex bytes =
     concat (map (\<lambda>b. [kHexDigits ! unat (drop_bit 4 (byte_val b :: u8)),
                       kHexDigits ! unat ((byte_val b :: u8) AND 0x0F)]) bytes)"

definition nibble :: "char \<Rightarrow> exn + u8" where
  "nibble c =
     (if CHR ''0'' \<le> c \<and> c \<le> CHR ''9'' then Inr (byte_val c - byte_val (CHR ''0''))
      else if CHR ''a'' \<le> c \<and> c \<le> CHR ''f'' then Inr (byte_val c - byte_val (CHR ''a'') + 10)
      else if CHR ''A'' \<le> c \<and> c \<le> CHR ''F'' then Inr (byte_val c - byte_val (CHR ''A'') + 10)
      else Inl InvalidArgument)"

section \<open>Digests\<close>

record hashes =
  md5_raw :: "string \<Rightarrow> string"
  sha256_raw :: "string \<Rightarrow> string"

text \<open>What the two contexts have been fed, and the count kept beside them.\<close>

record Digest =
  d_data :: string
  d_bytes :: u64

definition new_digest :: Digest where
  "new_digest = \<lparr>d_data = [], d_bytes = 0\<rparr>"

definition digest_update :: "string \<Rightarrow> Digest \<Rightarrow> Digest" where
  "digest_update data d =
     (if data = [] then d
      else d\<lparr>d_data := d_data d @ data, d_bytes := d_bytes d + of_nat (length data)\<rparr>)"

record DigestResult =
  dr_md5 :: string
  dr_sha256 :: string
  dr_bytes :: u64

definition digest_finish :: "hashes \<Rightarrow> Digest \<Rightarrow> DigestResult" where
  "digest_finish H d = \<lparr>dr_md5 = toHex (md5_raw H (d_data d)), dr_sha256 = toHex (sha256_raw H (d_data d)),
     dr_bytes = d_bytes d\<rparr>"

definition md5Hex :: "hashes \<Rightarrow> string \<Rightarrow> string" where
  "md5Hex H data = toHex (md5_raw H data)"

definition sha256Hex :: "hashes \<Rightarrow> string \<Rightarrow> string" where
  "sha256Hex H data = toHex (sha256_raw H data)"

section \<open>The ETag of a multipart object\<close>

text \<open>The loop over the sixteen bytes of one part's digest.\<close>

fun raw_bytes :: "string \<Rightarrow> exn + string" where
  "raw_bytes (hi # lo # hex) =
     (case nibble hi of
        Inl e \<Rightarrow> Inl e
      | Inr h \<Rightarrow>
          (case nibble lo of
             Inl e \<Rightarrow> Inl e
           | Inr l \<Rightarrow>
               (case raw_bytes hex of
                  Inl e \<Rightarrow> Inl e
                | Inr raw \<Rightarrow> Inr (byte_of (push_bit 4 h OR l) # raw))))"
| "raw_bytes _ = Inr []"

fun etag_loop :: "string list \<Rightarrow> string \<Rightarrow> exn + string" where
  "etag_loop [] fed = Inr fed"
| "etag_loop (hex # rest) fed =
     (if length hex \<noteq> 32 then Inl InvalidArgument
      else case raw_bytes hex of
        Inl e \<Rightarrow> Inl e
      | Inr raw \<Rightarrow> etag_loop rest (fed @ raw))"

definition multipartETag :: "hashes \<Rightarrow> string list \<Rightarrow> exn + string" where
  "multipartETag H partMd5Hex =
     (case etag_loop partMd5Hex [] of
        Inl e \<Rightarrow> Inl e
      | Inr fed \<Rightarrow> Inr (toHex (md5_raw H fed) @ ''-'' @ to_string (length partMd5Hex)))"

section \<open>Facts\<close>

lemma toHex_simps [simp]:
  "toHex [] = []"
  "toHex (b # bs) = kHexDigits ! unat (drop_bit 4 (byte_val b :: u8)) #
     kHexDigits ! unat ((byte_val b :: u8) AND 0x0F) # toHex bs"
  by (simp_all add: toHex_def)

lemma length_toHex [simp]: "length (toHex bs) = 2 * length bs"
  by (induction bs) simp_all

lemma nibble_kHexDigits: "n < 16 \<Longrightarrow> nibble (kHexDigits ! n) = Inr (of_nat n)"
proof -
  assume "n < 16"
  then have "n \<in> set [0..<16]" by simp
  moreover have "\<forall>n\<in>set [0..<16]. nibble (kHexDigits ! n) = Inr (of_nat n)"
    by code_simp
  ultimately show ?thesis by blast
qed

lemma u8_nibbles:
  "unat (drop_bit 4 (w :: u8)) < 16" "unat (w AND 0x0F) < 16"
  "push_bit 4 (drop_bit 4 w) OR (w AND 0x0F) = w"
proof -
  show "unat (drop_bit 4 w) < 16"
    using unsigned_less [where 'a = nat, of w]
    by (simp add: unsigned_drop_bit_eq drop_bit_nat_def less_mult_imp_div_less take_bit_nat_eq_self)
  have "w AND 0x0F = take_bit 4 w"
    by (simp add: take_bit_eq_mask mask_eq_exp_minus_1)
  moreover have "unat (take_bit 4 w) < 2 ^ 4"
    unfolding unsigned_take_bit_eq by (rule take_bit_nat_less_exp)
  ultimately show "unat (w AND 0x0F) < 16" by simp
  have "push_bit 4 (drop_bit 4 w) OR take_bit 4 w = w"
    by (rule bit_word_eqI) (auto simp: bit_simps)
  then show "push_bit 4 (drop_bit 4 w) OR (w AND 0x0F) = w"
    by (simp only: \<open>w AND 0x0F = take_bit 4 w\<close>)
qed

lemma byte_of_byte_val_8 [simp]: "byte_of (byte_val c :: u8) = c"
  by (simp flip: uchar_inject add: uchar_byte_of)

lemma raw_bytes_toHex [simp]: "raw_bytes (toHex bs) = Inr bs"
  by (induction bs) (simp_all add: nibble_kHexDigits u8_nibbles)

lemma etag_loop_toHex:
  "\<forall>d\<in>set ds. length d = 16 \<Longrightarrow> etag_loop (map toHex ds) fed = Inr (fed @ concat ds)"
  by (induction ds arbitrary: fed) simp_all

lemma foldl_digest_update:
  "d_data (foldl (\<lambda>d x. digest_update x d) d pieces) = d_data d @ concat pieces"
  by (induction pieces arbitrary: d) (simp_all add: digest_update_def)

lemma digest_update_data [simp]: "d_data (digest_update x d) = d_data d @ x"
  by (simp add: digest_update_def)

lemma digest_update_bytes [simp]: "d_bytes (digest_update x d) = d_bytes d + of_nat (length x)"
  by (simp add: digest_update_def)

text \<open>
  The ETag of an assembled object is the digest of the raw digests of its parts, whatever way
  those were rendered, followed by their number.
\<close>

lemma multipartETag_parts:
  assumes "\<forall>d\<in>set ds. length d = 16"
  shows "multipartETag H (map toHex ds) = Inr (md5Hex H (concat ds) @ ''-'' @ to_string (length ds))"
  by (simp add: multipartETag_def etag_loop_toHex [OF assms] md5Hex_def)

lemma nibble_Inl: "nibble c = Inl e \<Longrightarrow> e = InvalidArgument"
  by (simp add: nibble_def split: if_splits)

lemma raw_bytes_Inl: "raw_bytes x = Inl e \<Longrightarrow> e = InvalidArgument"
proof (induction x rule: raw_bytes.induct)
  case (1 hi lo hex)
  from 1(2) consider "nibble hi = Inl e" | "nibble lo = Inl e"
    | h l where "nibble hi = Inr h" "nibble lo = Inr l" "raw_bytes hex = Inl e"
    by (simp split: sum.splits)
  then show ?case
    by cases (auto dest: nibble_Inl 1(1))
qed simp_all

lemma multipartETag_malformed:
  "hex \<in> set hexes \<Longrightarrow> length hex \<noteq> 32 \<Longrightarrow> multipartETag H hexes = Inl InvalidArgument"
proof -
  assume "hex \<in> set hexes" "length hex \<noteq> 32"
  then have "etag_loop hexes fed = Inl InvalidArgument" for fed
  proof (induction hexes arbitrary: fed)
    case (Cons x hexes)
    show ?case
    proof (cases "raw_bytes x")
      case (Inl e)
      with raw_bytes_Inl [OF Inl] show ?thesis by simp
    next
      case (Inr raw)
      with Cons show ?thesis by auto
    qed
  qed simp
  then show ?thesis by (simp add: multipartETag_def)
qed

end
