(* ===== verification/Blob_Store.thy ===== *)
theory Blob_Store
  imports Posix Digest Records
begin

text \<open>
  Payload files (storage/blob_store.hpp, storage/blob_store.cpp): the writer that streams a
  payload into a temporary and publishes it with one \<open>rename\<close>, the reader with its range, and
  the tree of published payloads. The system calls are the parameter \<open>P\<close> of \<open>Posix\<close>, the
  hashes the parameter \<open>H\<close>, the two draws of the random generator arguments of \<open>newBlobId\<close>.

  An operation that may not return has an option as its result: \<open>retryOnInterrupt\<close> spins as
  long as the call is interrupted, \<open>write\<close> as long as the kernel takes no byte. An exception
  leaves the writer and the file system as they are at the throw; what the destructors then
  do is \<open>writer_abort\<close> and \<open>reader_close\<close>, applied where the object goes out of scope.
\<close>

section \<open>System calls\<close>

partial_function (option) retryOnInterrupt ::
  "('f \<Rightarrow> (errno + 'a) \<times> 'f) \<Rightarrow> 'f \<Rightarrow> ((errno + 'a) \<times> 'f) option" where
  "retryOnInterrupt fn f =
     (case fn f of
        (Inl e, f) \<Rightarrow> if e = EINTR then retryOnInterrupt fn f else Some (Inl e, f)
      | (Inr x, f) \<Rightarrow> Some (Inr x, f))"

declare retryOnInterrupt.simps [code]

type_synonym ('f, 'a) io = "'f \<Rightarrow> ((exn + 'a) \<times> 'f) option"

definition fsyncFile :: "'f posix \<Rightarrow> fd \<Rightarrow> ('f, unit) io" where
  "fsyncFile P fd f =
     (case retryOnInterrupt (\<lambda>f. px_fsync P f fd) f of
        None \<Rightarrow> None
      | Some (Inl _, f) \<Rightarrow> Some (Inl (StorageError Io), f)
      | Some (Inr _, f) \<Rightarrow> Some (Inr (), f))"

definition fsyncDirectory :: "'f posix \<Rightarrow> string \<Rightarrow> ('f, unit) io" where
  "fsyncDirectory P path f =
     (case retryOnInterrupt (\<lambda>f. px_opendir P f path) f of
        None \<Rightarrow> None
      | Some (Inl _, f) \<Rightarrow> Some (Inl (StorageError Io), f)
      | Some (Inr fd, f) \<Rightarrow>
          (case retryOnInterrupt (\<lambda>f. px_fsync P f fd) f of
             None \<Rightarrow> None
           | Some (result, f) \<Rightarrow>
               let f = snd (px_close P f fd) in
               (case result of
                  Inl _ \<Rightarrow> Some (Inl (StorageError Io), f)
                | Inr _ \<Rightarrow> Some (Inr (), f))))"

definition createDirectories :: "'f posix \<Rightarrow> string \<Rightarrow> 'f \<Rightarrow> (exn + unit) \<times> 'f" where
  "createDirectories P path f =
     (case px_create_directories P f path of
        (Inl _, f) \<Rightarrow> (Inl (StorageError Io), f)
      | (Inr _, f) \<Rightarrow> (Inr (), f))"

section \<open>Blob ids\<close>

fun id_half :: "nat \<Rightarrow> u64 \<Rightarrow> string" where
  "id_half 0 v = []"
| "id_half (Suc n) v = kHexDigits ! unat (v AND 0x0F) # id_half n (drop_bit 4 v)"

definition newBlobId :: "u64 \<Rightarrow> u64 \<Rightarrow> string" where
  "newBlobId first second = id_half 16 first @ id_half 16 second"

definition isValidBlobId :: "string \<Rightarrow> bool" where
  "isValidBlobId blobId \<longleftrightarrow>
     length blobId = 32 \<and>
     list_all (\<lambda>c. (CHR ''0'' \<le> c \<and> c \<le> CHR ''9'') \<or> (CHR ''a'' \<le> c \<and> c \<le> CHR ''f'')) blobId"

section \<open>The store\<close>

record blob_store =
  bs_root :: string
  bs_objectsDir :: string
  bs_temporaryDir :: string
  bs_durability :: Durability
  bs_chunkBytes :: u64

text \<open>\<open>std::filesystem::path\<close>'s \<open>operator/\<close> with a relative right-hand side.\<close>

definition path_join :: "string \<Rightarrow> string \<Rightarrow> string" where
  "path_join a b = (if a = [] \<or> last a = CHR ''/'' then a @ b else a @ ''/'' @ b)"

definition new_blob_store ::
  "'f posix \<Rightarrow> string \<Rightarrow> Durability \<Rightarrow> u64 \<Rightarrow> 'f \<Rightarrow> (exn + blob_store) \<times> 'f" where
  "new_blob_store P root durability chunkBytes f =
     (let bs = \<lparr>bs_root = root, bs_objectsDir = path_join root ''objects'',
            bs_temporaryDir = path_join root ''tmp'', bs_durability = durability,
            bs_chunkBytes = max chunkBytes 4096\<rparr>
      in case createDirectories P (bs_objectsDir bs) f of
           (Inl e, f) \<Rightarrow> (Inl e, f)
         | (Inr _, f) \<Rightarrow>
             (case createDirectories P (bs_temporaryDir bs) f of
                (Inl e, f) \<Rightarrow> (Inl e, f)
              | (Inr _, f) \<Rightarrow> (Inr bs, f)))"

text \<open>The directory of a payload, \<open>pathFor(blobId).parent_path()\<close>, and its full path.\<close>

definition shard_dir :: "blob_store \<Rightarrow> string \<Rightarrow> string" where
  "shard_dir bs blobId =
     path_join (path_join (bs_objectsDir bs) (take 2 blobId)) (take 2 (drop 2 blobId))"

definition pathFor :: "blob_store \<Rightarrow> string \<Rightarrow> exn + string" where
  "pathFor bs blobId =
     (if \<not> isValidBlobId blobId then Inl (StorageError Corruption)
      else Inr (path_join (shard_dir bs blobId) blobId))"

section \<open>The reader\<close>

record BlobReader =
  rd_fd :: fd
  rd_size :: u64
  rd_offset :: u64
  rd_end :: u64

definition blob_open :: "'f posix \<Rightarrow> blob_store \<Rightarrow> string \<Rightarrow> ('f, BlobReader) io" where
  "blob_open P bs blobId f =
     (case pathFor bs blobId of
        Inl e \<Rightarrow> Some (Inl e, f)
      | Inr path \<Rightarrow>
          (case retryOnInterrupt (\<lambda>f. px_open P f path) f of
             None \<Rightarrow> None
           | Some (Inl e, f) \<Rightarrow>
               if e = ENOENT then Some (Inl (StorageError NoSuchKey), f)
               else Some (Inl (StorageError Io), f)
           | Some (Inr fd, f) \<Rightarrow>
               (case px_fstat P f fd of
                  Inl _ \<Rightarrow> Some (Inl (StorageError Io), snd (px_close P f fd))
                | Inr info \<Rightarrow>
                    Some (Inr \<lparr>rd_fd = fd, rd_size = st_size info, rd_offset = 0,
                               rd_end = st_size info\<rparr>, f))))"

definition limitTo :: "u64 \<Rightarrow> u64 \<Rightarrow> BlobReader \<Rightarrow> BlobReader" where
  "limitTo offset len r =
     (let first = min offset (rd_size r) in
      r\<lparr>rd_offset := first,
        rd_end := (if rd_size r - first < len then rd_size r else first + len)\<rparr>)"

definition reader_remaining :: "BlobReader \<Rightarrow> u64" where
  "reader_remaining r = (if rd_offset r < rd_end r then rd_end r - rd_offset r else 0)"

text \<open>The bytes read, none at the end of the range.\<close>

definition blob_read ::
  "'f posix \<Rightarrow> BlobReader \<Rightarrow> u64 \<Rightarrow> 'f \<Rightarrow> ((exn + string) \<times> BlobReader \<times> 'f) option" where
  "blob_read P r space f =
     (let available = reader_remaining r in
      if available = 0 \<or> space = 0 then Some (Inr [], r, f)
      else
        (case retryOnInterrupt (\<lambda>f. px_pread P f (rd_fd r) (min space available) (rd_offset r)) f of
           None \<Rightarrow> None
         | Some (Inl _, f) \<Rightarrow> Some (Inl (StorageError Io), r, f)
         | Some (Inr got, f) \<Rightarrow>
             if got = [] then Some (Inl (StorageError Corruption), r, f)
             else Some (Inr got, r\<lparr>rd_offset := rd_offset r + of_nat (length got)\<rparr>, f)))"

definition reader_close :: "'f posix \<Rightarrow> BlobReader \<Rightarrow> 'f \<Rightarrow> 'f" where
  "reader_close P r f = snd (px_close P f (rd_fd r))"

section \<open>The writer\<close>

record BlobWriter =
  w_blobId :: string
  w_fd :: "fd option"
  w_temporaryPath :: string
  w_digest :: Digest
  w_committed :: bool

record Committed =
  cm_blobId :: string
  cm_size :: u64
  cm_md5 :: string
  cm_sha256 :: string

definition blob_create :: "'f posix \<Rightarrow> blob_store \<Rightarrow> u64 \<Rightarrow> u64 \<Rightarrow> ('f, BlobWriter) io" where
  "blob_create P bs first second f =
     (let blobId = newBlobId first second;
          temporary = path_join (bs_temporaryDir bs) (blobId @ ''.part'')
      in case retryOnInterrupt (\<lambda>f. px_create P f temporary) f of
           None \<Rightarrow> None
         | Some (Inl _, f) \<Rightarrow> Some (Inl (StorageError Io), f)
         | Some (Inr fd, f) \<Rightarrow>
             Some (Inr \<lparr>w_blobId = blobId, w_fd = Some fd, w_temporaryPath = temporary,
                        w_digest = new_digest, w_committed = False\<rparr>, f))"

partial_function (option) write_loop :: "'f posix \<Rightarrow> fd \<Rightarrow> string \<Rightarrow> ('f, unit) io" where
  "write_loop P fd data f =
     (if data = [] then Some (Inr (), f)
      else case retryOnInterrupt (\<lambda>f. px_write P f fd data) f of
        None \<Rightarrow> None
      | Some (Inl _, f) \<Rightarrow> Some (Inl (StorageError Io), f)
      | Some (Inr n, f) \<Rightarrow> write_loop P fd (drop n data) f)"

declare write_loop.simps [code]

type_synonym ('f, 'a) writing = "BlobWriter \<Rightarrow> 'f \<Rightarrow> ((exn + 'a) \<times> BlobWriter \<times> 'f) option"

definition blob_write :: "'f posix \<Rightarrow> string \<Rightarrow> ('f, unit) writing" where
  "blob_write P data w f =
     (case w_fd w of
        None \<Rightarrow> Some (Inl (StorageError Internal), w, f)
      | Some fd \<Rightarrow>
          (case write_loop P fd data f of
             None \<Rightarrow> None
           | Some (Inl e, f) \<Rightarrow> Some (Inl e, w, f)
           | Some (Inr _, f) \<Rightarrow> Some (Inr (), w\<lparr>w_digest := digest_update data (w_digest w)\<rparr>, f)))"

partial_function (option) append_loop ::
  "'f posix \<Rightarrow> u64 \<Rightarrow> BlobReader \<Rightarrow> BlobWriter \<Rightarrow> 'f \<Rightarrow>
   ((exn + unit) \<times> BlobReader \<times> BlobWriter \<times> 'f) option" where
  "append_loop P chunkBytes source w f =
     (case blob_read P source chunkBytes f of
        None \<Rightarrow> None
      | Some (Inl e, source, f) \<Rightarrow> Some (Inl e, source, w, f)
      | Some (Inr data, source, f) \<Rightarrow>
          if data = [] then Some (Inr (), source, w, f)
          else
            (case blob_write P data w f of
               None \<Rightarrow> None
             | Some (Inl e, w, f) \<Rightarrow> Some (Inl e, source, w, f)
             | Some (Inr _, w, f) \<Rightarrow> append_loop P chunkBytes source w f))"

declare append_loop.simps [code]

definition appendBlob :: "'f posix \<Rightarrow> blob_store \<Rightarrow> string \<Rightarrow> ('f, unit) writing" where
  "appendBlob P bs blobId w f =
     (case blob_open P bs blobId f of
        None \<Rightarrow> None
      | Some (Inl e, f) \<Rightarrow> Some (Inl e, w, f)
      | Some (Inr source, f) \<Rightarrow>
          (case append_loop P (bs_chunkBytes bs) source w f of
             None \<Rightarrow> None
           | Some (result, source, w, f) \<Rightarrow> Some (result, w, reader_close P source f)))"

text \<open>What follows the close: the shard directory, the rename and, under \<open>Strict\<close>, its flush.\<close>

definition publish ::
  "'f posix \<Rightarrow> hashes \<Rightarrow> blob_store \<Rightarrow> Durability \<Rightarrow> ('f, Committed) writing" where
  "publish P H bs durability w f =
     (case pathFor bs (w_blobId w) of
        Inl e \<Rightarrow> Some (Inl e, w, f)
      | Inr finalPath \<Rightarrow>
          (case createDirectories P (shard_dir bs (w_blobId w)) f of
             (Inl e, f) \<Rightarrow> Some (Inl e, w, f)
           | (Inr _, f) \<Rightarrow>
               (case px_rename P f (w_temporaryPath w) finalPath of
                  (Inl _, f) \<Rightarrow> Some (Inl (StorageError Io), w, f)
                | (Inr _, f) \<Rightarrow>
                    let w = w\<lparr>w_committed := True\<rparr>;
                        result = digest_finish H (w_digest w);
                        committed = \<lparr>cm_blobId = w_blobId w, cm_size = dr_bytes result,
                          cm_md5 = dr_md5 result, cm_sha256 = dr_sha256 result\<rparr>
                    in if durability = Strict
                       then (case fsyncDirectory P (shard_dir bs (w_blobId w)) f of
                               None \<Rightarrow> None
                             | Some (Inl e, f) \<Rightarrow> Some (Inl e, w, f)
                             | Some (Inr _, f) \<Rightarrow> Some (Inr committed, w, f))
                       else Some (Inr committed, w, f))))"

definition blob_commit ::
  "'f posix \<Rightarrow> hashes \<Rightarrow> blob_store \<Rightarrow> Durability \<Rightarrow> ('f, Committed) writing" where
  "blob_commit P H bs durability w f =
     (if w_committed w then Some (Inl (StorageError Internal), w, f)
      else case w_fd w of
        None \<Rightarrow> Some (Inl (StorageError Internal), w, f)
      | Some fd \<Rightarrow>
          (case (if durability \<noteq> DurabilityNone then fsyncFile P fd f else Some (Inr (), f)) of
             None \<Rightarrow> None
           | Some (Inl e, f) \<Rightarrow> Some (Inl e, w, f)
           | Some (Inr _, f) \<Rightarrow>
               (case px_close P f fd of
                  (Inl _, f) \<Rightarrow> Some (Inl (StorageError Io), w\<lparr>w_fd := None\<rparr>, f)
                | (Inr _, f) \<Rightarrow> publish P H bs durability (w\<lparr>w_fd := None\<rparr>) f)))"

text \<open>
  \<open>abort\<close>, which is also the destructor: it swallows every error and is idempotent.
\<close>

definition writer_abort :: "'f posix \<Rightarrow> BlobWriter \<Rightarrow> 'f \<Rightarrow> BlobWriter \<times> 'f" where
  "writer_abort P w f =
     (let f = (case w_fd w of None \<Rightarrow> f | Some fd \<Rightarrow> snd (px_close P f fd));
          w = w\<lparr>w_fd := None\<rparr>
      in if \<not> w_committed w \<and> w_temporaryPath w \<noteq> []
         then (w\<lparr>w_committed := True\<rparr>, snd (px_remove P f (w_temporaryPath w)))
         else (w, f))"

definition writer_written :: "BlobWriter \<Rightarrow> u64" where
  "writer_written w = d_bytes (w_digest w)"

text \<open>The move constructor: the new writer and what is left of the old one.\<close>

definition writer_move :: "BlobWriter \<Rightarrow> BlobWriter \<times> BlobWriter" where
  "writer_move w = (w, w\<lparr>w_fd := None, w_committed := True\<rparr>)"

section \<open>The tree\<close>

definition blob_exists :: "'f posix \<Rightarrow> blob_store \<Rightarrow> string \<Rightarrow> 'f \<Rightarrow> bool" where
  "blob_exists P bs blobId f =
     (case pathFor bs blobId of
        Inl _ \<Rightarrow> False
      | Inr path \<Rightarrow> (case px_exists P f path of Inl _ \<Rightarrow> False | Inr b \<Rightarrow> b))"

definition blob_remove :: "'f posix \<Rightarrow> blob_store \<Rightarrow> string \<Rightarrow> 'f \<Rightarrow> bool \<times> 'f" where
  "blob_remove P bs blobId f =
     (case pathFor bs blobId of
        Inl _ \<Rightarrow> (False, f)
      | Inr path \<Rightarrow>
          (case px_remove P f path of
             (Inl _, f) \<Rightarrow> (False, f)
           | (Inr was, f) \<Rightarrow> (was, f)))"

definition sizeOf :: "'f posix \<Rightarrow> blob_store \<Rightarrow> string \<Rightarrow> 'f \<Rightarrow> exn + u64" where
  "sizeOf P bs blobId f =
     (case pathFor bs blobId of
        Inl e \<Rightarrow> Inl e
      | Inr path \<Rightarrow>
          (case px_stat P f path of Inl _ \<Rightarrow> Inl (StorageError Io) | Inr info \<Rightarrow> Inr (st_size info)))"

fun sweep_loop :: "'f posix \<Rightarrow> string list \<Rightarrow> nat \<Rightarrow> 'f \<Rightarrow> nat \<times> 'f" where
  "sweep_loop P [] n f = (n, f)"
| "sweep_loop P (path # rest) n f =
     (case px_remove P f path of
        (Inl _, f) \<Rightarrow> sweep_loop P rest n f
      | (Inr was, f) \<Rightarrow> sweep_loop P rest (if was then n + 1 else n) f)"

definition sweepTemporaries :: "'f posix \<Rightarrow> blob_store \<Rightarrow> 'f \<Rightarrow> nat \<times> 'f" where
  "sweepTemporaries P bs f = sweep_loop P (snd (px_list P f (bs_temporaryDir bs))) 0 f"

record TreeEntry =
  te_blobId :: string
  te_size :: u64
  te_modifiedMs :: i64
  te_wellFormed :: bool

text \<open>\<open>path().filename()\<close>: what follows the last separator.\<close>

definition filename :: "string \<Rightarrow> string" where
  "filename p = rev (takeWhile (\<lambda>c. c \<noteq> CHR ''/'') (rev p))"

fun tree_entries :: "'f posix \<Rightarrow> 'f \<Rightarrow> string list \<Rightarrow> TreeEntry list" where
  "tree_entries P f [] = []"
| "tree_entries P f (path # rest) =
     (case px_stat P f path of
        Inl _ \<Rightarrow> tree_entries P f rest
      | Inr info \<Rightarrow>
          \<lparr>te_blobId = filename path, te_size = st_size info, te_modifiedMs = st_mtimeMs info,
           te_wellFormed = isValidBlobId (filename path)\<rparr> # tree_entries P f rest)"

text \<open>The entries \<open>forEachBlob\<close> visits, in order; it returns how many they are.\<close>

definition forEachBlob :: "'f posix \<Rightarrow> blob_store \<Rightarrow> 'f \<Rightarrow> TreeEntry list" where
  "forEachBlob P bs f = tree_entries P f (snd (px_walk P f (bs_objectsDir bs)))"

record SpaceInfo =
  totalBytes :: u64
  freeBytes :: u64
  availableBytes :: u64

definition blob_space :: "'f posix \<Rightarrow> blob_store \<Rightarrow> 'f \<Rightarrow> exn + SpaceInfo" where
  "blob_space P bs f =
     (case px_statvfs P f (bs_root bs) of
        Inl _ \<Rightarrow> Inl (StorageError Io)
      | Inr info \<Rightarrow>
          let unit = (if f_frsize info \<noteq> 0 then f_frsize info else f_bsize info) in
          Inr \<lparr>totalBytes = f_blocks info * unit, freeBytes = f_bfree info * unit,
               availableBytes = f_bavail info * unit\<rparr>)"

end
