(* ===== verification/Storage_Engine.thy ===== *)
theory Storage_Engine
  imports Listing Quota Blob_Store
begin

text \<open>
  The storage engine (storage/storage_engine.hpp, storage/storage_engine.cpp): the payload
  store, the metadata store and the quota ledger behind one surface, and the order in which
  an operation touches them.

  The state record \<open>engine\<close> holds the three components, the two atomics and the options; the
  libraries below are the record \<open>platform\<close>. An operation is a function of the state to its
  exception or result and the state it leaves; one that moves payload bytes may also not
  return, and then has an option as its result. \<open>clock i\<close> is the \<open>i\<close>-th reading of \<open>nowMs()\<close> an
  operation takes, the reading inside a call of the metadata store included. Exceptions run
  the destructors of what is in scope: the claim is released and the writer aborted.
\<close>

section \<open>State\<close>

record EngineOptions =
  eo_dataDir :: string
  eo_durability :: Durability
  eo_chunkBytes :: u64
  eo_reclaimGraceMs :: i64
  eo_multipartExpiryMs :: i64
  eo_allocatableBytes :: u64
  eo_capacityReservePercent :: u32
  eo_defaultBucketQuotaBytes :: u64
  eo_maxUploadBytes :: u64
  eo_maxUploadCeilingBytes :: u64

record ('db, 'f) platform =
  pl_rocks :: "'db rocksdb"
  pl_posix :: "'f posix"
  pl_hashes :: hashes
  pl_evp :: evp

record ('db, 'f) engine =
  e_options :: EngineOptions
  e_fs :: 'f
  e_blobs :: blob_store
  e_meta :: "'db store"
  e_quotas :: ledger
  e_maxUploadBytes :: u64
  e_checkpointing :: bool

text \<open>Operations that return, and operations that may not.\<close>

type_synonym ('s, 'a) eop = "'s \<Rightarrow> (exn + 'a) \<times> 's"
type_synonym ('s, 'a) prog = "'s \<Rightarrow> ((exn + 'a) \<times> 's) option"

definition bindO :: "('s, 'a) eop \<Rightarrow> ('a \<Rightarrow> ('s, 'b) eop) \<Rightarrow> ('s, 'b) eop" where
  "bindO m k s = (case m s of (Inl x, s) \<Rightarrow> (Inl x, s) | (Inr v, s) \<Rightarrow> k v s)"

definition bindP :: "('s, 'a) prog \<Rightarrow> ('a \<Rightarrow> ('s, 'b) prog) \<Rightarrow> ('s, 'b) prog" where
  "bindP m k s =
     (case m s of
        None \<Rightarrow> None
      | Some (Inl x, s) \<Rightarrow> Some (Inl x, s)
      | Some (Inr v, s) \<Rightarrow> k v s)"

definition total_op :: "('s, 'a) eop \<Rightarrow> ('s, 'a) prog" where
  "total_op m s = Some (m s)"

text \<open>A look at the state that may throw, and an exception or a value known already.\<close>

definition reads :: "('s \<Rightarrow> exn + 'a) \<Rightarrow> ('s, 'a) eop" where
  "reads f s = (f s, s)"

definition on_meta :: "('db, 'a) op \<Rightarrow> (('db, 'f) engine, 'a) eop" where
  "on_meta m e = (case m (e_meta e) of (r, s) \<Rightarrow> (r, e\<lparr>e_meta := s\<rparr>))"

definition on_quotas :: "(ledger \<Rightarrow> ledger) \<Rightarrow> ('db, 'f) engine \<Rightarrow> ('db, 'f) engine" where
  "on_quotas g e = e\<lparr>e_quotas := g (e_quotas e)\<rparr>"

definition later :: "nat \<Rightarrow> clock \<Rightarrow> clock" where
  "later n clock = (\<lambda>i. clock (n + i))"

definition kSizeMax :: nat where "kSizeMax = 2 ^ 64 - 1"
definition kMaxKeyLength :: nat where "kMaxKeyLength = 1024"
definition kMaxMaxKeys :: u32 where "kMaxMaxKeys = 1000"
definition kMinPartSize :: u64 where "kMinPartSize = 5 * 1024 * 1024"

section \<open>Upload ids, ETags and composites\<close>

definition kIdAlphabet :: string where
  "kIdAlphabet = ''abcdefghijklmnopqrstuvwxyzABCDEFGHIJKLMNOPQRSTUVWXYZ0123456789''"

text \<open>\<open>pick i\<close> is the \<open>i\<close>-th draw of the uniform distribution, at most 61.\<close>

definition newUploadId :: "(nat \<Rightarrow> nat) \<Rightarrow> string" where
  "newUploadId pick = map (\<lambda>i. kIdAlphabet ! pick i) [0..<32]"

definition unquote :: "string \<Rightarrow> string" where
  "unquote etag =
     (if 2 \<le> length etag \<and> hd etag = CHR 0x22 \<and> last etag = CHR 0x22
      then take (length etag - 2) (drop 1 etag) else etag)"

fun composite_algorithm_loop :: "ChecksumAlgorithm option \<Rightarrow> PartRecord list \<Rightarrow> ChecksumAlgorithm option" where
  "composite_algorithm_loop algorithm [] = algorithm"
| "composite_algorithm_loop algorithm (part # rest) =
     (if \<not> Checksum_present (p_checksum part) then None
      else
        let algorithm = (if algorithm = None then c_algorithm (p_checksum part) else algorithm) in
        if c_algorithm (p_checksum part) \<noteq> algorithm then None
        else composite_algorithm_loop algorithm rest)"

definition compositeAlgorithm :: "UploadRecord \<Rightarrow> PartRecord list \<Rightarrow> ChecksumAlgorithm option" where
  "compositeAlgorithm upload parts = composite_algorithm_loop (up_checksumAlgorithm upload) parts"

section \<open>The upload limit\<close>

definition requireWithinUploadLimit :: "u64 \<Rightarrow> ('db, 'f) engine \<Rightarrow> exn + unit" where
  "requireWithinUploadLimit n e =
     (if n \<le> e_maxUploadBytes e then Inr () else Inl (StorageError ObjectTooLarge))"

definition requireStorableContentHeaders :: "ContentHeaders \<Rightarrow> exn + unit" where
  "requireStorableContentHeaders headers =
     (if areStorableHeaderValues headers then Inr () else Inl (StorageError Internal))"

definition seedUploadLimit :: "('db, 'f) platform \<Rightarrow> (('db, 'f) engine, unit) eop" where
  "seedUploadLimit E e =
     (case getInstanceSettings (pl_rocks E) (e_meta e) of
        Inl x \<Rightarrow> (Inl x, e)
      | Inr settings \<Rightarrow>
          let limit = (case settings of
                Some s \<Rightarrow> if maxUploadBytes s \<noteq> 0 then maxUploadBytes s else eo_maxUploadBytes (e_options e)
              | None \<Rightarrow> eo_maxUploadBytes (e_options e));
              limit = (if eo_maxUploadCeilingBytes (e_options e) < limit
                       then eo_maxUploadCeilingBytes (e_options e) else limit);
              e = e\<lparr>e_maxUploadBytes := limit\<rparr>
          in if map_option maxUploadBytes settings \<noteq> Some limit
             then on_meta (putInstanceSettings (pl_rocks E) \<lparr>maxUploadBytes = limit\<rparr>) e
             else (Inr (), e))"

definition setMaxUploadBytes :: "('db, 'f) platform \<Rightarrow> u64 \<Rightarrow> (('db, 'f) engine, unit) eop" where
  "setMaxUploadBytes E n e =
     (if n = 0 then (Inl (StorageError Internal), e)
      else if eo_maxUploadCeilingBytes (e_options e) < n then (Inl (StorageError ObjectTooLarge), e)
      else case getInstanceSettings (pl_rocks E) (e_meta e) of
        Inl x \<Rightarrow> (Inl x, e)
      | Inr _ \<Rightarrow>
          bindO (on_meta (putInstanceSettings (pl_rocks E) \<lparr>maxUploadBytes = n\<rparr>))
            (\<lambda>_ e. (Inr (), e\<lparr>e_maxUploadBytes := n\<rparr>)) e)"

section \<open>Opening\<close>

definition allocatableFrom :: "('db, 'f) platform \<Rightarrow> EngineOptions \<Rightarrow> blob_store \<Rightarrow> 'f \<Rightarrow> exn + u64" where
  "allocatableFrom E options bs f =
     (if 0 < eo_allocatableBytes options then Inr (eo_allocatableBytes options)
      else case blob_space (pl_posix E) bs f of
        Inl x \<Rightarrow> Inl x
      | Inr space \<Rightarrow>
          let total = totalBytes space; reserve = min (eo_capacityReservePercent options) 100 in
          Inr (if total = 0 then 0 else total div 100 * ucast (100 - reserve)))"

fun seed_buckets :: "(string \<times> BucketCharge) list \<Rightarrow> BucketRecord list \<Rightarrow> ledger \<Rightarrow> ledger" where
  "seed_buckets charges [] l = l"
| "seed_buckets charges (bucket # rest) l =
     seed_buckets charges rest
       (case map_of charges (b_name bucket) of
          None \<Rightarrow> ledger_seed (b_name bucket) (b_quotaBytes bucket) 0 0 l
        | Some c \<Rightarrow> ledger_seed (b_name bucket) (b_quotaBytes bucket) (bc_objectBytes c)
            (bc_partBytes c) l)"

definition seedQuotas :: "('db, 'f) platform \<Rightarrow> (('db, 'f) engine, unit) eop" where
  "seedQuotas E e =
     (case listBuckets (pl_rocks E) (e_meta e) of
        Inl x \<Rightarrow> (Inl x, e)
      | Inr buckets \<Rightarrow>
          (Inr (), on_quotas (seed_buckets (bucketCharges (e_meta e)) buckets) e))"

text \<open>The constructor, on a database that \<open>DB::Open\<close> returned.\<close>

definition new_engine ::
  "('db, 'f) platform \<Rightarrow> EngineOptions \<Rightarrow> 'db \<Rightarrow> 'f \<Rightarrow> exn + ('db, 'f) engine" where
  "new_engine E options db f =
     (case new_blob_store (pl_posix E) (eo_dataDir options) (eo_durability options)
             (eo_chunkBytes options) f of
        (Inl x, f) \<Rightarrow> Inl x
      | (Inr bs, f) \<Rightarrow>
          (case allocatableFrom E options bs f of
             Inl x \<Rightarrow> Inl x
           | Inr n \<Rightarrow>
               (case openRocksMetadataStore (pl_rocks E) (eo_durability options = Strict) db of
                  (Inl x, s) \<Rightarrow> Inl x
                | (Inr _, s) \<Rightarrow>
                    let e = \<lparr>e_options = options\<lparr>eo_allocatableBytes := n\<rparr>, e_fs = f, e_blobs = bs,
                          e_meta = s, e_quotas = new_ledger n, e_maxUploadBytes = 0,
                          e_checkpointing = False\<rparr>
                    in (case bindO (seedQuotas E) (\<lambda>_. seedUploadLimit E) e of
                          (Inl x, e) \<Rightarrow> Inl x
                        | (Inr _, e) \<Rightarrow> Inr e))))"

section \<open>Buckets\<close>

definition engine_createBucket ::
  "('db, 'f) platform \<Rightarrow> clock \<Rightarrow> string \<Rightarrow> u64 \<Rightarrow> (('db, 'f) engine, unit) eop" where
  "engine_createBucket E clock name quota e =
     (case admitAllocation quota (e_quotas e) of
        Inl x \<Rightarrow> (Inl x, e)
      | Inr _ \<Rightarrow>
          bindO (on_meta (Metadata_Store.createBucket (pl_rocks E)
              \<lparr>b_name = name, b_createdAt = clock 0, b_publicRead = False, b_publicList = False,
               b_policy = [], b_cors = [], b_quotaBytes = quota, b_durability = None\<rparr>))
            (\<lambda>_ e. (Inr (), on_quotas (ledger_track name quota) e)) e)"

definition createBucketWithDefaultQuota ::
  "('db, 'f) platform \<Rightarrow> clock \<Rightarrow> string \<Rightarrow> (('db, 'f) engine, unit) eop" where
  "createBucketWithDefaultQuota E clock name e =
     engine_createBucket E clock name (eo_defaultBucketQuotaBytes (e_options e)) e"

definition engine_deleteBucket :: "('db, 'f) platform \<Rightarrow> string \<Rightarrow> (('db, 'f) engine, unit) eop" where
  "engine_deleteBucket E name =
     bindO (on_meta (Metadata_Store.deleteBucket (pl_rocks E) name))
       (\<lambda>_ e. (Inr (), on_quotas (ledger_forget name) e))"

text \<open>Read the record of a bucket that must exist, change it and write it back.\<close>

definition modifyBucket ::
  "('db, 'f) platform \<Rightarrow> string \<Rightarrow> (BucketRecord \<Rightarrow> BucketRecord) \<Rightarrow> (('db, 'f) engine, unit) eop" where
  "modifyBucket E name change e =
     (case getBucket (pl_rocks E) name (e_meta e) of
        Inl x \<Rightarrow> (Inl x, e)
      | Inr None \<Rightarrow> (Inl (StorageError NoSuchBucket), e)
      | Inr (Some bucket) \<Rightarrow> on_meta (updateBucket (pl_rocks E) (change bucket)) e)"

definition setBucketPublicRead ::
  "('db, 'f) platform \<Rightarrow> string \<Rightarrow> bool \<Rightarrow> (('db, 'f) engine, unit) eop" where
  "setBucketPublicRead E name publicRead =
     modifyBucket E name (\<lambda>b. b\<lparr>b_publicRead := publicRead, b_publicList := False\<rparr>)"

definition setBucketPolicy ::
  "('db, 'f) platform \<Rightarrow> string \<Rightarrow> string \<Rightarrow> bool \<Rightarrow> bool \<Rightarrow> (('db, 'f) engine, unit) eop" where
  "setBucketPolicy E name policy publicRead publicList =
     modifyBucket E name (\<lambda>b. b\<lparr>b_publicRead := publicRead, b_publicList := publicList, b_policy := policy\<rparr>)"

definition setBucketCors ::
  "('db, 'f) platform \<Rightarrow> string \<Rightarrow> CorsRule list \<Rightarrow> (('db, 'f) engine, unit) eop" where
  "setBucketCors E name rules = modifyBucket E name (\<lambda>b. b\<lparr>b_cors := rules\<rparr>)"

definition setBucketDurability ::
  "('db, 'f) platform \<Rightarrow> string \<Rightarrow> Durability option \<Rightarrow> (('db, 'f) engine, unit) eop" where
  "setBucketDurability E name durability = modifyBucket E name (\<lambda>b. b\<lparr>b_durability := durability\<rparr>)"

definition durabilityFor :: "('db, 'f) platform \<Rightarrow> string \<Rightarrow> ('db, 'f) engine \<Rightarrow> exn + Durability" where
  "durabilityFor E bucket e =
     (case getBucket (pl_rocks E) bucket (e_meta e) of
        Inl x \<Rightarrow> Inl x
      | Inr None \<Rightarrow> Inr (eo_durability (e_options e))
      | Inr (Some record) \<Rightarrow>
          Inr (case b_durability record of Some d \<Rightarrow> d | None \<Rightarrow> eo_durability (e_options e)))"

text \<open>
  The ledger first; when the record cannot be written the ledger is put back, which is a
  \<open>setQuota\<close> of its own and may throw in the place of the first exception.
\<close>

definition setBucketQuota ::
  "('db, 'f) platform \<Rightarrow> string \<Rightarrow> u64 \<Rightarrow> (('db, 'f) engine, unit) eop" where
  "setBucketQuota E name quota e =
     (case getBucket (pl_rocks E) name (e_meta e) of
        Inl x \<Rightarrow> (Inl x, e)
      | Inr None \<Rightarrow> (Inl (StorageError NoSuchBucket), e)
      | Inr (Some bucket) \<Rightarrow>
          let previous = b_quotaBytes bucket in
          (case ledger_setQuota name quota (e_quotas e) of
             (Inl x, l) \<Rightarrow> (Inl x, e\<lparr>e_quotas := l\<rparr>)
           | (Inr _, l) \<Rightarrow>
               (case on_meta (updateBucket (pl_rocks E) (bucket\<lparr>b_quotaBytes := quota\<rparr>))
                       (e\<lparr>e_quotas := l\<rparr>) of
                  (Inr _, e) \<Rightarrow> (Inr (), e)
                | (Inl x, e) \<Rightarrow>
                    (case ledger_setQuota name previous (e_quotas e) of
                       (Inl y, l) \<Rightarrow> (Inl y, e\<lparr>e_quotas := l\<rparr>)
                     | (Inr _, l) \<Rightarrow> (Inl x, e\<lparr>e_quotas := l\<rparr>)))))"

section \<open>Reclamation\<close>

definition remove_blobs :: "('db, 'f) platform \<Rightarrow> string list \<Rightarrow> ('db, 'f) engine \<Rightarrow> ('db, 'f) engine" where
  "remove_blobs E blobIds e =
     e\<lparr>e_fs := fold (\<lambda>blobId f. snd (blob_remove (pl_posix E) (e_blobs e) blobId f)) blobIds (e_fs e)\<rparr>"

definition reclaimOlderThan ::
  "('db, 'f) platform \<Rightarrow> nat \<Rightarrow> TimestampMs \<Rightarrow> (('db, 'f) engine, nat) eop" where
  "reclaimOlderThan E limit cutoff e =
     (if e_checkpointing e then (Inr 0, e)
      else case listOrphans (pl_rocks E) limit cutoff (e_meta e) of
        Inl x \<Rightarrow> (Inl x, e)
      | Inr blobIds \<Rightarrow>
          if blobIds = [] then (Inr 0, e)
          else bindO (on_meta (forgetOrphans (pl_rocks E) blobIds))
                 (\<lambda>_ e. (Inr (length blobIds), e)) (remove_blobs E blobIds e))"

definition reclaim :: "('db, 'f) platform \<Rightarrow> clock \<Rightarrow> nat \<Rightarrow> (('db, 'f) engine, nat) eop" where
  "reclaim E clock limit e = reclaimOlderThan E limit (clock 0 - eo_reclaimGraceMs (e_options e)) e"

text \<open>Both overloads: one blob is a list of one.\<close>

definition reclaimNow :: "('db, 'f) platform \<Rightarrow> string list \<Rightarrow> (('db, 'f) engine, unit) eop" where
  "reclaimNow E blobIds e =
     (if blobIds = [] then (Inr (), e)
      else if e_checkpointing e then (Inr (), e)
      else on_meta (forgetOrphans (pl_rocks E) blobIds) (remove_blobs E blobIds e))"

definition reclaim_released ::
  "('db, 'f) platform \<Rightarrow> string option \<Rightarrow> (('db, 'f) engine, unit) eop" where
  "reclaim_released E released =
     (case released of None \<Rightarrow> (\<lambda>e. (Inr (), e)) | Some blobId \<Rightarrow> reclaimNow E [blobId])"

record RecoveryReport =
  temporariesRemoved :: nat
  payloadsReclaimed :: nat
  uploadsPending :: u64

definition recover :: "('db, 'f) platform \<Rightarrow> clock \<Rightarrow> (('db, 'f) engine, RecoveryReport) eop" where
  "recover E clock e =
     (case sweepTemporaries (pl_posix E) (e_blobs e) (e_fs e) of
        (swept, f) \<Rightarrow>
          bindO (reclaimOlderThan E kSizeMax (clock 0))
            (\<lambda>reclaimed e. (Inr \<lparr>temporariesRemoved = swept, payloadsReclaimed = reclaimed,
                                uploadsPending = us_uploads (usage (e_meta e))\<rparr>, e))
            (e\<lparr>e_fs := f\<rparr>))"

end
