(* ===== verification/Object_Engine.thy ===== *)
theory Object_Engine
  imports Storage_Engine
begin

text \<open>
  Objects and multipart uploads in the storage engine (storage/storage_engine.cpp): a payload
  is durable before the metadata names it, the upload limit and the allocation are checked
  before either, and what a call replaces is reclaimed after its commit.

  A method with a writer and a claim among its arguments runs on a \<open>frame\<close>, the engine with
  those two locals; \<open>scope_exit\<close> is what their destructors do when it returns or throws.
\<close>

section \<open>Frames\<close>

type_synonym ('db, 'f) frame = "('db, 'f) engine \<times> BlobWriter \<times> Reservation"

definition on_engine :: "('s, 'a) eop \<Rightarrow> ('s \<times> 'l, 'a) prog" where
  "on_engine m = (\<lambda>(e, l). case m e of (r, e) \<Rightarrow> Some (r, (e, l)))"

definition on_writer ::
  "('f, 'a) writing \<Rightarrow> (('db, 'f) frame, 'a) prog" where
  "on_writer m = (\<lambda>(e, w, r).
     case m w (e_fs e) of
       None \<Rightarrow> None
     | Some (x, w, f) \<Rightarrow> Some (x, (e\<lparr>e_fs := f\<rparr>, w, r)))"

definition on_claim :: "string \<Rightarrow> u64 \<Rightarrow> (('db, 'f) frame, unit) prog" where
  "on_claim bucket n = (\<lambda>(e, w, r).
     case ledger_extend r bucket n (e_quotas e) of
       (x, r, l) \<Rightarrow> Some (x, (e\<lparr>e_quotas := l\<rparr>, w, r)))"

text \<open>\<open>quotas_.recordX(..., std::move(reservation), ...)\<close>: the claim is spent.\<close>

definition settle ::
  "(Reservation \<Rightarrow> ledger \<Rightarrow> ledger) \<Rightarrow> (('db, 'f) frame, unit) prog" where
  "settle g = (\<lambda>(e, w, r).
     Some (Inr (), (on_quotas (g r) e, w, r\<lparr>r_held := False, r_bytes := 0\<rparr>)))"

definition with_frame ::
  "(('db, 'f) engine \<Rightarrow> BlobWriter \<Rightarrow> exn + 'a) \<Rightarrow> (('db, 'f) frame, 'a) prog" where
  "with_frame g = (\<lambda>(e, w, r). Some (g e w, (e, w, r)))"

definition scope_exit :: "('db, 'f) platform \<Rightarrow> ('db, 'f) frame \<Rightarrow> ('db, 'f) engine" where
  "scope_exit E = (\<lambda>(e, w, r).
     (on_quotas (\<lambda>l. snd (reservation_release r l)) e)
       \<lparr>e_fs := snd (writer_abort (pl_posix E) w (e_fs e))\<rparr>)"

definition run_frame ::
  "('db, 'f) platform \<Rightarrow> (('db, 'f) frame, 'a) prog \<Rightarrow> BlobWriter \<Rightarrow> Reservation \<Rightarrow>
   (('db, 'f) engine, 'a) prog" where
  "run_frame E m w r e =
     (case m (e, w, r) of
        None \<Rightarrow> None
      | Some (x, fr) \<Rightarrow> Some (x, scope_exit E fr))"

section \<open>Objects\<close>

record PutRequest =
  pr_bucket :: string
  pr_key :: string
  pr_contentType :: string
  pr_userMetadata :: UserMetadata
  pr_content :: ContentHeaders
  pr_checksum :: Checksum

text \<open>\<open>first\<close> and \<open>second\<close> are the draws of \<open>newBlobId\<close>.\<close>

definition beginWrite ::
  "('db, 'f) platform \<Rightarrow> clock \<Rightarrow> u64 \<Rightarrow> u64 \<Rightarrow> (('db, 'f) engine, BlobWriter) prog" where
  "beginWrite E clock first second e =
     (case blob_create (pl_posix E) (e_blobs e) first second (e_fs e) of
        None \<Rightarrow> None
      | Some (Inl x, f) \<Rightarrow> Some (Inl x, e\<lparr>e_fs := f\<rparr>)
      | Some (Inr w, f) \<Rightarrow>
          (case on_meta (trackBlob (pl_rocks E) clock (w_blobId w)) (e\<lparr>e_fs := f\<rparr>) of
             (Inl x, e) \<Rightarrow> Some (Inl x, e\<lparr>e_fs := snd (writer_abort (pl_posix E) w (e_fs e))\<rparr>)
           | (Inr _, e) \<Rightarrow> Some (Inr w, e)))"

definition reserveSpace :: "string \<Rightarrow> u64 \<Rightarrow> (('db, 'f) engine, Reservation) eop" where
  "reserveSpace bucket n e =
     (case ledger_reserve bucket n (e_quotas e) of (x, l) \<Rightarrow> (x, e\<lparr>e_quotas := l\<rparr>))"

definition object_record :: "PutRequest \<Rightarrow> Committed \<Rightarrow> TimestampMs \<Rightarrow> ObjectRecord" where
  "object_record request committed now =
     \<lparr>o_key = pr_key request, o_blobId = cm_blobId committed, o_size = cm_size committed,
      o_etag = cm_md5 committed, o_sha256 = cm_sha256 committed,
      o_contentType = pr_contentType request, o_lastModified = now,
      o_userMetadata = pr_userMetadata request, o_content = pr_content request,
      o_checksum = pr_checksum request\<rparr>"

text \<open>The checks before the payload is flushed, in their order; the durability to flush it at.\<close>

definition admit_write ::
  "('db, 'f) platform \<Rightarrow> PutRequest \<Rightarrow> ('db, 'f) engine \<Rightarrow> BlobWriter \<Rightarrow> exn + Durability" where
  "admit_write E request e w =
     (if pr_key request = [] \<or> kMaxKeyLength < length (pr_key request) then Inl (StorageError Internal)
      else case requireStorableContentHeaders (pr_content request) of
        Inl x \<Rightarrow> Inl x
      | Inr _ \<Rightarrow>
          (case requireWithinUploadLimit (writer_written w) e of
             Inl x \<Rightarrow> Inl x
           | Inr _ \<Rightarrow> durabilityFor E (pr_bucket request) e))"

definition finishWrite_body ::
  "('db, 'f) platform \<Rightarrow> clock \<Rightarrow> PutRequest \<Rightarrow> (('db, 'f) frame, ObjectRecord) prog" where
  "finishWrite_body E clock request =
     bindP (with_frame (admit_write E request)) (\<lambda>durability.
     bindP (\<lambda>fr. on_writer (blob_commit (pl_posix E) (pl_hashes E) (e_blobs (fst fr)) durability) fr)
       (\<lambda>committed.
     bindP (on_claim (pr_bucket request) (cm_size committed)) (\<lambda>_.
     let record = object_record request committed (clock 0) in
     bindP (on_engine (on_meta (putObject (pl_rocks E) (later 1 clock) (pr_bucket request) record durability)))
       (\<lambda>outcome.
     bindP (settle (\<lambda>r. recordObject (pr_bucket request) r (o_size record) (po_replacedBytes outcome)))
       (\<lambda>_.
     bindP (on_engine (reclaim_released E (po_releasedBlobId outcome))) (\<lambda>_.
     with_frame (\<lambda>_ _. Inr record)))))))"

definition finishWrite ::
  "('db, 'f) platform \<Rightarrow> clock \<Rightarrow> PutRequest \<Rightarrow> BlobWriter \<Rightarrow> Reservation \<Rightarrow>
   (('db, 'f) engine, ObjectRecord) prog" where
  "finishWrite E clock request w r = run_frame E (finishWrite_body E clock request) w r"

text \<open>A write that throws leaves the writer to its destructor.\<close>

definition engine_putObject ::
  "('db, 'f) platform \<Rightarrow> clock \<Rightarrow> u64 \<Rightarrow> u64 \<Rightarrow> PutRequest \<Rightarrow> string \<Rightarrow>
   (('db, 'f) engine, ObjectRecord) prog" where
  "engine_putObject E clock first second request body =
     bindP (beginWrite E clock first second) (\<lambda>w e.
       case blob_write (pl_posix E) body w (e_fs e) of
         None \<Rightarrow> None
       | Some (Inl x, w, f) \<Rightarrow> Some (Inl x, e\<lparr>e_fs := snd (writer_abort (pl_posix E) w f)\<rparr>)
       | Some (Inr _, w, f) \<Rightarrow>
           finishWrite E (later 1 clock) request w no_reservation (e\<lparr>e_fs := f\<rparr>))"

definition engine_getObject ::
  "('db, 'f) platform \<Rightarrow> string \<Rightarrow> string \<Rightarrow>
   (('db, 'f) engine, (ObjectRecord \<times> BlobReader) option) prog" where
  "engine_getObject E bucket key e =
     (case getObject (pl_rocks E) bucket key (e_meta e) of
        Inl x \<Rightarrow> Some (Inl x, e)
      | Inr None \<Rightarrow> Some (Inr None, e)
      | Inr (Some record) \<Rightarrow>
          (case blob_open (pl_posix E) (e_blobs e) (o_blobId record) (e_fs e) of
             None \<Rightarrow> None
           | Some (Inl x, f) \<Rightarrow> Some (Inl x, e\<lparr>e_fs := f\<rparr>)
           | Some (Inr reader, f) \<Rightarrow> Some (Inr (Some (record, reader)), e\<lparr>e_fs := f\<rparr>)))"

definition statObject ::
  "('db, 'f) platform \<Rightarrow> string \<Rightarrow> string \<Rightarrow> ('db, 'f) engine \<Rightarrow> exn + ObjectRecord option" where
  "statObject E bucket key e = getObject (pl_rocks E) bucket key (e_meta e)"

definition engine_deleteObject ::
  "('db, 'f) platform \<Rightarrow> clock \<Rightarrow> string \<Rightarrow> string \<Rightarrow> (('db, 'f) engine, bool) eop" where
  "engine_deleteObject E clock bucket key =
     bindO (reads (durabilityFor E bucket)) (\<lambda>durability.
     bindO (on_meta (deleteObject (pl_rocks E) clock bucket key durability)) (\<lambda>outcome e.
     bindO (reclaim_released E (do_releasedBlobId outcome)) (\<lambda>_ e. (Inr (do_existed outcome), e))
       (on_quotas (recordDeletion bucket (do_releasedBytes outcome)) e)))"

definition engine_listObjects ::
  "('db, 'f) platform \<Rightarrow> string \<Rightarrow> ListObjectsRequest \<Rightarrow> ('db, 'f) engine \<Rightarrow> exn + ListObjectsResult" where
  "engine_listObjects E bucket request e =
     listObjects (pl_rocks E) bucket (request\<lparr>lo_maxKeys := min (lo_maxKeys request) kMaxMaxKeys\<rparr>) (e_meta e)"

section \<open>Multipart uploads\<close>

definition engine_createUpload ::
  "('db, 'f) platform \<Rightarrow> clock \<Rightarrow> (nat \<Rightarrow> nat) \<Rightarrow> PutRequest \<Rightarrow> (('db, 'f) engine, string) eop" where
  "engine_createUpload E clock pick request e =
     (case requireStorableContentHeaders (pr_content request) of
        Inl x \<Rightarrow> (Inl x, e)
      | Inr _ \<Rightarrow>
          let upload = \<lparr>up_uploadId = newUploadId pick, up_bucket = pr_bucket request,
                up_key = pr_key request, up_contentType = pr_contentType request,
                up_createdAt = clock 0, up_userMetadata = pr_userMetadata request,
                up_content = pr_content request,
                up_checksumAlgorithm = c_algorithm (pr_checksum request)\<rparr>
          in bindO (on_meta (createUpload (pl_rocks E) upload))
               (\<lambda>_ e. (Inr (up_uploadId upload), e)) e)"

definition uploadedPartBytes ::
  "('db, 'f) platform \<Rightarrow> string \<Rightarrow> u32 \<Rightarrow> ('db, 'f) engine \<Rightarrow> exn + u64" where
  "uploadedPartBytes E uploadId exceptPartNumber e =
     (case listParts (pl_rocks E) uploadId (e_meta e) of
        Inl x \<Rightarrow> Inl x
      | Inr parts \<Rightarrow> Inr (foldl (\<lambda>n part. if p_partNumber part = exceptPartNumber then n else n + p_size part)
                          0 parts))"

text \<open>The upload must exist, the limit hold for all its parts; its bucket and the durability.\<close>

definition admit_part ::
  "('db, 'f) platform \<Rightarrow> string \<Rightarrow> u32 \<Rightarrow> ('db, 'f) engine \<Rightarrow> BlobWriter \<Rightarrow> exn + string \<times> Durability" where
  "admit_part E uploadId n e w =
     (case getUpload (pl_rocks E) uploadId (e_meta e) of
        Inl x \<Rightarrow> Inl x
      | Inr None \<Rightarrow> Inl (StorageError NoSuchUpload)
      | Inr (Some upload) \<Rightarrow>
          (case uploadedPartBytes E uploadId n e of
             Inl x \<Rightarrow> Inl x
           | Inr others \<Rightarrow>
               (case requireWithinUploadLimit (others + writer_written w) e of
                  Inl x \<Rightarrow> Inl x
                | Inr _ \<Rightarrow>
                    (case durabilityFor E (up_bucket upload) e of
                       Inl x \<Rightarrow> Inl x
                     | Inr durability \<Rightarrow> Inr (up_bucket upload, durability)))))"

definition part_record :: "u32 \<Rightarrow> Committed \<Rightarrow> TimestampMs \<Rightarrow> Checksum \<Rightarrow> PartRecord" where
  "part_record n committed now checksum =
     \<lparr>p_partNumber = n, p_blobId = cm_blobId committed, p_size = cm_size committed,
      p_etag = cm_md5 committed, p_uploadedAt = now, p_checksum = checksum\<rparr>"

definition finishPart_body ::
  "('db, 'f) platform \<Rightarrow> clock \<Rightarrow> string \<Rightarrow> u32 \<Rightarrow> Checksum \<Rightarrow> (('db, 'f) frame, PartRecord) prog" where
  "finishPart_body E clock uploadId n checksum =
     bindP (with_frame (admit_part E uploadId n)) (\<lambda>(bucket, durability).
     bindP (\<lambda>fr. on_writer (blob_commit (pl_posix E) (pl_hashes E) (e_blobs (fst fr)) durability) fr)
       (\<lambda>committed.
     bindP (on_claim bucket (cm_size committed)) (\<lambda>_.
     let part = part_record n committed (clock 0) checksum in
     bindP (on_engine (on_meta (putPart (pl_rocks E) (later 1 clock) uploadId part durability))) (\<lambda>outcome.
     bindP (settle (\<lambda>r. recordPart bucket r (p_size part) (pp_replacedBytes outcome))) (\<lambda>_.
     bindP (on_engine (reclaim_released E (pp_releasedBlobId outcome))) (\<lambda>_.
     with_frame (\<lambda>_ _. Inr part)))))))"

definition finishPart ::
  "('db, 'f) platform \<Rightarrow> clock \<Rightarrow> string \<Rightarrow> u32 \<Rightarrow> BlobWriter \<Rightarrow> Reservation \<Rightarrow> Checksum \<Rightarrow>
   (('db, 'f) engine, PartRecord) prog" where
  "finishPart E clock uploadId n w r checksum = run_frame E (finishPart_body E clock uploadId n checksum) w r"

definition engine_abortUpload ::
  "('db, 'f) platform \<Rightarrow> clock \<Rightarrow> string \<Rightarrow> (('db, 'f) engine, unit) eop" where
  "engine_abortUpload E clock uploadId =
     bindO (reads (\<lambda>e. getUpload (pl_rocks E) uploadId (e_meta e))) (\<lambda>upload.
     bindO (reads (\<lambda>e. case upload of
         None \<Rightarrow> Inr (eo_durability (e_options e))
       | Some u \<Rightarrow> durabilityFor E (up_bucket u) e)) (\<lambda>durability.
     bindO (on_meta (abortUpload (pl_rocks E) clock uploadId durability)) (\<lambda>outcome e.
     reclaimNow E (ao_releasedBlobIds outcome)
       (on_quotas (recordUploadAborted (ao_bucket outcome) (ao_releasedBytes outcome)) e))))"

subsection \<open>The sweep\<close>

definition last_activity :: "UploadRecord \<Rightarrow> PartRecord list \<Rightarrow> TimestampMs" where
  "last_activity upload parts =
     foldl (\<lambda>t part. if sint t < sint (p_uploadedAt part) then p_uploadedAt part else t)
       (up_createdAt upload) parts"

text \<open>
  The loop over the candidates. A \<open>StorageError\<close> of the abort is swallowed, one of \<open>listParts\<close>
  is not. The \<open>i\<close>-th candidate's abort starts at the clock reading \<open>n\<close>; an abort takes at most
  one reading per part.
\<close>

fun sweep_uploads ::
  "('db, 'f) platform \<Rightarrow> clock \<Rightarrow> TimestampMs \<Rightarrow> UploadRecord list \<Rightarrow> nat \<Rightarrow> (('db, 'f) engine, nat) eop" where
  "sweep_uploads E clock cutoff [] swept e = (Inr swept, e)"
| "sweep_uploads E clock cutoff (upload # rest) swept e =
     (case listParts (pl_rocks E) (up_uploadId upload) (e_meta e) of
        Inl x \<Rightarrow> (Inl x, e)
      | Inr parts \<Rightarrow>
          if sint cutoff \<le> sint (last_activity upload parts)
          then sweep_uploads E clock cutoff rest swept e
          else
            (case engine_abortUpload E clock (up_uploadId upload) e of
               (Inl (StorageError code), e) \<Rightarrow>
                 sweep_uploads E (later (length parts) clock) cutoff rest swept e
             | (Inl x, e) \<Rightarrow> (Inl x, e)
             | (Inr _, e) \<Rightarrow>
                 sweep_uploads E (later (length parts) clock) cutoff rest (swept + 1) e))"

definition sweepUploadsIdleBefore ::
  "('db, 'f) platform \<Rightarrow> clock \<Rightarrow> nat \<Rightarrow> TimestampMs \<Rightarrow> (('db, 'f) engine, nat) eop" where
  "sweepUploadsIdleBefore E clock limit cutoff =
     bindO (reads (\<lambda>e. listUploadsCreatedBefore (pl_rocks E) limit cutoff (e_meta e)))
       (\<lambda>candidates. sweep_uploads E clock cutoff candidates 0)"

definition sweepExpiredUploads ::
  "('db, 'f) platform \<Rightarrow> clock \<Rightarrow> nat \<Rightarrow> (('db, 'f) engine, nat) eop" where
  "sweepExpiredUploads E clock limit e =
     (if sint (eo_multipartExpiryMs (e_options e)) \<le> 0 then (Inr 0, e)
      else sweepUploadsIdleBefore E (later 1 clock) limit
             (clock 0 - eo_multipartExpiryMs (e_options e)) e)"

subsection \<open>Completion\<close>

record RequestedPart =
  rp_partNumber :: u32
  rp_etag :: string

fun manifest_loop :: "PartRecord list \<Rightarrow> u32 \<Rightarrow> RequestedPart list \<Rightarrow> exn + PartRecord list" where
  "manifest_loop parts previous [] = Inr []"
| "manifest_loop parts previous (want # rest) =
     (if rp_partNumber want \<le> previous then Inl (StorageError InvalidPart)
      else case List.find (\<lambda>part. p_partNumber part = rp_partNumber want) parts of
        None \<Rightarrow> Inl (StorageError InvalidPart)
      | Some part \<Rightarrow>
          if unquote (rp_etag want) \<noteq> p_etag part then Inl (StorageError InvalidPart)
          else
            (case manifest_loop parts (rp_partNumber want) rest of
               Inl x \<Rightarrow> Inl x
             | Inr chosen \<Rightarrow> Inr (part # chosen)))"

definition all_but_last_large :: "PartRecord list \<Rightarrow> exn + unit" where
  "all_but_last_large chosen =
     (if list_ex (\<lambda>part. p_size part < kMinPartSize) (butlast chosen)
      then Inl (StorageError InvalidPart) else Inr ())"

text \<open>A part checksum of the wrong length makes \<open>compositeChecksum\<close> throw \<open>std::invalid_argument\<close>.\<close>

definition composite_of :: "evp \<Rightarrow> UploadRecord \<Rightarrow> PartRecord list \<Rightarrow> exn + Checksum" where
  "composite_of evp upload chosen =
     (case compositeAlgorithm upload chosen of
        None \<Rightarrow> Inr no_checksum
      | Some algorithm \<Rightarrow>
          (case compositeChecksum evp algorithm (map (\<lambda>part. c_value (p_checksum part)) chosen) of
             None \<Rightarrow> Inl InvalidArgument
           | Some composite \<Rightarrow> Inr composite))"

definition check_expected :: "Checksum \<Rightarrow> Checksum \<Rightarrow> exn + unit" where
  "check_expected expected composite =
     (if \<not> Checksum_present expected then Inr ()
      else if \<not> Checksum_present composite \<or> c_algorithm expected \<noteq> c_algorithm composite
      then Inl (StorageError ChecksumMismatch)
      else if c_value expected \<noteq> c_value composite \<or> c_parts expected \<noteq> c_parts composite
      then Inl (StorageError ChecksumMismatch)
      else Inr ())"

text \<open>Everything that is checked before a byte is copied: the upload, its parts and the composite.\<close>

definition admit_completion ::
  "('db, 'f) platform \<Rightarrow> string \<Rightarrow> RequestedPart list \<Rightarrow> Checksum \<Rightarrow> ('db, 'f) engine \<Rightarrow>
   exn + UploadRecord \<times> PartRecord list \<times> Checksum" where
  "admit_completion E uploadId requested expected e =
     (case getUpload (pl_rocks E) uploadId (e_meta e) of
        Inl x \<Rightarrow> Inl x
      | Inr None \<Rightarrow> Inl (StorageError NoSuchUpload)
      | Inr (Some upload) \<Rightarrow>
          if requested = [] then Inl (StorageError InvalidPart)
          else case listParts (pl_rocks E) uploadId (e_meta e) of
            Inl x \<Rightarrow> Inl x
          | Inr parts \<Rightarrow>
              (case manifest_loop parts 0 requested of
                 Inl x \<Rightarrow> Inl x
               | Inr chosen \<Rightarrow>
                   (case all_but_last_large chosen of
                      Inl x \<Rightarrow> Inl x
                    | Inr _ \<Rightarrow>
                        (case requireWithinUploadLimit (part_bytes chosen) e of
                           Inl x \<Rightarrow> Inl x
                         | Inr _ \<Rightarrow>
                             (case composite_of (pl_evp E) upload chosen of
                                Inl x \<Rightarrow> Inl x
                              | Inr composite \<Rightarrow>
                                  (case check_expected expected composite of
                                     Inl x \<Rightarrow> Inl x
                                   | Inr _ \<Rightarrow> Inr (upload, chosen, composite)))))))"

fun append_parts :: "'f posix \<Rightarrow> blob_store \<Rightarrow> string list \<Rightarrow> ('f, unit) writing" where
  "append_parts P bs [] w f = Some (Inr (), w, f)"
| "append_parts P bs (blobId # rest) w f =
     (case appendBlob P bs blobId w f of
        None \<Rightarrow> None
      | Some (Inl x, w, f) \<Rightarrow> Some (Inl x, w, f)
      | Some (Inr _, w, f) \<Rightarrow> append_parts P bs rest w f)"

definition assembled_record ::
  "UploadRecord \<Rightarrow> Committed \<Rightarrow> string \<Rightarrow> TimestampMs \<Rightarrow> Checksum \<Rightarrow> ObjectRecord" where
  "assembled_record upload committed etag now composite =
     \<lparr>o_key = up_key upload, o_blobId = cm_blobId committed, o_size = cm_size committed,
      o_etag = etag, o_sha256 = cm_sha256 committed, o_contentType = up_contentType upload,
      o_lastModified = now, o_userMetadata = up_userMetadata upload, o_content = up_content upload,
      o_checksum = composite\<rparr>"

definition assemble_body ::
  "('db, 'f) platform \<Rightarrow> clock \<Rightarrow> string \<Rightarrow> UploadRecord \<Rightarrow> PartRecord list \<Rightarrow> Checksum \<Rightarrow>
   (('db, 'f) frame, ObjectRecord) prog" where
  "assemble_body E clock uploadId upload chosen composite =
     bindP (\<lambda>fr. on_writer (append_parts (pl_posix E) (e_blobs (fst fr)) (map p_blobId chosen)) fr) (\<lambda>_.
     bindP (with_frame (\<lambda>e w. durabilityFor E (up_bucket upload) e)) (\<lambda>durability.
     bindP (\<lambda>fr. on_writer (blob_commit (pl_posix E) (pl_hashes E) (e_blobs (fst fr)) durability) fr)
       (\<lambda>committed.
     bindP (with_frame (\<lambda>e w. multipartETag (pl_hashes E) (map p_etag chosen))) (\<lambda>etag.
     let record = assembled_record upload committed etag (clock 0) composite in
     bindP (on_engine (on_meta (completeUpload (pl_rocks E) (later 1 clock) (up_bucket upload) uploadId
         record durability))) (\<lambda>outcome.
     bindP (settle (\<lambda>r. recordUploadCompleted (up_bucket upload) (o_size record)
         (co_replacedBytes outcome) (co_releasedPartBytes outcome))) (\<lambda>_.
     bindP (on_engine (reclaim_released E (co_releasedBlobId outcome))) (\<lambda>_.
     bindP (on_engine (reclaimNow E (co_releasedPartBlobIds outcome))) (\<lambda>_.
     with_frame (\<lambda>_ _. Inr record)))))))))"

definition engine_completeUpload ::
  "('db, 'f) platform \<Rightarrow> clock \<Rightarrow> u64 \<Rightarrow> u64 \<Rightarrow> string \<Rightarrow> RequestedPart list \<Rightarrow> Checksum \<Rightarrow>
   (('db, 'f) engine, ObjectRecord) prog" where
  "engine_completeUpload E clock first second uploadId requested expected =
     bindP (total_op (reads (admit_completion E uploadId requested expected))) (\<lambda>(upload, chosen, composite).
     bindP (beginWrite E clock first second) (\<lambda>w.
       run_frame E (assemble_body E (later 1 clock) uploadId upload chosen composite) w no_reservation))"

end
