(* ===== verification/Fsck.thy ===== *)
theory Fsck
  imports Object_Engine
begin

text \<open>
  The consistency check of the storage engine (\<open>StorageEngine::fsck\<close>): what the metadata
  refers to, what the payload tree holds, and how the two disagree.

  The two hash sets are lists asked only for membership. The hash map of references is an
  association list in the order of insertion; the order its iteration visits the entries in
  is the parameter \<open>visit\<close>, of which only \<open>set (visit m) = set m\<close> is used. The paging loops end
  when a page is not truncated, so they are partial functions. The \<open>detail\<close> text of a finding
  is not modelled.
\<close>

section \<open>The report\<close>

datatype FsckKind = MissingPayload | SizeMismatch | DigestMismatch | UnreferencedPayload | MalformedName

fun FsckKind_toString :: "FsckKind \<Rightarrow> string" where
  "FsckKind_toString MissingPayload = ''missing-payload''"
| "FsckKind_toString SizeMismatch = ''size-mismatch''"
| "FsckKind_toString DigestMismatch = ''digest-mismatch''"
| "FsckKind_toString UnreferencedPayload = ''unreferenced-payload''"
| "FsckKind_toString MalformedName = ''malformed-name''"

record Finding =
  fi_kind :: FsckKind
  fi_blobId :: string
  fi_reference :: string

record FsckReport =
  bucketsScanned :: u64
  objectsScanned :: u64
  partsScanned :: u64
  filesScanned :: u64
  bytesRead :: u64
  leakedBytes :: u64
  findings :: "Finding list"

definition no_report :: FsckReport where
  "no_report = \<lparr>bucketsScanned = 0, objectsScanned = 0, partsScanned = 0, filesScanned = 0,
     bytesRead = 0, leakedBytes = 0, findings = []\<rparr>"

definition report_clean :: "FsckReport \<Rightarrow> bool" where
  "report_clean report \<longleftrightarrow> findings report = []"

record FsckOptions =
  verifyDigests :: bool
  unreferencedGraceMs :: i64
  maxFindings :: nat

definition note_finding :: "nat \<Rightarrow> FsckKind \<Rightarrow> string \<Rightarrow> string \<Rightarrow> FsckReport \<Rightarrow> FsckReport" where
  "note_finding limit kind blobId reference report =
     (if limit \<le> length (findings report) then report
      else report\<lparr>findings := findings report @
             [\<lparr>fi_kind = kind, fi_blobId = blobId, fi_reference = reference\<rparr>]\<rparr>)"

section \<open>What the metadata refers to\<close>

record Reference =
  rf_referrer :: string
  rf_size :: u64
  rf_sha256 :: string

type_synonym references = "(string \<times> Reference) list"

text \<open>\<open>emplace\<close> keeps an entry that is there already.\<close>

definition refs_emplace :: "string \<Rightarrow> Reference \<Rightarrow> references \<Rightarrow> references" where
  "refs_emplace blobId r m = (if map_of m blobId = None then m @ [(blobId, r)] else m)"

type_synonym scan = "FsckReport \<times> references"

definition scan_object :: "string \<Rightarrow> scan \<Rightarrow> ObjectRecord \<Rightarrow> scan" where
  "scan_object bucket sc object =
     ((fst sc)\<lparr>objectsScanned := objectsScanned (fst sc) + 1\<rparr>,
      refs_emplace (o_blobId object)
        \<lparr>rf_referrer = bucket @ ''/'' @ o_key object, rf_size = o_size object,
         rf_sha256 = o_sha256 object\<rparr> (snd sc))"

partial_function (option) scan_objects ::
  "'db rocksdb \<Rightarrow> 'db store \<Rightarrow> string \<Rightarrow> ListObjectsRequest \<Rightarrow> scan \<Rightarrow> (exn + scan) option" where
  "scan_objects R s bucket page sc =
     (case listObjects R bucket page s of
        Inl x \<Rightarrow> Some (Inl x)
      | Inr listing \<Rightarrow>
          let sc = foldl (scan_object bucket) sc (lor_objects listing) in
          if \<not> lor_truncated listing then Some (Inr sc)
          else scan_objects R s bucket (page\<lparr>lo_startAfter := lor_nextStartAfter listing\<rparr>) sc)"

declare scan_objects.simps [code]

definition scan_part :: "string \<Rightarrow> scan \<Rightarrow> PartRecord \<Rightarrow> scan" where
  "scan_part uploadId sc part =
     ((fst sc)\<lparr>partsScanned := partsScanned (fst sc) + 1\<rparr>,
      refs_emplace (p_blobId part)
        \<lparr>rf_referrer = ''upload '' @ uploadId @ '' part '' @ to_string (unat (p_partNumber part)),
         rf_size = p_size part, rf_sha256 = []\<rparr> (snd sc))"

fun scan_parts :: "'db rocksdb \<Rightarrow> 'db store \<Rightarrow> UploadRecord list \<Rightarrow> scan \<Rightarrow> exn + scan" where
  "scan_parts R s [] sc = Inr sc"
| "scan_parts R s (upload # rest) sc =
     (case listParts R (up_uploadId upload) s of
        Inl x \<Rightarrow> Inl x
      | Inr parts \<Rightarrow> scan_parts R s rest (foldl (scan_part (up_uploadId upload)) sc parts))"

partial_function (option) scan_uploads ::
  "'db rocksdb \<Rightarrow> 'db store \<Rightarrow> string \<Rightarrow> ListUploadsRequest \<Rightarrow> scan \<Rightarrow> (exn + scan) option" where
  "scan_uploads R s bucket page sc =
     (case listUploads R bucket page s of
        Inl x \<Rightarrow> Some (Inl x)
      | Inr uploads \<Rightarrow>
          (case scan_parts R s (lur_uploads uploads) sc of
             Inl x \<Rightarrow> Some (Inl x)
           | Inr sc \<Rightarrow>
               if \<not> lur_truncated uploads then Some (Inr sc)
               else scan_uploads R s bucket
                      (page\<lparr>lu_keyMarker := lur_nextKeyMarker uploads,
                            lu_uploadIdMarker := lur_nextUploadIdMarker uploads\<rparr>) sc))"

declare scan_uploads.simps [code]

definition first_objects_page :: ListObjectsRequest where
  "first_objects_page = \<lparr>lo_prefix = [], lo_delimiter = [], lo_startAfter = [], lo_maxKeys = 1000\<rparr>"

definition first_uploads_page :: ListUploadsRequest where
  "first_uploads_page = \<lparr>lu_prefix = [], lu_keyMarker = [], lu_uploadIdMarker = [], lu_maxUploads = 1000\<rparr>"

fun scan_buckets ::
  "'db rocksdb \<Rightarrow> 'db store \<Rightarrow> BucketRecord list \<Rightarrow> scan \<Rightarrow> (exn + scan) option" where
  "scan_buckets R s [] sc = Some (Inr sc)"
| "scan_buckets R s (bucket # rest) sc =
     (case scan_objects R s (b_name bucket) first_objects_page
             ((fst sc)\<lparr>bucketsScanned := bucketsScanned (fst sc) + 1\<rparr>, snd sc) of
        None \<Rightarrow> None
      | Some (Inl x) \<Rightarrow> Some (Inl x)
      | Some (Inr sc) \<Rightarrow>
          (case scan_uploads R s (b_name bucket) first_uploads_page sc of
             None \<Rightarrow> None
           | Some (Inl x) \<Rightarrow> Some (Inl x)
           | Some (Inr sc) \<Rightarrow> scan_buckets R s rest sc))"

section \<open>What is on disk\<close>

text \<open>The visitor of the tree walk; \<open>present\<close> collects the well-formed names.\<close>

definition walk_entry ::
  "FsckOptions \<Rightarrow> references \<Rightarrow> string list \<Rightarrow> i64 \<Rightarrow> TreeEntry \<Rightarrow> FsckReport \<times> string list \<Rightarrow>
   FsckReport \<times> string list" where
  "walk_entry options referenced queued youngerThan entry = (\<lambda>(report, present).
     if \<not> te_wellFormed entry
     then (note_finding (maxFindings options) MalformedName (te_blobId entry) [] report, present)
     else
       let present = te_blobId entry # present in
       case map_of referenced (te_blobId entry) of
         None \<Rightarrow>
           if te_blobId entry \<in> set queued then (report, present)
           else if sint youngerThan < sint (te_modifiedMs entry) then (report, present)
           else (note_finding (maxFindings options) UnreferencedPayload (te_blobId entry) []
                   (report\<lparr>leakedBytes := leakedBytes report + te_size entry\<rparr>), present)
       | Some reference \<Rightarrow>
           if te_size entry \<noteq> rf_size reference
           then (note_finding (maxFindings options) SizeMismatch (te_blobId entry)
                   (rf_referrer reference) report, present)
           else (report, present))"

definition walk_tree ::
  "FsckOptions \<Rightarrow> references \<Rightarrow> string list \<Rightarrow> i64 \<Rightarrow> TreeEntry list \<Rightarrow> FsckReport \<Rightarrow>
   FsckReport \<times> string list" where
  "walk_tree options referenced queued youngerThan entries report =
     fold (walk_entry options referenced queued youngerThan) entries (report, [])"

definition note_missing :: "FsckOptions \<Rightarrow> references \<Rightarrow> string list \<Rightarrow> FsckReport \<Rightarrow> FsckReport" where
  "note_missing options referenced present report =
     fold (\<lambda>(blobId, reference) report.
         if blobId \<in> set present then report
         else note_finding (maxFindings options) MissingPayload blobId (rf_referrer reference) report)
       referenced report"

section \<open>Digests\<close>

text \<open>One payload read to its end: what was read, and the exception that cut it short.\<close>

partial_function (option) digest_loop ::
  "'f posix \<Rightarrow> u64 \<Rightarrow> BlobReader \<Rightarrow> Digest \<Rightarrow> 'f \<Rightarrow> ((exn + unit) \<times> Digest \<times> BlobReader \<times> 'f) option" where
  "digest_loop P space reader digest f =
     (case blob_read P reader space f of
        None \<Rightarrow> None
      | Some (Inl x, reader, f) \<Rightarrow> Some (Inl x, digest, reader, f)
      | Some (Inr data, reader, f) \<Rightarrow>
          if data = [] then Some (Inr (), digest, reader, f)
          else digest_loop P space reader (digest_update data digest) f)"

declare digest_loop.simps [code]

definition read_digest ::
  "'f posix \<Rightarrow> blob_store \<Rightarrow> u64 \<Rightarrow> string \<Rightarrow> 'f \<Rightarrow> ((exn + unit) \<times> Digest \<times> 'f) option" where
  "read_digest P bs space blobId f =
     (case blob_open P bs blobId f of
        None \<Rightarrow> None
      | Some (Inl x, f) \<Rightarrow> Some (Inl x, new_digest, f)
      | Some (Inr reader, f) \<Rightarrow>
          (case digest_loop P space reader new_digest f of
             None \<Rightarrow> None
           | Some (x, digest, reader, f) \<Rightarrow> Some (x, digest, reader_close P reader f)))"

text \<open>A \<open>StorageError\<close> is a finding, any other exception leaves \<open>fsck\<close>.\<close>

fun verify_loop ::
  "'f posix \<Rightarrow> hashes \<Rightarrow> blob_store \<Rightarrow> u64 \<Rightarrow> FsckOptions \<Rightarrow> string list \<Rightarrow> references \<Rightarrow>
   FsckReport \<Rightarrow> 'f \<Rightarrow> ((exn + FsckReport) \<times> 'f) option" where
  "verify_loop P H bs space options present [] report f = Some (Inr report, f)"
| "verify_loop P H bs space options present ((blobId, reference) # rest) report f =
     (if rf_sha256 reference = [] \<or> blobId \<notin> set present
      then verify_loop P H bs space options present rest report f
      else case read_digest P bs space blobId f of
        None \<Rightarrow> None
      | Some (outcome, digest, f) \<Rightarrow>
          let report = report\<lparr>bytesRead := bytesRead report + d_bytes digest\<rparr> in
          (case outcome of
             Inl (StorageError code) \<Rightarrow>
               verify_loop P H bs space options present rest
                 (note_finding (maxFindings options) MissingPayload blobId (rf_referrer reference) report) f
           | Inl x \<Rightarrow> Some (Inl x, f)
           | Inr _ \<Rightarrow>
               verify_loop P H bs space options present rest
                 (if dr_sha256 (digest_finish H digest) \<noteq> rf_sha256 reference
                  then note_finding (maxFindings options) DigestMismatch blobId (rf_referrer reference) report
                  else report) f))"

section \<open>The check\<close>

definition fsck ::
  "('db, 'f) platform \<Rightarrow> (references \<Rightarrow> references) \<Rightarrow> clock \<Rightarrow> FsckOptions \<Rightarrow>
   (('db, 'f) engine, FsckReport) prog" where
  "fsck E visit clock options e =
     (case listBuckets (pl_rocks E) (e_meta e) of
        Inl x \<Rightarrow> Some (Inl x, e)
      | Inr buckets \<Rightarrow>
          (case scan_buckets (pl_rocks E) (e_meta e) buckets (no_report, []) of
             None \<Rightarrow> None
           | Some (Inl x) \<Rightarrow> Some (Inl x, e)
           | Some (Inr (report, referenced)) \<Rightarrow>
               (case listOrphans (pl_rocks E) kSizeMax (clock 0) (e_meta e) of
                  Inl x \<Rightarrow> Some (Inl x, e)
                | Inr queued \<Rightarrow>
                    let entries = forEachBlob (pl_posix E) (e_blobs e) (e_fs e) in
                    (case walk_tree options referenced queued (clock 1 - unreferencedGraceMs options)
                            entries report of
                       (report, present) \<Rightarrow>
                         let report = note_missing options (visit referenced) present
                               (report\<lparr>filesScanned := of_nat (length entries)\<rparr>)
                         in if \<not> verifyDigests options then Some (Inr report, e)
                            else case verify_loop (pl_posix E) (pl_hashes E) (e_blobs e)
                                   (eo_chunkBytes (e_options e)) options present (visit referenced)
                                   report (e_fs e) of
                              None \<Rightarrow> None
                            | Some (x, f) \<Rightarrow> Some (x, e\<lparr>e_fs := f\<rparr>)))))"

end
