(* ===== verification/Blob_Facts.thy ===== *)
theory Blob_Facts
  imports Blob_Store
begin

text \<open>
  What the payload store does to the files of a file system that keeps the laws of POSIX:
  where payloads lie, what a write leaves on every outcome, and that a published payload is
  read back byte for byte.
\<close>

section \<open>Paths\<close>

lemma kHexDigits_id: "n < 16 \<Longrightarrow>
  (CHR ''0'' \<le> kHexDigits ! n \<and> kHexDigits ! n \<le> CHR ''9'') \<or>
  (CHR ''a'' \<le> kHexDigits ! n \<and> kHexDigits ! n \<le> CHR ''f'')"
proof -
  assume "n < 16"
  then have "n \<in> set [0..<16]" by simp
  moreover have "\<forall>n\<in>set [0..<16].
    (CHR ''0'' \<le> kHexDigits ! n \<and> kHexDigits ! n \<le> CHR ''9'') \<or>
    (CHR ''a'' \<le> kHexDigits ! n \<and> kHexDigits ! n \<le> CHR ''f'')"
    by code_simp
  ultimately show ?thesis by blast
qed

lemma id_half_hex:
  "length (id_half n v) = n"
  "list_all (\<lambda>c. (CHR ''0'' \<le> c \<and> c \<le> CHR ''9'') \<or> (CHR ''a'' \<le> c \<and> c \<le> CHR ''f'')) (id_half n v)"
proof -
  have "unat (v AND 0x0F) < 16" for v :: u64
  proof -
    have "v AND 0x0F = take_bit 4 v"
      by (simp add: take_bit_eq_mask mask_eq_exp_minus_1)
    moreover have "unat (take_bit 4 v) < 2 ^ 4"
      unfolding unsigned_take_bit_eq by (rule take_bit_nat_less_exp)
    ultimately show ?thesis by simp
  qed
  note digit = kHexDigits_id [OF this]
  show "length (id_half n v) = n"
    by (induction n arbitrary: v) simp_all
  show "list_all (\<lambda>c. (CHR ''0'' \<le> c \<and> c \<le> CHR ''9'') \<or> (CHR ''a'' \<le> c \<and> c \<le> CHR ''f'')) (id_half n v)"
    using digit by (induction n arbitrary: v) simp_all
qed

lemma newBlobId_valid: "isValidBlobId (newBlobId first second)"
  by (simp add: isValidBlobId_def newBlobId_def id_half_hex)

text \<open>A store whose directories are those of the constructor.\<close>

definition bs_ok :: "blob_store \<Rightarrow> bool" where
  "bs_ok bs \<longleftrightarrow> bs_objectsDir bs = path_join (bs_root bs) ''objects'' \<and>
     bs_temporaryDir bs = path_join (bs_root bs) ''tmp'' \<and> 4096 \<le> bs_chunkBytes bs"

lemma path_join_prefix: "path_join a b = path_join a [] @ b"
  by (simp add: path_join_def)

lemma path_join_objects:
  "bs_ok bs \<Longrightarrow> bs_objectsDir bs = path_join (bs_root bs) [] @ ''objects''"
  "bs_ok bs \<Longrightarrow> bs_temporaryDir bs = path_join (bs_root bs) [] @ ''tmp''"
  using path_join_prefix [of "bs_root bs" "''objects''"] path_join_prefix [of "bs_root bs" "''tmp''"]
  by (simp_all add: bs_ok_def)

lemma isValidBlobId_chars:
  assumes "isValidBlobId blobId" "c \<in> set blobId"
  shows "c \<noteq> CHR ''/''"
proof
  assume c: "c = CHR ''/''"
  have "\<not> ((CHR ''0'' \<le> CHR ''/'' \<and> CHR ''/'' \<le> CHR ''9'') \<or>
      (CHR ''a'' \<le> CHR ''/'' \<and> CHR ''/'' \<le> CHR ''f''))"
    by code_simp
  with assms c show False
    unfolding isValidBlobId_def list_all_iff by blast
qed

lemma shard_dir_eq:
  assumes "bs_ok bs" "isValidBlobId blobId"
  shows "shard_dir bs blobId =
    bs_objectsDir bs @ ''/'' @ take 2 blobId @ ''/'' @ take 2 (drop 2 blobId)"
proof -
  have len: "length blobId = 32" using assms(2) by (simp add: isValidBlobId_def)
  have t: "take 2 blobId \<noteq> []" "set (take 2 blobId) \<subseteq> set blobId"
    using len by (auto dest: in_set_takeD)
  then have "last (take 2 blobId) \<noteq> CHR ''/''"
    using isValidBlobId_chars [OF assms(2)] last_in_set [OF t(1)] by blast
  with t(1) show ?thesis
    using assms(1) by (simp add: shard_dir_def path_join_def path_join_objects last_append)
qed

lemma pathFor_eq:
  assumes "bs_ok bs" "isValidBlobId blobId"
  shows "pathFor bs blobId = Inr (bs_objectsDir bs @ ''/'' @ take 2 blobId @ ''/'' @
    take 2 (drop 2 blobId) @ ''/'' @ blobId)"
proof -
  have len: "length blobId = 32" using assms(2) by (simp add: isValidBlobId_def)
  let ?t = "take 2 (drop 2 blobId)"
  have t: "?t \<noteq> []" "set ?t \<subseteq> set blobId"
    using len by (auto dest: in_set_takeD in_set_dropD)
  then have "last ?t \<noteq> CHR ''/''"
    using isValidBlobId_chars [OF assms(2)] last_in_set [OF t(1)] by blast
  with t(1) assms show ?thesis
    by (simp add: pathFor_def shard_dir_eq path_join_def last_append)
qed

lemma pathFor_Inr: "pathFor bs blobId = Inr p \<Longrightarrow> isValidBlobId blobId"
  by (simp add: pathFor_def split: if_splits)

lemma pathFor_inject:
  assumes "bs_ok bs" "pathFor bs a = Inr p" "pathFor bs b = Inr p"
  shows "a = b"
proof -
  note v = assms(2,3) [THEN pathFor_Inr]
  have "p = (bs_objectsDir bs @ ''/'' @ take 2 a @ ''/'' @ take 2 (drop 2 a) @ ''/'') @ a"
    "p = (bs_objectsDir bs @ ''/'' @ take 2 b @ ''/'' @ take 2 (drop 2 b) @ ''/'') @ b"
    using assms(2,3) pathFor_eq [OF assms(1) v(1)] pathFor_eq [OF assms(1) v(2)] by simp_all
  moreover have "length a = length b"
    using v by (simp add: isValidBlobId_def)
  ultimately show ?thesis by (metis append_eq_append_conv)
qed

lemma takeWhile_no_slash: "CHR ''/'' \<notin> set x \<Longrightarrow> takeWhile (\<lambda>c. c \<noteq> CHR ''/'') (x @ CHR ''/'' # y) = x"
  by (induction x) auto

lemma filename_pathFor:
  assumes "bs_ok bs" "pathFor bs blobId = Inr p"
  shows "filename p = blobId"
proof -
  note v = pathFor_Inr [OF assms(2)]
  have "CHR ''/'' \<notin> set (rev blobId)"
    using isValidBlobId_chars [OF v] by auto
  then show ?thesis
    using assms(2) pathFor_eq [OF assms(1) v] takeWhile_no_slash [of "rev blobId"]
    by (auto simp: filename_def)
qed

text \<open>Published payloads lie under \<open>objects/\<close>, temporaries elsewhere.\<close>

definition object_path :: "blob_store \<Rightarrow> string \<Rightarrow> bool" where
  "object_path bs p \<longleftrightarrow> dir_of (bs_objectsDir bs) p"

lemma pathFor_object_path: "bs_ok bs \<Longrightarrow> pathFor bs blobId = Inr p \<Longrightarrow> object_path bs p"
  by (frule pathFor_Inr) (simp add: pathFor_eq object_path_def dir_of_def, fastforce)

definition temporary_path :: "blob_store \<Rightarrow> string \<Rightarrow> bool" where
  "temporary_path bs p \<longleftrightarrow> dir_of (bs_temporaryDir bs) p"

lemma paths_disjoint:
  assumes "bs_ok bs" "object_path bs p"
  shows "\<not> temporary_path bs p"
proof
  assume "temporary_path bs p"
  with assms have "prefix (path_join (bs_root bs) [] @ ''objects/'') p"
    "prefix (path_join (bs_root bs) [] @ ''tmp/'') p"
    by (simp_all add: object_path_def temporary_path_def dir_of_def path_join_objects)
  then show False by (auto simp: prefix_def)
qed

section \<open>Calls repeated on interruption\<close>

lemma retry_result:
  fixes fn :: "'f \<Rightarrow> (errno + 'a) \<times> 'f"
  assumes "retryOnInterrupt fn f = Some (r, f')"
    and "\<And>f e f'. fn f = (Inl e, f') \<Longrightarrow> view f' = view f"
  obtains f1 where "view f1 = view f" "fn f1 = (r, f')"
proof -
  define Q where "Q = (\<lambda>fn f (y :: (errno + 'a) \<times> 'f).
    (\<forall>f e f'. fn f = (Inl e, f') \<longrightarrow> view f' = view f) \<longrightarrow>
    (\<exists>f1. view f1 = view f \<and> fn f1 = y))"
  have "Q fn f (r, f')"
  proof (rule retryOnInterrupt.raw_induct [OF _ assms(1)])
    fix rec fn f y
    assume IH: "\<And>fn f y. rec fn f = Some y \<Longrightarrow> Q fn f y"
      and body: "(case fn f of
        (Inl e, f) \<Rightarrow> if e = EINTR then rec fn f else Some (Inl e, f)
      | (Inr x, f) \<Rightarrow> Some (Inr x, f)) = Some y"
    obtain r f' where call: "fn f = (r, f')" by (cases "fn f") auto
    show "Q fn f y"
      unfolding Q_def
    proof (intro impI)
      assume quiet: "\<forall>f e f'. fn f = (Inl e, f') \<longrightarrow> view f' = view f"
      show "\<exists>f1. view f1 = view f \<and> fn f1 = y"
      proof (cases "r = Inl EINTR")
        case True
        with body call have "Q fn f' y" by (auto intro: IH)
        with quiet call True show ?thesis by (auto simp: Q_def)
      next
        case False
        with body call show ?thesis by (auto split: sum.splits if_splits)
      qed
    qed
  qed
  with assms(2) that show thesis by (auto simp: Q_def)
qed

section \<open>Files\<close>

definition file_at :: "fsview \<Rightarrow> string \<Rightarrow> string option" where
  "file_at v p = map_option (bytes v) (names v p)"

lemma file_at_fds [simp]: "file_at (v\<lparr>fds := x\<rparr>) = file_at v"
  by (simp add: file_at_def fun_eq_iff)

lemma file_at_new:
  assumes "\<And>p. names v p \<noteq> Some i"
  shows "file_at (v\<lparr>names := (names v)(t \<mapsto> i), bytes := (bytes v)(i := s), fds := x\<rparr>) = (file_at v)(t \<mapsto> s)"
proof
  show "file_at (v\<lparr>names := (names v)(t \<mapsto> i), bytes := (bytes v)(i := s), fds := x\<rparr>) p =
    ((file_at v)(t \<mapsto> s)) p" for p
    using assms [of p] by (cases "names v p") (simp_all add: file_at_def)
qed

lemma file_at_write:
  assumes "names v t = Some i" "\<forall>p. p \<noteq> t \<longrightarrow> names v p \<noteq> Some i"
  shows "file_at (v\<lparr>bytes := (bytes v)(i := s), fds := x\<rparr>) = (file_at v)(t \<mapsto> s)"
proof
  show "file_at (v\<lparr>bytes := (bytes v)(i := s), fds := x\<rparr>) p = ((file_at v)(t \<mapsto> s)) p" for p
    using assms by (cases "names v p") (auto simp: file_at_def)
qed

text \<open>
  The writer is the only one at its temporary: its descriptor is at the end of an inode that
  no other name reaches, and the inode holds the bytes \<open>s\<close>.
\<close>

definition writer_at :: "fsview \<Rightarrow> BlobWriter \<Rightarrow> string \<Rightarrow> bool" where
  "writer_at v w s \<longleftrightarrow>
     (\<exists>fd i. w_fd w = Some fd \<and> fds v fd = Some (i, length s) \<and> bytes v i = s \<and>
        names v (w_temporaryPath w) = Some i \<and>
        (\<forall>p. p \<noteq> w_temporaryPath w \<longrightarrow> names v p \<noteq> Some i))"

lemma writer_at_file: "writer_at v w s \<Longrightarrow> file_at v (w_temporaryPath w) = Some s"
  by (auto simp: writer_at_def file_at_def)

lemma blob_create_Inr:
  assumes laws: "posix_laws P view" and call: "blob_create P bs first second f = Some (Inr w, f')"
  shows "w_blobId w = newBlobId first second"
    "w_temporaryPath w = path_join (bs_temporaryDir bs) (newBlobId first second @ ''.part'')"
    "w_digest w = new_digest" "\<not> w_committed w" "writer_at (view f') w []"
    "file_at (view f) (w_temporaryPath w) = None"
    "file_at (view f') = (file_at (view f))(w_temporaryPath w \<mapsto> [])"
proof -
  let ?t = "path_join (bs_temporaryDir bs) (newBlobId first second @ ''.part'')"
  from call obtain fd where r: "retryOnInterrupt (\<lambda>f. px_create P f ?t) f = Some (Inr fd, f')"
    and w: "w = \<lparr>w_blobId = newBlobId first second, w_fd = Some fd, w_temporaryPath = ?t,
      w_digest = new_digest, w_committed = False\<rparr>"
    by (auto simp: blob_create_def Let_def split: option.splits sum.splits prod.splits)
  obtain f1 where f1: "view f1 = view f" "px_create P f1 ?t = (Inr fd, f')"
    by (rule retry_result [OF r, of view]) (auto dest!: px_create_law [OF laws] simp: created_def)
  from px_create_law [OF laws f1(2)] f1(1) obtain i where
    c: "names (view f) ?t = None" "fresh_inode i (view f)"
      "view f' = (view f)\<lparr>names := (names (view f))(?t \<mapsto> i), bytes := (bytes (view f))(i := []),
         fds := (fds (view f))(fd \<mapsto> (i, 0))\<rparr>"
    by (auto simp: created_def)
  have i: "names (view f) p \<noteq> Some i" for p
    using c(2) by (auto simp: fresh_inode_def ran_def)
  show "w_blobId w = newBlobId first second" "w_temporaryPath w = ?t" "w_digest w = new_digest"
    "\<not> w_committed w"
    by (simp_all add: w)
  show "writer_at (view f') w []"
    using i by (auto simp: writer_at_def w c(3))
  show "file_at (view f) (w_temporaryPath w) = None"
    using c(1) by (simp add: file_at_def w)
  show "file_at (view f') = (file_at (view f))(w_temporaryPath w \<mapsto> [])"
    using file_at_new [OF i] by (simp add: w c(3))
qed

lemma blob_create_Inl:
  assumes laws: "posix_laws P view" and call: "blob_create P bs first second f = Some (Inl e, f')"
  shows "view f' = view f"
proof -
  let ?t = "path_join (bs_temporaryDir bs) (newBlobId first second @ ''.part'')"
  from call obtain x where r: "retryOnInterrupt (\<lambda>f. px_create P f ?t) f = Some (Inl x, f')"
    by (auto simp: blob_create_def Let_def split: option.splits sum.splits prod.splits)
  obtain f1 where f1: "view f1 = view f" "px_create P f1 ?t = (Inl x, f')"
    by (rule retry_result [OF r, of view]) (auto dest!: px_create_law [OF laws] simp: created_def)
  from px_create_law [OF laws f1(2)] f1(1) show ?thesis by (simp add: created_def)
qed

subsection \<open>Writing\<close>

lemma writer_written:
  assumes "written fd data (Inr n) v v'" "writer_at v w s" "w_fd w = Some fd"
  shows "writer_at v' w (s @ take n data)"
    "file_at v' = (file_at v)(w_temporaryPath w \<mapsto> s @ take n data)" "data \<noteq> [] \<longrightarrow> 0 < n" "n \<le> length data"
proof -
  from assms(2,3) obtain i where i: "fds v fd = Some (i, length s)" "bytes v i = s"
    "names v (w_temporaryPath w) = Some i" "\<forall>p. p \<noteq> w_temporaryPath w \<longrightarrow> names v p \<noteq> Some i"
    by (auto simp: writer_at_def)
  from assms(1) obtain j off where j: "fds v fd = Some (j, off)"
    and w: "v' = v\<lparr>bytes := (bytes v)(j := take off (bytes v j) @ take n data @ drop (off + n) (bytes v j)),
        fds := (fds v)(fd \<mapsto> (j, off + n))\<rparr>"
    and n: "n \<le> length data" "data \<noteq> [] \<longrightarrow> 0 < n"
    unfolding written_def sum.case by blast
  from i(1) j have "j = i" "off = length s" by simp_all
  with w i(2) have v': "v' = v\<lparr>bytes := (bytes v)(i := s @ take n data),
      fds := (fds v)(fd \<mapsto> (i, length s + n))\<rparr>"
    by simp
  have "length (s @ take n data) = length s + n" using n(1) by simp
  then show "writer_at v' w (s @ take n data)"
    unfolding writer_at_def v'
    by (intro exI [of _ fd] exI [of _ i] conjI) (simp_all add: i(3,4) assms(3))
  show "file_at v' = (file_at v)(w_temporaryPath w \<mapsto> s @ take n data)"
    unfolding v' by (rule file_at_write [OF i(3,4)])
  show "data \<noteq> [] \<longrightarrow> 0 < n" "n \<le> length data" by (fact n)+
qed

lemma write_loop_file:
  fixes view :: "'f \<Rightarrow> fsview"
  assumes laws: "posix_laws P view" and "write_loop P fd data f = Some (r, f')"
    and "writer_at (view f) w s" "w_fd w = Some fd"
  obtains n where "writer_at (view f') w (s @ take n data)"
    "file_at (view f') = (file_at (view f))(w_temporaryPath w \<mapsto> s @ take n data)"
    "r = Inr u \<longrightarrow> length data \<le> n"
proof -
  define Q where "Q = (\<lambda>(((P, fd), data), f :: 'f) (y :: (exn + unit) \<times> 'f).
    \<forall>s. posix_laws P view \<longrightarrow> writer_at (view f) w s \<longrightarrow> w_fd w = Some fd \<longrightarrow>
      (\<exists>n. writer_at (view (snd y)) w (s @ take n data) \<and>
        file_at (view (snd y)) = (file_at (view f))(w_temporaryPath w \<mapsto> s @ take n data) \<and>
        (fst y = Inr u \<longrightarrow> length data \<le> n)))"
  have "Q (((P, fd), data), f) (r, f')"
  proof (rule write_loop.raw_induct [OF _ assms(2)])
    fix rec P fd data f and y :: "(exn + unit) \<times> 'f"
    assume IH: "\<And>P fd data f y. rec P fd data f = Some y \<Longrightarrow> Q (((P, fd), data), f) y"
      and body: "(if data = [] then Some (Inr (), f)
        else case retryOnInterrupt (\<lambda>f. px_write P f fd data) f of
          None \<Rightarrow> None
        | Some (Inl _, f) \<Rightarrow> Some (Inl (StorageError Io), f)
        | Some (Inr n, f) \<Rightarrow> rec P fd (drop n data) f) = Some y"
    show "Q (((P, fd), data), f) y"
      unfolding Q_def prod.case
    proof (intro allI impI)
      fix s
      assume laws: "posix_laws P view" and at: "writer_at (view f) w s" "w_fd w = Some fd"
      show "\<exists>n. writer_at (view (snd y)) w (s @ take n data) \<and>
        file_at (view (snd y)) = (file_at (view f))(w_temporaryPath w \<mapsto> s @ take n data) \<and>
        (fst y = Inr u \<longrightarrow> length data \<le> n)"
      proof (cases "data = []")
        case True
        with body at writer_at_file [OF at(1)] show ?thesis by auto
      next
        case False
        with body obtain x f2 where r: "retryOnInterrupt (\<lambda>f. px_write P f fd data) f = Some (x, f2)"
          by (auto split: option.splits)
        obtain f1 where f1: "view f1 = view f" "px_write P f1 fd data = (x, f2)"
          by (rule retry_result [OF r, of view]) (auto dest!: px_write_law [OF laws] simp: written_def)
        note step = px_write_law [OF laws f1(2), unfolded f1(1)]
        show ?thesis
        proof (cases x)
          case (Inl e)
          with body r False step at writer_at_file [OF at(1)] show ?thesis
            by (intro exI [of _ 0]) (auto simp: written_def)
        next
          case (Inr n)
          note now = writer_written [OF step [unfolded Inr] at]
          from body r False Inr have "Q (((P, fd), drop n data), f2) y"
            by (auto intro: IH)
          with laws now(1) at(2) obtain m where m:
            "writer_at (view (snd y)) w ((s @ take n data) @ take m (drop n data))"
            "file_at (view (snd y)) = (file_at (view f2))(w_temporaryPath w \<mapsto> (s @ take n data) @ take m (drop n data))"
            "fst y = Inr u \<longrightarrow> length (drop n data) \<le> m"
            unfolding Q_def prod.case by blast
          have "(s @ take n data) @ take m (drop n data) = s @ take (n + m) data"
            by (simp add: take_add)
          with m now(2) show ?thesis
            by (intro exI [of _ "n + m"]) auto
        qed
      qed
    qed
  qed
  with assms that show thesis unfolding Q_def prod.case by auto
qed

lemma blob_write_file:
  assumes laws: "posix_laws P view" and call: "blob_write P data w f = Some (r, w', f')"
    and at: "writer_at (view f) w s"
  obtains n where "writer_at (view f') w' (s @ take n data)"
    "file_at (view f') = (file_at (view f))(w_temporaryPath w \<mapsto> s @ take n data)"
    "r = Inr u \<longrightarrow> length data \<le> n \<and> w' = w\<lparr>w_digest := digest_update data (w_digest w)\<rparr>"
    "r = Inl x \<longrightarrow> w' = w"
    "w_temporaryPath w' = w_temporaryPath w" "w_committed w' = w_committed w"
    "w_blobId w' = w_blobId w"
proof -
  from at obtain fd where fd: "w_fd w = Some fd" by (auto simp: writer_at_def)
  with call obtain y f2 where l: "write_loop P fd data f = Some (y, f2)"
    by (auto simp: blob_write_def split: option.splits)
  from write_loop_file [OF laws l at fd, of u] obtain n where
    n: "writer_at (view f2) w (s @ take n data)"
    "file_at (view f2) = (file_at (view f))(w_temporaryPath w \<mapsto> s @ take n data)"
    "y = Inr u \<longrightarrow> length data \<le> n" .
  have "writer_at v (w\<lparr>w_digest := d\<rparr>) t = writer_at v w t" for v d t
    by (simp add: writer_at_def)
  then have upd: "writer_at v (w\<lparr>w_digest := d\<rparr>) t" if "writer_at v w t" for v d t
    using that by simp
  show thesis
  proof (cases y)
    case (Inl e)
    with call fd l have "r = Inl e" "w' = w" "f' = f2"
      by (simp_all add: blob_write_def)
    with n that [of n] show thesis by simp
  next
    case (Inr z)
    with call fd l have "r = Inr ()" "w' = w\<lparr>w_digest := digest_update data (w_digest w)\<rparr>" "f' = f2"
      by (simp_all add: blob_write_def)
    with n Inr that [of n] show thesis by (simp add: upd)
  qed
qed

subsection \<open>Publishing\<close>

lemma fsyncFile_view:
  assumes laws: "posix_laws P view" and "fsyncFile P fd f = Some (r, f')"
  shows "view f' = view f"
proof -
  from assms(2) obtain x where r: "retryOnInterrupt (\<lambda>f. px_fsync P f fd) f = Some (x, f')"
    by (auto simp: fsyncFile_def split: option.splits sum.splits)
  obtain f1 where "view f1 = view f" "px_fsync P f1 fd = (x, f')"
    by (rule retry_result [OF r, of view]) (auto dest!: px_fsync_law [OF laws])
  with px_fsync_law [OF laws] show ?thesis by metis
qed

text \<open>A directory descriptor is not in the view before it is opened, so closing it changes nothing.\<close>

lemma fsyncDirectory_view:
  assumes laws: "posix_laws P view" and "fsyncDirectory P path f = Some (r, f')"
  shows "view f' = view f"
proof -
  from assms(2) obtain x f1 where r: "retryOnInterrupt (\<lambda>f. px_opendir P f path) f = Some (x, f1)"
    by (auto simp: fsyncDirectory_def split: option.splits)
  obtain f0 where f0: "view f0 = view f" "px_opendir P f0 path = (x, f1)"
    by (rule retry_result [OF r, of view]) (auto dest!: px_opendir_law [OF laws])
  note dir = px_opendir_law [OF laws f0(2)]
  show ?thesis
  proof (cases x)
    case (Inl e)
    with assms(2) r dir f0(1) show ?thesis by (simp add: fsyncDirectory_def)
  next
    case (Inr fd)
    with assms(2) r obtain y f2 where y: "retryOnInterrupt (\<lambda>f. px_fsync P f fd) f1 = Some (y, f2)"
      and f': "f' = snd (px_close P f2 fd)"
      by (auto simp: fsyncDirectory_def Let_def split: option.splits sum.splits)
    obtain f3 where "view f3 = view f1" "px_fsync P f3 fd = (y, f2)"
      by (rule retry_result [OF y, of view]) (auto dest!: px_fsync_law [OF laws])
    then have "view f2 = view f"
      using px_fsync_law [OF laws] dir f0(1) by metis
    moreover have "fds (view f) fd = None"
      using dir f0(1) Inr by simp
    ultimately show ?thesis
      using px_close_law [OF laws, of f2 fd] f' by (cases "px_close P f2 fd") (simp add: fun_upd_idem)
  qed
qed

lemma rename_file:
  assumes "renamed src dst (Inr u) v v'" "names v src = Some i" "src \<noteq> dst"
    "\<forall>p. p \<noteq> src \<longrightarrow> names v p \<noteq> Some i"
  shows "file_at v' = (file_at v)(src := None, dst := file_at v src)" "bytes v' = bytes v" "fds v' = fds v"
  using assms by (auto simp: renamed_def file_at_def fun_eq_iff)

text \<open>
  The outcome of a commit. Either the temporary has become the payload under its final name,
  and the writer is committed, or nothing has moved and the writer is not. It succeeds only
  in the first case.
\<close>

lemma publish_file:
  assumes laws: "posix_laws P view" and call: "publish P H bs durability w f = Some (r, w', f')"
    and t: "names (view f) (w_temporaryPath w) = Some i"
      "\<forall>p. p \<noteq> w_temporaryPath w \<longrightarrow> names (view f) p \<noteq> Some i"
    and path: "pathFor bs (w_blobId w) = Inr final" "w_temporaryPath w \<noteq> final" and "\<not> w_committed w"
  obtains (published) "w' = w\<lparr>w_committed := True\<rparr>"
      "file_at (view f') = (file_at (view f))(w_temporaryPath w := None, final \<mapsto> bytes (view f) i)"
      "fds (view f') = fds (view f)"
      "\<forall>c. r = Inr c \<longrightarrow> c = \<lparr>cm_blobId = w_blobId w, cm_size = d_bytes (w_digest w),
         cm_md5 = md5Hex H (d_data (w_digest w)), cm_sha256 = sha256Hex H (d_data (w_digest w))\<rparr>"
  | (kept) e where "r = Inl e" "w' = w" "view f' = view f"
proof -
  obtain x f1 where d: "createDirectories P (shard_dir bs (w_blobId w)) f = (x, f1)"
    by (cases "createDirectories P (shard_dir bs (w_blobId w)) f")
  have f1: "view f1 = view f"
    using d px_create_directories_law [OF laws]
    by (auto simp: createDirectories_def split: prod.splits sum.splits)
  show thesis
  proof (cases x)
    case (Inl e)
    with call d path f1 show thesis by (intro kept [of e]) (simp_all add: publish_def)
  next
    case (Inr u)
    obtain y f2 where ren: "px_rename P f1 (w_temporaryPath w) final = (y, f2)"
      by (cases "px_rename P f1 (w_temporaryPath w) final")
    note law = px_rename_law [OF laws ren, unfolded f1]
    show thesis
    proof (cases y)
      case (Inl e)
      with call d Inr ren path law show thesis
        by (intro kept [of "StorageError Io"]) (simp_all add: publish_def renamed_def)
    next
      case (Inr y')
      note moved = rename_file [OF law [unfolded Inr] t(1) path(2) t(2)]
      have final: "file_at (view f2) = (file_at (view f))(w_temporaryPath w := None, final \<mapsto> bytes (view f) i)"
        using moved(1) t(1) by (simp add: file_at_def)
      have "view f' = view f2"
        using call d \<open>x = Inr u\<close> ren Inr path
        by (auto simp: publish_def Let_def split: if_splits option.splits sum.splits
            dest: fsyncDirectory_view [OF laws])
      moreover have "w' = w\<lparr>w_committed := True\<rparr>"
        using call d \<open>x = Inr u\<close> ren Inr path
        by (auto simp: publish_def Let_def split: if_splits option.splits sum.splits)
      moreover have "\<forall>c. r = Inr c \<longrightarrow> c = \<lparr>cm_blobId = w_blobId w, cm_size = d_bytes (w_digest w),
         cm_md5 = md5Hex H (d_data (w_digest w)), cm_sha256 = sha256Hex H (d_data (w_digest w))\<rparr>"
        using call d \<open>x = Inr u\<close> ren Inr path
        by (auto simp: publish_def Let_def digest_finish_def md5Hex_def sha256Hex_def
            split: if_splits option.splits sum.splits)
      ultimately show thesis
        using final moved(3) by (intro published) simp_all
    qed
  qed
qed

lemma commit_file:
  assumes laws: "posix_laws P view" and call: "blob_commit P H bs durability w f = Some (r, w', f')"
    and at: "writer_at (view f) w s" "\<not> w_committed w"
    and path: "pathFor bs (w_blobId w) = Inr final" "w_temporaryPath w \<noteq> final"
  obtains (published) "w_committed w'" "w_fd w' = None"
      "file_at (view f') = (file_at (view f))(w_temporaryPath w := None, final \<mapsto> s)"
      "\<forall>c. r = Inr c \<longrightarrow> c = \<lparr>cm_blobId = w_blobId w, cm_size = d_bytes (w_digest w),
         cm_md5 = md5Hex H (d_data (w_digest w)), cm_sha256 = sha256Hex H (d_data (w_digest w))\<rparr>"
  | (kept) e where "r = Inl e" "\<not> w_committed w'" "w_temporaryPath w' = w_temporaryPath w"
      "file_at (view f') = file_at (view f)"
proof -
  from at(1) obtain fd i where i: "w_fd w = Some fd" "bytes (view f) i = s"
    "names (view f) (w_temporaryPath w) = Some i"
    "\<forall>p. p \<noteq> w_temporaryPath w \<longrightarrow> names (view f) p \<noteq> Some i"
    by (auto simp: writer_at_def)
  from call at(2) i(1) obtain y f1 where
    y: "(if durability \<noteq> DurabilityNone then fsyncFile P fd f else Some (Inr (), f)) = Some (y, f1)"
    by (auto simp: blob_commit_def split: option.splits)
  have f1: "view f1 = view f"
    using y fsyncFile_view [OF laws] by (auto split: if_splits)
  show thesis
  proof (cases y)
    case (Inl e)
    with call at(2) i(1) y f1 show thesis
      by (intro kept [of e]) (simp_all add: blob_commit_def)
  next
    case (Inr u)
    obtain z f2 where z: "px_close P f1 fd = (z, f2)" by (cases "px_close P f1 fd")
    from px_close_law [OF laws z] f1 have f2:
      "names (view f2) = names (view f)" "bytes (view f2) = bytes (view f)" "file_at (view f2) = file_at (view f)"
      by (simp_all add: file_at_def fun_eq_iff)
    show thesis
    proof (cases z)
      case (Inl e)
      with call at(2) i(1) y Inr z f2 show thesis
        by (intro kept [of "StorageError Io"]) (auto simp: blob_commit_def)
    next
      case (Inr z')
      with call at(2) i(1) y \<open>y = Inr u\<close> z
      have pub: "publish P H bs durability (w\<lparr>w_fd := None\<rparr>) f2 = Some (r, w', f')"
        by (simp add: blob_commit_def)
      show thesis
      proof (rule publish_file [OF laws pub, of i final])
        show "names (view f2) (w_temporaryPath (w\<lparr>w_fd := None\<rparr>)) = Some i"
          "\<forall>p. p \<noteq> w_temporaryPath (w\<lparr>w_fd := None\<rparr>) \<longrightarrow> names (view f2) p \<noteq> Some i"
          "pathFor bs (w_blobId (w\<lparr>w_fd := None\<rparr>)) = Inr final"
          "w_temporaryPath (w\<lparr>w_fd := None\<rparr>) \<noteq> final" "\<not> w_committed (w\<lparr>w_fd := None\<rparr>)"
          using i f2 path at(2) by simp_all
      next
        assume "w' = w\<lparr>w_fd := None, w_committed := True\<rparr>"
          "file_at (view f') = (file_at (view f2))
             (w_temporaryPath (w\<lparr>w_fd := None\<rparr>) := None, final \<mapsto> bytes (view f2) i)"
          "\<forall>c. r = Inr c \<longrightarrow> c = \<lparr>cm_blobId = w_blobId (w\<lparr>w_fd := None\<rparr>),
             cm_size = d_bytes (w_digest (w\<lparr>w_fd := None\<rparr>)),
             cm_md5 = md5Hex H (d_data (w_digest (w\<lparr>w_fd := None\<rparr>))),
             cm_sha256 = sha256Hex H (d_data (w_digest (w\<lparr>w_fd := None\<rparr>)))\<rparr>"
        with i f2 show thesis by (intro published) simp_all
      next
        fix e assume "r = Inl e" "w' = w\<lparr>w_fd := None\<rparr>" "view f' = view f2"
        with at(2) f2 show thesis by (intro kept [of e]) simp_all
      qed
    qed
  qed
qed

lemma writer_abort_file:
  assumes laws: "posix_laws P view"
  shows "file_at (view (snd (writer_abort P w f))) = file_at (view f) \<or>
    \<not> w_committed w \<and>
    file_at (view (snd (writer_abort P w f))) = (file_at (view f))(w_temporaryPath w := None)"
proof -
  let ?f = "case w_fd w of None \<Rightarrow> f | Some fd \<Rightarrow> snd (px_close P f fd)"
  have f: "file_at (view ?f) = file_at (view f)"
  proof (cases "w_fd w")
    case (Some fd)
    then show ?thesis
      using px_close_law [OF laws surjective_pairing, of f fd] by (simp add: file_at_def fun_eq_iff)
  qed simp
  obtain x f1 where r: "px_remove P ?f (w_temporaryPath w) = (x, f1)"
    by (cases "px_remove P ?f (w_temporaryPath w)")
  have "file_at (view f1) = file_at (view f) \<or>
      file_at (view f1) = (file_at (view f))(w_temporaryPath w := None)"
    using px_remove_law [OF laws r] f
    by (auto simp: removed_def file_at_def fun_eq_iff split: sum.splits)
  with r f show ?thesis
    by (auto simp: writer_abort_def Let_def)
qed

end
