(* ===== verification/Blob_Reading.thy ===== *)
theory Blob_Reading
  imports Blob_Facts
begin

text \<open>
  Reading payloads back: what an open reader has still to deliver, that every read delivers
  the next piece of it, and that copying a payload into a writer copies all of it. The theory
  ends with the two properties of the payload store.
\<close>

section \<open>Readers\<close>

definition reader_at :: "fsview \<Rightarrow> BlobReader \<Rightarrow> string \<Rightarrow> bool" where
  "reader_at v r s \<longleftrightarrow>
     (\<exists>i off. fds v (rd_fd r) = Some (i, off) \<and> bytes v i = s) \<and>
     unat (rd_size r) = length s \<and> rd_offset r \<le> rd_end r \<and> rd_end r \<le> rd_size r"

text \<open>The bytes of the range that have not been read.\<close>

definition reader_rest :: "BlobReader \<Rightarrow> string \<Rightarrow> string" where
  "reader_rest r s = take (unat (rd_end r) - unat (rd_offset r)) (drop (unat (rd_offset r)) s)"

lemma blob_open_Inr:
  assumes laws: "posix_laws P view" and call: "blob_open P bs blobId f = Some (Inr r, f')"
  obtains path s where "pathFor bs blobId = Inr path" "file_at (view f) path = Some s"
    "reader_at (view f') r s" "reader_rest r s = s" "names (view f') = names (view f)"
    "bytes (view f') = bytes (view f)"
    "\<exists>i. fds (view f) (rd_fd r) = None \<and> names (view f) path = Some i \<and>
       fds (view f') = (fds (view f))(rd_fd r \<mapsto> (i, 0))"
proof -
  from call obtain path where path: "pathFor bs blobId = Inr path"
    by (auto simp: blob_open_def split: sum.splits)
  with call obtain fd info where o: "retryOnInterrupt (\<lambda>f. px_open P f path) f = Some (Inr fd, f')"
    and i: "px_fstat P f' fd = Inr info"
    and r: "r = \<lparr>rd_fd = fd, rd_size = st_size info, rd_offset = 0, rd_end = st_size info\<rparr>"
    by (auto simp: blob_open_def split: sum.splits option.splits if_splits)
  obtain f1 where f1: "view f1 = view f" "px_open P f1 path = (Inr fd, f')"
    by (rule retry_result [OF o, of view]) (auto dest!: px_open_law [OF laws] simp: opened_def)
  from px_open_law [OF laws f1(2)] f1(1) obtain n where n: "names (view f) path = Some n"
    "fds (view f) fd = None" "view f' = (view f)\<lparr>fds := (fds (view f))(fd \<mapsto> (n, 0))\<rparr>"
    by (auto simp: opened_def)
  from px_fstat_law [OF laws i] n(3) have size: "unat (st_size info) = length (bytes (view f) n)"
    by auto
  show thesis
  proof (rule that [OF path])
    show "file_at (view f) path = Some (bytes (view f) n)"
      using n(1) by (simp add: file_at_def)
    show "reader_at (view f') r (bytes (view f) n)" "reader_rest r (bytes (view f) n) = bytes (view f) n"
      using n size by (auto simp: reader_at_def reader_rest_def r)
  qed (use n r in auto)
qed

lemma limitTo_reader:
  assumes "reader_at v r s" "reader_rest r s = s" "rd_offset r = 0"
  shows "reader_at v (limitTo offset len r) s"
    "reader_rest (limitTo offset len r) s = take (unat len) (drop (unat offset) s)"
proof -
  let ?first = "min offset (rd_size r)"
  have size: "unat (rd_size r) = length s" and le: "?first \<le> rd_size r"
    using assms(1) by (simp_all add: reader_at_def)
  have first: "unat ?first = min (unat offset) (length s)"
    using size by (simp add: min_def word_le_nat_alt)
  have sub: "unat (rd_size r - ?first) = length s - unat ?first"
    using le size by (simp add: unat_sub)
  show "reader_rest (limitTo offset len r) s = take (unat len) (drop (unat offset) s)"
  proof (cases "rd_size r - ?first < len")
    case True
    then have "length s - unat ?first < unat len"
      using sub by (simp add: word_less_nat_alt)
    with True first size show ?thesis
      by (simp add: limitTo_def Let_def reader_rest_def min_def split: if_splits)
  next
    case False
    then have "unat len \<le> length s - unat ?first"
      using sub by (simp add: word_less_nat_alt)
    moreover have "unat ?first \<le> length s" "length s < 2 ^ 64"
      using first size unat_64_less [of "rd_size r"] by auto
    ultimately have "unat (?first + len) = unat ?first + unat len"
      by (intro unat_add_u64) linarith
    with False first size show ?thesis
      by (simp add: limitTo_def Let_def reader_rest_def min_def split: if_splits)
  qed
  show "reader_at v (limitTo offset len r) s"
  proof (cases "rd_size r - ?first < len")
    case True
    with assms(1) le show ?thesis
      by (simp add: limitTo_def Let_def reader_at_def)
  next
    case False
    then have "unat len \<le> length s - unat ?first"
      using sub by (simp add: word_less_nat_alt)
    moreover have "unat ?first \<le> length s" "length s < 2 ^ 64"
      using first size unat_64_less [of "rd_size r"] by auto
    ultimately have "unat (?first + len) = unat ?first + unat len" "unat ?first + unat len \<le> length s"
      by (auto intro!: unat_add_u64)
    with False assms(1) size show ?thesis
      by (simp add: limitTo_def Let_def reader_at_def word_le_nat_alt)
  qed
qed

lemma blob_read_piece:
  assumes laws: "posix_laws P view" and call: "blob_read P r space f = Some (Inr got, r', f')"
    and at: "reader_at (view f) r s"
  shows "view f' = view f" "reader_at (view f') r' s" "reader_rest r s = got @ reader_rest r' s"
    "got = [] \<longrightarrow> reader_rest r s = [] \<or> space = 0" "length got \<le> unat space" "rd_fd r' = rd_fd r"
proof -
  let ?n = "unat (rd_end r) - unat (rd_offset r)"
  have le: "rd_offset r \<le> rd_end r" "unat (rd_end r) \<le> length s"
    and size: "unat (rd_size r) = length s"
    using at by (simp_all add: reader_at_def word_le_nat_alt)
  have avail: "unat (reader_remaining r) = ?n"
    using le(1) by (auto simp: reader_remaining_def unat_sub word_less_nat_alt word_le_nat_alt)
  have all: "view f' = view f \<and> reader_at (view f') r' s \<and> reader_rest r s = got @ reader_rest r' s \<and>
    (got = [] \<longrightarrow> reader_rest r s = [] \<or> space = 0) \<and> length got \<le> unat space \<and> rd_fd r' = rd_fd r"
  proof (cases "reader_remaining r = 0 \<or> space = 0")
    case True
    with call have "got = []" "r' = r" "f' = f"
      by (auto simp: blob_read_def)
    with True at avail show ?thesis
      by (auto simp: reader_rest_def)
  next
    case False
    let ?count = "min space (reader_remaining r)"
    from call False obtain y where
      y: "retryOnInterrupt (\<lambda>f. px_pread P f (rd_fd r) ?count (rd_offset r)) f = Some (y, f')"
      by (auto simp: blob_read_def Let_def split: option.splits sum.splits if_splits)
    with call False have got: "y = Inr got" "got \<noteq> []" "r' = r\<lparr>rd_offset := rd_offset r + of_nat (length got)\<rparr>"
      by (auto simp: blob_read_def Let_def split: sum.splits if_splits)
    obtain f1 where f1: "view f1 = view f" "px_pread P f1 (rd_fd r) ?count (rd_offset r) = (y, f')"
      by (rule retry_result [OF y, of view]) (auto dest!: px_pread_law [OF laws])
    note law = px_pread_law [OF laws f1(2)]
    from at obtain i off where i: "fds (view f) (rd_fd r) = Some (i, off)" "bytes (view f) i = s"
      by (auto simp: reader_at_def)
    have "unat ?count = min (unat space) ?n"
      using avail by (simp add: min_def word_le_nat_alt)
    with law f1(1) got(1) i have p: "prefix got (take (min (unat space) ?n) (drop (unat (rd_offset r)) s))"
      by (auto simp: was_read_def)
    then have len: "length got \<le> min (unat space) ?n"
      by (auto dest!: prefix_length_le)
    then have "unat (rd_offset r) + length got \<le> unat (rd_end r)"
      using le(1) by (auto simp: word_le_nat_alt)
    moreover have "unat (rd_end r) < 2 ^ 64" by simp
    ultimately have small: "unat (rd_offset r) + length got < 2 ^ 64" by linarith
    then have "unat (of_nat (length got) :: u64) = length got"
      by (simp add: unat_of_nat)
    with small have off: "unat (rd_offset r + of_nat (length got)) = unat (rd_offset r) + length got"
      by (subst unat_add_u64) simp_all
    from p have "got = take (length got) (drop (unat (rd_offset r)) s)"
    proof -
      from p obtain zs where
        zs: "take (min (unat space) ?n) (drop (unat (rd_offset r)) s) = got @ zs"
        by (auto simp: prefix_def)
      have "take (length got) (drop (unat (rd_offset r)) s) =
          take (length got) (take (min (unat space) ?n) (drop (unat (rd_offset r)) s))"
        using len by (simp add: min.absorb1)
      then show ?thesis unfolding zs by simp
    qed
    moreover have "take ?n (drop (unat (rd_offset r)) s) = take (length got) (drop (unat (rd_offset r)) s) @
        take (?n - length got) (drop (length got) (drop (unat (rd_offset r)) s))"
      using len by (metis le_add_diff_inverse min.boundedE take_add)
    ultimately have "reader_rest r s = got @
        take (?n - length got) (drop (length got) (drop (unat (rd_offset r)) s))"
      unfolding reader_rest_def by presburger
    also have "\<dots> = got @ reader_rest r' s"
      using off by (simp add: reader_rest_def got(3) add.commute diff_diff_eq)
    finally have "reader_rest r s = got @ reader_rest r' s" .
    moreover have "reader_at (view f') r' s"
      using at law f1(1) off \<open>unat (rd_offset r) + length got \<le> unat (rd_end r)\<close>
      by (auto simp: reader_at_def got(3) word_le_nat_alt)
    ultimately show ?thesis
      using law f1(1) got len by auto
  qed
  then show "view f' = view f" "reader_at (view f') r' s" "reader_rest r s = got @ reader_rest r' s"
    "got = [] \<longrightarrow> reader_rest r s = [] \<or> space = 0" "length got \<le> unat space" "rd_fd r' = rd_fd r"
    by blast+
qed

section \<open>Copying a payload\<close>

text \<open>A reader on another inode is not disturbed by what the writer writes.\<close>

lemma writer_keeps_reader:
  assumes laws: "posix_laws P view" and call: "blob_write P data w f = Some (y, w', f')"
    and at: "writer_at (view f) w c" and other: "fds (view f) (rd_fd r) = Some (i, off)"
      "names (view f) p = Some i" "p \<noteq> w_temporaryPath w"
    and kept: "reader_at (view f) r s"
  shows "reader_at (view f') r s" "fds (view f') (rd_fd r) = Some (i, off)" "names (view f') = names (view f)"
proof -
  from at obtain fd j where j: "w_fd w = Some fd" "fds (view f) fd = Some (j, length c)"
    "bytes (view f) j = c" "\<forall>p. p \<noteq> w_temporaryPath w \<longrightarrow> names (view f) p \<noteq> Some j"
    by (auto simp: writer_at_def)
  have ij: "i \<noteq> j" using other j(4) by auto
  then have fd: "fd \<noteq> rd_fd r" using j(2) other(1) by auto
  define same :: "fsview \<Rightarrow> fsview \<Rightarrow> bool" where "same = (\<lambda>v v'. names v' = names v \<and> (\<forall>k. k \<noteq> j \<longrightarrow> bytes v' k = bytes v k) \<and>
    (\<forall>k. k \<noteq> fd \<longrightarrow> fds v' k = fds v k) \<and> (\<exists>n. fds v' fd = Some (j, n)))"
  define Q where "Q = (\<lambda>(((P, fd'), data :: string), f :: 'a) (y :: (exn + unit) \<times> 'a).
    posix_laws P view \<longrightarrow> fd' = fd \<longrightarrow> (\<exists>n. fds (view f) fd = Some (j, n)) \<longrightarrow> same (view f) (view (snd y)))"
  from call j(1) obtain z f2 where l: "write_loop P fd data f = Some (z, f2)"
    by (auto simp: blob_write_def split: option.splits)
  have "Q (((P, fd), data), f) (z, f2)"
  proof (rule write_loop.raw_induct [OF _ l])
    fix rec P fd' data f and y :: "(exn + unit) \<times> 'a"
    assume IH: "\<And>P fd data f y. rec P fd data f = Some y \<Longrightarrow> Q (((P, fd), data), f) y"
      and body: "(if data = [] then Some (Inr (), f)
        else case retryOnInterrupt (\<lambda>f. px_write P f fd' data) f of
          None \<Rightarrow> None
        | Some (Inl _, f) \<Rightarrow> Some (Inl (StorageError Io), f)
        | Some (Inr n, f) \<Rightarrow> rec P fd' (drop n data) f) = Some y"
    show "Q (((P, fd'), data), f) y"
      unfolding Q_def prod.case
    proof (intro impI)
      assume laws: "posix_laws P view" and fd': "fd' = fd" and open_j: "\<exists>n. fds (view f) fd = Some (j, n)"
      show "same (view f) (view (snd y))"
      proof (cases "data = []")
        case True
        with body open_j show ?thesis by (auto simp: same_def)
      next
        case False
        with body obtain x f2 where r: "retryOnInterrupt (\<lambda>f. px_write P f fd' data) f = Some (x, f2)"
          by (auto split: option.splits)
        obtain f1 where f1: "view f1 = view f" "px_write P f1 fd' data = (x, f2)"
          by (rule retry_result [OF r, of view]) (auto dest!: px_write_law [OF laws] simp: written_def)
        have step: "same (view f) (view f2)"
          using px_write_law [OF laws f1(2), unfolded f1(1)] fd' open_j
          by (auto simp: written_def same_def split: sum.splits)
        show ?thesis
        proof (cases x)
          case (Inl e)
          with body r False step show ?thesis by auto
        next
          case (Inr n)
          with body r False have "Q (((P, fd'), drop n data), f2) y"
            by (auto intro: IH)
          with laws fd' step have "same (view f2) (view (snd y))"
            by (auto simp: Q_def same_def)
          with step show ?thesis unfolding same_def by metis
        qed
      qed
    qed
  qed
  with laws j(2) have "same (view f) (view f2)"
    unfolding Q_def prod.case by auto
  moreover have "f' = f2"
    using call j(1) l by (auto simp: blob_write_def split: sum.splits)
  ultimately have same: "same (view f) (view f')" by simp
  show "names (view f') = names (view f)" using same by (simp add: same_def)
  show "fds (view f') (rd_fd r) = Some (i, off)"
    using same fd other(1) unfolding same_def by metis
  then show "reader_at (view f') r s"
    using kept same ij other(1) by (simp add: reader_at_def same_def)
qed

lemma append_loop_copies:
  assumes laws: "posix_laws P view"
    and "append_loop P space r w f = Some (Inr u, r', w', f')" "space \<noteq> 0"
    and "writer_at (view f) w c" "reader_at (view f) r s"
    and "fds (view f) (rd_fd r) = Some (i, off)" "names (view f) p = Some i" "p \<noteq> w_temporaryPath w"
  shows "writer_at (view f') w' (c @ reader_rest r s) \<and>
    file_at (view f') = (file_at (view f))(w_temporaryPath w \<mapsto> c @ reader_rest r s) \<and>
    w_digest w' = foldl (\<lambda>d x. digest_update x d) (w_digest w) [reader_rest r s] \<and>
    w_temporaryPath w' = w_temporaryPath w \<and> w_committed w' = w_committed w \<and> w_blobId w' = w_blobId w \<and>
    rd_fd r' = rd_fd r \<and> fds (view f') (rd_fd r) = Some (i, off) \<and> names (view f') p = Some i"
proof -
  define ok :: "BlobReader \<Rightarrow> BlobWriter \<Rightarrow> string \<Rightarrow> string \<Rightarrow> 'a \<Rightarrow> BlobWriter \<Rightarrow> 'a \<Rightarrow> bool"
    where "ok = (\<lambda>r w c s f w' f'. writer_at (view f') w' (c @ reader_rest r s) \<and>
    file_at (view f') = (file_at (view f))(w_temporaryPath w \<mapsto> c @ reader_rest r s) \<and>
    w_digest w' = digest_update (reader_rest r s) (w_digest w) \<and>
    w_temporaryPath w' = w_temporaryPath w \<and> w_committed w' = w_committed w \<and> w_blobId w' = w_blobId w)"
  define Q where "Q = (\<lambda>((((P, space :: u64), r), w), f :: 'a)
      (y :: (exn + unit) \<times> BlobReader \<times> BlobWriter \<times> 'a).
    posix_laws P view \<longrightarrow> space \<noteq> 0 \<longrightarrow> fst y = Inr u \<longrightarrow>
    (\<forall>c. writer_at (view f) w c \<longrightarrow> reader_at (view f) r s \<longrightarrow>
      fds (view f) (rd_fd r) = Some (i, off) \<longrightarrow> names (view f) p = Some i \<longrightarrow> p \<noteq> w_temporaryPath w \<longrightarrow>
      ok r w c s f (fst (snd (snd y))) (snd (snd (snd y))) \<and> rd_fd (fst (snd y)) = rd_fd r \<and>
      fds (view (snd (snd (snd y)))) (rd_fd r) = Some (i, off) \<and>
      names (view (snd (snd (snd y)))) p = Some i))"
  have "Q ((((P, space), r), w), f) (Inr u, r', w', f')"
  proof (rule append_loop.raw_induct [OF _ assms(2)])
    fix rec P space r w f and y :: "(exn + unit) \<times> BlobReader \<times> BlobWriter \<times> 'a"
    assume IH: "\<And>P space r w f y. rec P space r w f = Some y \<Longrightarrow> Q ((((P, space), r), w), f) y"
      and body: "(case blob_read P r space f of
          None \<Rightarrow> None
        | Some (Inl e, r, f) \<Rightarrow> Some (Inl e, r, w, f)
        | Some (Inr data, r, f) \<Rightarrow>
            if data = [] then Some (Inr (), r, w, f)
            else case blob_write P data w f of
                None \<Rightarrow> None
              | Some (Inl e, w, f) \<Rightarrow> Some (Inl e, r, w, f)
              | Some (Inr _, w, f) \<Rightarrow> rec P space r w f) = Some y"
    show "Q ((((P, space), r), w), f) y"
      unfolding Q_def prod.case
    proof (intro impI allI)
      fix c
      assume laws: "posix_laws P view" and space: "space \<noteq> 0" and y: "fst y = Inr u"
        and at: "writer_at (view f) w c" "reader_at (view f) r s"
        and other: "fds (view f) (rd_fd r) = Some (i, off)" "names (view f) p = Some i"
          "p \<noteq> w_temporaryPath w"
      from body y obtain data r1 f1 where rd: "blob_read P r space f = Some (Inr data, r1, f1)"
        by (auto split: option.splits sum.splits)
      note piece = blob_read_piece [OF laws rd at(2)]
      show "ok r w c s f (fst (snd (snd y))) (snd (snd (snd y))) \<and> rd_fd (fst (snd y)) = rd_fd r \<and>
        fds (view (snd (snd (snd y)))) (rd_fd r) = Some (i, off) \<and>
        names (view (snd (snd (snd y)))) p = Some i"
      proof (cases "data = []")
        case True
        with body rd have "y = (Inr (), r1, w, f1)" by simp
        moreover have "reader_rest r s = []" using piece(4) True space by blast
        ultimately show ?thesis
          using at other piece(1,6) writer_at_file [OF at(1)] by (auto simp: ok_def digest_update_def)
      next
        case False
        with body rd y obtain u' w1 f2 where wr: "blob_write P data w f1 = Some (Inr u', w1, f2)"
          and next_turn: "rec P space r1 w1 f2 = Some y"
          by (auto split: option.splits sum.splits)
        have at1: "writer_at (view f1) w c" "reader_at (view f1) r1 s"
          "fds (view f1) (rd_fd r1) = Some (i, off)" "names (view f1) p = Some i"
          using at other piece(1,2,6) by auto
        obtain n where n: "writer_at (view f2) w1 (c @ take n data)"
          "file_at (view f2) = (file_at (view f1))(w_temporaryPath w \<mapsto> c @ take n data)"
          "length data \<le> n" "w1 = w\<lparr>w_digest := digest_update data (w_digest w)\<rparr>"
          by (rule blob_write_file [OF laws wr at1(1), of u']) auto
        note keep = writer_keeps_reader [OF laws wr at1(1,3,4) other(3) at1(2)]
        have IH': "ok r1 w1 (c @ data) s f2 (fst (snd (snd y))) (snd (snd (snd y))) \<and>
            rd_fd (fst (snd y)) = rd_fd r1 \<and> fds (view (snd (snd (snd y)))) (rd_fd r1) = Some (i, off) \<and>
            names (view (snd (snd (snd y)))) p = Some i"
          using IH [OF next_turn] laws space y n keep at1 other(3) unfolding Q_def prod.case by simp
        with n piece(1,3,6) show ?thesis
          by (simp add: ok_def digest_update_def split: if_splits)
      qed
    qed
  qed
  with assms show ?thesis
    unfolding Q_def prod.case ok_def by simp
qed

lemma temporary_not_final:
  assumes "bs_ok bs" "pathFor bs blobId = Inr path"
  shows "path \<noteq> path_join (bs_temporaryDir bs) (blobId' @ ''.part'')"
proof -
  have "temporary_path bs (path_join (bs_temporaryDir bs) (blobId' @ ''.part''))"
    using assms(1) by (simp add: temporary_path_def dir_of_def path_join_objects path_join_def)
  then show ?thesis
    using pathFor_object_path [OF assms] paths_disjoint [OF assms(1)] by blast
qed

lemma appendBlob_copies:
  assumes laws: "posix_laws P view" and call: "appendBlob P bs blobId w f = Some (Inr u, w', f')"
    and bs: "bs_chunkBytes bs \<noteq> 0" and at: "writer_at (view f) w c"
    and other: "\<And>path. pathFor bs blobId = Inr path \<Longrightarrow> path \<noteq> w_temporaryPath w"
  obtains path s where "pathFor bs blobId = Inr path" "file_at (view f) path = Some s"
    "writer_at (view f') w' (c @ s)" "file_at (view f') = (file_at (view f))(w_temporaryPath w \<mapsto> c @ s)"
    "w_digest w' = digest_update s (w_digest w)" "w_temporaryPath w' = w_temporaryPath w"
    "w_committed w' = w_committed w" "w_blobId w' = w_blobId w"
proof -
  from call obtain r f1 where o: "blob_open P bs blobId f = Some (Inr r, f1)"
    by (auto simp: appendBlob_def split: option.splits sum.splits)
  with call obtain r' f2 where l: "append_loop P (bs_chunkBytes bs) r w f1 = Some (Inr u, r', w', f2)"
    and f': "f' = reader_close P r' f2"
    by (auto simp: appendBlob_def split: option.splits)
  from blob_open_Inr [OF laws o] obtain path s i where path: "pathFor bs blobId = Inr path"
    and s: "file_at (view f) path = Some s" "reader_at (view f1) r s" "reader_rest r s = s"
    and same: "names (view f1) = names (view f)" "bytes (view f1) = bytes (view f)"
    and i: "names (view f) path = Some i" "fds (view f1) = (fds (view f))(rd_fd r \<mapsto> (i, 0))"
      "fds (view f) (rd_fd r) = None"
    by metis
  from at obtain fd j where j: "w_fd w = Some fd" "fds (view f) fd = Some (j, length c)"
    "bytes (view f) j = c" "names (view f) (w_temporaryPath w) = Some j"
    "\<forall>p. p \<noteq> w_temporaryPath w \<longrightarrow> names (view f) p \<noteq> Some j"
    by (auto simp: writer_at_def)
  have fd: "fd \<noteq> rd_fd r" using i(3) j(2) by auto
  have at1: "writer_at (view f1) w c"
    unfolding writer_at_def using j same i(2) fd by (intro exI [of _ fd] exI [of _ j] conjI) simp_all
  have copied: "writer_at (view f2) w' (c @ s) \<and>
      file_at (view f2) = (file_at (view f1))(w_temporaryPath w \<mapsto> c @ s) \<and>
      w_digest w' = digest_update s (w_digest w) \<and>
      w_temporaryPath w' = w_temporaryPath w \<and> w_committed w' = w_committed w \<and> w_blobId w' = w_blobId w \<and>
      rd_fd r' = rd_fd r \<and> fds (view f2) (rd_fd r) = Some (i, 0) \<and> names (view f2) path = Some i"
    using append_loop_copies [OF laws l bs at1 s(2), of i 0 path] i other [OF path] same(1) s(3) by simp
  obtain x where x: "px_close P f2 (rd_fd r') = (x, f')"
    using f' by (cases "px_close P f2 (rd_fd r')") (simp add: reader_close_def)
  note closed = px_close_law [OF laws x]
  show thesis
  proof (rule that [OF path s(1)])
    show "file_at (view f') = (file_at (view f))(w_temporaryPath w \<mapsto> c @ s)"
    proof -
      have "file_at (view f1) = file_at (view f)"
        by (rule ext) (simp add: file_at_def same)
      then show ?thesis using copied by (simp add: closed)
    qed
    show "writer_at (view f') w' (c @ s)"
    proof -
      from copied obtain fd2 j2 where w2: "w_fd w' = Some fd2" "fds (view f2) fd2 = Some (j2, length (c @ s))"
        "bytes (view f2) j2 = c @ s" "names (view f2) (w_temporaryPath w') = Some j2"
        "\<forall>p. p \<noteq> w_temporaryPath w' \<longrightarrow> names (view f2) p \<noteq> Some j2"
        unfolding writer_at_def by blast
      have "rd_fd r' \<noteq> fd2"
        using copied w2 other [OF path] by auto
      then show ?thesis
        unfolding writer_at_def closed using w2 by (intro exI [of _ fd2] exI [of _ j2] conjI) simp_all
    qed
  qed (use copied in auto)
qed

section \<open>Properties\<close>

text \<open>A caller that streams a body into a writer.\<close>

fun write_pieces :: "'f posix \<Rightarrow> string list \<Rightarrow> ('f, unit) writing" where
  "write_pieces P [] w f = Some (Inr (), w, f)"
| "write_pieces P (x # rest) w f =
     (case blob_write P x w f of
        None \<Rightarrow> None
      | Some (Inl e, w, f) \<Rightarrow> Some (Inl e, w, f)
      | Some (Inr _, w, f) \<Rightarrow> write_pieces P rest w f)"

lemma write_pieces_file:
  assumes laws: "posix_laws P view"
  shows "write_pieces P pieces w f = Some (Inr u, w', f') \<Longrightarrow> writer_at (view f) w s \<Longrightarrow>
    d_bytes (w_digest w) = of_nat (length s) \<Longrightarrow> d_data (w_digest w) = s \<Longrightarrow>
    writer_at (view f') w' (s @ concat pieces) \<and>
    file_at (view f') = (file_at (view f))(w_temporaryPath w \<mapsto> s @ concat pieces) \<and>
    w_temporaryPath w' = w_temporaryPath w \<and> w_committed w' = w_committed w \<and> w_blobId w' = w_blobId w \<and>
    d_bytes (w_digest w') = of_nat (length (s @ concat pieces)) \<and> d_data (w_digest w') = s @ concat pieces"
proof (induction pieces arbitrary: w f s)
  case Nil
  with writer_at_file [OF Nil(2)] show ?case by auto
next
  case (Cons x rest)
  from Cons(2) obtain u' w1 f1 where wr: "blob_write P x w f = Some (Inr u', w1, f1)"
    and rest: "write_pieces P rest w1 f1 = Some (Inr u, w', f')"
    by (auto split: option.splits sum.splits)
  obtain n where n: "writer_at (view f1) w1 (s @ take n x)"
    "file_at (view f1) = (file_at (view f))(w_temporaryPath w \<mapsto> s @ take n x)"
    "length x \<le> n" "w1 = w\<lparr>w_digest := digest_update x (w_digest w)\<rparr>"
    by (rule blob_write_file [OF laws wr Cons(3), of u']) auto
  then have "writer_at (view f1) w1 (s @ x)" by simp
  from Cons(1) [OF rest this] Cons(4,5) n show ?case
    by (simp add: fun_eq_iff)
qed

text \<open>
  Reads until one delivers nothing, the turn number \<open>i\<close> into a buffer of \<open>spaces ! i\<close> bytes. The
  result is the error of the read that failed, or what was delivered; \<open>Inr None\<close> when the
  buffers ran out before the end was seen, and \<open>None\<close> when a read did not return.
\<close>

fun drain :: "'f posix \<Rightarrow> u64 list \<Rightarrow> BlobReader \<Rightarrow> 'f \<Rightarrow> ((exn + string option) \<times> 'f) option" where
  "drain P [] r f = Some (Inr None, f)"
| "drain P (space # spaces) r f =
     (case blob_read P r space f of
        None \<Rightarrow> None
      | Some (Inl e, r, f) \<Rightarrow> Some (Inl e, f)
      | Some (Inr got, r, f) \<Rightarrow>
          if got = [] then Some (Inr (Some []), f)
          else
            (case drain P spaces r f of
               Some (Inr (Some rest), f) \<Rightarrow> Some (Inr (Some (got @ rest)), f)
             | result \<Rightarrow> result))"

text \<open>The system answers reads of the open file, interrupted or not, in the state it is opened in.\<close>

definition reads_answered :: "'f posix \<Rightarrow> ('f \<Rightarrow> fsview) \<Rightarrow> fd \<Rightarrow> fsview \<Rightarrow> bool" where
  "reads_answered P view fd v \<longleftrightarrow>
     (\<forall>f n off. view f = v \<longrightarrow>
        (\<exists>got f'. retryOnInterrupt (\<lambda>f. px_pread P f fd n off) f = Some (Inr got, f')))"

lemma blob_read_error:
  assumes laws: "posix_laws P view" and call: "blob_read P r space f = Some (Inl e, r', f')"
    and at: "reader_at (view f) r s"
  shows "e = StorageError Io" "\<not> reads_answered P view (rd_fd r) (view f)"
proof -
  let ?count = "min space (reader_remaining r)"
  from call have some: "reader_remaining r \<noteq> 0" "space \<noteq> 0"
    by (auto simp: blob_read_def split: if_splits)
  with call obtain y where y: "retryOnInterrupt (\<lambda>f. px_pread P f (rd_fd r) ?count (rd_offset r)) f = Some (y, f')"
    and cases: "y = Inr [] \<and> e = StorageError Corruption \<or> (\<exists>n. y = Inl n) \<and> e = StorageError Io"
    by (auto simp: blob_read_def Let_def split: option.splits sum.splits if_splits)
  obtain f1 where f1: "view f1 = view f" "px_pread P f1 (rd_fd r) ?count (rd_offset r) = (y, f')"
    by (rule retry_result [OF y, of view]) (auto dest!: px_pread_law [OF laws])
  note law = px_pread_law [OF laws f1(2)]
  have "y \<noteq> Inr []"
  proof
    assume "y = Inr []"
    with law f1(1) at have "take (unat ?count) (drop (unat (rd_offset r)) s) = []"
      by (auto simp: was_read_def reader_at_def)
    moreover have "0 < unat ?count"
      using some by (simp add: min_def word_gt_0 unat_gt_0)
    ultimately have "length s \<le> unat (rd_offset r)" by simp
    moreover have "rd_offset r < rd_end r"
      using some(1) by (auto simp: reader_remaining_def split: if_splits)
    ultimately show False
      using at by (auto simp: reader_at_def word_le_nat_alt word_less_nat_alt)
  qed
  with cases obtain n where n: "y = Inl n" and "e = StorageError Io" by blast
  then show "e = StorageError Io" by simp
  show "\<not> reads_answered P view (rd_fd r) (view f)"
  proof
    assume "reads_answered P view (rd_fd r) (view f)"
    then obtain got f2 where "retryOnInterrupt (\<lambda>f. px_pread P f (rd_fd r) ?count (rd_offset r)) f = Some (Inr got, f2)"
      unfolding reads_answered_def by blast
    with y n show False by simp
  qed
qed

lemma blob_read_returns:
  assumes "reads_answered P view (rd_fd r) (view f)"
  shows "blob_read P r space f \<noteq> None"
proof -
  obtain got f' where "retryOnInterrupt (\<lambda>f. px_pread P f (rd_fd r) (min space (reader_remaining r)) (rd_offset r)) f =
      Some (Inr got, f')"
    using assms unfolding reads_answered_def by blast
  then show ?thesis by (simp add: blob_read_def Let_def)
qed

lemma drain_rest:
  assumes laws: "posix_laws P view"
  shows "\<forall>space\<in>set spaces. space \<noteq> 0 \<Longrightarrow> reader_at (view f) r s \<Longrightarrow>
    (case drain P spaces r f of
       None \<Rightarrow> \<not> reads_answered P view (rd_fd r) (view f)
     | Some (Inl e, f') \<Rightarrow> e = StorageError Io \<and> \<not> reads_answered P view (rd_fd r) (view f)
     | Some (Inr None, f') \<Rightarrow> length spaces \<le> length (reader_rest r s)
     | Some (Inr (Some out), f') \<Rightarrow> out = reader_rest r s \<and> view f' = view f)"
proof (induction spaces arbitrary: r f)
  case (Cons space spaces)
  consider "blob_read P r space f = None"
    | e r' f' where "blob_read P r space f = Some (Inl e, r', f')"
    | got r' f' where "blob_read P r space f = Some (Inr got, r', f')"
    by (metis option.exhaust prod_cases3 sum.exhaust)
  then show ?case
  proof cases
    case 1
    with blob_read_returns [of P view r f space] show ?thesis by auto
  next
    case (2 e r' f')
    with blob_read_error [OF laws 2 Cons.prems(2)] show ?thesis by simp
  next
    case (3 got r' f')
    note piece = blob_read_piece [OF laws 3 Cons.prems(2)]
    show ?thesis
    proof (cases "got = []")
      case True
      with 3 piece(1,4) Cons.prems(1) show ?thesis by simp
    next
      case False
      then obtain a rest where "got = a # rest" by (cases got) auto
      have nonzero: "\<forall>space\<in>set spaces. space \<noteq> 0" using Cons.prems(1) by simp
      from Cons.IH [OF nonzero piece(2)] \<open>got = a # rest\<close> show ?thesis
        by (auto simp: 3 piece(1,3,6) split: option.splits sum.splits prod.splits)
    qed
  qed
qed simp

text \<open>
  C22: When a writer commits, the payload it was fed, in whatever pieces and through whatever
  short writes, is published as a whole under the path of its id inside the payload tree; no
  other file changes, the temporary is gone, and the size and the two digests returned are
  those of the payload.
\<close>

theorem published_payload:
  assumes "posix_laws P view" "bs_ok bs"
    and "blob_create P bs first second f0 = Some (Inr w0, f1)"
    and "write_pieces P pieces w0 f1 = Some (Inr (), w1, f2)"
    and "blob_commit P H bs durability w1 f2 = Some (Inr c, w2, f3)"
  shows "\<exists>path. pathFor bs (cm_blobId c) = Inr path \<and> object_path bs path \<and>
    file_at (view f3) = (file_at (view f0))(path \<mapsto> concat pieces) \<and>
    c = \<lparr>cm_blobId = newBlobId first second, cm_size = of_nat (length (concat pieces)),
         cm_md5 = md5Hex H (concat pieces), cm_sha256 = sha256Hex H (concat pieces)\<rparr>"
proof -
  note new = blob_create_Inr [OF assms(1,3)]
  note data = write_pieces_file [OF assms(1,4) new(5)]
  have at: "writer_at (view f2) w1 (concat pieces)" "w_temporaryPath w1 = w_temporaryPath w0"
    "file_at (view f2) = (file_at (view f1))(w_temporaryPath w0 \<mapsto> concat pieces)"
    "\<not> w_committed w1" "w_blobId w1 = newBlobId first second"
    "d_bytes (w_digest w1) = of_nat (length (concat pieces))" "d_data (w_digest w1) = concat pieces"
    using data new by (simp_all add: new_digest_def)
  obtain path where path: "pathFor bs (w_blobId w1) = Inr path"
    using newBlobId_valid at(5) by (auto simp: pathFor_def)
  have differ: "w_temporaryPath w1 \<noteq> path"
    using temporary_not_final [OF assms(2) path] new(2) at(2) by metis
  obtain "file_at (view f3) = (file_at (view f2))(w_temporaryPath w1 := None, path \<mapsto> concat pieces)"
    "c = \<lparr>cm_blobId = w_blobId w1, cm_size = d_bytes (w_digest w1),
         cm_md5 = md5Hex H (d_data (w_digest w1)), cm_sha256 = sha256Hex H (d_data (w_digest w1))\<rparr>"
    by (rule commit_file [OF assms(1,5) at(1,4) path differ]) auto
  then show ?thesis
    using path pathFor_object_path [OF assms(2) path] at new(6,7) differ
    by (auto simp: fun_eq_iff)
qed

text \<open>
  C23: Reading an open payload over a range delivers the bytes of the range and nothing else,
  whatever buffer sizes the caller uses and however short the reads are: a range that starts
  past the end is empty, one that runs past it is cut. The loop ends: with one buffer more than
  the range has bytes it never runs out of buffers before it has seen the end, and when the
  system answers the reads of this file, after however many interruptions, it delivers the range.
\<close>

theorem range_reads_exact:
  assumes "posix_laws P view" "blob_open P bs blobId f = Some (Inr r, f1)" "\<forall>space\<in>set spaces. space \<noteq> 0"
  shows "\<exists>path payload. pathFor bs blobId = Inr path \<and> file_at (view f) path = Some payload \<and>
    (\<forall>out f2. drain P spaces (limitTo offset len r) f1 = Some (Inr (Some out), f2) \<longrightarrow>
       out = take (unat len) (drop (unat offset) payload)) \<and>
    (length (take (unat len) (drop (unat offset) payload)) < length spaces \<longrightarrow>
       (\<forall>f2. drain P spaces (limitTo offset len r) f1 \<noteq> Some (Inr None, f2)) \<and>
       (reads_answered P view (rd_fd r) (view f1) \<longrightarrow>
          (\<exists>f2. drain P spaces (limitTo offset len r) f1 =
             Some (Inr (Some (take (unat len) (drop (unat offset) payload))), f2))))"
proof -
  obtain path s where path: "pathFor bs blobId = Inr path" "file_at (view f) path = Some s"
    and r: "reader_at (view f1) r s" "reader_rest r s = s"
    by (rule blob_open_Inr [OF assms(1,2)]) metis
  have "rd_offset r = 0"
    using assms(2) by (auto simp: blob_open_def split: sum.splits option.splits if_splits)
  note limited = limitTo_reader [OF r this, of offset len]
  have fd: "rd_fd (limitTo offset len r) = rd_fd r" by (simp add: limitTo_def Let_def)
  note rest = drain_rest [OF assms(1,3) limited(1), unfolded limited(2) fd]
  let ?range = "take (unat len) (drop (unat offset) s)"
  have "drain P spaces (limitTo offset len r) f1 = Some (Inr (Some out), f2) \<longrightarrow> out = ?range" for out f2
    using rest by auto
  moreover have "drain P spaces (limitTo offset len r) f1 \<noteq> Some (Inr None, f2)"
    if "length ?range < length spaces" for f2
    using rest that by (auto split: option.splits)
  moreover have "\<exists>f2. drain P spaces (limitTo offset len r) f1 = Some (Inr (Some ?range), f2)"
    if "length ?range < length spaces" "reads_answered P view (rd_fd r) (view f1)"
  proof -
    from rest that obtain x f2 where "drain P spaces (limitTo offset len r) f1 = Some (x, f2)"
      by (auto split: option.splits)
    with rest that show ?thesis by (cases x) (auto split: option.splits)
  qed
  ultimately show ?thesis using path by blast
qed

text \<open>The concrete file system of the witnesses, with transfers of at most two bytes.\<close>

definition demo_hashes :: hashes where
  "demo_hashes = \<lparr>md5_raw = (\<lambda>s. take 16 (s @ replicate 16 NUL)),
     sha256_raw = (\<lambda>s. take 32 (s @ replicate 32 NUL))\<rparr>"

definition demo_blobs :: blob_store where
  "demo_blobs = \<lparr>bs_root = ''/d'', bs_objectsDir = ''/d/objects'', bs_temporaryDir = ''/d/tmp'',
     bs_durability = Strict, bs_chunkBytes = 4096\<rparr>"

lemma demo_blobs_ok: "bs_ok demo_blobs"
  by code_simp

definition demo_fs1 :: memfs where
  "demo_fs1 = snd (the (blob_create (memory_posix 1) demo_blobs 1 2 empty_memfs))"

definition demo_writer :: BlobWriter where
  "demo_writer = \<lparr>w_blobId = newBlobId 1 2, w_fd = Some 1,
     w_temporaryPath = ''/d/tmp/'' @ newBlobId 1 2 @ ''.part'', w_digest = new_digest, w_committed = False\<rparr>"

lemma demo_create: "blob_create (memory_posix 1) demo_blobs 1 2 empty_memfs = Some (Inr demo_writer, demo_fs1)"
  by code_simp

definition demo_fs2 :: memfs where
  "demo_fs2 = snd (snd (the (write_pieces (memory_posix 1) [''hel'', ''lo''] demo_writer demo_fs1)))"

definition demo_written :: BlobWriter where
  "demo_written = demo_writer\<lparr>w_digest := \<lparr>d_data = ''hello'', d_bytes = 5\<rparr>\<rparr>"

lemma demo_write:
  "write_pieces (memory_posix 1) [''hel'', ''lo''] demo_writer demo_fs1 = Some (Inr (), demo_written, demo_fs2)"
  by code_simp

definition demo_committed :: Committed where
  "demo_committed = \<lparr>cm_blobId = newBlobId 1 2, cm_size = 5, cm_md5 = md5Hex demo_hashes ''hello'',
     cm_sha256 = sha256Hex demo_hashes ''hello''\<rparr>"

definition demo_fs3 :: memfs where
  "demo_fs3 = snd (snd (the (blob_commit (memory_posix 1) demo_hashes demo_blobs Strict demo_written demo_fs2)))"

lemma demo_commit:
  "blob_commit (memory_posix 1) demo_hashes demo_blobs Strict demo_written demo_fs2 =
     Some (Inr demo_committed, demo_written\<lparr>w_fd := None, w_committed := True\<rparr>, demo_fs3)"
  by code_simp

theorem published_payload_witness:
  "\<exists>path. pathFor demo_blobs (cm_blobId demo_committed) = Inr path \<and> object_path demo_blobs path \<and>
    file_at (memory_view_fs demo_fs3) = (file_at (memory_view_fs empty_memfs))(path \<mapsto> ''hello'') \<and>
    cm_md5 demo_committed = md5Hex demo_hashes ''hello''"
  using published_payload [OF memory_posix_laws demo_blobs_ok demo_create demo_write demo_commit]
  by (auto simp: demo_committed_def)

definition demo_reader :: BlobReader where
  "demo_reader = \<lparr>rd_fd = 2, rd_size = 5, rd_offset = 0, rd_end = 5\<rparr>"

definition demo_fs4 :: memfs where
  "demo_fs4 = snd (the (blob_open (memory_posix 1) demo_blobs (newBlobId 1 2) demo_fs3))"

lemma demo_open:
  "blob_open (memory_posix 1) demo_blobs (newBlobId 1 2) demo_fs3 = Some (Inr demo_reader, demo_fs4)"
  by code_simp

lemma memory_reads_answered:
  "map_of (m_fds g) fd \<noteq> None \<Longrightarrow> reads_answered (memory_posix q) memory_view_fs fd (memory_view_fs g)"
  unfolding reads_answered_def
  by (subst retryOnInterrupt.simps) (auto simp: memory_posix_def mem_pread_def memory_view_fs_def split: option.splits)

theorem range_reads_exact_witness:
  "\<exists>path payload f2. pathFor demo_blobs (newBlobId 1 2) = Inr path \<and>
     file_at (memory_view_fs demo_fs3) path = Some payload \<and> payload = ''hello'' \<and>
     drain (memory_posix 1) [10, 10, 10, 10] (limitTo 1 3 demo_reader) demo_fs4 = Some (Inr (Some ''ell''), f2)"
proof -
  have "map_of (m_fds demo_fs4) (rd_fd demo_reader) \<noteq> None" by code_simp
  note answered = memory_reads_answered [OF this, of 1]
  obtain path where path: "pathFor demo_blobs (newBlobId 1 2) = Inr path"
    using newBlobId_valid by (auto simp: pathFor_def)
  moreover have "case pathFor demo_blobs (newBlobId 1 2) of Inr path \<Rightarrow>
      map_option (m_content demo_fs3) (map_of (m_names demo_fs3) path) = Some ''hello'' | _ \<Rightarrow> False"
    by code_simp
  ultimately have "file_at (memory_view_fs demo_fs3) path = Some ''hello''"
    by (simp add: file_at_def)
  note path = path this
  from range_reads_exact [OF memory_posix_laws demo_open, of "[10, 10, 10, 10]" 1 3] path answered show ?thesis
    by auto
qed

end
