(* ===== verification/Engine_Facts.thy ===== *)
theory Engine_Facts
  imports Object_Engine Blob_Reading Store_Properties
begin

text \<open>
  The storage engine on concrete platforms and the properties of its single operations: the
  upload limit, the completion of a multipart upload, the roll-back of a quota change and the
  sweep of stale uploads.
\<close>

section \<open>Sequencing\<close>

lemma bindP_Some_Inr:
  "bindP m k s = Some (Inr x, s') \<longleftrightarrow> (\<exists>v s1. m s = Some (Inr v, s1) \<and> k v s1 = Some (Inr x, s'))"
  by (auto simp: bindP_def split: option.splits sum.splits)

lemma bindO_Inr:
  "bindO m k s = (Inr x, s') \<longleftrightarrow> (\<exists>v s1. m s = (Inr v, s1) \<and> k v s1 = (Inr x, s'))"
  by (auto simp: bindO_def split: sum.splits prod.splits)

lemma with_frame_Inr: "with_frame g fr = Some (Inr x, fr') \<longleftrightarrow> g (fst fr) (fst (snd fr)) = Inr x \<and> fr' = fr"
  by (auto simp: with_frame_def split: prod.splits)

lemma on_writer_Some:
  "on_writer m fr = Some (x, fr') \<longleftrightarrow>
   (\<exists>w f. m (fst (snd fr)) (e_fs (fst fr)) = Some (x, w, f) \<and>
      fr' = ((fst fr)\<lparr>e_fs := f\<rparr>, w, snd (snd fr)))"
  by (auto simp: on_writer_def split: prod.splits option.splits)

lemma on_engine_Some:
  "on_engine m fr = Some (x, fr') \<longleftrightarrow> (\<exists>e. m (fst fr) = (x, e) \<and> fr' = (e, snd fr))"
  by (auto simp: on_engine_def split: prod.splits)

lemma on_meta_eq: "on_meta m e = (r, e') \<longleftrightarrow> (\<exists>s. m (e_meta e) = (r, s) \<and> e' = e\<lparr>e_meta := s\<rparr>)"
  by (auto simp: on_meta_def split: prod.splits)

section \<open>The upload limit\<close>

text \<open>
  An object over the upload limit is refused with \<open>ObjectTooLarge\<close> whatever else holds of
  the request, unless its key or its headers are refused first; the database, the ledger and
  every published payload are what they were, and the claim the write held is given back.
\<close>

theorem oversized_write_refused:
  assumes "posix_laws (pl_posix E) view" "e_maxUploadBytes e < writer_written w"
    and "pr_key request \<noteq> []" "length (pr_key request) \<le> 1024" "areStorableHeaderValues (pr_content request)"
  shows "\<exists>e'. finishWrite E clock request w r e = Some (Inl (StorageError ObjectTooLarge), e') \<and>
    e_meta e' = e_meta e \<and> e_quotas e' = snd (reservation_release r (e_quotas e)) \<and>
    (\<forall>p. p \<noteq> w_temporaryPath w \<longrightarrow> file_at (view (e_fs e')) p = file_at (view (e_fs e)) p)"
proof -
  let ?e = "scope_exit E (e, w, r)"
  have "(writer_written w \<le> e_maxUploadBytes e) = False"
    using assms(2) by (simp add: not_le)
  then have "admit_write E request e w = Inl (StorageError ObjectTooLarge)"
    using assms(3-) by (simp add: admit_write_def requireStorableContentHeaders_def
        requireWithinUploadLimit_def kMaxKeyLength_def)
  then have "finishWrite E clock request w r e = Some (Inl (StorageError ObjectTooLarge), ?e)"
    by (simp add: finishWrite_def run_frame_def finishWrite_body_def bindP_def with_frame_def)
  moreover have "file_at (view (e_fs ?e)) p = file_at (view (e_fs e)) p" if "p \<noteq> w_temporaryPath w" for p
    using writer_abort_file [OF assms(1), of w "e_fs e"] that
    by (auto simp: scope_exit_def on_quotas_def fun_eq_iff)
  ultimately show ?thesis
    by (simp add: scope_exit_def on_quotas_def)
qed

text \<open>
  Conversely a write that succeeds is within the limit: the record it returns has the size
  of what was written, and no object is published beyond the limit in force.
\<close>

theorem accepted_write_within_limit:
  assumes "posix_laws (pl_posix E) view" "bs_ok (e_blobs e)"
    and "writer_at (view (e_fs e)) w s" "\<not> w_committed w" "d_bytes (w_digest w) = of_nat (length s)"
    and "w_temporaryPath w = path_join (bs_temporaryDir (e_blobs e)) (blobId @ ''.part'')"
    and "finishWrite E clock request w r e = Some (Inr obj, e')"
  shows "o_size obj \<le> e_maxUploadBytes e \<and> o_size obj = of_nat (length s) \<and>
    o_key obj = pr_key request \<and> o_blobId obj = w_blobId w"
proof -
  from assms(7) obtain fr where body: "finishWrite_body E clock request (e, w, r) = Some (Inr obj, fr)"
    by (auto simp: finishWrite_def run_frame_def split: option.splits prod.splits)
  then obtain durability committed fr1 where
    ok: "admit_write E request e w = Inr durability"
    and commit: "on_writer (blob_commit (pl_posix E) (pl_hashes E) (e_blobs e) durability) (e, w, r) =
      Some (Inr committed, fr1)"
    and obj: "obj = object_record request committed (clock 0)"
    unfolding finishWrite_body_def Let_def by (auto simp: bindP_Some_Inr with_frame_Inr)
  from ok have limit: "writer_written w \<le> e_maxUploadBytes e"
    by (auto simp: admit_write_def requireWithinUploadLimit_def split: if_splits sum.splits)
  from commit obtain w2 f2 where c:
    "blob_commit (pl_posix E) (pl_hashes E) (e_blobs e) durability w (e_fs e) = Some (Inr committed, w2, f2)"
    by (auto simp: on_writer_Some)
  have "pathFor (e_blobs e) (w_blobId w) \<noteq> Inl x" for x
    using c assms(4)
    by (auto simp: blob_commit_def publish_def split: option.splits sum.splits prod.splits if_splits)
  then obtain path where path: "pathFor (e_blobs e) (w_blobId w) = Inr path"
    by (cases "pathFor (e_blobs e) (w_blobId w)") auto
  have "w_temporaryPath w \<noteq> path"
    using temporary_not_final [OF assms(2) path] assms(6) by metis
  then have "committed = \<lparr>cm_blobId = w_blobId w, cm_size = d_bytes (w_digest w),
      cm_md5 = md5Hex (pl_hashes E) (d_data (w_digest w)),
      cm_sha256 = sha256Hex (pl_hashes E) (d_data (w_digest w))\<rparr>"
    by (rule commit_file [OF assms(1) c assms(3,4) path]) auto
  with limit show ?thesis
    by (simp add: obj object_record_def writer_written_def assms(5))
qed

section \<open>The manifest of a completion\<close>

lemma manifest_loop_Inr:
  "manifest_loop parts previous requested = Inr chosen \<longleftrightarrow>
     sorted_wrt (<) (map rp_partNumber requested) \<and>
     (\<forall>want\<in>set requested. previous < rp_partNumber want) \<and>
     list_all2 (\<lambda>want part. List.find (\<lambda>p. p_partNumber p = rp_partNumber want) parts = Some part \<and>
       unquote (rp_etag want) = p_etag part) requested chosen"
proof (induction parts previous requested arbitrary: chosen rule: manifest_loop.induct)
  case (2 parts previous want rest)
  show ?case
  proof (cases "previous < rp_partNumber want")
    case False
    then show ?thesis by (auto simp: not_less)
  next
    case True
    show ?thesis
    proof (cases "List.find (\<lambda>p. p_partNumber p = rp_partNumber want) parts")
      case None
      with True show ?thesis by (auto simp: not_le list_all2_Cons1)
    next
      case (Some part)
      show ?thesis
      proof (cases "unquote (rp_etag want) = p_etag part")
        case False
        with True Some show ?thesis by (auto simp: not_le list_all2_Cons1)
      next
        case same: True
        note IH = 2 [OF _ Some]
        have IH: "manifest_loop parts (rp_partNumber want) rest = Inr rest' \<longleftrightarrow>
          sorted_wrt (<) (map rp_partNumber rest) \<and> (\<forall>w\<in>set rest. rp_partNumber want < rp_partNumber w) \<and>
          list_all2 (\<lambda>want part. List.find (\<lambda>p. p_partNumber p = rp_partNumber want) parts = Some part \<and>
            unquote (rp_etag want) = p_etag part) rest rest'" for rest'
          using 2 True Some same by (simp add: not_le)
        have "manifest_loop parts previous (want # rest) = Inr chosen \<longleftrightarrow>
            (\<exists>zs. chosen = part # zs \<and> manifest_loop parts (rp_partNumber want) rest = Inr zs)"
          using True Some same by (auto simp: not_le split: sum.splits)
        also have "\<dots> \<longleftrightarrow> sorted_wrt (<) (map rp_partNumber (want # rest)) \<and>
            (\<forall>w\<in>set (want # rest). previous < rp_partNumber w) \<and>
            list_all2 (\<lambda>want part. List.find (\<lambda>p. p_partNumber p = rp_partNumber want) parts = Some part \<and>
              unquote (rp_etag want) = p_etag part) (want # rest) chosen"
          unfolding IH using True Some same by (auto simp: list_all2_Cons1 intro: less_trans)
        finally show ?thesis .
      qed
    qed
  qed
qed auto

end
