(* ===== verification/Payload_Race.thy ===== *)
theory Payload_Race
  imports Reclamation Store_Calls Blob_Reading
begin

text \<open>
  Writers and the reclaimer side by side. A writer queues its payload, streams it, publishes
  the file and then the row; what a row stops referring to, and what the periodic sweep finds
  queued for longer than the grace period, is unlinked and taken off the queue, each in calls
  of its own that others may come between. The step relation has one step per call of the
  model, so its runs are the interleavings of the threads at the granularity of the calls.

  The invariant: no row refers to a payload that is not in the tree, as long as every write
  publishes within the grace period, which core/config.cpp documents as what the setting is for.
\<close>

section \<open>What a batch can change\<close>

text \<open>
  Only the blobs of \<open>N\<close> become referred to, and only the queue entries of \<open>M\<close> and of blobs that
  were referred to change.
\<close>

definition quiet :: "string set \<Rightarrow> string set \<Rightarrow> (string \<rightharpoonup> string) \<Rightarrow> (string \<rightharpoonup> string) \<Rightarrow> bool" where
  "quiet N M c c' \<longleftrightarrow>
     ran (refers c') \<subseteq> ran (refers c) \<union> N \<and>
     (\<forall>b. b \<notin> M \<and> b \<notin> ran (refers c) \<longrightarrow> c' (orphan_key b) = c (orphan_key b))"

lemma quiet_refl: "quiet N M c c"
  by (auto simp: quiet_def)

fun op_quiet :: "string set \<Rightarrow> string set \<Rightarrow> string set \<Rightarrow> batch_op \<Rightarrow> bool" where
  "op_quiet N M S (Put k v) \<longleftrightarrow>
     ((hd k = kObject \<or> hd k = kPart) \<and> k \<noteq> [] \<longrightarrow> (\<forall>b. blob_of_row v = Some b \<longrightarrow> b \<in> N)) \<and>
     (\<forall>b. k = orphan_key b \<longrightarrow> b \<in> M \<union> S)"
| "op_quiet N M S (Delete k) \<longleftrightarrow> (\<forall>b. k = orphan_key b \<longrightarrow> b \<in> M \<union> S)"

lemma fold_quiet:
  assumes "\<forall>x\<in>set batch. op_quiet N M S x"
  shows "ran (refers (fold op_result batch c)) \<subseteq> ran (refers c) \<union> N \<and>
    (\<forall>b. b \<notin> M \<and> b \<notin> S \<longrightarrow> fold op_result batch c (orphan_key b) = c (orphan_key b))"
  using assms
proof (induction batch arbitrary: c)
  case (Cons x batch)
  have one: "ran (refers (op_result x c)) \<subseteq> ran (refers c) \<union> N \<and>
      (\<forall>b. b \<notin> M \<and> b \<notin> S \<longrightarrow> op_result x c (orphan_key b) = c (orphan_key b))"
  proof (cases x)
    case (Put k v)
    have "refers (c(k \<mapsto> v)) k' = Some b \<Longrightarrow> b \<in> ran (refers c) \<union> N" for k' b
      using Cons.prems Put by (cases "k' = k") (auto simp: refers_def ran_def split: if_splits option.splits)
    then show ?thesis using Cons.prems Put by (auto simp: ran_def)
  next
    case (Delete k)
    have "refers (c(k := None)) k' = Some b \<Longrightarrow> b \<in> ran (refers c)" for k' b
      by (cases "k' = k") (auto simp: refers_def ran_def split: if_splits option.splits)
    then show ?thesis using Cons.prems Delete by (auto simp: ran_def)
  qed
  have "\<forall>x\<in>set batch. op_quiet N M S x"
    using Cons.prems by simp
  note rest = Cons.IH [OF this, of "op_result x c"]
  show ?case
    unfolding fold_simps
  proof (intro conjI allI impI)
    show "ran (refers (fold op_result batch (op_result x c))) \<subseteq> ran (refers c) \<union> N"
      using rest one by blast
    show "fold op_result batch (op_result x c) (orphan_key b) = c (orphan_key b)"
      if "b \<notin> M \<and> b \<notin> S" for b
      using rest one that by simp
  qed
qed auto

lemma quiet_batch:
  "\<forall>x\<in>set batch. op_quiet N M (ran (refers c)) x \<Longrightarrow> quiet N M c (fold op_result batch c)"
  using fold_quiet [of batch N M "ran (refers c)" c] by (simp add: quiet_def)

lemma quiet_db_write:
  assumes "rocks_laws R view" "db_write R sync batch s k = (r, s')"
    and "\<And>s. s_db (snd (k s)) = s_db s"
    and "\<forall>x\<in>set batch. op_quiet N M (ran (refers (content view s))) x"
  shows "quiet N M (content view s) (content view s')"
  using db_write_any [OF assms(1,2,3)] quiet_batch [OF assms(4)] quiet_refl
  by (auto simp: map_of_apply_batch rocks_laws_omap_ok [OF assms(1)])

lemma attempt_quiet:
  assumes "attempt x s k = (r, s')" "quiet N M c (content view s)"
    and "\<And>v. x = Inr v \<Longrightarrow> k v = (r, s') \<Longrightarrow> quiet N M c (content view s')"
  shows "quiet N M c (content view s')"
  using assms by (cases x) auto

section \<open>What the calls of the store change\<close>

lemma publish_batch_quiet:
  assumes "object_ok object" "refers c k = map_option o_blobId previous" "hd k = kObject"
  shows "\<forall>x\<in>set (publish_batch k object (map_option o_blobId previous) now).
    op_quiet {o_blobId object} {o_blobId object} (ran (refers c)) x"
  using assms(2,3) blob_of_encodeObject [OF assms(1)] ranI [of "refers c" k]
  by (auto simp: publish_batch_def split: option.splits)

lemma putObject_quiet:
  assumes laws: "rocks_laws R view" and "object_ok object"
    and run: "putObject R clock bucket object durability s = (r, s')"
  shows "quiet {o_blobId object} {o_blobId object} (content view s) (content view s')"
  using run unfolding putObject_def Let_def
  apply (elim attempt_quiet [OF _ quiet_refl])
  subgoal premises p for u previous
  proof -
    have "refers (content view s) (object_key bucket (o_key object)) = map_option o_blobId previous"
      using loadObject_row [OF laws p(2)] by (intro refers_object_row)
    then have "quiet {o_blobId object} {o_blobId object} (content view (replace_counters previous s)) (content view s')"
      using publish_batch_quiet [OF assms(2) _ hd_keys(1)] by (intro quiet_db_write [OF laws p(3)]) simp_all
    then show ?thesis by simp
  qed
  done

lemma deleteObject_quiet:
  assumes laws: "rocks_laws R view" and run: "deleteObject R clock bucket key durability s = (r, s')"
  shows "quiet {} {} (content view s) (content view s')"
  using run unfolding deleteObject_def Let_def
  apply (elim attempt_quiet [OF _ quiet_refl])
  subgoal premises p for u existing
  proof (cases existing)
    case None
    with p(3) show ?thesis by (simp add: quiet_refl)
  next
    case (Some object)
    have "refers (content view s) (object_key bucket key) = Some (o_blobId object)"
      using refers_object_row [where c = "content view s", OF loadObject_row [OF laws p(2)]] Some by simp
    from ranI [of "refers (content view s)", OF this] p(3) Some show ?thesis
      by (simp only: option.case) (erule quiet_db_write [OF laws], simp_all)
  qed
  done

lemma retire_quiet:
  assumes "part_rows c u parts"
  shows "\<forall>x\<in>set (retire_parts clock i u parts @ retire_upload upload u). op_quiet N M (ran (refers c)) x"
proof -
  have "p_blobId p \<in> ran (refers c)" if "p \<in> set parts" for p
  proof -
    from assms that have "refers c (part_key u (p_partNumber p)) = Some (p_blobId p)"
      by (auto simp: part_rows_def refers_def intro: blob_of_part)
    then show ?thesis by (rule ranI)
  qed
  then show ?thesis
    by (auto simp: retire_parts_def retire_upload_def dest!: in_set_enumerate_eq [THEN iffD1] nth_mem)
qed

lemma abortUpload_quiet:
  assumes laws: "rocks_laws R view" and run: "abortUpload R clock uploadId durability s = (r, s')"
  shows "quiet {} {} (content view s) (content view s')"
  using run unfolding abortUpload_def Let_def
  apply (elim attempt_quiet [OF _ quiet_refl])
  subgoal premises p for found
  proof (cases found)
    case None
    with p(2) show ?thesis by (simp add: quiet_refl)
  next
    case (Some upload)
    show ?thesis
      using p(2) unfolding Some option.case
      apply (elim attempt_quiet [OF _ quiet_refl])
      subgoal premises q for parts
        by (rule quiet_db_write [OF laws q(2)])
          (simp, rule retire_quiet [OF collectParts_part_rows [OF laws q(1)]])
      done
  qed
  done

lemma putPart_quiet:
  assumes laws: "rocks_laws R view" and part: "part_ok part"
    and run: "putPart R clock uploadId part durability s = (r, s')"
  shows "quiet {p_blobId part} {p_blobId part} (content view s) (content view s')"
proof (cases "p_partNumber part = 0 \<or> p_partNumber part > kMaxPartNumber")
  case True
  with run show ?thesis by (simp add: putPart_def quiet_refl)
next
  case False
  show ?thesis
    using run unfolding putPart_def Let_def if_not_P [OF False]
    apply (elim attempt_quiet [OF _ quiet_refl])
    subgoal premises p for upload
    proof (cases "upload = None")
      case True
      with p(2) show ?thesis by (simp add: quiet_refl)
    next
      case False
      show ?thesis
        using p(2) unfolding if_not_P [OF False]
        apply (elim attempt_quiet [OF _ quiet_refl])
        subgoal premises q for previous
        proof -
          have "load_row (decodePart (p_partNumber part))
              (content view s (part_key uploadId (p_partNumber part))) = Inr previous"
            using q(1) db_get_Inr [OF laws] unfolding load_eq_Inr by blast
          then have "refers (content view s) (part_key uploadId (p_partNumber part)) = map_option p_blobId previous"
            by (rule refers_part_row)
          from ranI [of "refers (content view s)" "part_key uploadId (p_partNumber part)"] this
          show ?thesis
            using quiet_db_write [OF laws q(2), of "{p_blobId part}" "{p_blobId part}"] blob_of_encodePart [OF part]
            by (cases previous) auto
        qed
        done
    qed
    done
qed

lemma completeUpload_quiet:
  assumes laws: "rocks_laws R view" and object: "object_ok object"
    and run: "completeUpload R clock bucket uploadId object durability s = (r, s')"
  shows "quiet {o_blobId object} {o_blobId object} (content view s) (content view s')"
  using run unfolding completeUpload_def Let_def
  apply (elim attempt_quiet [OF _ quiet_refl])
  subgoal premises p for u found
  proof (cases found)
    case None
    with p(3) show ?thesis by (simp add: quiet_refl)
  next
    case (Some upload)
    show ?thesis
      using p(3) unfolding Some option.case
      apply (elim attempt_quiet [OF _ quiet_refl])
      subgoal premises q for previous
        using q(2)
        apply (elim attempt_quiet)
         apply (simp add: quiet_refl)
        subgoal premises w for parts
        proof -
          let ?c = "content view s"
          have "refers ?c (object_key bucket (o_key object)) = map_option o_blobId previous"
            using loadObject_row [OF laws q(1)] by (intro refers_object_row)
          note batch = publish_batch_quiet [OF object this hd_keys(1)]
            retire_quiet [OF collectParts_part_rows [OF laws w(1), unfolded content_db]]
          have "quiet {o_blobId object} {o_blobId object} (content view (replace_counters previous s)) (content view s')"
            by (rule quiet_db_write [OF laws w(2)]) (simp, unfold content_db set_append ball_Un,
              use batch in \<open>simp add: set_append ball_Un\<close>)
          then show ?thesis by simp
        qed
        done
      done
  qed
  done

lemma trackBlob_quiet:
  assumes laws: "rocks_laws R view" and run: "trackBlob R clock blobId s = (r, s')"
  shows "quiet {} {blobId} (content view s) (content view s')"
  by (rule quiet_db_write [OF laws run [unfolded trackBlob_def]]) simp_all

lemma forgetOrphans_quiet:
  "rocks_laws R view \<Longrightarrow> forgetOrphans R blobIds s = (r, s') \<Longrightarrow>
   quiet {} (set blobIds) (content view s) (content view s')"
  unfolding forgetOrphans_def
  by (cases "blobIds = []") (auto simp: quiet_refl Let_def elim!: quiet_db_write)

lemma createUpload_quiet:
  "rocks_laws R view \<Longrightarrow> createUpload R upload s = (r, s') \<Longrightarrow> quiet {} {} (content view s) (content view s')"
  unfolding createUpload_def
  by (auto simp: attempt_def quiet_refl tag_defs split: sum.splits elim!: quiet_db_write)

lemma createBucket_quiet:
  "rocks_laws R view \<Longrightarrow> createBucket R bucket s = (r, s') \<Longrightarrow> quiet {} {} (content view s) (content view s')"
  unfolding createBucket_def
  by (auto simp: attempt_def quiet_refl tag_defs split: sum.splits option.splits elim!: quiet_db_write)

lemma deleteBucket_quiet:
  "rocks_laws R view \<Longrightarrow> deleteBucket R name s = (r, s') \<Longrightarrow> quiet {} {} (content view s) (content view s')"
  unfolding deleteBucket_def
  by (auto simp: attempt_def quiet_refl split: sum.splits if_splits elim!: quiet_db_write)

text \<open>What a completed call stopped referring to is queued when it returns.\<close>

lemma tracked_after:
  assumes "Put (orphan_key b) v \<in> set batch" "Delete (orphan_key b) \<notin> set batch"
  shows "fold op_result batch c (orphan_key b) \<noteq> None"
proof -
  have stays: "c (orphan_key b) \<noteq> None \<Longrightarrow> fold op_result batch c (orphan_key b) \<noteq> None"
    if "Delete (orphan_key b) \<notin> set batch" for batch c
    using that
  proof (induction batch arbitrary: c)
    case (Cons x batch)
    then show ?case by (cases x) auto
  qed simp
  from assms show ?thesis
  proof (induction batch arbitrary: c)
    case (Cons x batch)
    then show ?case
      using stays [of batch "op_result x c"] by (cases x) auto
  qed simp
qed

lemma publish_tracks:
  assumes "released = Some b" "b \<noteq> o_blobId object"
  shows "tracked (fold op_result (publish_batch k object released now @ rest) c) b \<longleftrightarrow>
    tracked (fold op_result rest (fold op_result (publish_batch k object released now) c)) b"
    "fold op_result (publish_batch k object released now) c (orphan_key b) \<noteq> None"
  using assms by (auto simp: publish_batch_def)

section \<open>The system\<close>

text \<open>
  The calls of the storage engine on the store and on the tree, the writers in flight with the
  time each was queued at, and the blobs condemned: released by a row or listed by the sweep,
  and not yet both unlinked and forgotten.
\<close>

record ('db, 'f) system =
  sy_store :: "'db store"
  sy_fs :: 'f
  sy_now :: i64
  sy_writers :: "(BlobWriter \<times> i64) list"
  sy_condemned :: "string list"

definition released_by :: "('out \<Rightarrow> string list) \<Rightarrow> exn + 'out \<Rightarrow> string list" where
  "released_by g r = (case r of Inl _ \<Rightarrow> [] | Inr out \<Rightarrow> g out)"

definition fresh_blob :: "('db \<Rightarrow> (string, string) omap) \<Rightarrow> string \<Rightarrow> ('db, 'f) system \<Rightarrow> bool" where
  "fresh_blob view b s \<longleftrightarrow> \<not> known (content view (sy_store s)) b \<and>
     b \<notin> (\<lambda>(w, t). w_blobId w) ` set (sy_writers s) \<and> b \<notin> set (sy_condemned s)"

text \<open>A committed writer that was queued less than the grace period ago.\<close>

definition may_publish :: "i64 \<Rightarrow> BlobWriter \<Rightarrow> i64 \<Rightarrow> string \<Rightarrow> ('db, 'f) system \<Rightarrow> bool" where
  "may_publish grace w t b s \<longleftrightarrow> (w, t) \<in> set (sy_writers s) \<and> w_committed w \<and> b = w_blobId w \<and>
     sint (sy_now s) < sint t + sint grace"

inductive sys_step ::
  "'db rocksdb \<Rightarrow> ('db \<Rightarrow> (string, string) omap) \<Rightarrow> 'f posix \<Rightarrow> hashes \<Rightarrow> blob_store \<Rightarrow> i64 \<Rightarrow>
   ('db, 'f) system \<Rightarrow> ('db, 'f) system \<Rightarrow> bool" for R view P H bs grace where
  tick: "sint (sy_now s) \<le> sint now \<Longrightarrow> sys_step R view P H bs grace s (s\<lparr>sy_now := now\<rparr>)"
| begin_write:
    "blob_create P bs first second (sy_fs s) = Some (Inr w, f) \<Longrightarrow>
     trackBlob R (\<lambda>_. sy_now s) (w_blobId w) (sy_store s) = (Inr u, st) \<Longrightarrow>
     fresh_blob view (w_blobId w) s \<Longrightarrow>
     sys_step R view P H bs grace s
       (s\<lparr>sy_store := st, sy_fs := f, sy_writers := (w, sy_now s) # sy_writers s\<rparr>)"
| begin_fails:
    "blob_create P bs first second (sy_fs s) = Some (Inr w, f) \<Longrightarrow>
     trackBlob R (\<lambda>_. sy_now s) (w_blobId w) (sy_store s) = (Inl x, st) \<Longrightarrow>
     fresh_blob view (w_blobId w) s \<Longrightarrow>
     sys_step R view P H bs grace s (s\<lparr>sy_store := st, sy_fs := snd (writer_abort P w f)\<rparr>)"
| stream:
    "(w, t) \<in> set (sy_writers s) \<Longrightarrow> \<not> w_committed w \<Longrightarrow>
     blob_write P data w (sy_fs s) = Some (x, w', f) \<Longrightarrow>
     sys_step R view P H bs grace s
       (s\<lparr>sy_fs := f, sy_writers := (w', t) # removeAll (w, t) (sy_writers s)\<rparr>)"
| commit:
    "(w, t) \<in> set (sy_writers s) \<Longrightarrow> blob_commit P H bs durability w (sy_fs s) = Some (Inr c, w', f) \<Longrightarrow>
     sys_step R view P H bs grace s
       (s\<lparr>sy_fs := f, sy_writers := (w', t) # removeAll (w, t) (sy_writers s)\<rparr>)"
| commit_fails:
    "(w, t) \<in> set (sy_writers s) \<Longrightarrow> blob_commit P H bs durability w (sy_fs s) = Some (Inl x, w', f) \<Longrightarrow>
     sys_step R view P H bs grace s
       (s\<lparr>sy_fs := snd (writer_abort P w' f), sy_writers := removeAll (w, t) (sy_writers s)\<rparr>)"
| abandon:
    "(w, t) \<in> set (sy_writers s) \<Longrightarrow>
     sys_step R view P H bs grace s
       (s\<lparr>sy_fs := snd (writer_abort P w (sy_fs s)), sy_writers := removeAll (w, t) (sy_writers s)\<rparr>)"
| put_object:
    "may_publish grace w t (o_blobId object) s \<Longrightarrow> object_ok object \<Longrightarrow>
     putObject R clock bucket object durability (sy_store s) = (rp, st) \<Longrightarrow>
     sys_step R view P H bs grace s
       (s\<lparr>sy_store := st, sy_writers := removeAll (w, t) (sy_writers s),
          sy_condemned := released_by (\<lambda>out. List.map_filter id [po_releasedBlobId out]) rp @ sy_condemned s\<rparr>)"
| put_part:
    "may_publish grace w t (p_blobId part) s \<Longrightarrow> part_ok part \<Longrightarrow>
     putPart R clock uploadId part durability (sy_store s) = (rq, st) \<Longrightarrow>
     sys_step R view P H bs grace s
       (s\<lparr>sy_store := st, sy_writers := removeAll (w, t) (sy_writers s),
          sy_condemned := released_by (\<lambda>out. List.map_filter id [pp_releasedBlobId out]) rq @ sy_condemned s\<rparr>)"
| complete_upload:
    "may_publish grace w t (o_blobId object) s \<Longrightarrow> object_ok object \<Longrightarrow>
     completeUpload R clock bucket uploadId object durability (sy_store s) = (rc, st) \<Longrightarrow>
     sys_step R view P H bs grace s
       (s\<lparr>sy_store := st, sy_writers := removeAll (w, t) (sy_writers s),
          sy_condemned := released_by (\<lambda>out. List.map_filter id [co_releasedBlobId out] @
            co_releasedPartBlobIds out) rc @ sy_condemned s\<rparr>)"
| delete_object:
    "deleteObject R clock bucket key durability (sy_store s) = (rd, st) \<Longrightarrow>
     sys_step R view P H bs grace s
       (s\<lparr>sy_store := st,
          sy_condemned := released_by (\<lambda>out. List.map_filter id [do_releasedBlobId out]) rd @ sy_condemned s\<rparr>)"
| abort_upload:
    "abortUpload R clock uploadId durability (sy_store s) = (ra, st) \<Longrightarrow>
     sys_step R view P H bs grace s
       (s\<lparr>sy_store := st, sy_condemned := released_by ao_releasedBlobIds ra @ sy_condemned s\<rparr>)"
| create_upload:
    "createUpload R upload (sy_store s) = (r, st) \<Longrightarrow>
     sys_step R view P H bs grace s (s\<lparr>sy_store := st\<rparr>)"
| create_bucket:
    "createBucket R bucketRecord (sy_store s) = (r, st) \<Longrightarrow>
     sys_step R view P H bs grace s (s\<lparr>sy_store := st\<rparr>)"
| delete_bucket:
    "deleteBucket R name (sy_store s) = (r, st) \<Longrightarrow>
     sys_step R view P H bs grace s (s\<lparr>sy_store := st\<rparr>)"
| sweep:
    "listOrphans R limit (sy_now s - grace) (sy_store s) = Inr ids \<Longrightarrow>
     sys_step R view P H bs grace s (s\<lparr>sy_condemned := ids @ sy_condemned s\<rparr>)"
| unlink_payload:
    "b \<in> set (sy_condemned s) \<Longrightarrow>
     sys_step R view P H bs grace s (s\<lparr>sy_fs := snd (blob_remove P bs b (sy_fs s))\<rparr>)"
| forget:
    "set ids \<subseteq> set (sy_condemned s) \<Longrightarrow> forgetOrphans R ids (sy_store s) = (r, st) \<Longrightarrow>
     sys_step R view P H bs grace s (s\<lparr>sy_store := st\<rparr>)"

section \<open>The invariant\<close>

definition on_disk :: "blob_store \<Rightarrow> fsview \<Rightarrow> string \<Rightarrow> bool" where
  "on_disk bs v b \<longleftrightarrow> (\<exists>p. pathFor bs b = Inr p \<and> names v p \<noteq> None)"

text \<open>A writer that can still publish: queued since it began, not condemned, its file there once committed.\<close>

definition writer_ok ::
  "('db \<Rightarrow> (string, string) omap) \<Rightarrow> ('f \<Rightarrow> fsview) \<Rightarrow> blob_store \<Rightarrow> i64 \<Rightarrow> ('db, 'f) system \<Rightarrow>
   BlobWriter \<Rightarrow> i64 \<Rightarrow> bool" where
  "writer_ok view fview bs grace s w t \<longleftrightarrow>
     w_temporaryPath w = path_join (bs_temporaryDir bs) (w_blobId w @ ''.part'') \<and>
     (sint (sy_now s) < sint t + sint grace \<longrightarrow>
        (\<exists>v. content view (sy_store s) (orphan_key (w_blobId w)) = Some v \<and> sint t \<le> sint (decodeOrphanQueuedAt v)) \<and>
        w_blobId w \<notin> set (sy_condemned s) \<and>
        (w_committed w \<longrightarrow> on_disk bs (fview (sy_fs s)) (w_blobId w)))"

definition sys_inv ::
  "('db \<Rightarrow> (string, string) omap) \<Rightarrow> ('f \<Rightarrow> fsview) \<Rightarrow> blob_store \<Rightarrow> i64 \<Rightarrow> ('db, 'f) system \<Rightarrow> bool" where
  "sys_inv view fview bs grace s \<longleftrightarrow>
     blob_inv (content view (sy_store s)) \<and>
     (\<forall>b\<in>ran (refers (content view (sy_store s))). on_disk bs (fview (sy_fs s)) b \<and> b \<notin> set (sy_condemned s)) \<and>
     0 \<le> sint (sy_now s) \<and>
     (\<forall>(w, t)\<in>set (sy_writers s). writer_ok view fview bs grace s w t) \<and>
     distinct (map (\<lambda>(w, t). w_blobId w) (sy_writers s))"

end
