(* ===== verification/Uri.thy ===== *)
theory Uri
  imports Text Digest "HOL-Library.Product_Lexorder" "HOL-Library.Multiset"
begin

text \<open>
  Percent-encoding and query strings to the rules of AWS signatures: s3/uri.hpp and s3/uri.cpp.
  A query string is parsed to a list of \<open>QueryParam\<close> and rendered in canonical form, sorted by
  the encoded names and values.
\<close>

section \<open>Percent-encoding\<close>

definition kUpperHexDigits :: string where
  "kUpperHexDigits = ''0123456789ABCDEF''"

definition isUnreserved :: "char \<Rightarrow> bool" where
  "isUnreserved c \<longleftrightarrow> CHR ''A'' \<le> c \<and> c \<le> CHR ''Z'' \<or> CHR ''a'' \<le> c \<and> c \<le> CHR ''z'' \<or>
     CHR ''0'' \<le> c \<and> c \<le> CHR ''9'' \<or> c = CHR ''-'' \<or> c = CHR ''_'' \<or> c = CHR ''.'' \<or> c = CHR ''~''"

definition hexValue :: "char \<Rightarrow> int" where
  "hexValue c =
     (if CHR ''0'' \<le> c \<and> c \<le> CHR ''9'' then int (uchar c) - int (uchar (CHR ''0''))
      else if CHR ''a'' \<le> c \<and> c \<le> CHR ''f'' then int (uchar c) - int (uchar (CHR ''a'')) + 10
      else if CHR ''A'' \<le> c \<and> c \<le> CHR ''F'' then int (uchar c) - int (uchar (CHR ''A'')) + 10
      else - 1)"

definition encode_char :: "bool \<Rightarrow> char \<Rightarrow> string" where
  "encode_char encodeSlash c =
     (if isUnreserved c \<or> c = CHR ''/'' \<and> \<not> encodeSlash then [c]
      else [CHR ''%'', kUpperHexDigits ! unat (drop_bit 4 (byte_val c :: u8)),
            kUpperHexDigits ! unat ((byte_val c :: u8) AND 0x0F)])"

definition uriEncode :: "string \<Rightarrow> bool \<Rightarrow> string" where
  "uriEncode s encodeSlash = concat (map (encode_char encodeSlash) s)"

fun uriDecode :: "string \<Rightarrow> string" where
  "uriDecode [] = []"
| "uriDecode (c # s) =
     (case s of
        a # b # rest \<Rightarrow>
          (if c \<noteq> CHR ''%'' then c # uriDecode s
           else if hexValue a < 0 \<or> hexValue b < 0 then c # uriDecode s
           else byte_of (push_bit 4 (of_int (hexValue a)) OR of_int (hexValue b) :: u32) # uriDecode rest)
      | _ \<Rightarrow> c # uriDecode s)"

section \<open>Query strings\<close>

record QueryParam =
  q_name :: string
  q_value :: string
  q_hasValue :: bool

definition parse_field :: "string \<Rightarrow> QueryParam" where
  "parse_field field =
     (if CHR ''='' \<in> set field
      then \<lparr>q_name = uriDecode (before (CHR ''='') field), q_value = uriDecode (after (CHR ''='') field),
            q_hasValue = True\<rparr>
      else \<lparr>q_name = uriDecode field, q_value = [], q_hasValue = False\<rparr>)"

definition parseQuery :: "string \<Rightarrow> QueryParam list" where
  "parseQuery rawQuery =
     (if rawQuery = [] then []
      else let rawQuery = (if hd rawQuery = CHR ''?'' then tl rawQuery else rawQuery)
      in map parse_field (filter (\<lambda>field. field \<noteq> []) (fields_of (CHR ''&'') rawQuery)))"

definition encoded_params :: "QueryParam list \<Rightarrow> string \<Rightarrow> (string \<times> string) list" where
  "encoded_params params omit =
     map (\<lambda>p. (uriEncode (q_name p) True, uriEncode (q_value p) True))
       (filter (\<lambda>p. \<not> (omit \<noteq> [] \<and> q_name p = omit)) params)"

text \<open>
  \<open>std::sort\<close> compares the encoded names and then the encoded values, a total order on the
  pairs, so the result does not depend on how equal elements are placed.
\<close>

definition canonicalQueryString :: "QueryParam list \<Rightarrow> string \<Rightarrow> string" where
  "canonicalQueryString params omit =
     foldl (\<lambda>out item. (if out \<noteq> [] then out @ ''&'' else out) @ fst item @ ''='' @ snd item)
       [] (sort (encoded_params params omit))"

definition findQuery :: "QueryParam list \<Rightarrow> string \<Rightarrow> string option" where
  "findQuery params name = map_option q_value (find (\<lambda>p. q_name p = name) params)"

definition hasQuery :: "QueryParam list \<Rightarrow> string \<Rightarrow> bool" where
  "hasQuery params name \<longleftrightarrow> list_ex (\<lambda>p. q_name p = name) params"

section \<open>Encoding is undone by decoding\<close>

lemma hexValue_kUpperHexDigits: "n < 16 \<Longrightarrow> hexValue (kUpperHexDigits ! n) = int n"
proof -
  assume "n < 16"
  then have "n \<in> set [0..<16]" by simp
  moreover have "\<forall>n\<in>set [0..<16]. hexValue (kUpperHexDigits ! n) = int n"
    by code_simp
  ultimately show ?thesis by blast
qed

lemma kUpperHexDigits_plain:
  "n < 16 \<Longrightarrow> kUpperHexDigits ! n \<notin> {CHR ''%'', CHR ''&'', CHR ''='', CHR ''?'', CHR ''/''}"
proof -
  assume "n < 16"
  then have "n \<in> set [0..<16]" by simp
  moreover have "\<forall>n\<in>set [0..<16]. kUpperHexDigits ! n \<notin> {CHR ''%'', CHR ''&'', CHR ''='', CHR ''?'', CHR ''/''}"
    by code_simp
  ultimately show ?thesis by blast
qed

lemma isUnreserved_plain:
  "isUnreserved c \<Longrightarrow> c \<notin> {CHR ''%'', CHR ''&'', CHR ''='', CHR ''?'', CHR ''/''}"
  by (auto simp: isUnreserved_def less_eq_char_def)

lemma uriDecode_plain: "c \<noteq> CHR ''%'' \<Longrightarrow> uriDecode (c # s) = c # uriDecode s"
  by (auto split: list.splits)

lemma uriDecode_escape:
  "uriDecode (CHR ''%'' # kUpperHexDigits ! unat (drop_bit 4 (byte_val c :: u8)) #
     kUpperHexDigits ! unat ((byte_val c :: u8) AND 0x0F) # s) = c # uriDecode s"
proof -
  let ?h = "drop_bit 4 (byte_val c :: u8)" and ?l = "(byte_val c :: u8) AND 0x0F"
  have "byte_of (push_bit 4 (of_nat (unat ?h)) OR of_nat (unat ?l) :: u32) = c"
  proof -
    have split: "push_bit 4 ?h OR ?l = byte_val c" by (rule u8_nibbles)
    have "(push_bit 4 (ucast ?h) OR ucast ?l :: u32) = ucast (push_bit 4 ?h OR ?l)"
      by (rule bit_word_eqI) (auto simp: bit_simps dest: bit_imp_le_length)
    then have "(push_bit 4 (ucast ?h) OR ucast ?l :: u32) = ucast (byte_val c :: u8)"
      by (simp only: split)
    moreover have "unat (ucast (byte_val c :: u8) :: u32) = uchar c"
      by (simp add: unsigned_ucast_eq)
        (rule take_bit_nat_eq_self, rule order.strict_trans [OF uchar_less_256], simp)
    ultimately have "uchar (byte_of (push_bit 4 (ucast ?h) OR ucast ?l :: u32)) = uchar c"
      by (simp only: uchar_byte_of) simp
    then show ?thesis by simp
  qed
  then show ?thesis
    by (simp add: hexValue_kUpperHexDigits u8_nibbles del: of_nat_unat)
qed

lemma uriEncode_simps [simp]:
  "uriEncode [] b = []" "uriEncode (c # s) b = encode_char b c @ uriEncode s b"
  by (simp_all add: uriEncode_def)

lemma uriDecode_encode_append: "uriDecode (encode_char b c @ t) = c # uriDecode t"
  using isUnreserved_plain [of c]
  by (auto simp: encode_char_def uriDecode_escape uriDecode_plain simp del: uriDecode.simps)

lemma uriDecode_uriEncode [simp]: "uriDecode (uriEncode s b) = s"
  by (induction s) (simp_all add: uriDecode_encode_append)

lemma uriEncode_inject [simp]: "uriEncode s b = uriEncode t b \<longleftrightarrow> s = t"
  by (metis uriDecode_uriEncode)

lemma encode_char_plain:
  "set (encode_char b c) \<inter> {CHR ''&'', CHR ''='', CHR ''?''} = {}"
  using isUnreserved_plain [of c] kUpperHexDigits_plain [OF u8_nibbles(1) [of "byte_val c"]]
    kUpperHexDigits_plain [OF u8_nibbles(2) [of "byte_val c"]]
  by (auto simp: encode_char_def)

lemma uriEncode_plain:
  "CHR ''&'' \<notin> set (uriEncode s b)" "CHR ''='' \<notin> set (uriEncode s b)" "CHR ''?'' \<notin> set (uriEncode s b)"
  using encode_char_plain [of b] by (auto simp: uriEncode_def)

section \<open>The canonical query string\<close>

abbreviation render_item :: "string \<times> string \<Rightarrow> string" where
  "render_item item \<equiv> fst item @ CHR ''='' # snd item"

lemma canonicalQueryString_join:
  "canonicalQueryString params omit = join_with ''&'' (map render_item (sort (encoded_params params omit)))"
  unfolding canonicalQueryString_def by (subst foldl_join) simp_all

definition encoded_item :: "string \<times> string \<Rightarrow> bool" where
  "encoded_item item \<longleftrightarrow> (\<exists>n v. item = (uriEncode n True, uriEncode v True))"

lemma encoded_items: "list_all encoded_item (sort (encoded_params params omit))"
  by (auto simp: list_all_iff encoded_item_def encoded_params_def)

lemma encoded_item_plain:
  "encoded_item item \<Longrightarrow> CHR ''='' \<notin> set (fst item) \<and> CHR ''&'' \<notin> set (render_item item) \<and>
     CHR ''?'' \<notin> set (render_item item)"
  using uriEncode_plain by (auto simp: encoded_item_def)

lemma split_rendered_items:
  "list_all encoded_item items \<Longrightarrow>
     map (\<lambda>f. (before (CHR ''='') f, after (CHR ''='') f)) (map render_item items) = items"
  using encoded_item_plain by (induction items) auto

lemma fields_of_canonical:
  "list_all encoded_item items \<Longrightarrow> items \<noteq> [] \<Longrightarrow>
     fields_of (CHR ''&'') (join_with ''&'' (map render_item items)) = map render_item items"
  using encoded_item_plain by (intro fields_of_join) (auto simp: list_all_iff)

lemma canonical_items_inject:
  assumes a: "list_all encoded_item xs" and b: "list_all encoded_item ys"
    and eq: "join_with ''&'' (map render_item xs) = join_with ''&'' (map render_item ys)"
  shows "xs = ys"
proof -
  have empty: "items = []" if "join_with ''&'' (map render_item items) = []" for items
    using that by (cases items) (simp_all add: join_with_Cons)
  show ?thesis
  proof (cases "xs = [] \<or> ys = []")
    case True
    then show ?thesis using empty [of xs] empty [of ys] eq by auto
  next
    case False
    then have same: "map render_item xs = map render_item ys"
      using fields_of_canonical [OF a] fields_of_canonical [OF b] unfolding eq by metis
    have "xs = map (\<lambda>f. (before (CHR ''='') f, after (CHR ''='') f)) (map render_item xs)"
      by (rule split_rendered_items [OF a, symmetric])
    also have "\<dots> = ys"
      unfolding same by (rule split_rendered_items [OF b])
    finally show ?thesis .
  qed
qed

definition param_pair :: "QueryParam \<Rightarrow> string \<times> string" where
  "param_pair p = (q_name p, q_value p)"

definition kept_pairs :: "QueryParam list \<Rightarrow> string \<Rightarrow> (string \<times> string) list" where
  "kept_pairs params omit = map param_pair (filter (\<lambda>p. omit = [] \<or> q_name p \<noteq> omit) params)"

lemma encoded_params_pairs:
  "encoded_params params omit =
     map (\<lambda>(n, v). (uriEncode n True, uriEncode v True)) (kept_pairs params omit)"
  by (auto simp: encoded_params_def kept_pairs_def param_pair_def intro!: filter_cong)

lemma sort_eq_iff: "sort xs = sort ys \<longleftrightarrow> mset xs = mset ys"
  by (metis mset_sort properties_for_sort sorted_sort)

lemma canonicalQueryString_eq_iff:
  "canonicalQueryString ps omit = canonicalQueryString qs omit \<longleftrightarrow>
     mset (kept_pairs ps omit) = mset (kept_pairs qs omit)"
proof -
  let ?e = "\<lambda>(n, v). (uriEncode n True, uriEncode v True)"
  have inj: "inj ?e" by (auto intro!: injI)
  have "canonicalQueryString ps omit = canonicalQueryString qs omit \<longleftrightarrow>
      sort (encoded_params ps omit) = sort (encoded_params qs omit)"
    unfolding canonicalQueryString_join
  proof
    assume "join_with ''&'' (map render_item (sort (encoded_params ps omit))) =
      join_with ''&'' (map render_item (sort (encoded_params qs omit)))"
    then show "sort (encoded_params ps omit) = sort (encoded_params qs omit)"
      by (rule canonical_items_inject [OF encoded_items encoded_items])
  qed simp
  also have "\<dots> \<longleftrightarrow> image_mset ?e (mset (kept_pairs ps omit)) = image_mset ?e (mset (kept_pairs qs omit))"
    by (simp only: sort_eq_iff encoded_params_pairs mset_map)
  also have "\<dots> \<longleftrightarrow> mset (kept_pairs ps omit) = mset (kept_pairs qs omit)"
    by (rule inj_eq [OF multiset.inj_map [OF inj]])
  finally show ?thesis .
qed

text \<open>
  C27: The canonical query string is a faithful image of the parameters. Two queries have the
  same canonical string exactly when they hold the same name and value pairs, each as often,
  whatever order, escaping and bare flags they were written with; so a signature over it covers
  every parameter but the omitted one, and nothing else about the query.
\<close>

theorem canonical_query_unambiguous:
  "canonicalQueryString (parseQuery p) omit = canonicalQueryString (parseQuery q) omit \<longleftrightarrow>
     mset (kept_pairs (parseQuery p) omit) = mset (kept_pairs (parseQuery q) omit)"
  by (rule canonicalQueryString_eq_iff)

text \<open>The canonical string is itself a query that parses to the pairs it renders, in order.\<close>

lemma parseQuery_join:
  assumes items: "list_all encoded_item items"
  shows "parseQuery (join_with ''&'' (map render_item items)) =
    map (\<lambda>(n, v). \<lparr>q_name = uriDecode n, q_value = uriDecode v, q_hasValue = True\<rparr>) items"
proof (cases items)
  case Nil
  then show ?thesis by (simp add: parseQuery_def)
next
  case (Cons i its)
  let ?q = "join_with ''&'' (map render_item items)"
  have "?q \<noteq> []" "hd ?q \<in> set (render_item i)"
    by (auto simp: Cons join_with_Cons hd_append)
  with items have "parseQuery ?q = map parse_field (map render_item items)"
    using encoded_item_plain [of i] fields_of_canonical [OF items] Cons
    by (auto simp: parseQuery_def Let_def simp del: join_with.simps)
  then show ?thesis
    using items encoded_item_plain by (auto simp: parse_field_def list_all_iff)
qed

lemma parseQuery_canonical:
  "parseQuery (canonicalQueryString params omit) =
     map (\<lambda>(n, v). \<lparr>q_name = uriDecode n, q_value = uriDecode v, q_hasValue = True\<rparr>)
       (sort (encoded_params params omit))"
  unfolding canonicalQueryString_join by (rule parseQuery_join [OF encoded_items])

end
