(* ===== verification/Operation.thy ===== *)
theory Operation
  imports Identity Uri
begin

text \<open>
  Which S3 operation a request names, what it needs and whether it only reads:
  s3/operation.hpp and s3/operation.cpp, with the request triple of s3/request.hpp.
\<close>

record S3Request =
  rq_method :: string
  rq_bucket :: string
  rq_key :: string
  rq_query :: "QueryParam list"
  rq_resource :: string
  rq_requestId :: string

definition rq_hasQuery :: "S3Request \<Rightarrow> string \<Rightarrow> bool" where
  "rq_hasQuery request name = hasQuery (rq_query request) name"

definition queryValue :: "S3Request \<Rightarrow> string \<Rightarrow> string option" where
  "queryValue request name = findQuery (rq_query request) name"

definition queryOr :: "S3Request \<Rightarrow> string \<Rightarrow> string" where
  "queryOr request name = (case findQuery (rq_query request) name of Some v \<Rightarrow> v | None \<Rightarrow> [])"

datatype Operation =
    ListBuckets
  | CreateBucket
  | DeleteBucket
  | HeadBucket
  | ListObjectsV1
  | ListObjectsV2
  | ListMultipartUploads
  | DeleteObjects
  | GetBucketLocation
  | GetBucketVersioning
  | GetBucketPolicy
  | PutBucketPolicy
  | DeleteBucketPolicy
  | GetBucketAcl
  | PutBucketAcl
  | GetBucketCors
  | PutBucketCors
  | DeleteBucketCors
  | Preflight
  | GetObject
  | HeadObject
  | PutObject
  | DeleteObject
  | CreateMultipartUpload
  | UploadPart
  | ListParts
  | CompleteMultipartUpload
  | AbortMultipartUpload
  | Unsupported
  | MethodNotAllowed

primrec Operation_toString :: "Operation \<Rightarrow> string" where
  "Operation_toString ListBuckets = ''ListBuckets''"
| "Operation_toString CreateBucket = ''CreateBucket''"
| "Operation_toString DeleteBucket = ''DeleteBucket''"
| "Operation_toString HeadBucket = ''HeadBucket''"
| "Operation_toString ListObjectsV1 = ''ListObjects''"
| "Operation_toString ListObjectsV2 = ''ListObjectsV2''"
| "Operation_toString ListMultipartUploads = ''ListMultipartUploads''"
| "Operation_toString DeleteObjects = ''DeleteObjects''"
| "Operation_toString GetBucketLocation = ''GetBucketLocation''"
| "Operation_toString GetBucketVersioning = ''GetBucketVersioning''"
| "Operation_toString GetBucketPolicy = ''GetBucketPolicy''"
| "Operation_toString PutBucketPolicy = ''PutBucketPolicy''"
| "Operation_toString DeleteBucketPolicy = ''DeleteBucketPolicy''"
| "Operation_toString GetBucketAcl = ''GetBucketAcl''"
| "Operation_toString PutBucketAcl = ''PutBucketAcl''"
| "Operation_toString GetBucketCors = ''GetBucketCors''"
| "Operation_toString PutBucketCors = ''PutBucketCors''"
| "Operation_toString DeleteBucketCors = ''DeleteBucketCors''"
| "Operation_toString Preflight = ''Preflight''"
| "Operation_toString GetObject = ''GetObject''"
| "Operation_toString HeadObject = ''HeadObject''"
| "Operation_toString PutObject = ''PutObject''"
| "Operation_toString DeleteObject = ''DeleteObject''"
| "Operation_toString CreateMultipartUpload = ''CreateMultipartUpload''"
| "Operation_toString UploadPart = ''UploadPart''"
| "Operation_toString ListParts = ''ListParts''"
| "Operation_toString CompleteMultipartUpload = ''CompleteMultipartUpload''"
| "Operation_toString AbortMultipartUpload = ''AbortMultipartUpload''"
| "Operation_toString Unsupported = ''Unsupported''"
| "Operation_toString MethodNotAllowed = ''MethodNotAllowed''"

definition isReadOnly :: "Operation \<Rightarrow> bool" where
  "isReadOnly operation \<longleftrightarrow>
     operation \<in> {ListBuckets, HeadBucket, ListObjectsV1, ListObjectsV2, ListMultipartUploads,
       GetBucketLocation, GetBucketVersioning, GetBucketPolicy, GetBucketAcl, GetBucketCors,
       GetObject, HeadObject, ListParts}"

primrec permissionFor :: "Operation \<Rightarrow> Permission" where
  "permissionFor ListBuckets = BucketRead"
| "permissionFor HeadBucket = BucketRead"
| "permissionFor ListObjectsV1 = BucketRead"
| "permissionFor ListObjectsV2 = BucketRead"
| "permissionFor ListMultipartUploads = BucketRead"
| "permissionFor GetBucketLocation = BucketRead"
| "permissionFor GetBucketVersioning = BucketRead"
| "permissionFor GetBucketPolicy = BucketRead"
| "permissionFor GetBucketAcl = BucketRead"
| "permissionFor GetBucketCors = BucketRead"
| "permissionFor CreateBucket = BucketWrite"
| "permissionFor DeleteBucket = BucketWrite"
| "permissionFor PutBucketPolicy = BucketWrite"
| "permissionFor DeleteBucketPolicy = BucketWrite"
| "permissionFor PutBucketAcl = BucketWrite"
| "permissionFor PutBucketCors = BucketWrite"
| "permissionFor DeleteBucketCors = BucketWrite"
| "permissionFor GetObject = ObjectRead"
| "permissionFor HeadObject = ObjectRead"
| "permissionFor ListParts = ObjectRead"
| "permissionFor PutObject = ObjectWrite"
| "permissionFor DeleteObject = ObjectWrite"
| "permissionFor DeleteObjects = ObjectWrite"
| "permissionFor CreateMultipartUpload = ObjectWrite"
| "permissionFor UploadPart = ObjectWrite"
| "permissionFor CompleteMultipartUpload = ObjectWrite"
| "permissionFor AbortMultipartUpload = ObjectWrite"
| "permissionFor Preflight = ObjectRead"
| "permissionFor Unsupported = ObjectWrite"
| "permissionFor MethodNotAllowed = ObjectWrite"

section \<open>Classification\<close>

definition kUnimplementedSubresources :: "string list" where
  "kUnimplementedSubresources =
     [''accelerate'', ''analytics'', ''encryption'', ''inventory'', ''lifecycle'', ''logging'',
      ''metrics'', ''notification'', ''object-lock'', ''ownership'', ''publicAccessBlock'',
      ''replication'', ''requestPayment'', ''tagging'', ''versions'', ''website'', ''restore'']"

definition firstSubresource :: "S3Request \<Rightarrow> string" where
  "firstSubresource request =
     (case List.find (rq_hasQuery request) kUnimplementedSubresources of Some name \<Rightarrow> name | None \<Rightarrow> [])"

definition classifyService :: "S3Request \<Rightarrow> Operation" where
  "classifyService request = (if rq_method request = ''GET'' then ListBuckets else MethodNotAllowed)"

definition classifyBucket :: "S3Request \<Rightarrow> Operation" where
  "classifyBucket request =
     (let has = rq_hasQuery request; method = rq_method request in
      if method = ''GET'' then
        (if has ''uploads'' then ListMultipartUploads
         else if has ''location'' then GetBucketLocation
         else if has ''versioning'' then GetBucketVersioning
         else if has ''policy'' then GetBucketPolicy
         else if has ''acl'' then GetBucketAcl
         else if has ''cors'' then GetBucketCors
         else if queryValue request ''list-type'' = Some ''2'' then ListObjectsV2
         else ListObjectsV1)
      else if method = ''HEAD'' then HeadBucket
      else if method = ''PUT'' then
        (if has ''policy'' then PutBucketPolicy
         else if has ''acl'' then PutBucketAcl
         else if has ''cors'' then PutBucketCors
         else CreateBucket)
      else if method = ''DELETE'' then
        (if has ''policy'' then DeleteBucketPolicy
         else if has ''cors'' then DeleteBucketCors
         else DeleteBucket)
      else if method = ''POST'' then
        (if has ''delete'' then DeleteObjects
         else if has ''uploadId'' then Unsupported
         else MethodNotAllowed)
      else MethodNotAllowed)"

definition classifyObject :: "S3Request \<Rightarrow> Operation" where
  "classifyObject request =
     (let has = rq_hasQuery request; method = rq_method request in
      if method = ''GET'' then
        (if has ''uploadId'' then ListParts
         else if has ''acl'' then GetBucketAcl
         else GetObject)
      else if method = ''HEAD'' then HeadObject
      else if method = ''PUT'' then
        (if has ''uploadId'' \<and> has ''partNumber'' then UploadPart
         else if has ''uploadId'' \<or> has ''partNumber'' then Unsupported
         else PutObject)
      else if method = ''POST'' then
        (if has ''uploads'' then CreateMultipartUpload
         else if has ''uploadId'' then CompleteMultipartUpload
         else MethodNotAllowed)
      else if method = ''DELETE'' then
        (if has ''uploadId'' then AbortMultipartUpload else DeleteObject)
      else MethodNotAllowed)"

text \<open>The operation, and the subresource that could not be served.\<close>

definition classify :: "S3Request \<Rightarrow> Operation \<times> string" where
  "classify request =
     (if rq_method request = ''OPTIONS'' then (Preflight, [])
      else
        let unsupported = firstSubresource request in
        if unsupported \<noteq> [] then (Unsupported, unsupported)
        else if rq_bucket request = [] then (classifyService request, [])
        else if rq_key request = [] then (classifyBucket request, [])
        else (classifyObject request, []))"

section \<open>Lemmas\<close>

text \<open>An operation that is not read-only needs a permission a read-only role does not have.\<close>

lemma isReadOnly_permission:
  "isReadOnly operation \<longleftrightarrow> permissionFor operation \<in> {BucketRead, ObjectRead} \<and> operation \<noteq> Preflight"
  by (cases operation) (simp_all add: isReadOnly_def)

text \<open>Only GET and HEAD are classified as reads, so an unsigned write method is never served.\<close>

lemma classify_read_method:
  "isReadOnly (fst (classify request)) \<Longrightarrow> rq_method request \<in> {''GET'', ''HEAD''}"
  by (auto simp: classify_def classifyService_def classifyBucket_def classifyObject_def isReadOnly_def
      Let_def split: if_splits)

lemma classify_bucketless:
  "rq_bucket request = [] \<Longrightarrow> fst (classify request) \<in> {ListBuckets, MethodNotAllowed, Unsupported, Preflight}"
  by (auto simp: classify_def classifyService_def Let_def)

end
