(* ===== verification/Calendar.thy ===== *)
theory Calendar
  imports Text
begin

text \<open>
  The calendar of the C library that the date formats rest on: \<open>gmtime_r\<close>, which breaks a time
  down in the proleptic Gregorian calendar, \<open>timegm\<close>, which also takes fields out of their range
  and carries them over, and the zero-padded decimal fields of \<open>strftime\<close>.
\<close>

section \<open>Years and months\<close>

definition leap_year :: "int \<Rightarrow> bool" where
  "leap_year y \<longleftrightarrow> y mod 4 = 0 \<and> (y mod 100 \<noteq> 0 \<or> y mod 400 = 0)"

definition year_days :: "int \<Rightarrow> int" where
  "year_days y = (if leap_year y then 366 else 365)"

text \<open>The days from 1970-01-01 to the first day of a year.\<close>

definition days_before_year :: "int \<Rightarrow> int" where
  "days_before_year y = 365 * (y - 1970) + (y - 1) div 4 - (y - 1) div 100 + (y - 1) div 400 - 477"

definition month_days :: "int \<Rightarrow> int list" where
  "month_days y = [31, if leap_year y then 29 else 28, 31, 30, 31, 30, 31, 31, 30, 31, 30, 31]"

definition days_before_month :: "int \<Rightarrow> nat \<Rightarrow> int" where
  "days_before_month y m = sum_list (take m (month_days y))"

lemma days_before_year_1970 [simp]: "days_before_year 1970 = 0"
  by (simp add: days_before_year_def)

lemma div_pred:
  fixes y n :: int
  assumes "0 < n"
  shows "y div n = (y - 1) div n + (if y mod n = 0 then 1 else 0)"
proof (cases "y mod n = 0")
  case True
  then have "y - 1 = n * (y div n - 1) + (n - 1)"
    using div_mult_mod_eq [of y n] by (simp add: algebra_simps)
  then have "(y - 1) div n = y div n - 1"
    using assms by (intro int_div_pos_eq [of _ _ _ "n - 1"]) auto
  with True show ?thesis by simp
next
  case False
  have "0 \<le> y mod n" "y mod n < n" using assms by simp_all
  moreover have "y - 1 = n * (y div n) + (y mod n - 1)"
    using div_mult_mod_eq [of y n] by (simp add: algebra_simps)
  ultimately have "(y - 1) div n = y div n"
    using False by (intro int_div_pos_eq [of _ _ _ "y mod n - 1"]) auto
  with False show ?thesis by simp
qed

lemma leap_count:
  fixes a b c a' b' c' y :: int
  assumes "a' = a + (if P then 1 else 0)" "b' = b + (if Q then 1 else 0)" "c' = c + (if R then 1 else 0)"
    "R \<Longrightarrow> Q" "Q \<Longrightarrow> P"
  shows "365 * (y + 1 - 1970) + a' - b' + c' - 477 =
    365 * (y - 1970) + a - b + c - 477 + (if P \<and> (\<not> Q \<or> R) then 366 else 365)"
  using assms by (cases P; cases Q; cases R) simp_all

lemma days_before_year_Suc: "days_before_year (y + 1) = days_before_year y + year_days y"
proof -
  have q: "y mod 400 = 0 \<Longrightarrow> y mod 100 = 0" "y mod 100 = 0 \<Longrightarrow> y mod 4 = 0"
    using dvd_trans [of 100 400 y] dvd_trans [of 4 100 y] by (simp_all add: mod_eq_0_iff_dvd)
  have "y + 1 - 1 = y" by simp
  then show ?thesis
    unfolding days_before_year_def year_days_def leap_year_def
    by (simp only:) (rule leap_count [OF div_pred div_pred div_pred q]; (rule zero_less_numeral | assumption))
qed

lemma year_days_pos: "0 < year_days y"
  by (simp add: year_days_def)

lemma days_before_year_less: "days_before_year y < days_before_year (y + 1)"
  by (simp add: days_before_year_Suc year_days_pos)

lemma days_before_year_mono: "y \<le> z \<Longrightarrow> days_before_year y \<le> days_before_year z"
proof (induction z rule: int_ge_induct)
  case (step z)
  then show ?case using days_before_year_less [of z] by simp
qed simp

lemma days_before_year_below: "y \<le> 1970 \<Longrightarrow> days_before_year y \<le> y - 1970"
proof (induction y rule: int_le_induct)
  case (step y)
  then show ?case using days_before_year_less [of "y - 1"] by simp
qed simp

text \<open>The year a day is in, searched from a year that began no later.\<close>

function year_from :: "int \<Rightarrow> int \<Rightarrow> int" where
  "year_from d y = (if days_before_year (y + 1) \<le> d then year_from d (y + 1) else y)"
  by pat_completeness auto
termination
proof (relation "measure (\<lambda>(d, y). nat (d - days_before_year y))")
  fix d y :: int
  assume "days_before_year (y + 1) \<le> d"
  then show "((d, y + 1), d, y) \<in> measure (\<lambda>(d, y). nat (d - days_before_year y))"
    using days_before_year_less [of y] by simp
qed simp

declare year_from.simps [simp del]

definition year_of_day :: "int \<Rightarrow> int" where
  "year_of_day d = year_from d (if 0 \<le> d then 1970 else 1970 + d)"

lemma year_from_bounds:
  "days_before_year y \<le> d \<Longrightarrow>
   days_before_year (year_from d y) \<le> d \<and> d < days_before_year (year_from d y + 1)"
proof (induction d y rule: year_from.induct)
  case (1 d y)
  then show ?case by (subst (1 2) year_from.simps) auto
qed

lemma year_of_day_bounds:
  "days_before_year (year_of_day d) \<le> d \<and> d < days_before_year (year_of_day d + 1)"
proof -
  have "days_before_year (if 0 \<le> d then 1970 else 1970 + d) \<le> d"
    using days_before_year_below [of "1970 + d"] by auto
  then show ?thesis unfolding year_of_day_def by (rule year_from_bounds)
qed

lemma year_unique:
  assumes "days_before_year y \<le> d" "d < days_before_year (y + 1)"
  shows "year_of_day d = y"
proof (rule ccontr)
  assume "year_of_day d \<noteq> y"
  then consider "y + 1 \<le> year_of_day d" | "year_of_day d + 1 \<le> y" by linarith
  then show False
    using days_before_year_mono [of "y + 1" "year_of_day d"] days_before_year_mono [of "year_of_day d + 1" y]
      year_of_day_bounds [of d] assms
    by cases simp_all
qed

text \<open>The month and day of a day of the year, both from 0.\<close>

fun month_of_day :: "int list \<Rightarrow> int \<Rightarrow> nat \<times> int" where
  "month_of_day [] d = (0, d)"
| "month_of_day (n # ns) d =
     (if d < n then (0, d) else (case month_of_day ns (d - n) of (m, d) \<Rightarrow> (Suc m, d)))"

lemma month_of_day_sum:
  "m < length ns \<Longrightarrow> 0 \<le> d \<Longrightarrow> d < ns ! m \<Longrightarrow> \<forall>n\<in>set ns. 0 < n \<Longrightarrow>
   month_of_day ns (sum_list (take m ns) + d) = (m, d)"
proof (induction ns arbitrary: m)
  case (Cons n ns)
  show ?case
  proof (cases m)
    case (Suc k)
    have "0 \<le> sum_list (take k ns)"
      using Cons.prems(4) set_take_subset [of k ns] by (intro sum_list_nonneg) fastforce
    with Cons Suc show ?thesis by auto
  qed (use Cons in auto)
qed simp

lemma month_of_day_bounds:
  "0 \<le> d \<Longrightarrow> d < sum_list ns \<Longrightarrow> \<forall>n\<in>set ns. 0 < n \<Longrightarrow>
   (case month_of_day ns d of (m, e) \<Rightarrow> m < length ns \<and> 0 \<le> e \<and> e < ns ! m \<and> d = sum_list (take m ns) + e)"
proof (induction ns d rule: month_of_day.induct)
  case (2 n ns d)
  then show ?case by (auto split: prod.splits)
qed simp

lemma month_days_facts:
  "length (month_days y) = 12" "\<forall>n\<in>set (month_days y). 0 < n" "sum_list (month_days y) = year_days y"
  by (simp_all add: month_days_def year_days_def)

section \<open>Broken-down time\<close>

record tm =
  tm_year :: int
  tm_mon :: int
  tm_mday :: int
  tm_hour :: int
  tm_min :: int
  tm_sec :: int
  tm_wday :: nat

text \<open>\<open>tm_year\<close> is the year itself, \<open>tm_mon\<close> counts from 0 and \<open>tm_mday\<close> from 1.\<close>

definition gmtime :: "int \<Rightarrow> tm" where
  "gmtime t =
     (let d = t div 86400; s = t mod 86400; y = year_of_day d in
      case month_of_day (month_days y) (d - days_before_year y) of
        (m, e) \<Rightarrow> \<lparr>tm_year = y, tm_mon = int m, tm_mday = e + 1, tm_hour = s div 3600,
                   tm_min = s mod 3600 div 60, tm_sec = s mod 60, tm_wday = nat ((d + 4) mod 7)\<rparr>)"

definition timegm :: "tm \<Rightarrow> int" where
  "timegm p =
     (let y = tm_year p + tm_mon p div 12; m = nat (tm_mon p mod 12) in
      (days_before_year y + days_before_month y m + tm_mday p - 1) * 86400 +
      tm_hour p * 3600 + tm_min p * 60 + tm_sec p)"

lemma gmtime_fields:
  "0 \<le> tm_mon (gmtime t)" "tm_mon (gmtime t) < 12" "1 \<le> tm_mday (gmtime t)" "tm_mday (gmtime t) \<le> 31"
  "0 \<le> tm_hour (gmtime t)" "tm_hour (gmtime t) < 24" "0 \<le> tm_min (gmtime t)" "tm_min (gmtime t) < 60"
  "0 \<le> tm_sec (gmtime t)" "tm_sec (gmtime t) < 60"
proof -
  define y where "y = year_of_day (t div 86400)"
  define m where "m = fst (month_of_day (month_days y) (t div 86400 - days_before_year y))"
  define e where "e = snd (month_of_day (month_days y) (t div 86400 - days_before_year y))"
  have me: "month_of_day (month_days y) (t div 86400 - days_before_year y) = (m, e)"
    by (simp add: m_def e_def)
  have "0 \<le> t div 86400 - days_before_year y" "t div 86400 - days_before_year y < year_days y"
    using year_of_day_bounds [of "t div 86400"] by (simp_all add: y_def days_before_year_Suc)
  then have b: "m < 12" "0 \<le> e" "e < month_days y ! m"
    using month_of_day_bounds [of "t div 86400 - days_before_year y" "month_days y"]
    by (simp_all add: month_days_facts me)
  have "\<forall>n\<in>set (month_days y). n \<le> 31" by (simp add: month_days_def)
  with b have "e < 31" by (metis less_le_trans month_days_facts(1) nth_mem)
  with b show "0 \<le> tm_mon (gmtime t)" "tm_mon (gmtime t) < 12" "1 \<le> tm_mday (gmtime t)"
      "tm_mday (gmtime t) \<le> 31"
    by (simp_all add: gmtime_def Let_def me flip: y_def)
  have day: "0 \<le> s div 3600 \<and> s div 3600 < 24 \<and> 0 \<le> s mod 3600 div 60 \<and> s mod 3600 div 60 < 60"
    if "0 \<le> s" "s < 86400" for s :: int
  proof (intro conjI)
    show "s div 3600 < 24" using that(2) by linarith
    have "s mod 3600 < 3600" by simp
    then show "s mod 3600 div 60 < 60" by linarith
  qed (use that(1) in \<open>simp_all add: pos_imp_zdiv_nonneg_iff\<close>)
  show "0 \<le> tm_hour (gmtime t)" "tm_hour (gmtime t) < 24" "0 \<le> tm_min (gmtime t)"
      "tm_min (gmtime t) < 60" "0 \<le> tm_sec (gmtime t)" "tm_sec (gmtime t) < 60"
    using day [of "t mod 86400"] by (simp_all add: gmtime_def Let_def me flip: y_def)
qed

text \<open>\<open>timegm\<close> is the inverse of \<open>gmtime_r\<close>.\<close>

lemma timegm_gmtime: "timegm (gmtime t) = t"
proof -
  define y where "y = year_of_day (t div 86400)"
  define m where "m = fst (month_of_day (month_days y) (t div 86400 - days_before_year y))"
  define e where "e = snd (month_of_day (month_days y) (t div 86400 - days_before_year y))"
  have me: "month_of_day (month_days y) (t div 86400 - days_before_year y) = (m, e)"
    by (simp add: m_def e_def)
  have "0 \<le> t div 86400 - days_before_year y" "t div 86400 - days_before_year y < year_days y"
    using year_of_day_bounds [of "t div 86400"] by (simp_all add: y_def days_before_year_Suc)
  then have b: "m < 12" "t div 86400 - days_before_year y = days_before_month y m + e"
    using month_of_day_bounds [of "t div 86400 - days_before_year y" "month_days y"]
    by (simp_all add: month_days_facts me days_before_month_def)
  have parts: "s div 3600 * 3600 + s mod 3600 div 60 * 60 + s mod 60 = s" for s :: int
  proof -
    have "s mod 3600 mod 60 = s mod 60" by (rule mod_mod_cancel) simp
    then have "s mod 3600 div 60 * 60 + s mod 60 = s mod 3600"
      using div_mult_mod_eq [of "s mod 3600" 60] by simp
    then show ?thesis using div_mult_mod_eq [of s 3600] by linarith
  qed
  have g: "gmtime t = \<lparr>tm_year = y, tm_mon = int m, tm_mday = e + 1, tm_hour = t mod 86400 div 3600,
      tm_min = t mod 86400 mod 3600 div 60, tm_sec = t mod 86400 mod 60,
      tm_wday = nat ((t div 86400 + 4) mod 7)\<rparr>"
    by (simp only: gmtime_def Let_def me prod.case flip: y_def)
  have m: "int m div 12 = 0" "nat (int m mod 12) = m"
    using b(1) by simp_all
  have "timegm (gmtime t) = (days_before_year y + days_before_month y m + e) * 86400 +
      (t mod 86400 div 3600 * 3600 + t mod 86400 mod 3600 div 60 * 60 + t mod 86400 mod 60)"
    by (simp only: g timegm_def Let_def tm.select_convs m) simp
  also have "\<dots> = t div 86400 * 86400 + t mod 86400"
    unfolding parts using b(2) by (simp only: algebra_simps)
  finally show ?thesis by simp
qed

section \<open>Formatting\<close>

definition two_digits :: "int \<Rightarrow> string" where
  "two_digits n = [digit_char (nat (n div 10)), digit_char (nat (n mod 10))]"

definition four_digits :: "int \<Rightarrow> string" where
  "four_digits n = two_digits (n div 100) @ two_digits (n mod 100)"

definition kDays :: "string list" where
  "kDays = [''Sun'', ''Mon'', ''Tue'', ''Wed'', ''Thu'', ''Fri'', ''Sat'']"

definition kMonths :: "string list" where
  "kMonths = [''Jan'', ''Feb'', ''Mar'', ''Apr'', ''May'', ''Jun'', ''Jul'', ''Aug'', ''Sep'', ''Oct'', ''Nov'', ''Dec'']"

lemma length_digits [simp]: "length (two_digits n) = 2" "length (four_digits n) = 4"
  by (simp_all add: two_digits_def four_digits_def)

end
