(* ===== verification/S3_Error.thy ===== *)
theory S3_Error
  imports Errors Uri
begin

text \<open>
  S3 error codes and what they are on the wire: s3/s3_error.hpp and s3/s3_error.cpp, with the
  mapping of status numbers of s3/response.cpp. An \<open>S3Exception\<close> is its code; the message a throw
  site composes is not modelled. The exceptions a handler meets are the \<open>S3Exception\<close>s and those
  of the storage layer.
\<close>

section \<open>Codes\<close>

datatype S3ErrorCode =
    E_AccessDenied
  | E_AccessForbidden
  | E_BadDigest
  | E_BucketAlreadyExists
  | E_BucketAlreadyOwnedByYou
  | E_BucketNotEmpty
  | E_EntityTooLarge
  | E_EntityTooSmall
  | E_IncompleteBody
  | E_InternalError
  | E_InvalidAccessKeyId
  | E_InvalidArgument
  | E_InvalidBucketName
  | E_InvalidDigest
  | E_InvalidPart
  | E_InvalidPartOrder
  | E_InvalidRange
  | E_InvalidRequest
  | E_InvalidURI
  | E_InsufficientCapacity
  | E_KeyTooLong
  | E_MalformedXML
  | E_MethodNotAllowed
  | E_MissingContentLength
  | E_MissingSecurityHeader
  | E_NoSuchBucket
  | E_NoSuchBucketPolicy
  | E_NoSuchCORSConfiguration
  | E_NoSuchKey
  | E_NoSuchUpload
  | E_NotImplemented
  | E_PreconditionFailed
  | E_QuotaExceeded
  | E_RequestTimeTooSkewed
  | E_SignatureDoesNotMatch
  | E_SlowDown
  | E_XAmzContentSHA256Mismatch

text \<open>
  What a handler may throw: an S3 error, an exception of the storage layer, or another
  \<open>std::exception\<close>, which a library below threw.
\<close>

datatype s3_exn = S3Exception S3ErrorCode | Lower exn | LibraryException

text \<open>The result of a storage call inside a handler.\<close>

fun lift_exn :: "exn + 'a \<Rightarrow> s3_exn + 'a" where
  "lift_exn (Inl x) = Inl (Lower x)"
| "lift_exn (Inr v) = Inr v"

definition sbind :: "'e + 'a \<Rightarrow> ('a \<Rightarrow> 'e + 'b) \<Rightarrow> 'e + 'b" where
  "sbind x k = (case x of Inl e \<Rightarrow> Inl e | Inr v \<Rightarrow> k v)"

lemma sbind_simps [simp]: "sbind (Inl e) k = Inl e" "sbind (Inr v) k = k v"
  by (simp_all add: sbind_def)

lemma sbind_Inr: "sbind x k = Inr y \<longleftrightarrow> (\<exists>v. x = Inr v \<and> k v = Inr y)"
  by (cases x) auto

text \<open>\<open>if (bad) throw ...\<close>\<close>

definition require :: "bool \<Rightarrow> 'e \<Rightarrow> 'e + unit" where
  "require ok e = (if ok then Inr () else Inl e)"

lemma require_Inr [simp]: "require ok e = Inr u \<longleftrightarrow> ok"
  by (simp add: require_def)

lemma require_simps [simp]: "require True e = Inr ()" "require False e = Inl e"
  by (simp_all add: require_def)

section \<open>The table\<close>

record S3ErrorInfo =
  ei_code :: string
  ei_status :: nat
  ei_message :: string

primrec describe :: "S3ErrorCode \<Rightarrow> S3ErrorInfo" where
  "describe E_AccessDenied =
     \<lparr>ei_code = ''AccessDenied'', ei_status = 403,
      ei_message = ''Access Denied''\<rparr>"
| "describe E_AccessForbidden =
     \<lparr>ei_code = ''AccessForbidden'', ei_status = 403,
      ei_message = ''CORSResponse: This CORS request is not allowed.''\<rparr>"
| "describe E_BadDigest =
     \<lparr>ei_code = ''BadDigest'', ei_status = 400,
      ei_message = ''The Content-MD5 you specified did not match what we received.''\<rparr>"
| "describe E_BucketAlreadyExists =
     \<lparr>ei_code = ''BucketAlreadyExists'', ei_status = 409,
      ei_message = ''The requested bucket name is not available.''\<rparr>"
| "describe E_BucketAlreadyOwnedByYou =
     \<lparr>ei_code = ''BucketAlreadyOwnedByYou'', ei_status = 409,
      ei_message = ''Your previous request to create the named bucket succeeded and you already own it.''\<rparr>"
| "describe E_BucketNotEmpty =
     \<lparr>ei_code = ''BucketNotEmpty'', ei_status = 409,
      ei_message = ''The bucket you tried to delete is not empty.''\<rparr>"
| "describe E_EntityTooLarge =
     \<lparr>ei_code = ''EntityTooLarge'', ei_status = 400,
      ei_message = ''Your proposed upload exceeds the maximum allowed size.''\<rparr>"
| "describe E_EntityTooSmall =
     \<lparr>ei_code = ''EntityTooSmall'', ei_status = 400,
      ei_message = ''Your proposed upload is smaller than the minimum allowed object size.''\<rparr>"
| "describe E_IncompleteBody =
     \<lparr>ei_code = ''IncompleteBody'', ei_status = 400,
      ei_message = ''You did not provide the number of bytes specified by the Content-Length HTTP header.''\<rparr>"
| "describe E_InternalError =
     \<lparr>ei_code = ''InternalError'', ei_status = 500,
      ei_message = ''We encountered an internal error.''\<rparr>"
| "describe E_InvalidAccessKeyId =
     \<lparr>ei_code = ''InvalidAccessKeyId'', ei_status = 403,
      ei_message = ''The AWS access key id you provided does not exist in our records.''\<rparr>"
| "describe E_InvalidArgument =
     \<lparr>ei_code = ''InvalidArgument'', ei_status = 400,
      ei_message = ''Invalid Argument''\<rparr>"
| "describe E_InvalidBucketName =
     \<lparr>ei_code = ''InvalidBucketName'', ei_status = 400,
      ei_message = ''The specified bucket is not valid.''\<rparr>"
| "describe E_InvalidDigest =
     \<lparr>ei_code = ''InvalidDigest'', ei_status = 400,
      ei_message = ''The Content-MD5 you specified is not valid.''\<rparr>"
| "describe E_InvalidPart =
     \<lparr>ei_code = ''InvalidPart'', ei_status = 400,
      ei_message = ''One or more of the specified parts could not be found, or the entity tag did not match the part's entity tag.''\<rparr>"
| "describe E_InvalidPartOrder =
     \<lparr>ei_code = ''InvalidPartOrder'', ei_status = 400,
      ei_message = ''The list of parts was not in ascending order. Parts must be ordered by part number.''\<rparr>"
| "describe E_InvalidRange =
     \<lparr>ei_code = ''InvalidRange'', ei_status = 416,
      ei_message = ''The requested range is not satisfiable.''\<rparr>"
| "describe E_InvalidRequest =
     \<lparr>ei_code = ''InvalidRequest'', ei_status = 400,
      ei_message = ''Invalid Request''\<rparr>"
| "describe E_InvalidURI =
     \<lparr>ei_code = ''InvalidURI'', ei_status = 400,
      ei_message = ''Could not parse the specified URI.''\<rparr>"
| "describe E_InsufficientCapacity =
     \<lparr>ei_code = ''InsufficientCapacity'', ei_status = 507,
      ei_message = ''The server has no remaining allocatable capacity for this bucket.''\<rparr>"
| "describe E_KeyTooLong =
     \<lparr>ei_code = ''KeyTooLongError'', ei_status = 400,
      ei_message = ''Your key is too long.''\<rparr>"
| "describe E_MalformedXML =
     \<lparr>ei_code = ''MalformedXML'', ei_status = 400,
      ei_message = ''The XML you provided was not well-formed or did not validate against our published schema.''\<rparr>"
| "describe E_MethodNotAllowed =
     \<lparr>ei_code = ''MethodNotAllowed'', ei_status = 405,
      ei_message = ''The specified method is not allowed against this resource.''\<rparr>"
| "describe E_MissingContentLength =
     \<lparr>ei_code = ''MissingContentLength'', ei_status = 411,
      ei_message = ''You must provide the Content-Length HTTP header.''\<rparr>"
| "describe E_MissingSecurityHeader =
     \<lparr>ei_code = ''MissingSecurityHeader'', ei_status = 400,
      ei_message = ''Your request is missing a required header.''\<rparr>"
| "describe E_NoSuchBucket =
     \<lparr>ei_code = ''NoSuchBucket'', ei_status = 404,
      ei_message = ''The specified bucket does not exist.''\<rparr>"
| "describe E_NoSuchBucketPolicy =
     \<lparr>ei_code = ''NoSuchBucketPolicy'', ei_status = 404,
      ei_message = ''The bucket policy does not exist.''\<rparr>"
| "describe E_NoSuchCORSConfiguration =
     \<lparr>ei_code = ''NoSuchCORSConfiguration'', ei_status = 404,
      ei_message = ''The CORS configuration does not exist.''\<rparr>"
| "describe E_NoSuchKey =
     \<lparr>ei_code = ''NoSuchKey'', ei_status = 404,
      ei_message = ''The specified key does not exist.''\<rparr>"
| "describe E_NoSuchUpload =
     \<lparr>ei_code = ''NoSuchUpload'', ei_status = 404,
      ei_message = ''The specified multipart upload does not exist. The upload id may be invalid, or the upload may have been aborted or completed.''\<rparr>"
| "describe E_NotImplemented =
     \<lparr>ei_code = ''NotImplemented'', ei_status = 501,
      ei_message = ''A header or query parameter you provided implies functionality that is not implemented.''\<rparr>"
| "describe E_PreconditionFailed =
     \<lparr>ei_code = ''PreconditionFailed'', ei_status = 412,
      ei_message = ''At least one of the preconditions you specified did not hold.''\<rparr>"
| "describe E_QuotaExceeded =
     \<lparr>ei_code = ''QuotaExceeded'', ei_status = 403,
      ei_message = ''The write exceeds the storage allocation of the specified bucket.''\<rparr>"
| "describe E_RequestTimeTooSkewed =
     \<lparr>ei_code = ''RequestTimeTooSkewed'', ei_status = 403,
      ei_message = ''The difference between the request time and the current time is too large.''\<rparr>"
| "describe E_SignatureDoesNotMatch =
     \<lparr>ei_code = ''SignatureDoesNotMatch'', ei_status = 403,
      ei_message = ''The request signature we calculated does not match the signature you provided.''\<rparr>"
| "describe E_SlowDown =
     \<lparr>ei_code = ''SlowDown'', ei_status = 503,
      ei_message = ''Please reduce your request rate.''\<rparr>"
| "describe E_XAmzContentSHA256Mismatch =
     \<lparr>ei_code = ''XAmzContentSHA256Mismatch'', ei_status = 400,
      ei_message = ''The provided x-amz-content-sha256 header does not match what was computed.''\<rparr>"

text \<open>Drogon's status of a number; one it is not asked to know becomes 500.\<close>

definition toStatus :: "nat \<Rightarrow> nat" where
  "toStatus status =
     (if status \<in> {200, 204, 206, 304, 400, 403, 404, 405, 409, 411, 412, 416, 500, 501, 503}
      then status else 500)"

primrec fromStorage :: "StorageErrorCode \<Rightarrow> S3ErrorCode" where
  "fromStorage NoSuchBucket = E_NoSuchBucket"
| "fromStorage NoSuchKey = E_NoSuchKey"
| "fromStorage NoSuchUpload = E_NoSuchUpload"
| "fromStorage BucketAlreadyExists = E_BucketAlreadyExists"
| "fromStorage BucketNotEmpty = E_BucketNotEmpty"
| "fromStorage InvalidPart = E_InvalidPart"
| "fromStorage QuotaExceeded = E_QuotaExceeded"
| "fromStorage QuotaBelowUsage = E_InvalidArgument"
| "fromStorage ObjectTooLarge = E_EntityTooLarge"
| "fromStorage ChecksumMismatch = E_BadDigest"
| "fromStorage InsufficientCapacity = E_InsufficientCapacity"
| "fromStorage Corruption = E_InternalError"
| "fromStorage Io = E_InternalError"
| "fromStorage Internal = E_InternalError"

text \<open>Sixteen hexadecimal digits of one draw of the generator, the highest first.\<close>

definition newRequestId :: "u64 \<Rightarrow> string" where
  "newRequestId draw =
     map (\<lambda>i. kUpperHexDigits ! unat (drop_bit (4 * (15 - i)) draw AND 0xF)) [0..<16]"

section \<open>What a client sees\<close>

text \<open>
  C30: The capacity refusal loses its status. Every S3 error is answered with the status its
  table entry names, except InsufficientCapacity: the table documents 507 for it, which the
  translation to the framework's status does not know, so the client receives 500, as if the
  server had failed.
\<close>

theorem capacity_refusal_is_sent_as_500:
  "toStatus (ei_status (describe code)) =
     (if code = E_InsufficientCapacity then 500 else ei_status (describe code)) \<and>
   ei_status (describe E_InsufficientCapacity) = 507"
  by (cases code) (simp_all add: toStatus_def)

lemma describe_status_range: "400 \<le> ei_status (describe code) \<and> ei_status (describe code) < 600"
  by (cases code) simp_all

lemma fromStorage_client_fault:
  "ei_status (describe (fromStorage code)) < 500 \<longleftrightarrow>
     code \<notin> {Corruption, Io, Internal, InsufficientCapacity}"
  by (cases code) simp_all

end
