(* ===== verification/S3_Request.thy ===== *)
theory S3_Request
  imports Operation Calendar S3_Error Records
begin

text \<open>
  From an HTTP request to bucket, key and subresource, and the header parsing the handlers
  share: s3/request.hpp, s3/request.cpp and s3/content_headers.cpp.
\<close>

section \<open>Names\<close>

definition kReservedNames :: "string list" where
  "kReservedNames = [''healthz'', ''readyz'', ''metrics'', ''_mb'']"

text \<open>
  The loop of \<open>looksLikeIpv4\<close>; the end of the name closes the last octet as a dot does. The
  octet's value is a C++ \<open>int\<close>, which a long run of digits overflows; the word wraps there, and
  the result does not depend on it, since more than three digits are refused.
\<close>

fun ipv4_loop :: "string \<Rightarrow> nat \<Rightarrow> nat \<Rightarrow> 32 word \<Rightarrow> bool" where
  "ipv4_loop [] octets digits n =
     (if digits = 0 \<or> 3 < digits \<or> 255 <s n then False else Suc octets = 4)"
| "ipv4_loop (c # rest) octets digits n =
     (if c = CHR ''.''
      then (if digits = 0 \<or> 3 < digits \<or> 255 <s n then False else ipv4_loop rest (Suc octets) 0 0)
      else if \<not> isdigit c then False
      else ipv4_loop rest octets (Suc digits) (n * 10 + (byte_val c - byte_val (CHR ''0''))))"

definition looksLikeIpv4 :: "string \<Rightarrow> bool" where
  "looksLikeIpv4 name = ipv4_loop name 0 0 0"

fun bucket_chars :: "char \<Rightarrow> string \<Rightarrow> bool" where
  "bucket_chars previous [] = True"
| "bucket_chars previous (ch # rest) =
     (if \<not> (CHR ''a'' \<le> ch \<and> ch \<le> CHR ''z'' \<or> CHR ''0'' \<le> ch \<and> ch \<le> CHR ''9'' \<or>
            ch = CHR ''-'' \<or> ch = CHR ''.'') then False
      else if ch = CHR ''.'' \<and> previous = CHR ''.'' then False
      else bucket_chars ch rest)"

definition isValidBucketName :: "string \<Rightarrow> bool" where
  "isValidBucketName name =
     (if length name < 3 \<or> 63 < length name then False
      else if \<not> isalnum (hd name) then False
      else if \<not> isalnum (last name) then False
      else if \<not> bucket_chars NUL name then False
      else \<not> looksLikeIpv4 name)"

definition isReservedBucketName :: "string \<Rightarrow> bool" where
  "isReservedBucketName name \<longleftrightarrow> name \<in> set kReservedNames"

definition isValidObjectKey :: "string \<Rightarrow> bool" where
  "isValidObjectKey key =
     (if key = [] \<or> 1024 < length key then False
      else if key = ''.'' \<or> key = ''..'' \<or> sublist ''/../'' key \<or> prefix ''../'' key then False
      else list_all (\<lambda>ch. \<not> (uchar ch < 0x20 \<or> uchar ch = 0x7F)) key)"

section \<open>The addressed resource\<close>

definition parseRequest :: "u64 \<Rightarrow> string \<Rightarrow> string \<Rightarrow> string \<Rightarrow> string \<Rightarrow> S3Request" where
  "parseRequest draw method decodedPath rawQuery virtualHostBucket =
     (let path = (if decodedPath \<noteq> [] \<and> hd decodedPath = CHR ''/'' then tl decodedPath else decodedPath);
          target = (if virtualHostBucket \<noteq> [] then (virtualHostBucket, path)
            else if CHR ''/'' \<in> set path then (before (CHR ''/'') path, after (CHR ''/'') path)
            else (path, []))
      in \<lparr>rq_method = method, rq_bucket = fst target, rq_key = snd target,
          rq_query = parseQuery rawQuery, rq_resource = decodedPath, rq_requestId = newRequestId draw\<rparr>)"

definition virtualHostBucket :: "string \<Rightarrow> string \<Rightarrow> string" where
  "virtualHostBucket host domain =
     (if domain = [] \<or> host = [] then []
      else
        let host = (if CHR '':'' \<in> set host \<and> CHR '']'' \<notin> set host
              then before_last (CHR '':'') host else host);
            loweredHost = toLower host; loweredDomain = toLower domain; sfx = CHR ''.'' # loweredDomain
        in if loweredHost = loweredDomain then []
           else if length loweredHost \<le> length sfx then []
           else if drop (length loweredHost - length sfx) loweredHost \<noteq> sfx then []
           else
             let bucket = take (length loweredHost - length sfx) loweredHost in
             if isValidBucketName bucket then bucket else [])"

section \<open>Ranges\<close>

record ByteRange =
  br_offset :: u64
  br_length :: u64

datatype RangeResult = Absent | Satisfiable ByteRange | Unsatisfiable

definition range_number :: "string \<Rightarrow> u64 option" where
  "range_number s =
     (if s = [] \<or> 19 < length s then None
      else foldl (\<lambda>acc ch. case acc of None \<Rightarrow> None
            | Some n \<Rightarrow> if \<not> isdigit ch then None else Some (n * 10 + (byte_val ch - byte_val (CHR ''0''))))
          (Some 0) s)"

definition parseRange :: "string \<Rightarrow> u64 \<Rightarrow> RangeResult" where
  "parseRange header objectSize =
     (if take 6 header \<noteq> ''bytes='' then Absent
      else
        let spec = drop 6 header in
        if CHR '','' \<in> set spec then Absent
        else if CHR ''-'' \<notin> set spec then Absent
        else
          let firstText = before (CHR ''-'') spec; lastText = after (CHR ''-'') spec in
          if firstText = [] \<and> lastText = [] then Absent
          else if firstText = [] then
            (case range_number lastText of
               None \<Rightarrow> Absent
             | Some tail_bytes \<Rightarrow>
                 if tail_bytes = 0 then Unsatisfiable
                 else let n = min tail_bytes objectSize in
                   if n = 0 then Unsatisfiable
                   else Satisfiable \<lparr>br_offset = objectSize - n, br_length = n\<rparr>)
          else
            (case range_number firstText of
               None \<Rightarrow> Absent
             | Some first \<Rightarrow>
                 if objectSize \<le> first then Unsatisfiable
                 else if lastText = []
                 then Satisfiable \<lparr>br_offset = first, br_length = (objectSize - 1) - first + 1\<rparr>
                 else
                   (case range_number lastText of
                      None \<Rightarrow> Absent
                    | Some explicitLast \<Rightarrow>
                        let lastByte = min explicitLast (objectSize - 1) in
                        if lastByte < first then Unsatisfiable
                        else Satisfiable \<lparr>br_offset = first, br_length = lastByte - first + 1\<rparr>)))"

section \<open>Dates and entity tags\<close>

text \<open>Milliseconds to seconds by C++ division, which truncates towards zero.\<close>

definition ms_to_seconds :: "i64 \<Rightarrow> int" where
  "ms_to_seconds ms = (if 0 \<le> sint ms then sint ms div 1000 else - (- sint ms div 1000))"

definition toHttpDate :: "i64 \<Rightarrow> string" where
  "toHttpDate epochMs =
     (let p = gmtime (ms_to_seconds epochMs) in
      kDays ! (tm_wday p mod 7) @ '', '' @ two_digits (tm_mday p) @ '' '' @
      kMonths ! (nat (tm_mon p) mod 12) @ '' '' @ four_digits (tm_year p) @ '' '' @
      two_digits (tm_hour p) @ '':'' @ two_digits (tm_min p) @ '':'' @ two_digits (tm_sec p) @ '' GMT'')"

definition unquoteETag :: "string \<Rightarrow> string" where
  "unquoteETag etag =
     (let etag = (if prefix ''W/'' etag then drop 2 etag else etag) in
      if 2 \<le> length etag \<and> hd etag = CHR 0x22 \<and> last etag = CHR 0x22 then butlast (tl etag) else etag)"

definition quoteETag :: "string \<Rightarrow> string" where
  "quoteETag etag = [CHR 0x22] @ etag @ [CHR 0x22]"

definition userMetadataKey :: "string \<Rightarrow> string" where
  "userMetadataKey headerName =
     (let lowered = toLower headerName in
      if take 11 lowered \<noteq> ''x-amz-meta-'' then [] else drop 11 lowered)"

definition encodeListingValue :: "string \<Rightarrow> bool \<Rightarrow> string" where
  "encodeListingValue s urlEncode = (if urlEncode then uriEncode s True else s)"

section \<open>Content headers of a read\<close>

definition content_entries :: "ContentHeaders \<Rightarrow> (string \<times> string \<times> string) list" where
  "content_entries h =
     [(''Cache-Control'', ''response-cache-control'', cacheControl h),
      (''Content-Disposition'', ''response-content-disposition'', contentDisposition h),
      (''Content-Encoding'', ''response-content-encoding'', contentEncoding h),
      (''Content-Language'', ''response-content-language'', contentLanguage h),
      (''Expires'', ''response-expires'', expires h)]"

definition resolve_entry :: "S3Request \<Rightarrow> string \<times> string \<times> string \<Rightarrow> string \<times> string" where
  "resolve_entry request = (\<lambda>(name, parameter, v).
     (name, case queryValue request parameter of Some o' \<Rightarrow> if o' \<noteq> [] then o' else v | None \<Rightarrow> v))"

definition resolveContentHeaders :: "ContentHeaders \<Rightarrow> S3Request \<Rightarrow> (string \<times> string) list" where
  "resolveContentHeaders h request =
     filter (\<lambda>(name, v). v \<noteq> []) (map (resolve_entry request) (content_entries h))"

section \<open>Names that are accepted\<close>

lemma bucket_chars_set:
  "bucket_chars previous name \<Longrightarrow> ch \<in> set name \<Longrightarrow>
     CHR ''a'' \<le> ch \<and> ch \<le> CHR ''z'' \<or> CHR ''0'' \<le> ch \<and> ch \<le> CHR ''9'' \<or> ch = CHR ''-'' \<or> ch = CHR ''.''"
  by (induction previous name rule: bucket_chars.induct) (auto split: if_splits)

lemma valid_bucket_no_slash: "isValidBucketName name \<Longrightarrow> CHR ''/'' \<notin> set name"
  using bucket_chars_set [of NUL name "CHR ''/''"]
  by (auto simp: isValidBucketName_def less_eq_char_def split: if_splits)

lemma virtualHostBucket_valid:
  "virtualHostBucket host domain \<noteq> [] \<Longrightarrow> isValidBucketName (virtualHostBucket host domain)"
  by (auto simp: virtualHostBucket_def Let_def split: if_splits)

section \<open>Ranges lie inside the object\<close>

lemma u64_range:
  fixes first lastByte objectSize :: u64
  assumes "first \<le> lastByte" "lastByte < objectSize"
  shows "unat (lastByte - first + 1) = unat lastByte - unat first + 1"
    "unat first + unat (lastByte - first + 1) \<le> unat objectSize"
proof -
  have le: "unat first \<le> unat lastByte" "unat lastByte < unat objectSize"
    using assms by (simp_all add: word_le_nat_alt word_less_nat_alt)
  have sub: "unat (lastByte - first) = unat lastByte - unat first"
    using assms(1) by (rule unat_sub)
  have "unat lastByte - unat first + 1 < 2 ^ 64"
    using le unat_64_less [of objectSize] by (simp del: unat_64_less)
  then have "unat (lastByte - first) + unat (1 :: u64) < 2 ^ 64"
    using sub by simp
  then have "unat (lastByte - first + 1) = unat (lastByte - first) + unat (1 :: u64)"
    by (intro unat_add_u64)
  with sub
  show "unat (lastByte - first + 1) = unat lastByte - unat first + 1" by simp
  with le show "unat first + unat (lastByte - first + 1) \<le> unat objectSize" by simp
qed

lemma last_byte_less:
  fixes first objectSize :: u64
  assumes "first < objectSize"
  shows "objectSize - 1 < objectSize" "first \<le> objectSize - 1"
proof -
  have "0 < unat objectSize" using assms by (auto simp: word_less_nat_alt)
  then have "unat (objectSize - 1) = unat objectSize - 1"
    by (subst unat_sub) (auto simp: word_le_nat_alt)
  then show "objectSize - 1 < objectSize" "first \<le> objectSize - 1"
    using assms by (auto simp: word_less_nat_alt word_le_nat_alt)
qed

text \<open>
  C29: A satisfiable range is a non-empty part of the object. Whatever the header says, the
  offset and length the server answers with are at least one byte and end within the object,
  with no wrap-around in the 64-bit arithmetic.
\<close>

theorem parsed_range_inside:
  assumes "parseRange header objectSize = Satisfiable r"
  shows "0 < unat (br_length r) \<and> unat (br_offset r) + unat (br_length r) \<le> unat objectSize"
proof -
  have suffix: "0 < unat n \<and> unat (objectSize - n) + unat n \<le> unat objectSize"
    if "n \<noteq> 0" "n \<le> objectSize" for n
    using that by (auto simp: unat_sub word_le_nat_alt unat_gt_0)
  have span: "0 < unat (lastByte - first + 1) \<and> unat first + unat (lastByte - first + 1) \<le> unat objectSize"
    if "first \<le> lastByte" "lastByte < objectSize" for first lastByte
    using u64_range [OF that] by simp
  show ?thesis
  proof (cases "before (CHR ''-'') (drop 6 header) = []")
    case True
    with assms obtain t where "r = \<lparr>br_offset = objectSize - min t objectSize, br_length = min t objectSize\<rparr>"
        "min t objectSize \<noteq> 0"
      by (auto simp: parseRange_def Let_def split: if_splits option.splits)
    then show ?thesis using suffix [of "min t objectSize"] by simp
  next
    case False
    let ?l = "after (CHR ''-'') (drop 6 header)"
    from False assms have "\<exists>first. first < objectSize \<and>
        (if ?l = [] then r = \<lparr>br_offset = first, br_length = (objectSize - 1) - first + 1\<rparr>
         else \<exists>e. first \<le> min e (objectSize - 1) \<and>
           r = \<lparr>br_offset = first, br_length = min e (objectSize - 1) - first + 1\<rparr>)"
      by (cases "range_number (before (CHR ''-'') (drop 6 header))"; cases "range_number ?l")
        (auto simp add: parseRange_def Let_def not_less not_le split: if_splits)
    then obtain first where f: "first < objectSize"
        "if ?l = [] then r = \<lparr>br_offset = first, br_length = (objectSize - 1) - first + 1\<rparr>
         else \<exists>e. first \<le> min e (objectSize - 1) \<and>
           r = \<lparr>br_offset = first, br_length = min e (objectSize - 1) - first + 1\<rparr>" by blast
    then have "\<exists>lastByte. r = \<lparr>br_offset = first, br_length = lastByte - first + 1\<rparr> \<and>
        first < objectSize \<and> first \<le> lastByte \<and> lastByte \<le> objectSize - 1"
      using last_byte_less(2) [OF f(1)] by (metis min.cobounded2 order_refl)
    then obtain lastByte where
        r: "r = \<lparr>br_offset = first, br_length = lastByte - first + 1\<rparr>" "first < objectSize"
        "first \<le> lastByte" "lastByte \<le> objectSize - 1"
      by blast
    then have "lastByte < objectSize"
      using last_byte_less(1) by (meson le_less_trans)
    with r show ?thesis using span by simp
  qed
qed

theorem parsed_range_inside_witness:
  "parseRange ''bytes=2-99'' 10 = Satisfiable \<lparr>br_offset = 2, br_length = 8\<rparr> \<and>
   0 < unat (8 :: u64) \<and> unat (2 :: u64) + unat (8 :: u64) \<le> unat (10 :: u64)"
proof -
  have "parseRange ''bytes=2-99'' 10 = Satisfiable \<lparr>br_offset = 2, br_length = 8\<rparr>"
    by code_simp
  from parsed_range_inside [OF this] this show ?thesis by simp
qed

text \<open>
  A range that is no range is refused. The result Unsatisfiable is documented for
  syntactically valid ranges outside the object, and a malformed header is to be ignored; but a
  first position past the end is refused before the last one is read, whatever that is, and so
  is a last position before the first.
\<close>

theorem malformed_range_refused:
  "parseRange ''bytes=10-x'' 10 = Unsatisfiable"
  "parseRange ''bytes=9-x'' 10 = Absent"
  "parseRange ''bytes=5-3'' 10 = Unsatisfiable"
  by code_simp+

lemma parse_single_parameter:
  "parseQuery (uriEncode n True @ ''='' @ uriEncode v True) = [\<lparr>q_name = n, q_value = v, q_hasValue = True\<rparr>]"
proof -
  have "list_all encoded_item [(uriEncode n True, uriEncode v True)]"
    by (auto simp: encoded_item_def)
  from parseQuery_join [OF this] show ?thesis by (simp add: join_with_Cons)
qed

text \<open>
  C31: An override of a content header is taken as it is. Whatever bytes \<open>v\<close> a \<open>response-*\<close>
  parameter encodes, the headers resolved for the response have \<open>v\<close> as the value of that header
  and the stored values of the others. The values stored with an object are refused when they
  hold line breaks or other control characters, because they are sent back as headers; an
  override passes no such check here. What the server library makes of the value is outside.
\<close>

theorem header_override_unchecked:
  assumes "(name, parameter, s) \<in> set (content_entries h)" "v \<noteq> []"
    and "rq_query request = parseQuery (uriEncode parameter True @ ''='' @ uriEncode v True)"
  shows "resolveContentHeaders h request =
      filter (\<lambda>(n, w). w \<noteq> []) (map (\<lambda>(n, p, w). (n, if n = name then v else w)) (content_entries h)) \<and>
    (name, v) \<in> set (resolveContentHeaders h request)"
proof -
  have query: "queryValue request p = (if p = parameter then Some v else None)" for p
    unfolding queryValue_def findQuery_def assms(3) parse_single_parameter by simp
  have "n = name \<longleftrightarrow> p = parameter" if "(n, p, w) \<in> set (content_entries h)" for n p w
    using that assms(1) by (auto simp: content_entries_def)
  then have each: "resolve_entry request e = (\<lambda>(n, p, w). (n, if n = name then v else w)) e"
    if "e \<in> set (content_entries h)" for e
    using that assms(2) by (cases e) (auto simp: resolve_entry_def query)
  have all: "map (resolve_entry request) (content_entries h) =
      map (\<lambda>(n, p, w). (n, if n = name then v else w)) (content_entries h)"
    by (rule map_cong [OF refl each])
  show ?thesis
    unfolding resolveContentHeaders_def all using assms(1,2) by force
qed

theorem header_override_unchecked_witness:
  "resolveContentHeaders no_ContentHeaders
     \<lparr>rq_method = ''GET'', rq_bucket = ''b'', rq_key = ''k'',
      rq_query = parseQuery (uriEncode ''response-expires'' True @ ''='' @ uriEncode ([CHR 0x0D, CHR 0x0A] @ ''X:a'') True),
      rq_resource = ''/b/k'', rq_requestId = []\<rparr> =
   [(''Expires'', [CHR 0x0D, CHR 0x0A] @ ''X:a'')] \<and>
   \<not> isStorableHeaderValue ([CHR 0x0D, CHR 0x0A] @ ''X:a'')"
proof -
  let ?request = "\<lparr>rq_method = ''GET'', rq_bucket = ''b'', rq_key = ''k'',
      rq_query = parseQuery (uriEncode ''response-expires'' True @ ''='' @ uriEncode ([CHR 0x0D, CHR 0x0A] @ ''X:a'') True),
      rq_resource = ''/b/k'', rq_requestId = []\<rparr>"
  have "(''Expires'', ''response-expires'', []) \<in> set (content_entries no_ContentHeaders)"
    by (simp add: content_entries_def no_ContentHeaders_def)
  from header_override_unchecked [OF this, of "[CHR 0x0D, CHR 0x0A] @ ''X:a''" ?request] show ?thesis
    by (simp add: content_entries_def no_ContentHeaders_def isStorableHeaderValue_def kMaxContentHeaderLength_def uchar_def
        del: uriEncode_simps)
qed

end
