(* ===== verification/Xml.thy ===== *)
theory Xml
  imports S3_Error
begin

text \<open>
  The XML of the wire: s3/xml.hpp and s3/xml.cpp. The writer keeps its output and the stack of
  open elements; the parser is a recursive descent over the unread suffix of the document, with
  the number of elements seen. The recursion is on the levels left below kMaxXmlDepth; the loop
  over the content of an element carries fuel, one more than the characters left, which
  \<open>parse_element_fuel\<close> shows is never used up.
\<close>

section \<open>Characters\<close>

definition isNameStart :: "char \<Rightarrow> bool" where
  "isNameStart c \<longleftrightarrow> isalpha c \<or> c = CHR ''_'' \<or> c = CHR '':''"

definition isNameChar :: "char \<Rightarrow> bool" where
  "isNameChar c \<longleftrightarrow> isalnum c \<or> c = CHR ''_'' \<or> c = CHR '':'' \<or> c = CHR ''-'' \<or> c = CHR ''.''"

definition isSpace :: "char \<Rightarrow> bool" where
  "isSpace c \<longleftrightarrow> c = CHR '' '' \<or> c = CHR 0x09 \<or> c = CHR 0x0D \<or> c = CHR 0x0A"

definition trimmed :: "string \<Rightarrow> string" where
  "trimmed s = trim_of isSpace s"

section \<open>The writer\<close>

definition kS3Namespace :: string where
  "kS3Namespace = ''http://s3.amazonaws.com/doc/2006-03-01/''"

definition escape_char :: "char \<Rightarrow> string" where
  "escape_char ch =
     (if ch = CHR ''&'' then ''&amp;''
      else if ch = CHR ''<'' then ''&lt;''
      else if ch = CHR ''>'' then ''&gt;''
      else if ch = CHR 0x22 then ''&quot;''
      else if ch = CHR 0x27 then ''&apos;''
      else if 0x20 \<le> uchar ch \<or> ch = CHR 0x09 \<or> ch = CHR 0x0A \<or> ch = CHR 0x0D then [ch]
      else [])"

definition xmlEscape :: "string \<Rightarrow> string" where
  "xmlEscape s = concat (map escape_char s)"

text \<open>The stack holds the innermost open element first.\<close>

record XmlWriter =
  xw_out :: string
  xw_stack :: "string list"
  xw_finished :: bool

definition xml_new :: "string \<Rightarrow> string \<Rightarrow> XmlWriter" where
  "xml_new root xmlns =
     \<lparr>xw_out = ''<?xml version='' @ [CHR 0x22] @ ''1.0'' @ [CHR 0x22] @ '' encoding='' @ [CHR 0x22] @ ''UTF-8'' @
        [CHR 0x22] @ ''?>'' @ [CHR 0x0A] @ ''<'' @ root @
        (if xmlns \<noteq> [] then '' xmlns='' @ [CHR 0x22] @ xmlns @ [CHR 0x22] else []) @ ''>'' @ [CHR 0x0A],
      xw_stack = [root], xw_finished = False\<rparr>"

definition xml_emit :: "string \<Rightarrow> XmlWriter \<Rightarrow> XmlWriter" where
  "xml_emit s w = w\<lparr>xw_out := xw_out w @ s\<rparr>"

definition xml_indent :: "XmlWriter \<Rightarrow> XmlWriter" where
  "xml_indent w = xml_emit (replicate (length (xw_stack w) * 2) (CHR '' '')) w"

definition xml_element :: "string \<Rightarrow> string \<Rightarrow> XmlWriter \<Rightarrow> XmlWriter" where
  "xml_element name s w =
     xml_emit (''<'' @ name @ ''>'' @ xmlEscape s @ ''</'' @ name @ ''>'' @ [CHR 0x0A]) (xml_indent w)"

definition xml_number :: "string \<Rightarrow> u64 \<Rightarrow> XmlWriter \<Rightarrow> XmlWriter" where
  "xml_number name v = xml_element name (to_string (unat v))"

definition booleanElement :: "string \<Rightarrow> bool \<Rightarrow> XmlWriter \<Rightarrow> XmlWriter" where
  "booleanElement name v = xml_element name (if v then ''true'' else ''false'')"

definition elementIfSet :: "string \<Rightarrow> string \<Rightarrow> XmlWriter \<Rightarrow> XmlWriter" where
  "elementIfSet name s w = (if s \<noteq> [] then xml_element name s w else w)"

definition xml_open :: "string \<Rightarrow> XmlWriter \<Rightarrow> XmlWriter" where
  "xml_open name w =
     (let w = xml_emit (''<'' @ name @ ''>'' @ [CHR 0x0A]) (xml_indent w)
      in w\<lparr>xw_stack := name # xw_stack w\<rparr>)"

definition xml_close :: "XmlWriter \<Rightarrow> XmlWriter" where
  "xml_close w =
     (case xw_stack w of
        name # outer # rest \<Rightarrow>
          xml_emit (''</'' @ name @ ''>'' @ [CHR 0x0A]) (xml_indent (w\<lparr>xw_stack := outer # rest\<rparr>))
      | _ \<Rightarrow> w)"

text \<open>\<open>finish\<close> closes what is open, the root last, and returns the document; once only.\<close>

definition xml_finish :: "XmlWriter \<Rightarrow> string \<times> XmlWriter" where
  "xml_finish w =
     (if xw_finished w then (xw_out w, w)
      else
        let w = (xml_close ^^ (length (xw_stack w) - 1)) w;
            w = (case xw_stack w of [] \<Rightarrow> w
                 | root # _ \<Rightarrow> (xml_emit (''</'' @ root @ ''>'' @ [CHR 0x0A]) w)\<lparr>xw_stack := []\<rparr>);
            w = w\<lparr>xw_finished := True\<rparr>
        in (xw_out w, w))"

section \<open>Nodes\<close>

datatype XmlNode = XmlNode (x_name: string) (x_text: string) (x_children: "XmlNode list")

definition x_child :: "string \<Rightarrow> XmlNode \<Rightarrow> XmlNode option" where
  "x_child name node = List.find (\<lambda>n. x_name n = name) (x_children node)"

definition childText :: "string \<Rightarrow> XmlNode \<Rightarrow> string" where
  "childText name node = (case x_child name node of None \<Rightarrow> [] | Some n \<Rightarrow> trimmed (x_text n))"

definition childrenNamed :: "string \<Rightarrow> XmlNode \<Rightarrow> XmlNode list" where
  "childrenNamed name node = filter (\<lambda>n. x_name n = name) (x_children node)"

section \<open>The parser\<close>

text \<open>\<open>XmlFuel\<close> stands for fuel used up, which never happens.\<close>

datatype xml_error = XmlParseError | XmlFuel

definition kMaxXmlBytes :: nat where "kMaxXmlBytes = 8 * 1024 * 1024"
definition kMaxXmlDepth :: nat where "kMaxXmlDepth = 16"
definition kMaxXmlElements :: nat where "kMaxXmlElements = 200000"

definition fail :: "xml_error + 'a" where
  "fail = Inl XmlParseError"

text \<open>The text before the first occurrence of a terminator, and the text behind it.\<close>

fun split_sub :: "string \<Rightarrow> string \<Rightarrow> (string \<times> string) option" where
  "split_sub d s =
     (if prefix d s then Some ([], drop (length d) s)
      else case s of [] \<Rightarrow> None | c # t \<Rightarrow> map_option (\<lambda>(a, b). (c # a, b)) (split_sub d t))"

declare split_sub.simps [simp del]

lemma split_sub_length: "split_sub d s = Some (a, b) \<Longrightarrow> length a + length d + length b = length s"
proof (induction d s arbitrary: a rule: split_sub.induct)
  case (1 d s)
  show ?case
  proof (cases "prefix d s")
    case True
    with 1(2) show ?thesis by (auto simp: split_sub.simps [of d s] dest: prefix_length_le)
  next
    case False
    with 1(2) obtain c t a' where "s = c # t" "split_sub d t = Some (a', b)" "a = c # a'"
      by (auto simp: split_sub.simps [of d s] split: list.splits)
    with 1(1) False show ?thesis by auto
  qed
qed

function skip_misc :: "string \<Rightarrow> xml_error + string" where
  "skip_misc s =
     (if prefix ''<!--'' (dropWhile isSpace s)
      then (case split_sub ''-->'' (drop 4 (dropWhile isSpace s)) of
              None \<Rightarrow> fail
            | Some (_, rest) \<Rightarrow> skip_misc rest)
      else Inr (dropWhile isSpace s))"
  by pat_completeness auto
termination
proof (relation "measure length")
  fix s x comment rest
  assume "split_sub ''-->'' (drop 4 (dropWhile isSpace s)) = Some x" "(comment, rest) = x"
  then show "(rest, s) \<in> measure length"
    using split_sub_length [of "''-->''" "drop 4 (dropWhile isSpace s)" comment rest]
      length_dropWhile_le [of isSpace s] by auto
qed simp

declare skip_misc.simps [simp del]

definition skip_prolog :: "string \<Rightarrow> xml_error + string" where
  "skip_prolog s =
     sbind (let s = dropWhile isSpace s in
            if prefix ''<?xml'' s
            then (case split_sub ''?>'' s of None \<Rightarrow> fail | Some (_, rest) \<Rightarrow> Inr rest)
            else Inr s) (\<lambda>s.
     sbind (skip_misc s) (\<lambda>s. if prefix ''<!DOCTYPE'' s then fail else Inr s))"

definition parse_name :: "string \<Rightarrow> xml_error + string \<times> string" where
  "parse_name s =
     (if s = [] \<or> \<not> isNameStart (hd s) then fail
      else Inr (takeWhile isNameChar s, dropWhile isNameChar s))"

text \<open>One attribute, and the loop of \<open>skipAttributes\<close>: true for a self-closing tag.\<close>

definition attribute :: "string \<Rightarrow> xml_error + string" where
  "attribute s =
     sbind (parse_name s) (\<lambda>(_, s).
       let s = dropWhile isSpace s in
       if s = [] \<or> hd s \<noteq> CHR ''='' then fail
       else
         let s = dropWhile isSpace (tl s) in
         if s = [] \<or> hd s \<noteq> CHR 0x22 \<and> hd s \<noteq> CHR 0x27 then fail
         else if hd s \<notin> set (tl s) then fail
         else Inr (after (hd s) (tl s)))"

fun skip_attributes :: "nat \<Rightarrow> string \<Rightarrow> xml_error + bool \<times> string" where
  "skip_attributes 0 s = Inl XmlFuel"
| "skip_attributes (Suc fuel) s =
     (let s = dropWhile isSpace s in
      if s = [] then fail
      else if hd s = CHR ''>'' then Inr (False, tl s)
      else if prefix ''/>'' s then Inr (True, drop 2 s)
      else sbind (attribute s) (skip_attributes fuel))"

definition appendUtf8 :: "u32 \<Rightarrow> string" where
  "appendUtf8 code =
     (if code < 0x80 then [byte_of code]
      else if code < 0x800 then
        [byte_of (0xC0 OR drop_bit 6 code), byte_of (0x80 OR (code AND 0x3F))]
      else if code < 0x10000 then
        [byte_of (0xE0 OR drop_bit 12 code), byte_of (0x80 OR (drop_bit 6 code AND 0x3F)),
         byte_of (0x80 OR (code AND 0x3F))]
      else
        [byte_of (0xF0 OR drop_bit 18 code), byte_of (0x80 OR (drop_bit 12 code AND 0x3F)),
         byte_of (0x80 OR (drop_bit 6 code AND 0x3F)), byte_of (0x80 OR (code AND 0x3F))])"

definition digit_value :: "bool \<Rightarrow> char \<Rightarrow> int" where
  "digit_value hex ch =
     (if isdigit ch then int (uchar ch) - int (uchar (CHR ''0''))
      else if hex \<and> isxdigit ch then int (uchar (tolower ch)) - int (uchar (CHR ''a'')) + 10
      else - 1)"

fun reference_loop :: "bool \<Rightarrow> string \<Rightarrow> u64 \<Rightarrow> xml_error + u64" where
  "reference_loop hex [] code = Inr code"
| "reference_loop hex (ch # rest) code =
     (if digit_value hex ch < 0 then fail
      else
        let code = code * (if hex then 16 else 10) + of_int (digit_value hex ch) in
        if 0x10FFFF < code then fail else reference_loop hex rest code)"

text \<open>The character an entity stands for, given the text behind the ampersand.\<close>

definition entity :: "string \<Rightarrow> xml_error + string \<times> string" where
  "entity s =
     (if CHR '';'' \<notin> set s \<or> 12 < length (before (CHR '';'') s) + 1 then fail
      else
        let name = before (CHR '';'') s; rest = after (CHR '';'') s in
        if name = ''lt'' then Inr (''<'', rest)
        else if name = ''gt'' then Inr (''>'', rest)
        else if name = ''amp'' then Inr (''&'', rest)
        else if name = ''quot'' then Inr ([CHR 0x22], rest)
        else if name = ''apos'' then Inr ([CHR 0x27], rest)
        else if name \<noteq> [] \<and> hd name = CHR ''#'' then
          (let hex = (1 < length name \<and> (name ! 1 = CHR ''x'' \<or> name ! 1 = CHR ''X''));
               digits = drop (if hex then 2 else 1) name
           in if digits = [] then fail
              else sbind (reference_loop hex digits 0) (\<lambda>code. Inr (appendUtf8 (ucast code), rest)))
        else fail)"

definition add_text :: "string \<Rightarrow> XmlNode \<Rightarrow> XmlNode" where
  "add_text s node = XmlNode (x_name node) (x_text node @ s) (x_children node)"

definition add_child :: "XmlNode \<Rightarrow> XmlNode \<Rightarrow> XmlNode" where
  "add_child c node = XmlNode (x_name node) (x_text node) (x_children node @ [c])"

type_synonym element_parser = "string \<Rightarrow> nat \<Rightarrow> xml_error + XmlNode \<times> string \<times> nat"

text \<open>The loop over the content of \<open>node\<close>; \<open>child\<close> parses an element one level further down.\<close>

fun content :: "element_parser \<Rightarrow> nat \<Rightarrow> XmlNode \<Rightarrow> element_parser" where
  "content child 0 node s n = Inl XmlFuel"
| "content child (Suc fuel) node s n =
     (if s = [] then fail
      else if hd s = CHR ''<'' then
        (if prefix ''</'' s then
           sbind (parse_name (drop 2 s)) (\<lambda>(closing, s).
             if closing \<noteq> x_name node then fail
             else
               let s = dropWhile isSpace s in
               if s = [] \<or> hd s \<noteq> CHR ''>'' then fail
               else Inr (if x_children node \<noteq> [] then XmlNode (x_name node) [] (x_children node) else node,
                         tl s, n))
         else if prefix ''<!--'' s then
           (case split_sub ''-->'' (drop 4 s) of
              None \<Rightarrow> fail
            | Some (_, rest) \<Rightarrow> content child fuel node rest n)
         else if prefix ''<![CDATA['' s then
           (case split_sub '']]>'' (drop 9 s) of
              None \<Rightarrow> fail
            | Some (data, rest) \<Rightarrow> content child fuel (add_text data node) rest n)
         else if prefix ''<?'' s then fail
         else sbind (child s n) (\<lambda>(c, rest, n). content child fuel (add_child c node) rest n))
      else if hd s = CHR ''&'' then
        sbind (entity (tl s)) (\<lambda>(t, rest). content child fuel (add_text t node) rest n)
      else content child fuel (add_text [hd s] node) (tl s) n)"

fun parse_element :: "nat \<Rightarrow> element_parser" where
  "parse_element 0 s n = fail"
| "parse_element (Suc levels) s n =
     (if kMaxXmlElements < Suc n then fail
      else if s = [] \<or> hd s \<noteq> CHR ''<'' then fail
      else sbind (parse_name (tl s)) (\<lambda>(name, s).
        sbind (skip_attributes (Suc (length s)) s) (\<lambda>(selfClosing, s).
          if selfClosing then Inr (XmlNode name [] [], s, Suc n)
          else content (parse_element levels) (Suc (length s)) (XmlNode name [] []) s (Suc n))))"

definition parseDocument :: "string \<Rightarrow> xml_error + XmlNode" where
  "parseDocument document =
     sbind (skip_prolog document) (\<lambda>s.
     sbind (parse_element kMaxXmlDepth s 0) (\<lambda>(root, s, _).
     sbind (skip_misc s) (\<lambda>s. if s \<noteq> [] then fail else Inr root)))"

definition parseXml :: "string \<Rightarrow> xml_error + XmlNode" where
  "parseXml document =
     (if kMaxXmlBytes < length document then fail
      else if trimmed document = [] then fail
      else parseDocument document)"

section \<open>The fuel is enough\<close>

lemma fail_neq_fuel [simp]: "fail \<noteq> Inl XmlFuel" "fail \<noteq> Inr v"
  by (simp_all add: fail_def)

lemma parse_name_length: "parse_name s = Inr (name, rest) \<Longrightarrow> length name + length rest = length s"
  by (auto simp: parse_name_def simp flip: length_append split: if_splits)

lemma parse_name_fuel [simp]: "parse_name s \<noteq> Inl XmlFuel"
  by (simp add: parse_name_def)

lemma skip_misc_length: "skip_misc s = Inr rest \<Longrightarrow> length rest \<le> length s"
proof (induction s rule: skip_misc.induct)
  case (1 s)
  show ?case
  proof (cases "prefix ''<!--'' (dropWhile isSpace s)")
    case True
    with 1(2) obtain c r where split: "split_sub ''-->'' (drop 4 (dropWhile isSpace s)) = Some (c, r)"
        and "skip_misc r = Inr rest"
      by (auto simp: skip_misc.simps [of s] split: option.splits)
    with 1(1) True have "length rest \<le> length r" by blast
    then show ?thesis
      using split_sub_length [OF split] length_dropWhile_le [of isSpace s] by simp
  next
    case False
    with 1(2) show ?thesis by (auto simp: skip_misc.simps [of s] length_dropWhile_le)
  qed
qed

lemma skip_misc_fuel [simp]: "skip_misc s \<noteq> Inl XmlFuel"
  by (induction s rule: skip_misc.induct) (subst skip_misc.simps, auto split: option.splits)

lemma entity_length: "entity s = Inr (t, rest) \<Longrightarrow> length rest < length s"
  using length_after [of "CHR '';''" s] by (auto simp: entity_def Let_def sbind_Inr split: if_splits)

lemma reference_loop_fuel [simp]: "reference_loop hex s code \<noteq> Inl XmlFuel"
  by (induction hex s code rule: reference_loop.induct) (simp_all add: Let_def)

lemma sbind_fuel: "sbind x k = Inl XmlFuel \<longleftrightarrow> x = Inl XmlFuel \<or> (\<exists>v. x = Inr v \<and> k v = Inl XmlFuel)"
  by (cases x) auto

lemma entity_fuel [simp]: "entity s \<noteq> Inl XmlFuel"
  by (simp add: entity_def Let_def sbind_fuel)

lemma attribute_length: "attribute s = Inr r \<Longrightarrow> length r < length s"
proof -
  assume "attribute s = Inr r"
  then obtain name s1 where p: "parse_name s = Inr (name, s1)"
      "hd (dropWhile isSpace (tl (dropWhile isSpace s1))) \<in> set (tl (dropWhile isSpace (tl (dropWhile isSpace s1))))"
      "r = after (hd (dropWhile isSpace (tl (dropWhile isSpace s1)))) (tl (dropWhile isSpace (tl (dropWhile isSpace s1))))"
    by (auto simp: attribute_def sbind_Inr Let_def split: if_splits)
  have "length r < length (tl (dropWhile isSpace (tl (dropWhile isSpace s1))))"
    unfolding p(3) by (rule length_after [OF p(2)])
  also have "\<dots> \<le> length (dropWhile isSpace s1)"
    using length_dropWhile_le [of isSpace "tl (dropWhile isSpace s1)"] by simp
  also have "\<dots> \<le> length s"
    using length_dropWhile_le [of isSpace s1] parse_name_length [OF p(1)] by simp
  finally show ?thesis .
qed

lemma attribute_fuel [simp]: "attribute s \<noteq> Inl XmlFuel"
  by (auto simp: attribute_def sbind_fuel Let_def)

lemma skip_attributes_length: "skip_attributes fuel s = Inr (b, rest) \<Longrightarrow> length rest < length s"
proof (induction fuel arbitrary: s)
  case (Suc fuel)
  let ?s = "dropWhile isSpace s"
  have le: "length ?s \<le> length s" by (rule length_dropWhile_le)
  from Suc.prems consider "?s \<noteq> []" "rest = tl ?s" | "rest = drop 2 ?s" "?s \<noteq> []"
    | s1 where "attribute ?s = Inr s1" "skip_attributes fuel s1 = Inr (b, rest)"
    by (auto simp: Let_def sbind_Inr simp del: dropWhile_eq_Nil_conv split: if_splits)
  then show ?case
  proof cases
    case 3
    then show ?thesis using Suc.IH [OF 3(2)] attribute_length [OF 3(1)] le by simp
  qed (use le in \<open>cases ?s; simp\<close>)+
qed simp

lemma skip_attributes_fuel: "length s < fuel \<Longrightarrow> skip_attributes fuel s \<noteq> Inl XmlFuel"
proof (induction fuel arbitrary: s)
  case (Suc fuel)
  have "length r < fuel" if "attribute (dropWhile isSpace s) = Inr r" for r
    using attribute_length [OF that] length_dropWhile_le [of isSpace s] Suc.prems by simp
  then show ?case
    using Suc.IH by (auto simp: Let_def sbind_fuel)
qed simp

lemma content_length:
  assumes "\<And>s n c r m. child s n = Inr (c, r, m) \<Longrightarrow> length r < length s"
  shows "content child fuel node s n = Inr (c, rest, m) \<Longrightarrow> length rest < length s"
proof (induction fuel arbitrary: node s n)
  case (Suc fuel)
  show ?case
  proof (cases "hd s = CHR ''<''")
    case True
    note lt = this
    consider "prefix ''</'' s" | "\<not> prefix ''</'' s" "prefix ''<!--'' s"
      | "\<not> prefix ''</'' s" "\<not> prefix ''<!--'' s" "prefix ''<![CDATA['' s"
      | "\<not> prefix ''</'' s" "\<not> prefix ''<!--'' s" "\<not> prefix ''<![CDATA['' s" by blast
    then show ?thesis
    proof cases
      case 1
      with Suc.prems lt obtain name s1 where "parse_name (drop 2 s) = Inr (name, s1)" "s \<noteq> []"
          "dropWhile isSpace s1 \<noteq> []" "rest = tl (dropWhile isSpace s1)"
        by (auto simp: sbind_Inr Let_def split: if_splits)
      then show ?thesis
        using parse_name_length [of "drop 2 s" name s1] length_dropWhile_le [of isSpace s1]
        by (cases s) auto
    next
      case 2
      with Suc.prems lt obtain a r where r: "split_sub ''-->'' (drop 4 s) = Some (a, r)" "s \<noteq> []"
          "content child fuel node r n = Inr (c, rest, m)"
        by (auto split: if_splits option.splits)
      then show ?thesis
        using Suc.IH [OF r(3)] split_sub_length [OF r(1)] by simp
    next
      case 3
      with Suc.prems lt obtain a r where r: "split_sub '']]>'' (drop 9 s) = Some (a, r)" "s \<noteq> []"
          "content child fuel (add_text a node) r n = Inr (c, rest, m)"
        by (auto split: if_splits option.splits)
      then show ?thesis
        using Suc.IH [OF r(3)] split_sub_length [OF r(1)] by simp
    next
      case 4
      with Suc.prems lt obtain d r k where r: "child s n = Inr (d, r, k)"
          "content child fuel (add_child d node) r k = Inr (c, rest, m)"
        by (auto simp: sbind_Inr split: if_splits)
      then show ?thesis
        using Suc.IH [OF r(2)] assms [OF r(1)] by simp
    qed
  next
    case False
    show ?thesis
    proof (cases "hd s = CHR ''&''")
      case True
      with Suc.prems False obtain t r where r: "entity (tl s) = Inr (t, r)" "s \<noteq> []"
          "content child fuel (add_text t node) r n = Inr (c, rest, m)"
        by (auto simp: sbind_Inr split: if_splits)
      then show ?thesis
        using Suc.IH [OF r(3)] entity_length [OF r(1)] by simp
    next
      case other: False
      with Suc.prems False have r: "s \<noteq> []" "content child fuel (add_text [hd s] node) (tl s) n = Inr (c, rest, m)"
        by (auto split: if_splits)
      then show ?thesis
        using Suc.IH [OF r(2)] by (cases s) auto
    qed
  qed
qed simp

lemma content_fuel:
  assumes child: "\<And>s n. child s n \<noteq> Inl XmlFuel"
    and shorter: "\<And>s n c r m. child s n = Inr (c, r, m) \<Longrightarrow> length r < length s"
  shows "length s < fuel \<Longrightarrow> content child fuel node s n \<noteq> Inl XmlFuel"
proof (induction fuel arbitrary: node s n)
  case (Suc fuel)
  have "content child fuel node' r m \<noteq> Inl XmlFuel" if "length r < length s" for node' r m
    using Suc.IH [of r] Suc.prems that by simp
  moreover have "length (tl s) < length s" if "s \<noteq> []" using that by (cases s) auto
  moreover have "length r < length s" if "split_sub d (drop (Suc k) s) = Some (a, r)" "s \<noteq> []" for d k a r
    using split_sub_length [OF that(1)] that(2) by (cases s) auto
  moreover have "length r < length s" if "entity (tl s) = Inr (a, r)" for a r
    using entity_length [OF that] by simp
  ultimately show ?case
    using child shorter
    by (auto simp: sbind_fuel Let_def eval_nat_numeral split: option.splits)
qed simp

declare content.simps [simp del] skip_attributes.simps [simp del]

lemma parse_element_length: "parse_element levels s n = Inr (c, r, m) \<Longrightarrow> length r < length s"
proof (induction levels arbitrary: s n c r m)
  case (Suc levels)
  then obtain name s1 closed s2 where p: "parse_name (tl s) = Inr (name, s1)"
      "skip_attributes (Suc (length s1)) s1 = Inr (closed, s2)" "s \<noteq> []"
      "closed \<Longrightarrow> r = s2"
      "\<not> closed \<Longrightarrow> content (parse_element levels) (Suc (length s2)) (XmlNode name [] []) s2 (Suc n) = Inr (c, r, m)"
    by (auto simp: sbind_Inr split: if_splits)
  have "length r \<le> length s2"
  proof (cases closed)
    case False
    have "length r < length s2"
      by (rule content_length [OF _ p(5) [OF False]]) (rule Suc.IH)
    then show ?thesis by simp
  qed (use p(4) in simp)
  then show ?case
    using skip_attributes_length [OF p(2)] parse_name_length [OF p(1)] by simp
qed simp

lemma parse_element_fuel: "parse_element levels s n \<noteq> Inl XmlFuel"
proof (induction levels arbitrary: s n)
  case (Suc levels)
  have "content (parse_element levels) (Suc (length s2)) node s2 m \<noteq> Inl XmlFuel" for node s2 m
    by (rule content_fuel) (auto simp: Suc dest: parse_element_length)
  then show ?case
    using skip_attributes_fuel by (auto simp: sbind_fuel)
qed simp

lemma parseXml_fuel: "parseXml document \<noteq> Inl XmlFuel"
  using parse_element_fuel
  by (auto simp: parseXml_def parseDocument_def skip_prolog_def sbind_fuel Let_def split: option.splits prod.splits)

text \<open>
  C26: Parsing ends, on every document. A document is refused or yields its root element, the
  bounds on the recursion and the loops are never what stops it, and an accepted document has
  at most 8 MiB.
\<close>

theorem parseXml_returns:
  "parseXml document = Inl XmlParseError \<or>
     (\<exists>root. parseXml document = Inr root) \<and> length document \<le> kMaxXmlBytes"
proof (cases "parseXml document")
  case (Inl e)
  then show ?thesis using parseXml_fuel [of document] by (cases e) auto
next
  case (Inr root)
  then have "length document \<le> kMaxXmlBytes" by (auto simp: parseXml_def split: if_splits)
  with Inr show ?thesis by simp
qed

end
