(* ===== verification/Xml_Round_Trip.thy ===== *)
theory Xml_Round_Trip
  imports Xml
begin

text \<open>
  What the writer of s3/xml.cpp renders, its parser reads back. A document is given as a tree of
  leaves with text and branches with children; \<open>write_tree\<close> makes the calls of the writer that a
  handler makes for it.
\<close>

section \<open>Trees and the calls that write them\<close>

datatype xtree = Leaf string string | Branch string "xtree list"

fun write_tree :: "xtree \<Rightarrow> XmlWriter \<Rightarrow> XmlWriter" where
  "write_tree (Leaf name s) w = xml_element name s w"
| "write_tree (Branch name ts) w = xml_close (fold write_tree ts (xml_open name w))"

definition write_document :: "string \<Rightarrow> string \<Rightarrow> xtree list \<Rightarrow> string" where
  "write_document root xmlns ts = fst (xml_finish (fold write_tree ts (xml_new root xmlns)))"

text \<open>The nodes a parser sees; a branch without children has the line break in it as its text.\<close>

definition pad :: "nat \<Rightarrow> string" where
  "pad d = replicate (d * 2) (CHR '' '')"

fun node_of :: "nat \<Rightarrow> xtree \<Rightarrow> XmlNode" where
  "node_of d (Leaf name s) = XmlNode name s []"
| "node_of d (Branch name ts) =
     (if ts = [] then XmlNode name (CHR 0x0A # pad d) [] else XmlNode name [] (map (node_of (Suc d)) ts))"

definition name_ok :: "string \<Rightarrow> bool" where
  "name_ok name \<longleftrightarrow> name \<noteq> [] \<and> isNameStart (hd name) \<and> list_all isNameChar name"

definition text_ok :: "string \<Rightarrow> bool" where
  "text_ok s \<longleftrightarrow> list_all (\<lambda>ch. 0x20 \<le> uchar ch \<or> ch = CHR 0x09 \<or> ch = CHR 0x0A \<or> ch = CHR 0x0D) s"

fun tree_ok :: "xtree \<Rightarrow> bool" where
  "tree_ok (Leaf name s) \<longleftrightarrow> name_ok name \<and> text_ok s"
| "tree_ok (Branch name ts) \<longleftrightarrow> name_ok name \<and> list_all tree_ok ts"

fun tree_depth :: "xtree \<Rightarrow> nat" where
  "tree_depth (Leaf name s) = 1"
| "tree_depth (Branch name ts) = Suc (fold max (map tree_depth ts) 0)"

fun tree_count :: "xtree \<Rightarrow> nat" where
  "tree_count (Leaf name s) = 1"
| "tree_count (Branch name ts) = Suc (sum_list (map tree_count ts))"

section \<open>What is written\<close>

fun tree_text :: "nat \<Rightarrow> xtree \<Rightarrow> string" where
  "tree_text d (Leaf name s) = ''<'' @ name @ ''>'' @ xmlEscape s @ ''</'' @ name @ ''>''"
| "tree_text d (Branch name ts) =
     ''<'' @ name @ ''>'' @ [CHR 0x0A] @
     concat (map (\<lambda>t. pad (Suc d) @ tree_text (Suc d) t @ [CHR 0x0A]) ts) @ pad d @ ''</'' @ name @ ''>''"

definition lines_of :: "nat \<Rightarrow> xtree list \<Rightarrow> string" where
  "lines_of d ts = concat (map (\<lambda>t. pad d @ tree_text d t @ [CHR 0x0A]) ts)"

lemma lines_of_simps [simp]:
  "lines_of d [] = []" "lines_of d (t # ts) = pad d @ tree_text d t @ CHR 0x0A # lines_of d ts"
  by (simp_all add: lines_of_def)

lemma write_tree_text:
  "xw_stack w \<noteq> [] \<Longrightarrow>
   write_tree t w = w\<lparr>xw_out := xw_out w @ pad (length (xw_stack w)) @
     tree_text (length (xw_stack w)) t @ [CHR 0x0A]\<rparr>"
proof (induction t arbitrary: w)
  case (Leaf name s)
  then show ?case by (simp add: xml_element_def xml_emit_def xml_indent_def pad_def)
next
  case (Branch name ts)
  have fold: "fold write_tree us v = v\<lparr>xw_out := xw_out v @ lines_of (length (xw_stack v)) us\<rparr>"
    if "set us \<subseteq> set ts" "xw_stack v \<noteq> []" for us v
    using that
  proof (induction us arbitrary: v)
    case (Cons u us)
    then have "write_tree u v = v\<lparr>xw_out := xw_out v @ pad (length (xw_stack v)) @
        tree_text (length (xw_stack v)) u @ [CHR 0x0A]\<rparr>"
      by (intro Branch.IH) auto
    with Cons show ?case by simp
  qed simp
  obtain x xs where "xw_stack w = x # xs" using Branch.prems by (cases "xw_stack w") auto
  then show ?case
    using fold [of ts "xml_open name w"]
    by (simp add: xml_open_def xml_close_def xml_emit_def xml_indent_def pad_def lines_of_def Let_def)
qed

lemma fold_write_tree:
  "xw_stack w \<noteq> [] \<Longrightarrow>
   fold write_tree ts w = w\<lparr>xw_out := xw_out w @ lines_of (length (xw_stack w)) ts\<rparr>"
  by (induction ts arbitrary: w) (simp_all add: write_tree_text)

definition xml_decl :: string where
  "xml_decl = ''<?xml version='' @ [CHR 0x22] @ ''1.0'' @ [CHR 0x22] @ '' encoding='' @ [CHR 0x22] @ ''UTF-8'' @
     [CHR 0x22] @ ''?>'' @ [CHR 0x0A]"

definition xmlns_attribute :: "string \<Rightarrow> string" where
  "xmlns_attribute xmlns = (if xmlns \<noteq> [] then '' xmlns='' @ [CHR 0x22] @ xmlns @ [CHR 0x22] else [])"

lemma write_document_text:
  "write_document root xmlns ts =
     xml_decl @ ''<'' @ root @ xmlns_attribute xmlns @ ''>'' @ [CHR 0x0A] @ lines_of 1 ts @
     ''</'' @ root @ ''>'' @ [CHR 0x0A]"
proof -
  have "fold write_tree ts (xml_new root xmlns) =
      (xml_new root xmlns)\<lparr>xw_out := xw_out (xml_new root xmlns) @ lines_of 1 ts\<rparr>"
    using fold_write_tree [of "xml_new root xmlns" ts] by (simp add: xml_new_def)
  then show ?thesis
    by (simp add: write_document_def xml_finish_def xml_new_def xml_emit_def xml_decl_def
      xmlns_attribute_def Let_def)
qed

section \<open>What is read\<close>

definition content_yields ::
  "element_parser \<Rightarrow> XmlNode \<Rightarrow> string \<Rightarrow> nat \<Rightarrow> XmlNode \<times> string \<times> nat \<Rightarrow> bool" where
  "content_yields child node s n v \<longleftrightarrow> (\<exists>fuel. content child fuel node s n = Inr v)"

lemma sbind_more_fuel:
  assumes "sbind x k \<noteq> Inl XmlFuel" "\<And>a. x = Inr a \<Longrightarrow> k a \<noteq> Inl XmlFuel \<Longrightarrow> k' a = k a"
  shows "sbind x k' = sbind x k"
  using assms by (cases x) auto

lemma content_Suc_fuel:
  "content child fuel node s n \<noteq> Inl XmlFuel \<Longrightarrow>
   content child (Suc fuel) node s n = content child fuel node s n"
proof (induction fuel arbitrary: node s n)
  case (Suc fuel)
  have run: "content child (Suc fuel) node' r m = content child fuel node' r m"
    if "content child fuel node' r m \<noteq> Inl XmlFuel" for node' r m
    using that by (rule Suc.IH)
  show ?case
    unfolding content.simps(2) [of child "Suc fuel" node s n] content.simps(2) [of child fuel node s n]
    using Suc.prems [unfolded content.simps(2)]
    by (auto simp: run split: option.splits intro!: sbind_more_fuel)
qed (simp add: content.simps)

lemma content_more_fuel:
  "fuel \<le> fuel' \<Longrightarrow> content child fuel node s n \<noteq> Inl XmlFuel \<Longrightarrow>
   content child fuel' node s n = content child fuel node s n"
proof (induction fuel' rule: dec_induct)
  case (step m)
  then show ?case using content_Suc_fuel [of child m node s n] by simp
qed simp

lemma content_yields_full:
  assumes "content_yields (parse_element levels) node s n v"
  shows "content (parse_element levels) (Suc (length s)) node s n = Inr v"
proof -
  obtain fuel where f: "content (parse_element levels) fuel node s n = Inr v"
    using assms by (auto simp: content_yields_def)
  have no_fuel: "content (parse_element levels) (Suc (length s)) node s n \<noteq> Inl XmlFuel"
    by (rule content_fuel) (auto simp: parse_element_fuel dest: parse_element_length)
  from f have "content (parse_element levels) (max fuel (Suc (length s))) node s n = Inr v"
    using content_more_fuel [of fuel "max fuel (Suc (length s))" "parse_element levels" node s n] by simp
  moreover have "content (parse_element levels) (max fuel (Suc (length s))) node s n =
      content (parse_element levels) (Suc (length s)) node s n"
    by (rule content_more_fuel [OF _ no_fuel]) simp
  ultimately show ?thesis by simp
qed

lemma content_yields_step:
  assumes "content_yields child node' s' n' v"
    "\<And>fuel. content child (Suc fuel) node s n = content child fuel node' s' n'"
  shows "content_yields child node s n v"
  using assms by (metis content_yields_def)

lemma content_yields_plain:
  assumes "content_yields child (add_text [c] node) s n v" "c \<noteq> CHR ''<''" "c \<noteq> CHR ''&''"
  shows "content_yields child node (c # s) n v"
  by (rule content_yields_step [OF assms(1)]) (simp add: content.simps assms)

lemma add_text_simps [simp]:
  "add_text [] node = node" "add_text t (add_text s node) = add_text (s @ t) node"
  "x_name (add_text s node) = x_name node" "x_children (add_text s node) = x_children node"
  "x_text (add_text s node) = x_text node @ s"
  by (simp_all add: add_text_def)

lemma content_yields_plains:
  "content_yields child (add_text t node) s n v \<Longrightarrow> CHR ''<'' \<notin> set t \<Longrightarrow> CHR ''&'' \<notin> set t \<Longrightarrow>
   content_yields child node (t @ s) n v"
proof (induction t arbitrary: node)
  case (Cons c t)
  then have "content_yields child (add_text [c] node) (t @ s) n v"
    by (intro Cons.IH) simp_all
  then show ?case using Cons.prems by (auto intro: content_yields_plain)
qed simp

lemma content_yields_entity:
  assumes "content_yields child (add_text t node) s n v" "entity (e @ s) = Inr (t, s)"
  shows "content_yields child node (CHR ''&'' # e @ s) n v"
  by (rule content_yields_step [OF assms(1)]) (simp add: content.simps assms)

lemma entity_named:
  "CHR '';'' \<notin> set name \<Longrightarrow> length name < 12 \<Longrightarrow> (name, t) \<in> set [(''lt'', ''<''), (''gt'', ''>''), (''amp'', ''&''),
     (''quot'', [CHR 0x22]), (''apos'', [CHR 0x27])] \<Longrightarrow> entity ((name @ '';'') @ s) = Inr (t, s)"
  by (auto simp: entity_def Let_def)

lemma content_yields_escape:
  assumes "content_yields child (add_text [c] node) s n v" "text_ok [c]"
  shows "content_yields child node (escape_char c @ s) n v"
proof -
  have named: "content_yields child node (CHR ''&'' # (name @ '';'') @ s) n v"
    if "(name, [c]) \<in> set [(''lt'', ''<''), (''gt'', ''>''), (''amp'', ''&''),
     (''quot'', [CHR 0x22]), (''apos'', [CHR 0x27])]" for name
    by (rule content_yields_entity [OF assms(1)], rule entity_named) (use that in auto)
  show ?thesis
    using named [of "''lt''"] named [of "''gt''"] named [of "''amp''"] named [of "''quot''"]
      named [of "''apos''"] content_yields_plain [OF assms(1)] assms(2)
    by (auto simp: escape_char_def text_ok_def)
qed

lemma xmlEscape_simps [simp]: "xmlEscape [] = []" "xmlEscape (c # s) = escape_char c @ xmlEscape s"
  by (simp_all add: xmlEscape_def)

lemma content_yields_text:
  "content_yields child (add_text t node) s n v \<Longrightarrow> text_ok t \<Longrightarrow>
   content_yields child node (xmlEscape t @ s) n v"
proof (induction t arbitrary: node)
  case (Cons c t)
  then have "content_yields child (add_text [c] node) (xmlEscape t @ s) n v"
    by (intro Cons.IH) (simp_all add: text_ok_def)
  then show ?case
    using Cons.prems(2) content_yields_escape [of child c node "xmlEscape t @ s"]
    by (simp add: text_ok_def)
qed simp

lemma parse_name_ok:
  assumes "name_ok name" "s \<noteq> []" "\<not> isNameChar (hd s)"
  shows "parse_name (name @ s) = Inr (name, s)"
proof -
  have "takeWhile isNameChar (name @ s) = name" "dropWhile isNameChar (name @ s) = s"
    using assms by (cases s; auto simp: name_ok_def list_all_iff takeWhile_append dropWhile_append)+
  then show ?thesis using assms by (auto simp: parse_name_def name_ok_def)
qed

lemma not_name_chars [simp]:
  "\<not> isNameChar (CHR ''>'')" "\<not> isNameChar (CHR '' '')" "\<not> isNameChar (CHR ''='')"
  "\<not> isNameStart (CHR ''/'')" "\<not> isNameStart (CHR ''!'')" "\<not> isNameStart (CHR ''?'')"
  "\<not> isSpace (CHR ''>'')" "\<not> isSpace (CHR ''<'')" "\<not> isSpace (CHR ''='')" "\<not> isSpace (CHR 0x22)"
  "isSpace (CHR '' '')" "isSpace (CHR 0x0A)"
  by (simp_all add: isNameChar_def isNameStart_def isalnum_def isalpha_def isSpace_def less_eq_char_def)

definition close_node :: "XmlNode \<Rightarrow> XmlNode" where
  "close_node node = (if x_children node \<noteq> [] then XmlNode (x_name node) [] (x_children node) else node)"

lemma content_yields_close:
  assumes "name_ok (x_name node)"
  shows "content_yields child node (''</'' @ x_name node @ ''>'' @ s) n (close_node node, s, n)"
proof -
  have "parse_name (x_name node @ ''>'' @ s) = Inr (x_name node, ''>'' @ s)"
    using assms by (intro parse_name_ok) simp_all
  then have "content child (Suc 0) node (''</'' @ x_name node @ ''>'' @ s) n = Inr (close_node node, s, n)"
    by (simp add: content.simps close_node_def)
  then show ?thesis by (metis content_yields_def)
qed

lemma content_yields_child:
  assumes "child (CHR ''<'' # name @ s) n = Inr (c, r, m)" "content_yields child (add_child c node) r m v"
    and "name_ok name"
  shows "content_yields child node (CHR ''<'' # name @ s) n v"
proof -
  obtain a as where name: "name = a # as" "isNameStart a"
    using assms(3) by (cases name) (auto simp: name_ok_def)
  then have "a \<noteq> CHR ''/''" "a \<noteq> CHR ''!''" "a \<noteq> CHR ''?''"
    using not_name_chars by auto
  then show ?thesis
    by (intro content_yields_step [OF assms(2)]) (use assms(1) name in \<open>simp add: content.simps\<close>)
qed

lemma skip_attributes_none: "skip_attributes (Suc fuel) (CHR ''>'' # s) = Inr (False, s)"
  by (simp add: skip_attributes.simps Let_def)

text \<open>An element is read by reading its content.\<close>

lemma parse_element_content:
  assumes "name_ok name" "n < kMaxXmlElements"
    and "content_yields (parse_element levels) (XmlNode name [] []) s (Suc n) v"
  shows "parse_element (Suc levels) (CHR ''<'' # name @ CHR ''>'' # s) n = Inr v"
proof -
  have "parse_name (name @ CHR ''>'' # s) = Inr (name, CHR ''>'' # s)"
    using assms(1) by (intro parse_name_ok) simp_all
  then show ?thesis
    using assms(2) content_yields_full [OF assms(3)] by (simp add: skip_attributes_none)
qed

lemma fold_max_le: "fold max xs (a::nat) \<le> n \<longleftrightarrow> a \<le> n \<and> (\<forall>x\<in>set xs. x \<le> n)"
  by (induction xs arbitrary: a) auto

lemma pad_plain: "CHR ''<'' \<notin> set (pad d)" "CHR ''&'' \<notin> set (pad d)"
  by (simp_all add: pad_def)

lemma tree_text_name: "\<exists>name s. tree_text d t = CHR ''<'' # name @ s \<and> (tree_ok t \<longrightarrow> name_ok name)"
  by (cases t) auto

lemma content_yields_lines:
  assumes child: "\<And>t n s. t \<in> set ts \<Longrightarrow> n + tree_count t \<le> kMaxXmlElements \<Longrightarrow>
      child (tree_text d t @ s) n = Inr (node_of d t, s, n + tree_count t)"
    and ok: "list_all tree_ok ts"
  shows "set us \<subseteq> set ts \<Longrightarrow> n + sum_list (map tree_count us) \<le> kMaxXmlElements \<Longrightarrow>
    content_yields child
      (XmlNode name (tx @ concat (map (\<lambda>_. pad d @ [CHR 0x0A]) us)) (ch @ map (node_of d) us))
      s (n + sum_list (map tree_count us)) v \<Longrightarrow>
    content_yields child (XmlNode name tx ch) (lines_of d us @ s) n v"
proof (induction us arbitrary: tx ch n)
  case (Cons u us)
  let ?tx = "tx @ pad d"
  have rest: "content_yields child (XmlNode name (?tx @ [CHR 0x0A]) (ch @ [node_of d u]))
      (lines_of d us @ s) (n + tree_count u) v"
    using Cons.prems by (intro Cons.IH) (simp_all add: add.assoc)
  have "content_yields child (XmlNode name ?tx (ch @ [node_of d u]))
      (CHR 0x0A # lines_of d us @ s) (n + tree_count u) v"
    by (rule content_yields_plain) (use rest in \<open>simp_all add: add_text_def\<close>)
  moreover obtain nm x where x: "tree_text d u = CHR ''<'' # nm @ x" "name_ok nm"
    using tree_text_name [of d u] ok Cons.prems(1) by (auto simp: list_all_iff)
  moreover have "child (CHR ''<'' # nm @ x @ CHR 0x0A # lines_of d us @ s) n =
      Inr (node_of d u, CHR 0x0A # lines_of d us @ s, n + tree_count u)"
    using child [of u n "CHR 0x0A # lines_of d us @ s"] Cons.prems x(1) by simp
  ultimately have "content_yields child (XmlNode name ?tx ch)
      (CHR ''<'' # nm @ x @ CHR 0x0A # lines_of d us @ s) n v"
    by (intro content_yields_child) (simp_all add: add_child_def)
  then have "content_yields child (XmlNode name tx ch)
      (pad d @ CHR ''<'' # nm @ x @ CHR 0x0A # lines_of d us @ s) n v"
    by (intro content_yields_plains [where t = "pad d"]) (simp_all add: pad_plain add_text_def)
  then show ?case using x(1) by simp
qed simp

lemma parse_tree:
  "tree_ok t \<Longrightarrow> tree_depth t \<le> levels \<Longrightarrow> n + tree_count t \<le> kMaxXmlElements \<Longrightarrow>
   parse_element levels (tree_text d t @ s) n = Inr (node_of d t, s, n + tree_count t)"
proof (induction t arbitrary: levels n d s)
  case (Leaf name tx)
  then obtain k where k: "levels = Suc k" by (cases levels) auto
  have "content_yields (parse_element k) (XmlNode name tx []) (''</'' @ name @ ''>'' @ s) (Suc n)
      (XmlNode name tx [], s, Suc n)"
    using content_yields_close [of "XmlNode name tx []" "parse_element k" s "Suc n"] Leaf.prems(1)
    by (simp add: close_node_def)
  then have "content_yields (parse_element k) (XmlNode name [] [])
      (xmlEscape tx @ ''</'' @ name @ ''>'' @ s) (Suc n) (XmlNode name tx [], s, Suc n)"
    using Leaf.prems(1) by (intro content_yields_text) (simp_all add: add_text_def)
  from parse_element_content [OF _ _ this] Leaf.prems show ?case
    by (simp add: k)
next
  case (Branch name ts)
  then obtain k where k: "levels = Suc k" by (cases levels) auto
  let ?n = "Suc n + sum_list (map tree_count ts)"
  let ?ws = "concat (map (\<lambda>_. pad (Suc d) @ [CHR 0x0A]) ts)"
  let ?full = "XmlNode name (CHR 0x0A # ?ws @ pad d) (map (node_of (Suc d)) ts)"
  have depth: "tree_depth t \<le> k" if "t \<in> set ts" for t
    using Branch.prems(2) that by (auto simp: k fold_max_le)
  have closed: "close_node ?full = node_of d (Branch name ts)"
    by (simp add: close_node_def)
  have "content_yields (parse_element k) ?full (''</'' @ name @ ''>'' @ s) ?n
      (node_of d (Branch name ts), s, ?n)"
    using content_yields_close [of ?full "parse_element k" s ?n] Branch.prems(1) closed by simp
  then have "content_yields (parse_element k) (XmlNode name (CHR 0x0A # ?ws) (map (node_of (Suc d)) ts))
      (pad d @ ''</'' @ name @ ''>'' @ s) ?n (node_of d (Branch name ts), s, ?n)"
    by (intro content_yields_plains [where t = "pad d"]) (simp_all add: pad_plain add_text_def)
  then have "content_yields (parse_element k) (XmlNode name [CHR 0x0A] [])
      (lines_of (Suc d) ts @ pad d @ ''</'' @ name @ ''>'' @ s) (Suc n) (node_of d (Branch name ts), s, ?n)"
    using Branch.prems depth
    by (intro content_yields_lines [where ts = ts]) (auto simp: list_all_iff intro!: Branch.IH)
  then have "content_yields (parse_element k) (XmlNode name [] [])
      (CHR 0x0A # lines_of (Suc d) ts @ pad d @ ''</'' @ name @ ''>'' @ s) (Suc n)
      (node_of d (Branch name ts), s, ?n)"
    by (intro content_yields_plain) (simp_all add: add_text_def)
  from parse_element_content [OF _ _ this] Branch.prems show ?case
    by (simp add: k lines_of_def)
qed

section \<open>Documents\<close>

lemma skip_prolog_decl:
  "skip_prolog (xml_decl @ CHR ''<'' # c # s) = Inr (CHR ''<'' # c # s)" if "isNameStart c"
proof -
  have c: "c \<noteq> CHR ''!''" using that by auto
  have "split_sub ''?>'' (xml_decl @ CHR ''<'' # c # s) =
      Some (''<?xml version='' @ [CHR 0x22] @ ''1.0'' @ [CHR 0x22] @ '' encoding='' @ [CHR 0x22] @ ''UTF-8'' @
        [CHR 0x22], CHR 0x0A # CHR ''<'' # c # s)"
    by (simp add: xml_decl_def split_sub.simps)
  moreover have "skip_misc (CHR 0x0A # CHR ''<'' # c # s) = Inr (CHR ''<'' # c # s)"
    using c by (simp add: skip_misc.simps)
  ultimately show ?thesis
    using c by (simp add: skip_prolog_def Let_def) (simp add: xml_decl_def)
qed

lemma skip_attributes_xmlns:
  assumes "CHR 0x22 \<notin> set xmlns"
  shows "skip_attributes (Suc (Suc fuel)) (xmlns_attribute xmlns @ CHR ''>'' # s) = Inr (False, s)"
proof (cases "xmlns = []")
  case False
  have "parse_name (''xmlns'' @ CHR ''='' # CHR 0x22 # xmlns @ CHR 0x22 # CHR ''>'' # s) =
      Inr (''xmlns'', CHR ''='' # CHR 0x22 # xmlns @ CHR 0x22 # CHR ''>'' # s)"
    by (rule parse_name_ok) (simp_all add: name_ok_def isNameStart_def isNameChar_def isalpha_def isalnum_def
      less_eq_char_def)
  then have "attribute (''xmlns'' @ CHR ''='' # CHR 0x22 # xmlns @ CHR 0x22 # CHR ''>'' # s) = Inr (CHR ''>'' # s)"
    using assms by (simp add: attribute_def Let_def)
  then show ?thesis
    using False by (simp add: skip_attributes.simps(2) [of "Suc fuel"] skip_attributes_none xmlns_attribute_def Let_def isSpace_def)
qed (simp add: xmlns_attribute_def skip_attributes_none)

lemma root_content:
  assumes "list_all tree_ok ts" "name_ok root" "tree_depth (Branch root ts) \<le> Suc k"
    "n + tree_count (Branch root ts) \<le> kMaxXmlElements"
  shows "content_yields (parse_element k) (XmlNode root [] [])
    (CHR 0x0A # lines_of 1 ts @ ''</'' @ root @ ''>'' @ s) (Suc n)
    (node_of 0 (Branch root ts), s, n + tree_count (Branch root ts))"
proof -
  let ?n = "Suc n + sum_list (map tree_count ts)"
  let ?ws = "concat (map (\<lambda>_. pad 1 @ [CHR 0x0A]) ts)"
  let ?full = "XmlNode root (CHR 0x0A # ?ws) (map (node_of (Suc 0)) ts)"
  have depth: "tree_depth t \<le> k" if "t \<in> set ts" for t
    using assms(3) that by (auto simp: fold_max_le)
  have "close_node ?full = node_of 0 (Branch root ts)"
    by (simp add: close_node_def pad_def)
  then have "content_yields (parse_element k) ?full (''</'' @ root @ ''>'' @ s) ?n
      (node_of 0 (Branch root ts), s, ?n)"
    using content_yields_close [of ?full "parse_element k" s ?n] assms(2) by simp
  then have "content_yields (parse_element k) (XmlNode root [CHR 0x0A] [])
      (lines_of 1 ts @ ''</'' @ root @ ''>'' @ s) (Suc n) (node_of 0 (Branch root ts), s, ?n)"
    using assms depth
    by (intro content_yields_lines [where ts = ts]) (auto simp: list_all_iff intro!: parse_tree)
  then show ?thesis
    by (intro content_yields_plain) (simp_all add: add_text_def)
qed

lemma trimmed_empty: "trimmed s = [] \<longleftrightarrow> (\<forall>c\<in>set s. isSpace c)"
proof -
  have "trimmed s = [] \<longleftrightarrow> (\<forall>c\<in>set (dropWhile isSpace s). isSpace c)"
    by (simp add: trimmed_def trim_of_def)
  also have "\<dots> \<longleftrightarrow> dropWhile isSpace s = []"
    using hd_dropWhile [of isSpace s] hd_in_set [of "dropWhile isSpace s"] by (metis empty_iff list.set(1))
  finally show ?thesis by simp
qed

lemma document_parses:
  assumes "name_ok root" "CHR 0x22 \<notin> set xmlns" "list_all tree_ok ts"
    and "tree_depth (Branch root ts) \<le> kMaxXmlDepth" "tree_count (Branch root ts) \<le> kMaxXmlElements"
    and "length (write_document root xmlns ts) \<le> kMaxXmlBytes"
  shows "parseXml (write_document root xmlns ts) = Inr (node_of 0 (Branch root ts))"
proof -
  let ?tail = "CHR 0x0A # lines_of 1 ts @ ''</'' @ root @ ''>'' @ [CHR 0x0A]"
  let ?attrs = "xmlns_attribute xmlns @ CHR ''>'' # ?tail"
  obtain c cs where root: "root = c # cs" "isNameStart c"
    using assms(1) by (cases root) (auto simp: name_ok_def)
  have doc: "write_document root xmlns ts = xml_decl @ CHR ''<'' # root @ ?attrs"
    by (simp add: write_document_text)
  have prolog: "skip_prolog (write_document root xmlns ts) = Inr (CHR ''<'' # root @ ?attrs)"
    unfolding doc using skip_prolog_decl [OF root(2), of "cs @ ?attrs"] by (simp add: root(1))
  have "hd ?attrs = CHR '' '' \<or> hd ?attrs = CHR ''>''"
    by (simp add: xmlns_attribute_def)
  then have name: "parse_name (root @ ?attrs) = Inr (root, ?attrs)"
    using not_name_chars(1,2) by (intro parse_name_ok assms(1)) auto
  obtain k where k: "kMaxXmlDepth = Suc k" by (auto simp: kMaxXmlDepth_def)
  have "skip_attributes (Suc (length ?attrs)) ?attrs = Inr (False, ?tail)"
    using skip_attributes_xmlns [OF assms(2)] by simp
  moreover have "content (parse_element k) (Suc (length ?tail)) (XmlNode root [] []) ?tail (Suc 0) =
      Inr (node_of 0 (Branch root ts), [CHR 0x0A], 0 + tree_count (Branch root ts))"
    by (rule content_yields_full, rule root_content) (use assms k in simp_all)
  ultimately have element: "parse_element kMaxXmlDepth (CHR ''<'' # root @ ?attrs) 0 =
      Inr (node_of 0 (Branch root ts), [CHR 0x0A], tree_count (Branch root ts))"
    using name by (simp add: k kMaxXmlElements_def del: node_of.simps tree_count.simps)
  have "skip_misc [CHR 0x0A] = Inr []"
    by (simp add: skip_misc.simps)
  then have "parseDocument (write_document root xmlns ts) = Inr (node_of 0 (Branch root ts))"
    by (simp only: parseDocument_def prolog element sbind_simps prod.case) simp
  moreover have "trimmed (write_document root xmlns ts) \<noteq> []"
    by (auto simp: trimmed_empty doc)
  ultimately show ?thesis
    using assms(6) by (simp add: parseXml_def not_less del: node_of.simps)
qed

text \<open>
  C25: What the server writes, its parser reads. A document of the writer, with any element
  names that are names and any text without the control characters XML cannot hold, parses to
  exactly the elements and texts that were written: escaping keeps every text whole and no text
  can close its element or open another, as long as the document is within the parser's bounds.
\<close>

theorem document_round_trip:
  assumes "name_ok root" "CHR 0x22 \<notin> set xmlns" "list_all tree_ok ts"
    and "tree_depth (Branch root ts) \<le> kMaxXmlDepth" "tree_count (Branch root ts) \<le> kMaxXmlElements"
    and "length (write_document root xmlns ts) \<le> kMaxXmlBytes"
  shows "parseXml (write_document root xmlns ts) = Inr (node_of 0 (Branch root ts))"
  using assms by (rule document_parses)

theorem document_round_trip_witness:
  "parseXml (write_document ''Error'' [] [Leaf ''Code'' ''a<b'', Branch ''Keys'' [Leaf ''Key'' ''</Key>'']]) =
     Inr (XmlNode ''Error'' [] [XmlNode ''Code'' ''a<b'' [], XmlNode ''Keys'' [] [XmlNode ''Key'' ''</Key>'' []]])"
proof -
  have ok: "name_ok ''Error''" "name_ok ''Code''" "name_ok ''Keys''" "name_ok ''Key''"
    by (simp_all add: name_ok_def isNameStart_def isNameChar_def isalpha_def isalnum_def less_eq_char_def)
  have "length (write_document ''Error'' [] [Leaf ''Code'' ''a<b'', Branch ''Keys'' [Leaf ''Key'' ''</Key>'']]) \<le> kMaxXmlBytes"
    by (simp add: write_document_text xml_decl_def xmlns_attribute_def pad_def escape_char_def kMaxXmlBytes_def)
  from document_round_trip [OF ok(1) _ _ _ _ this] ok show ?thesis
    by (simp add: text_ok_def uchar_def kMaxXmlDepth_def kMaxXmlElements_def)
qed

end
