(* ===== verification/Cors.thy ===== *)
theory Cors
  imports Xml_Round_Trip Records
begin

text \<open>
  Cross-origin rules: the matching, the schema and the document of s3/cors.hpp and s3/cors.cpp.
  The handlers over them are in \<open>Cors_Handlers\<close>. The messages of the refusals are left out.
\<close>

section \<open>Numbers in text\<close>

text \<open>
  \<open>std::stoll\<close>: white space, a sign, the digits up to the first other character; no digit and a
  value outside 64 bits are exceptions.
\<close>

datatype number_error = Invalid_argument | Out_of_range

definition stoll :: "string \<Rightarrow> number_error + int" where
  "stoll t =
     (let s = dropWhile isspace t;
          negative = (s \<noteq> [] \<and> hd s = CHR ''-'');
          s = (if s \<noteq> [] \<and> (hd s = CHR ''-'' \<or> hd s = CHR ''+'') then tl s else s);
          ds = takeWhile isdigit s;
          v = (if negative then - int (decimal_value ds) else int (decimal_value ds))
      in if ds = [] then Inl Invalid_argument
         else if v < - (2 ^ 63) \<or> 2 ^ 63 \<le> v then Inl Out_of_range
         else Inr v)"

lemma takeWhile_digits [simp]: "takeWhile isdigit (to_string n) = to_string n"
  by (rule takeWhile_eq_all_conv [THEN iffD2])
    (auto simp: isdigit_def uchar_literals dest!: to_string_digits simp flip: uchar_le)

lemma stoll_to_string: "n < 2 ^ 63 \<Longrightarrow> stoll (to_string n) = Inr (int n)"
proof -
  assume n: "n < 2 ^ 63"
  obtain c cs where c: "to_string n = c # cs"
    using to_string_nonempty by (cases "to_string n") auto
  then have "48 \<le> uchar c \<and> uchar c < 58"
    using to_string_digits [of c n] by simp
  then have "\<not> isspace c" "c \<noteq> CHR ''-''" "c \<noteq> CHR ''+''"
    by (auto simp: isspace_def uchar_def)
  then have "stoll (to_string n) =
      (if (2::int) ^ 63 \<le> int (decimal_value (to_string n)) then Inl Out_of_range
       else Inr (int (decimal_value (to_string n))))"
    using takeWhile_digits [of n] by (simp add: stoll_def c)
  moreover have "\<not> (2::int) ^ 63 \<le> int n" using n by simp
  ultimately show ?thesis by simp
qed

section \<open>Patterns and matching\<close>

definition kMaxRules :: nat where "kMaxRules = 100"

definition kAllowedMethods :: "string list" where
  "kAllowedMethods = [''GET'', ''PUT'', ''POST'', ''DELETE'', ''HEAD'']"

record CorsQuery =
  cq_origin :: string
  cq_method :: string
  cq_requestedHeaders :: "string list"

text \<open>A decision holds the rule that matched; no decision is \<open>None\<close>.\<close>

record CorsDecision =
  cd_rule :: CorsRule
  cd_allowedHeaders :: "string list"

definition cors_join :: "string list \<Rightarrow> string \<Rightarrow> string" where
  "cors_join xs separator = foldl (\<lambda>out x. (if out \<noteq> [] then out @ separator else out) @ x) [] xs"

definition corsPatternMatches :: "string \<Rightarrow> string \<Rightarrow> bool" where
  "corsPatternMatches pattern v =
     (if CHR ''*'' \<notin> set pattern then pattern = v
      else
        let prefix = before (CHR ''*'') pattern; suffix = after (CHR ''*'') pattern
        in if length v < length prefix + length suffix then False
           else take (length prefix) v = prefix \<and> drop (length v - length suffix) v = suffix)"

definition matchesAny :: "string list \<Rightarrow> string \<Rightarrow> bool" where
  "matchesAny patterns v = list_ex (\<lambda>pattern. corsPatternMatches pattern v) patterns"

definition splitRequestedHeaders :: "string \<Rightarrow> string list" where
  "splitRequestedHeaders v =
     concat (map (\<lambda>field. let name = trimmed field in if name \<noteq> [] then [toLower name] else [])
       (fields_of (CHR '','') v))"

fun matchCors :: "CorsRule list \<Rightarrow> CorsQuery \<Rightarrow> CorsDecision option" where
  "matchCors [] query = None"
| "matchCors (rule # rules) query =
     (if \<not> matchesAny (allowedOrigins rule) (cq_origin query) then matchCors rules query
      else if toUpper (cq_method query) \<notin> set (allowedMethods rule) then matchCors rules query
      else if \<not> list_all (matchesAny (allowedHeaders rule)) (cq_requestedHeaders query)
      then matchCors rules query
      else Some \<lparr>cd_rule = rule, cd_allowedHeaders = cq_requestedHeaders query\<rparr>)"

section \<open>The schema\<close>

definition malformed :: "s3_exn + 'a" where
  "malformed = Inl (S3Exception E_MalformedXML)"

definition validatePattern :: "string \<Rightarrow> s3_exn + unit" where
  "validatePattern pattern =
     (if pattern = [] then malformed
      else if 1 < count_list pattern (CHR ''*'') then malformed
      else Inr ())"

fun check_all :: "('a \<Rightarrow> s3_exn + 'b) \<Rightarrow> 'a list \<Rightarrow> s3_exn + 'b list" where
  "check_all f [] = Inr []"
| "check_all f (x # xs) = sbind (f x) (\<lambda>y. sbind (check_all f xs) (\<lambda>ys. Inr (y # ys)))"

definition check_method :: "string \<Rightarrow> s3_exn + string" where
  "check_method m = (let m = toUpper m in if m \<notin> set kAllowedMethods then malformed else Inr m)"

definition check_header :: "string \<Rightarrow> s3_exn + string" where
  "check_header h = sbind (validatePattern h) (\<lambda>_. Inr (toLower h))"

definition validate_rule :: "CorsRule \<Rightarrow> s3_exn + CorsRule" where
  "validate_rule rule =
     (if allowedOrigins rule = [] then malformed
      else
        sbind (check_all validatePattern (allowedOrigins rule)) (\<lambda>_.
        if allowedMethods rule = [] then malformed
        else
          sbind (check_all check_method (allowedMethods rule)) (\<lambda>methods.
          sbind (check_all check_header (allowedHeaders rule)) (\<lambda>headers.
          if [] \<in> set (exposeHeaders rule) then malformed
          else if 86400 <s maxAgeSeconds rule then malformed
          else Inr (rule\<lparr>allowedMethods := methods, allowedHeaders := headers\<rparr>)))))"

definition validateCorsRules :: "CorsRule list \<Rightarrow> s3_exn + CorsRule list" where
  "validateCorsRules rules =
     (if rules = [] then malformed
      else if kMaxRules < length rules then malformed
      else check_all validate_rule rules)"

section \<open>The document\<close>

definition max_age :: "XmlNode \<Rightarrow> s3_exn + 32 word" where
  "max_age node =
     (case x_child ''MaxAgeSeconds'' node of
        None \<Rightarrow> Inr (- 1)
      | Some maxAge \<Rightarrow>
          (case stoll (x_text maxAge) of
             Inl _ \<Rightarrow> malformed
           | Inr v \<Rightarrow> if v < 0 \<or> 86400 < v then malformed else Inr (word_of_int v)))"

definition rule_of_node :: "XmlNode \<Rightarrow> s3_exn + CorsRule" where
  "rule_of_node node =
     sbind (max_age node) (\<lambda>age.
       Inr \<lparr>cr_id = childText ''ID'' node,
            allowedOrigins = map x_text (childrenNamed ''AllowedOrigin'' node),
            allowedMethods = map x_text (childrenNamed ''AllowedMethod'' node),
            allowedHeaders = map x_text (childrenNamed ''AllowedHeader'' node),
            exposeHeaders = map x_text (childrenNamed ''ExposeHeader'' node),
            maxAgeSeconds = age\<rparr>)"

definition parseCorsConfiguration :: "string \<Rightarrow> s3_exn + CorsRule list" where
  "parseCorsConfiguration document =
     (if document = [] then malformed
      else case parseXml document of
        Inl _ \<Rightarrow> malformed
      | Inr root \<Rightarrow>
          if x_name root \<noteq> ''CORSConfiguration'' then malformed
          else sbind (check_all rule_of_node (childrenNamed ''CORSRule'' root)) (\<lambda>rules.
            if rules = [] then malformed else validateCorsRules rules))"

definition render_rule :: "CorsRule \<Rightarrow> XmlWriter \<Rightarrow> XmlWriter" where
  "render_rule rule w =
     (let w = xml_open ''CORSRule'' w;
          w = elementIfSet ''ID'' (cr_id rule) w;
          w = fold (xml_element ''AllowedOrigin'') (allowedOrigins rule) w;
          w = fold (xml_element ''AllowedMethod'') (allowedMethods rule) w;
          w = fold (xml_element ''AllowedHeader'') (allowedHeaders rule) w;
          w = fold (xml_element ''ExposeHeader'') (exposeHeaders rule) w;
          w = (if 0 \<le>s maxAgeSeconds rule then xml_number ''MaxAgeSeconds'' (scast (maxAgeSeconds rule)) w else w)
      in xml_close w)"

definition renderCorsConfiguration :: "CorsRule list \<Rightarrow> string" where
  "renderCorsConfiguration rules =
     fst (xml_finish (fold render_rule rules (xml_new ''CORSConfiguration'' kS3Namespace)))"

section \<open>Matching is the wildcard matching of the documentation\<close>

lemma corsPatternMatches_exact: "CHR ''*'' \<notin> set pattern \<Longrightarrow> corsPatternMatches pattern v \<longleftrightarrow> v = pattern"
  by (auto simp: corsPatternMatches_def)

lemma corsPatternMatches_wildcard:
  assumes "CHR ''*'' \<notin> set pre"
  shows "corsPatternMatches (pre @ CHR ''*'' # post) v \<longleftrightarrow> (\<exists>middle. v = pre @ middle @ post)"
proof
  assume "corsPatternMatches (pre @ CHR ''*'' # post) v"
  then have n: "length pre + length post \<le> length v"
    and p: "take (length pre) v = pre" and s: "drop (length v - length post) v = post"
    using assms by (auto simp: corsPatternMatches_def Let_def split: if_splits)
  let ?m = "drop (length pre) (take (length v - length post) v)"
  have "v = take (length v - length post) v @ post"
    using s by (metis append_take_drop_id)
  moreover have "take (length pre) (take (length v - length post) v) = pre"
    using n p by (simp add: min_absorb2)
  then have "take (length v - length post) v = pre @ ?m"
    by (metis append_take_drop_id)
  ultimately show "\<exists>middle. v = pre @ middle @ post"
    by (metis append.assoc)
next
  assume "\<exists>middle. v = pre @ middle @ post"
  then show "corsPatternMatches (pre @ CHR ''*'' # post) v"
    using assms by (auto simp: corsPatternMatches_def)
qed

definition pattern_allows :: "string \<Rightarrow> string \<Rightarrow> bool" where
  "pattern_allows pattern v \<longleftrightarrow>
     v = pattern \<and> CHR ''*'' \<notin> set pattern \<or>
     (\<exists>pre middle post. pattern = pre @ CHR ''*'' # post \<and> CHR ''*'' \<notin> set pre \<and>
        v = pre @ middle @ post)"

lemma corsPatternMatches_iff: "corsPatternMatches pattern v \<longleftrightarrow> pattern_allows pattern v"
proof (cases "CHR ''*'' \<in> set pattern")
  case True
  obtain pre post where p: "pattern = pre @ CHR ''*'' # post" "CHR ''*'' \<notin> set pre"
    using split_list_first [OF True] by blast
  have "pre' = pre \<and> post' = post"
    if "pattern = pre' @ CHR ''*'' # post'" "CHR ''*'' \<notin> set pre'" for pre' post'
    using that p before_append after_append by metis
  then show ?thesis
    using p corsPatternMatches_wildcard [of pre post v] by (auto simp: pattern_allows_def)
qed (auto simp: pattern_allows_def corsPatternMatches_exact)

definition rule_allows :: "CorsQuery \<Rightarrow> CorsRule \<Rightarrow> bool" where
  "rule_allows query rule \<longleftrightarrow>
     (\<exists>p \<in> set (allowedOrigins rule). pattern_allows p (cq_origin query)) \<and>
     toUpper (cq_method query) \<in> set (allowedMethods rule) \<and>
     (\<forall>h \<in> set (cq_requestedHeaders query). \<exists>p \<in> set (allowedHeaders rule). pattern_allows p h)"

lemma matchesAny_iff: "matchesAny patterns v \<longleftrightarrow> (\<exists>p \<in> set patterns. pattern_allows p v)"
  by (simp add: matchesAny_def list_ex_iff corsPatternMatches_iff)

lemma matchCors_find:
  "matchCors rules query =
     map_option (\<lambda>rule. \<lparr>cd_rule = rule, cd_allowedHeaders = cq_requestedHeaders query\<rparr>)
       (List.find (rule_allows query) rules)"
  by (induction rules) (auto simp: rule_allows_def matchesAny_iff list_all_iff)

text \<open>
  C39: The first rule in document order that permits the origin, the method and every requested
  header decides, and no other rule; a pattern stands for its text with any run of characters in
  the place of its first asterisk. A request no rule permits gets no decision.
\<close>

theorem cors_first_rule_decides:
  "matchCors rules query =
     map_option (\<lambda>rule. \<lparr>cd_rule = rule, cd_allowedHeaders = cq_requestedHeaders query\<rparr>)
       (List.find (rule_allows query) rules)"
  by (rule matchCors_find)

section \<open>The schema is kept\<close>

lemma check_all_Inr: "check_all f xs = Inr ys \<longleftrightarrow> list_all2 (\<lambda>x y. f x = Inr y) xs ys"
  by (induction xs arbitrary: ys) (auto simp: sbind_Inr list_all2_Cons1)

lemma check_all_map:
  "list_all (\<lambda>x. f x = Inr (g x)) xs \<Longrightarrow> check_all f xs = Inr (map g xs)"
  by (simp add: check_all_Inr list_all2_map2 list_all2_same list_all_iff)

lemma validatePattern_Inr: "validatePattern p = Inr u \<longleftrightarrow> p \<noteq> [] \<and> count_list p (CHR ''*'') \<le> 1"
  by (auto simp: validatePattern_def malformed_def)

lemma count_list_toLower: "count_list (toLower h) (CHR ''*'') = count_list h (CHR ''*'')"
proof (induction h)
  case (Cons c h)
  have star: "uchar (CHR ''*'') = 42" by (simp add: uchar_def)
  have "uchar (tolower c) = uchar (CHR ''*'') \<longleftrightarrow> uchar c = uchar (CHR ''*'')"
    unfolding star by (auto simp: tolower_def uchar_literals simp flip: uchar_le)
  then have "tolower c = CHR ''*'' \<longleftrightarrow> c = CHR ''*''"
    by simp
  with Cons show ?case by (simp add: toLower_def)
qed (simp add: toLower_def)

definition rule_valid :: "CorsRule \<Rightarrow> bool" where
  "rule_valid rule \<longleftrightarrow>
     allowedOrigins rule \<noteq> [] \<and>
     list_all (\<lambda>p. p \<noteq> [] \<and> count_list p (CHR ''*'') \<le> 1) (allowedOrigins rule) \<and>
     allowedMethods rule \<noteq> [] \<and> set (allowedMethods rule) \<subseteq> set kAllowedMethods \<and>
     list_all (\<lambda>p. p \<noteq> [] \<and> count_list p (CHR ''*'') \<le> 1 \<and> toLower p = p) (allowedHeaders rule) \<and>
     [] \<notin> set (exposeHeaders rule) \<and> sint (maxAgeSeconds rule) \<le> 86400"

lemma kAllowedMethods_upper: "m \<in> set kAllowedMethods \<Longrightarrow> toUpper m = m"
  by (auto simp: kAllowedMethods_def toUpper_def toupper_def less_eq_char_def)

lemma check_header_valid:
  assumes "check_header h = Inr y"
  shows "y \<noteq> []" "count_list y (CHR ''*'') \<le> 1" "toLower y = y"
proof -
  have y: "y = toLower h" "h \<noteq> []" "count_list h (CHR ''*'') \<le> 1"
    using assms by (auto simp: check_header_def sbind_Inr validatePattern_Inr)
  show "y \<noteq> []" using y(1,2) by (simp add: toLower_def)
  show "count_list y (CHR ''*'') \<le> 1" using y(1,3) by (simp add: count_list_toLower)
  show "toLower y = y" using y(1) by simp
qed

lemma list_all2_valid:
  assumes "list_all2 P xs ys" "\<And>x y. P x y \<Longrightarrow> Q y"
  shows "list_all Q ys"
  using assms by (auto simp: list_all_length list_all2_conv_all_nth)

lemma validate_rule_valid:
  assumes "validate_rule rule = Inr rule'"
  shows "rule_valid rule'"
proof -
  from assms obtain us methods headers where r:
    "allowedOrigins rule \<noteq> []" "check_all validatePattern (allowedOrigins rule) = Inr us"
    "allowedMethods rule \<noteq> []" "check_all check_method (allowedMethods rule) = Inr methods"
    "check_all check_header (allowedHeaders rule) = Inr headers"
    "[] \<notin> set (exposeHeaders rule)" "\<not> 86400 <s maxAgeSeconds rule"
    "rule' = rule\<lparr>allowedMethods := methods, allowedHeaders := headers\<rparr>"
    by (auto simp: validate_rule_def malformed_def sbind_Inr split: if_splits)
  have "list_all (\<lambda>p. p \<noteq> [] \<and> count_list p (CHR ''*'') \<le> 1) (allowedOrigins rule)"
    using r(2) by (auto simp: check_all_Inr validatePattern_Inr list_all_length list_all2_conv_all_nth)
  moreover have "list_all (\<lambda>m. m \<in> set kAllowedMethods) methods"
    using r(4) unfolding check_all_Inr
    by (rule list_all2_valid) (auto simp: check_method_def malformed_def Let_def split: if_splits)
  moreover have "methods \<noteq> []"
    using r(3,4) by (auto simp: check_all_Inr)
  moreover have "list_all (\<lambda>p. p \<noteq> [] \<and> count_list p (CHR ''*'') \<le> 1 \<and> toLower p = p) headers"
    using r(5) unfolding check_all_Inr
    by (rule list_all2_valid) (use check_header_valid in auto)
  ultimately show ?thesis
    using r by (auto simp: rule_valid_def list_all_iff word_sless_alt)
qed

lemma validate_rule_fixed:
  assumes "rule_valid rule"
  shows "validate_rule rule = Inr rule"
proof -
  have "check_all validatePattern (allowedOrigins rule) = Inr (map (\<lambda>_. ()) (allowedOrigins rule))"
    using assms by (intro check_all_map) (auto simp: rule_valid_def list_all_iff validatePattern_Inr)
  moreover have "check_all check_method (allowedMethods rule) = Inr (map id (allowedMethods rule))"
    using assms kAllowedMethods_upper
    by (intro check_all_map) (auto simp: rule_valid_def list_all_iff check_method_def)
  moreover have "check_all check_header (allowedHeaders rule) = Inr (map id (allowedHeaders rule))"
  proof (intro check_all_map, unfold list_all_iff, rule ballI)
    fix h assume "h \<in> set (allowedHeaders rule)"
    then have h: "validatePattern h = Inr ()" "toLower h = h"
      using assms by (auto simp: rule_valid_def list_all_iff validatePattern_Inr)
    show "check_header h = Inr (id h)" by (simp add: check_header_def h)
  qed
  ultimately show ?thesis
    using assms by (auto simp: validate_rule_def rule_valid_def word_sless_alt)
qed

lemma validateCorsRules_Inr:
  assumes "validateCorsRules rules = Inr rules'"
  shows "rules' \<noteq> [] \<and> length rules' \<le> kMaxRules \<and> list_all rule_valid rules'"
proof -
  have "rules \<noteq> []" "length rules \<le> kMaxRules" and c: "list_all2 (\<lambda>x y. validate_rule x = Inr y) rules rules'"
    using assms by (auto simp: validateCorsRules_def malformed_def check_all_Inr split: if_splits)
  then show ?thesis
    using list_all2_valid [OF c validate_rule_valid] by (auto dest: list_all2_lengthD)
qed

lemma validateCorsRules_fixed:
  assumes "rules \<noteq> []" "length rules \<le> kMaxRules" "list_all rule_valid rules"
  shows "validateCorsRules rules = Inr rules"
proof -
  have "check_all validate_rule rules = Inr (map id rules)"
    using assms(3) by (intro check_all_map) (auto simp: list_all_iff validate_rule_fixed)
  then show ?thesis using assms(1,2) by (simp add: validateCorsRules_def)
qed

section \<open>The document keeps the rules\<close>

definition rule_leaves :: "CorsRule \<Rightarrow> xtree list" where
  "rule_leaves rule =
     (if cr_id rule \<noteq> [] then [Leaf ''ID'' (cr_id rule)] else []) @
     map (Leaf ''AllowedOrigin'') (allowedOrigins rule) @
     map (Leaf ''AllowedMethod'') (allowedMethods rule) @
     map (Leaf ''AllowedHeader'') (allowedHeaders rule) @
     map (Leaf ''ExposeHeader'') (exposeHeaders rule) @
     (if 0 \<le> sint (maxAgeSeconds rule) then [Leaf ''MaxAgeSeconds'' (to_string (unat (maxAgeSeconds rule)))] else [])"

definition rule_tree :: "CorsRule \<Rightarrow> xtree" where
  "rule_tree rule = Branch ''CORSRule'' (rule_leaves rule)"

lemma fold_leaves: "fold (xml_element name) xs w = fold write_tree (map (Leaf name) xs) w"
  by (induction xs arbitrary: w) simp_all

lemma unat_scast_age:
  fixes m :: "32 word"
  assumes "0 \<le> sint m"
  shows "unat (scast m :: u64) = unat m"
proof -
  have r: "sint m < 2 ^ 31" using sint_lt [of m] by simp
  have "uint m = take_bit 32 (sint m)"
    using uint_sint [of m] by simp
  then have m: "uint m = sint m"
    using assms r by (simp add: take_bit_int_eq_self)
  have "uint (word_of_int k :: u64) = k" if "0 \<le> k" "k < 2 ^ 31" for k
    using that by (simp add: unsigned_of_int take_bit_int_eq_self)
  then have "uint (scast m :: u64) = uint m"
    unfolding m scast_eq using assms r by blast
  then show ?thesis by (simp only: unat_eq_nat_uint)
qed

lemma render_rule_tree: "render_rule rule w = write_tree (rule_tree rule) w"
  by (simp add: render_rule_def rule_tree_def rule_leaves_def elementIfSet_def xml_number_def fold_leaves
      unat_scast_age word_sle_eq Let_def)

lemma renderCorsConfiguration_document:
  "renderCorsConfiguration rules = write_document ''CORSConfiguration'' kS3Namespace (map rule_tree rules)"
proof -
  have "render_rule = (\<lambda>rule. write_tree (rule_tree rule))"
    by (rule ext, rule ext) (simp add: render_rule_tree)
  then show ?thesis
    by (simp add: renderCorsConfiguration_def write_document_def fold_map comp_def)
qed

lemma x_child_named:
  "x_child name node = (case childrenNamed name node of [] \<Rightarrow> None | n # _ \<Rightarrow> Some n)"
proof -
  have "List.find P xs = (case filter P xs of [] \<Rightarrow> None | x # _ \<Rightarrow> Some x)" for P :: "XmlNode \<Rightarrow> bool" and xs
    by (induction xs) simp_all
  then show ?thesis by (simp add: x_child_def childrenNamed_def)
qed

definition rule_element :: "CorsRule \<Rightarrow> XmlNode" where
  "rule_element rule = node_of 1 (rule_tree rule)"

lemma named_leaves [simp]:
  "filter (\<lambda>n. x_name n = name) (map (node_of d) (map (Leaf name') xs)) =
    (if name' = name then map (\<lambda>s. XmlNode name s []) xs else [])"
  by (induction xs) simp_all

lemma rule_node:
  "node_of 1 (rule_tree rule) = XmlNode ''CORSRule'' [] (map (node_of 2) (rule_leaves rule))"
  if "allowedOrigins rule \<noteq> []"
  using that by (simp add: rule_tree_def rule_leaves_def)

lemma rule_fields:
  assumes "allowedOrigins rule \<noteq> []"
  shows "childrenNamed ''ID'' (rule_element rule) =
      (if cr_id rule \<noteq> [] then [XmlNode ''ID'' (cr_id rule) []] else [])"
    "childrenNamed ''AllowedOrigin'' (rule_element rule) =
      map (\<lambda>s. XmlNode ''AllowedOrigin'' s []) (allowedOrigins rule)"
    "childrenNamed ''AllowedMethod'' (rule_element rule) =
      map (\<lambda>s. XmlNode ''AllowedMethod'' s []) (allowedMethods rule)"
    "childrenNamed ''AllowedHeader'' (rule_element rule) =
      map (\<lambda>s. XmlNode ''AllowedHeader'' s []) (allowedHeaders rule)"
    "childrenNamed ''ExposeHeader'' (rule_element rule) =
      map (\<lambda>s. XmlNode ''ExposeHeader'' s []) (exposeHeaders rule)"
    "childrenNamed ''MaxAgeSeconds'' (rule_element rule) =
      (if 0 \<le> sint (maxAgeSeconds rule)
       then [XmlNode ''MaxAgeSeconds'' (to_string (unat (maxAgeSeconds rule))) []] else [])"
  unfolding rule_element_def rule_node [OF assms] childrenNamed_def rule_leaves_def
  by (simp_all del: map_map)

lemma unat_age:
  fixes m :: "32 word"
  assumes "0 \<le> sint m"
  shows "uint m = sint m" "int (unat m) = sint m"
proof -
  have "sint m < 2 ^ 31" using sint_lt [of m] by simp
  moreover have "uint m = take_bit 32 (sint m)"
    using uint_sint [of m] by simp
  ultimately show m: "uint m = sint m"
    using assms by (simp add: take_bit_int_eq_self)
  then show "int (unat m) = sint m" by simp
qed

lemma rule_read_back:
  assumes valid: "rule_valid rule" and id: "trimmed (cr_id rule) = cr_id rule"
    and age: "- 1 \<le> sint (maxAgeSeconds rule)"
  shows "rule_of_node (rule_element rule) = Inr rule"
proof -
  have o: "allowedOrigins rule \<noteq> []" and top: "sint (maxAgeSeconds rule) \<le> 86400"
    using valid by (simp_all add: rule_valid_def)
  have "max_age (rule_element rule) = Inr (maxAgeSeconds rule)"
  proof (cases "0 \<le> sint (maxAgeSeconds rule)")
    case True
    have "unat (maxAgeSeconds rule) \<le> 86400"
      using unat_age(2) [OF True] top by linarith
    then have "unat (maxAgeSeconds rule) < 2 ^ 63" by simp
    then have "stoll (to_string (unat (maxAgeSeconds rule))) = Inr (int (unat (maxAgeSeconds rule)))"
      by (rule stoll_to_string)
    then show ?thesis
      using True top by (simp add: max_age_def x_child_named rule_fields [OF o] unat_age(1))
  next
    case False
    then have "sint (maxAgeSeconds rule) = - 1" using age by simp
    then have "maxAgeSeconds rule = - 1" by (metis sint_n1 signed_word_eqI)
    then show ?thesis by (simp add: max_age_def x_child_named rule_fields [OF o])
  qed
  then show ?thesis
    by (simp add: rule_of_node_def childText_def x_child_named rule_fields [OF o] id comp_def)
qed

definition rule_texts :: "CorsRule \<Rightarrow> string list" where
  "rule_texts rule =
     cr_id rule # allowedOrigins rule @ allowedMethods rule @ allowedHeaders rule @ exposeHeaders rule"

text \<open>A valid rule whose texts XML can hold, as the storage keeps it.\<close>

definition rule_storable :: "CorsRule \<Rightarrow> bool" where
  "rule_storable rule \<longleftrightarrow>
     rule_valid rule \<and> list_all text_ok (rule_texts rule) \<and> trimmed (cr_id rule) = cr_id rule \<and>
     - 1 \<le> sint (maxAgeSeconds rule)"

lemma cors_names_ok:
  "name_ok ''CORSConfiguration''" "name_ok ''CORSRule''" "name_ok ''ID''" "name_ok ''AllowedOrigin''"
  "name_ok ''AllowedMethod''" "name_ok ''AllowedHeader''" "name_ok ''ExposeHeader''" "name_ok ''MaxAgeSeconds''"
  by (simp_all add: name_ok_def isNameStart_def isNameChar_def isalpha_def isalnum_def less_eq_char_def)

lemma text_ok_to_string [simp]: "text_ok (to_string n)"
  using to_string_digits by (fastforce simp: text_ok_def list_all_iff)

lemma rule_tree_ok: "rule_storable rule \<Longrightarrow> tree_ok (rule_tree rule)"
  by (auto simp: rule_storable_def rule_tree_def rule_leaves_def rule_texts_def cors_names_ok list_all_iff)

lemma fold_max_bound: "list_all (\<lambda>n. n \<le> b) ns \<Longrightarrow> m \<le> b \<Longrightarrow> fold max ns m \<le> (b::nat)"
  by (induction ns arbitrary: m) simp_all

lemma cors_depth: "tree_depth (Branch root (map rule_tree rules)) \<le> 3"
proof -
  have leaf: "tree_depth t \<le> 1" if "t \<in> set (rule_leaves rule)" for t rule
    using that by (auto simp: rule_leaves_def split: if_splits)
  have "tree_depth (rule_tree rule) \<le> 2" for rule
    using fold_max_bound [of 1 "map tree_depth (rule_leaves rule)" 0] leaf [of _ rule]
    by (auto simp: rule_tree_def list_all_iff)
  then show ?thesis
    using fold_max_bound [of 2 "map tree_depth (map rule_tree rules)" 0] by (auto simp: list_all_iff)
qed

lemma kS3Namespace_plain: "CHR 0x22 \<notin> set kS3Namespace"
  by (simp add: kS3Namespace_def)

lemma rule_element_name: "allowedOrigins rule \<noteq> [] \<Longrightarrow> x_name (rule_element rule) = ''CORSRule''"
  unfolding rule_element_def by (subst rule_node) simp_all

text \<open>
  C40: Stored rules survive the document. The configuration rendered for a list of valid rules,
  with texts XML can hold and within the parser's limits, is accepted when it is put back and
  yields exactly those rules, in the same order and with the same maximum ages.
\<close>

theorem cors_document_round_trip:
  assumes rules: "rules \<noteq> []" "length rules \<le> kMaxRules" "list_all rule_storable rules"
    and count: "tree_count (Branch ''CORSConfiguration'' (map rule_tree rules)) \<le> kMaxXmlElements"
    and size: "length (renderCorsConfiguration rules) \<le> kMaxXmlBytes"
  shows "parseCorsConfiguration (renderCorsConfiguration rules) = Inr rules"
proof -
  let ?root = "Branch ''CORSConfiguration'' (map rule_tree rules)"
  have "tree_depth ?root \<le> kMaxXmlDepth"
    using cors_depth [of "''CORSConfiguration''" rules] by (simp only: kMaxXmlDepth_def)
  moreover have "list_all tree_ok (map rule_tree rules)"
    using rules(3) by (auto simp: list_all_iff intro: rule_tree_ok)
  ultimately have "parseXml (renderCorsConfiguration rules) = Inr (node_of 0 ?root)"
    using count size cors_names_ok(1) kS3Namespace_plain
    unfolding renderCorsConfiguration_document by (intro document_parses)
  moreover have "node_of 0 ?root = XmlNode ''CORSConfiguration'' [] (map rule_element rules)"
    using rules(1) by (simp add: rule_element_def)
  ultimately have doc: "parseXml (renderCorsConfiguration rules) =
      Inr (XmlNode ''CORSConfiguration'' [] (map rule_element rules))" by simp
  have origins: "allowedOrigins rule \<noteq> []" if "rule \<in> set rules" for rule
    using rules(3) that by (auto simp: list_all_iff rule_storable_def rule_valid_def)
  have named: "childrenNamed ''CORSRule'' (XmlNode ''CORSConfiguration'' [] (map rule_element rules)) =
      map rule_element rules"
    using origins by (auto simp: childrenNamed_def rule_element_name filter_id_conv)
  have "rule_of_node (rule_element rule) = Inr rule" if "rule \<in> set rules" for rule
    using rules(3) that by (intro rule_read_back) (auto simp: list_all_iff rule_storable_def)
  then have "list_all2 (\<lambda>x y. rule_of_node x = Inr y) (map rule_element rules) rules"
    by (simp add: list_all2_map1 list_all2_same)
  then have read: "check_all rule_of_node (map rule_element rules) = Inr rules"
    by (simp add: check_all_Inr)
  have "validateCorsRules rules = Inr rules"
    using rules by (intro validateCorsRules_fixed) (auto simp: list_all_iff rule_storable_def)
  moreover have "renderCorsConfiguration rules \<noteq> []"
    using doc by (auto simp: parseXml_def fail_def trimmed_def trim_of_def)
  ultimately show ?thesis
    using rules(1) by (simp add: parseCorsConfiguration_def doc named read)
qed

definition demo_rule :: CorsRule where
  "demo_rule = \<lparr>cr_id = ''web'', allowedOrigins = [''https://*.a''], allowedMethods = [''GET''],
     allowedHeaders = [''x-*''], exposeHeaders = [''ETag''], maxAgeSeconds = 60\<rparr>"

lemma to_string_60: "to_string 60 = ''60''"
  by code_simp

theorem cors_document_round_trip_witness:
  "parseCorsConfiguration (renderCorsConfiguration [demo_rule]) = Inr [demo_rule]"
proof (rule cors_document_round_trip)
  show "list_all rule_storable [demo_rule]"
    by (simp add: rule_storable_def rule_valid_def demo_rule_def rule_texts_def text_ok_def uchar_def
        trimmed_def trim_of_def isSpace_def kAllowedMethods_def toLower_def tolower_def less_eq_char_def)
  show "tree_count (Branch ''CORSConfiguration'' (map rule_tree [demo_rule])) \<le> kMaxXmlElements"
    by (simp add: rule_tree_def rule_leaves_def demo_rule_def kMaxXmlElements_def)
  have "length (renderCorsConfiguration [demo_rule]) \<le> 500"
    by code_simp
  then show "length (renderCorsConfiguration [demo_rule]) \<le> kMaxXmlBytes"
    by (simp add: kMaxXmlBytes_def)
qed (simp_all add: kMaxRules_def)

text \<open>
  A maximum age is a number followed by anything. The refusal says that it must be a number,
  but the reading stops at the first other character and ignores the rest.
\<close>

theorem max_age_with_rubbish_accepted:
  "max_age (XmlNode ''CORSRule'' [] [XmlNode ''MaxAgeSeconds'' ''60 minutes'' []]) = Inr 60"
  by (simp add: max_age_def x_child_def stoll_def isspace_def isdigit_def decimal_value_def uchar_def less_eq_char_def)

end
