(* ===== verification/Bucket_Policy.thy ===== *)
theory Bucket_Policy
  imports S3_Error
begin

text \<open>
  Bucket policies: s3/bucket_policy.hpp and s3/bucket_policy.cpp. The JSON parser is the library
  nlohmann::json and a parameter; a document that does not parse is \<open>None\<close>. An object is the list
  of its members with distinct names. The access with a default value, \<open>value("Effect", "")\<close>,
  throws when the member is there and not a string: a result on the left is that exception.
\<close>

section \<open>JSON\<close>

datatype json =
    JNull
  | JBool bool
  | JNumber string
  | JString string
  | JArray "json list"
  | JObject "(string \<times> json) list"

type_synonym json_parser = "string \<Rightarrow> json option"

fun member :: "string \<Rightarrow> json \<Rightarrow> json option" where
  "member name (JObject ms) = map_of ms name"
| "member name j = None"

fun is_object :: "json \<Rightarrow> bool" where
  "is_object (JObject ms) \<longleftrightarrow> True"
| "is_object j \<longleftrightarrow> False"

definition contains :: "json \<Rightarrow> string \<Rightarrow> bool" where
  "contains j name \<longleftrightarrow> member name j \<noteq> None"

fun string_value :: "json \<Rightarrow> string option" where
  "string_value (JString s) = Some s"
| "string_value j = None"

section \<open>Reading a document\<close>

definition kMaxPolicyBytes :: nat where "kMaxPolicyBytes = 20 * 1024"
definition kArnPrefix :: string where "kArnPrefix = ''arn:aws:s3:::''"

datatype Scope = BucketScope | ObjectsScope | BothScopes

record AnonymousGrants =
  readObjects :: bool
  listBucket :: bool

record PolicyAnalysis =
  pa_grants :: AnonymousGrants
  pa_unsupported :: string

definition no_grants :: AnonymousGrants where
  "no_grants = \<lparr>readObjects = False, listBucket = False\<rparr>"

definition understood :: "PolicyAnalysis \<Rightarrow> bool" where
  "understood analysis \<longleftrightarrow> pa_unsupported analysis = []"

text \<open>
  \<open>forEachString\<close> with a visitor over the state of the loop: whether the field was readable, and
  the state left by the visits made, those before an unreadable member included.
\<close>

fun visit_items :: "(string \<Rightarrow> 's \<Rightarrow> 's) \<Rightarrow> json list \<Rightarrow> 's \<Rightarrow> bool \<times> 's" where
  "visit_items visit [] s = (True, s)"
| "visit_items visit (item # items) s =
     (case string_value item of
        None \<Rightarrow> (False, s)
      | Some v \<Rightarrow> visit_items visit items (visit v s))"

fun forEachString :: "json \<Rightarrow> (string \<Rightarrow> 's \<Rightarrow> 's) \<Rightarrow> 's \<Rightarrow> bool \<times> 's" where
  "forEachString (JString v) visit s = (True, visit v s)"
| "forEachString (JArray items) visit s = (if items = [] then (False, s) else visit_items visit items s)"
| "forEachString j visit s = (False, s)"

definition inQuotes :: "string \<Rightarrow> string" where
  "inQuotes v = [CHR 0x22] @ v @ [CHR 0x22]"

text \<open>The first refusal wins.\<close>

definition refuse :: "string \<Rightarrow> string \<Rightarrow> string" where
  "refuse what unsupported = (if unsupported = [] then what else unsupported)"

definition principal_everyone :: "json \<Rightarrow> bool" where
  "principal_everyone who =
     (case who of
        JString v \<Rightarrow> v = ''*''
      | JObject ms \<Rightarrow>
          (if length ms = 1 \<and> contains who ''AWS''
           then
             let (readable, everyone) =
                   forEachString (the (member ''AWS'' who)) (\<lambda>v every. if v \<noteq> ''*'' then False else every) True
             in readable \<and> everyone
           else False)
      | _ \<Rightarrow> False)"

definition visit_resource :: "string \<Rightarrow> string \<Rightarrow> Scope list \<times> string \<Rightarrow> Scope list \<times> string" where
  "visit_resource bucketArn v =
     (\<lambda>(scopes, unsupported).
        if v = ''*'' then (scopes @ [BothScopes], unsupported)
        else if v = bucketArn then (scopes @ [BucketScope], unsupported)
        else if v = bucketArn @ ''/*'' then (scopes @ [ObjectsScope], unsupported)
        else if take (length bucketArn + 1) v = bucketArn @ ''/''
        then (scopes, refuse (''a Resource scoped to part of a bucket ('' @ inQuotes v @ '')'') unsupported)
        else (scopes, refuse (''a Resource naming something other than this bucket ('' @ inQuotes v @ '')'') unsupported))"

definition visit_action :: "string \<Rightarrow> bool \<times> bool \<times> string \<Rightarrow> bool \<times> bool \<times> string" where
  "visit_action v =
     (\<lambda>(objectRead, bucketList, unsupported).
        if v = ''*'' \<or> v = ''s3:*'' then (True, True, unsupported)
        else if v = ''s3:GetObject'' then (True, bucketList, unsupported)
        else if v = ''s3:ListBucket'' then (objectRead, True, unsupported)
        else (objectRead, bucketList, refuse (''the action '' @ inQuotes v) unsupported))"

fun grant_scopes :: "bool \<Rightarrow> bool \<Rightarrow> Scope list \<Rightarrow> AnonymousGrants \<Rightarrow> AnonymousGrants" where
  "grant_scopes objectRead bucketList [] grants = grants"
| "grant_scopes objectRead bucketList (scope # scopes) grants =
     (let grants = (if objectRead \<and> (scope = ObjectsScope \<or> scope = BothScopes)
                    then grants\<lparr>readObjects := True\<rparr> else grants);
          grants = (if bucketList \<and> (scope = BucketScope \<or> scope = BothScopes)
                    then grants\<lparr>listBucket := True\<rparr> else grants)
      in grant_scopes objectRead bucketList scopes grants)"

text \<open>
  One turn of the loop over the statements: what it grants on top, or the refusal that ends the
  loop, or the exception.
\<close>

datatype turn = Granted AnonymousGrants | Refused string | Thrown

definition read_actions :: "json \<Rightarrow> Scope list \<Rightarrow> AnonymousGrants \<Rightarrow> turn" where
  "read_actions statement scopes grants =
     (case member ''Action'' statement of
        None \<Rightarrow> Refused ''a statement with no Action''
      | Some field \<Rightarrow>
          let (readable, objectRead, bucketList, unsupported) =
                forEachString field visit_action (False, False, []);
              unsupported = (if \<not> readable
                then refuse ''an Action that is neither a string nor a list of them'' unsupported else unsupported)
          in if unsupported \<noteq> [] then Refused unsupported
             else Granted (grant_scopes objectRead bucketList scopes grants))"

definition read_resources :: "string \<Rightarrow> json \<Rightarrow> AnonymousGrants \<Rightarrow> turn" where
  "read_resources bucket statement grants =
     (case member ''Resource'' statement of
        None \<Rightarrow> Refused ''a statement with no Resource''
      | Some field \<Rightarrow>
          let (readable, scopes, unsupported) =
                forEachString field (visit_resource (kArnPrefix @ bucket)) ([], []);
              unsupported = (if \<not> readable
                then refuse ''a Resource that is neither a string nor a list of them'' unsupported else unsupported)
          in if unsupported \<noteq> [] then Refused unsupported else read_actions statement scopes grants)"

definition inverted_element :: "json \<Rightarrow> string option" where
  "inverted_element statement = List.find (contains statement) [''NotAction'', ''NotResource'', ''NotPrincipal'']"

definition read_statement :: "string \<Rightarrow> json \<Rightarrow> AnonymousGrants \<Rightarrow> turn" where
  "read_statement bucket statement grants =
     (if \<not> is_object statement then Refused ''a statement that is not an object''
      else if contains statement ''Condition'' then Refused ''a Condition block''
      else case inverted_element statement of
        Some inverted \<Rightarrow> Refused (''a '' @ inverted @ '' element'')
      | None \<Rightarrow>
        case (case member ''Effect'' statement of None \<Rightarrow> Some [] | Some e \<Rightarrow> string_value e) of
          None \<Rightarrow> Thrown
        | Some effect \<Rightarrow>
          if effect = ''Deny'' then Refused ''a Deny statement''
          else if effect \<noteq> ''Allow''
          then Refused (''an Effect other than '' @ inQuotes ''Allow'' @ '' or '' @ inQuotes ''Deny'')
          else case member ''Principal'' statement of
            None \<Rightarrow> Refused ''a statement with no Principal''
          | Some who \<Rightarrow>
            if \<not> principal_everyone who then Refused (''a Principal other than '' @ inQuotes ''*'')
            else read_resources bucket statement grants)"

fun read_statements :: "string \<Rightarrow> json list \<Rightarrow> AnonymousGrants \<Rightarrow> turn" where
  "read_statements bucket [] grants = Granted grants"
| "read_statements bucket (statement # statements) grants =
     (case read_statement bucket statement grants of
        Granted grants \<Rightarrow> read_statements bucket statements grants
      | stop \<Rightarrow> stop)"

definition unsupported_policy :: "string \<Rightarrow> s3_exn + PolicyAnalysis" where
  "unsupported_policy what = Inr \<lparr>pa_grants = no_grants, pa_unsupported = what\<rparr>"

definition version_known :: "json \<Rightarrow> bool" where
  "version_known policy \<longleftrightarrow>
     (case member ''Version'' policy of
        None \<Rightarrow> True
      | Some version \<Rightarrow> string_value version \<in> {Some ''2012-10-17'', Some ''2008-10-17''})"

definition statements_of :: "json \<Rightarrow> json list option" where
  "statements_of field =
     (case field of JArray items \<Rightarrow> Some items | JObject ms \<Rightarrow> Some [field] | _ \<Rightarrow> None)"

definition analyseBucketPolicy :: "json_parser \<Rightarrow> string \<Rightarrow> string \<Rightarrow> s3_exn + PolicyAnalysis" where
  "analyseBucketPolicy parse document bucket =
     (case parse document of
        None \<Rightarrow> unsupported_policy ''a document that is not valid JSON''
      | Some policy \<Rightarrow>
        if \<not> is_object policy then unsupported_policy ''a document that is not a JSON object''
        else if \<not> version_known policy
        then unsupported_policy (''a Version other than '' @ inQuotes ''2012-10-17'')
        else case member ''Statement'' policy of
          None \<Rightarrow> unsupported_policy ''a document with no Statement''
        | Some field \<Rightarrow>
          case statements_of field of
            None \<Rightarrow> unsupported_policy ''a Statement that is neither an object nor an array''
          | Some statements \<Rightarrow>
            case read_statements bucket statements no_grants of
              Granted grants \<Rightarrow> Inr \<lparr>pa_grants = grants, pa_unsupported = []\<rparr>
            | Refused what \<Rightarrow> unsupported_policy what
            | Thrown \<Rightarrow> Inl LibraryException)"

definition validateBucketPolicy :: "json_parser \<Rightarrow> string \<Rightarrow> string \<Rightarrow> s3_exn + unit" where
  "validateBucketPolicy parse document bucket =
     (if document = [] then Inl (S3Exception E_InvalidArgument)
      else if kMaxPolicyBytes < length document then Inl (S3Exception E_InvalidArgument)
      else sbind (analyseBucketPolicy parse document bucket) (\<lambda>analysis.
        if understood analysis then Inr () else Inl (S3Exception E_InvalidArgument)))"

section \<open>What a document grants\<close>

fun texts_of :: "json \<Rightarrow> string list option" where
  "texts_of (JString v) = Some [v]"
| "texts_of (JArray items) =
     (if items \<noteq> [] \<and> list_all (\<lambda>i. string_value i \<noteq> None) items then Some (map (the \<circ> string_value) items)
      else None)"
| "texts_of j = None"

lemma visit_items_all:
  "list_all (\<lambda>i. string_value i \<noteq> None) items \<Longrightarrow>
   visit_items visit items s = (True, fold visit (map (the \<circ> string_value) items) s)"
  by (induction items arbitrary: s) auto

lemma visit_items_readable:
  "fst (visit_items visit items s) \<longleftrightarrow> list_all (\<lambda>i. string_value i \<noteq> None) items"
  by (induction items arbitrary: s) (auto split: option.split)

lemma forEachString_Some: "texts_of j = Some vs \<Longrightarrow> forEachString j visit s = (True, fold visit vs s)"
  by (cases j) (auto simp: visit_items_all split: if_splits)

lemma forEachString_None: "texts_of j = None \<Longrightarrow> \<not> fst (forEachString j visit s)"
  by (cases j) (auto simp: visit_items_readable split: if_splits)

definition everyone :: "json \<Rightarrow> bool" where
  "everyone who \<longleftrightarrow>
     who = JString ''*'' \<or>
     (\<exists>j vs. who = JObject [(''AWS'', j)] \<and> texts_of j = Some vs \<and> set vs \<subseteq> {''*''})"

lemma fold_all_star:
  "fold (\<lambda>v every. if v \<noteq> ''*'' then False else every) vs b \<longleftrightarrow> b \<and> set vs \<subseteq> {''*''}"
  by (induction vs arbitrary: b) auto

lemma principal_everyone_iff: "principal_everyone who \<longleftrightarrow> everyone who"
proof (cases who)
  case (JObject ms)
  show ?thesis
  proof (cases "\<exists>j. ms = [(''AWS'', j)]")
    case True
    then obtain j where ms: "ms = [(''AWS'', j)]" by blast
    show ?thesis
      using forEachString_None [of j "\<lambda>v every. if v \<noteq> ''*'' then False else every" True]
      by (cases "texts_of j")
        (auto simp: principal_everyone_def everyone_def JObject ms contains_def forEachString_Some fold_all_star
          split: prod.splits)
  next
    case False
    then have "length ms = 1 \<Longrightarrow> \<not> contains who ''AWS''"
      by (cases ms) (auto simp: JObject contains_def split: if_splits)
    then show ?thesis using False by (auto simp: principal_everyone_def everyone_def JObject)
  qed
qed (auto simp: principal_everyone_def everyone_def)

definition resource_names :: "string \<Rightarrow> string list" where
  "resource_names bucket = [''*'', kArnPrefix @ bucket, kArnPrefix @ bucket @ ''/*'']"

definition action_names :: "string list" where
  "action_names = [''*'', ''s3:*'', ''s3:GetObject'', ''s3:ListBucket'']"

definition field_texts :: "string \<Rightarrow> json \<Rightarrow> string list option" where
  "field_texts name statement = Option.bind (member name statement) texts_of"

text \<open>A statement inside the grammar, and what it grants.\<close>

definition statement_ok :: "string \<Rightarrow> json \<Rightarrow> bool" where
  "statement_ok bucket statement \<longleftrightarrow>
     is_object statement \<and>
     list_all (\<lambda>name. member name statement = None) [''Condition'', ''NotAction'', ''NotResource'', ''NotPrincipal''] \<and>
     member ''Effect'' statement = Some (JString ''Allow'') \<and>
     (\<exists>who. member ''Principal'' statement = Some who \<and> everyone who) \<and>
     (\<exists>vs. field_texts ''Resource'' statement = Some vs \<and> set vs \<subseteq> set (resource_names bucket)) \<and>
     (\<exists>vs. field_texts ''Action'' statement = Some vs \<and> set vs \<subseteq> set action_names)"

definition mentions :: "json \<Rightarrow> string \<Rightarrow> string list \<Rightarrow> bool" where
  "mentions statement name vs \<longleftrightarrow> (\<exists>us. field_texts name statement = Some us \<and> set us \<inter> set vs \<noteq> {})"

definition reads_objects :: "string \<Rightarrow> json \<Rightarrow> bool" where
  "reads_objects bucket statement \<longleftrightarrow>
     mentions statement ''Action'' [''*'', ''s3:*'', ''s3:GetObject''] \<and>
     mentions statement ''Resource'' [''*'', kArnPrefix @ bucket @ ''/*'']"

definition lists_bucket :: "string \<Rightarrow> json \<Rightarrow> bool" where
  "lists_bucket bucket statement \<longleftrightarrow>
     mentions statement ''Action'' [''*'', ''s3:*'', ''s3:ListBucket''] \<and>
     mentions statement ''Resource'' [''*'', kArnPrefix @ bucket]"

lemma refuse_empty [simp]: "refuse what u = [] \<longleftrightarrow> u = [] \<and> what = []"
  by (simp add: refuse_def)

definition scope_of :: "string \<Rightarrow> string \<Rightarrow> Scope" where
  "scope_of arn v = (if v = ''*'' then BothScopes else if v = arn then BucketScope else ObjectsScope)"

lemma fold_resources:
  assumes "A = {''*'', arn, arn @ ''/*''}"
  shows "fold (visit_resource arn) vs (scopes, u) = (scopes', u') \<Longrightarrow>
   (u' = [] \<longleftrightarrow> u = [] \<and> set vs \<subseteq> A) \<and> (set vs \<subseteq> A \<longrightarrow> scopes' = scopes @ map (scope_of arn) vs)"
proof (induction vs arbitrary: scopes u)
  case (Cons v vs)
  obtain s1 u1 where 1: "visit_resource arn v (scopes, u) = (s1, u1)" by fastforce
  have a: "(u1 = [] \<longleftrightarrow> u = [] \<and> v \<in> A) \<and> (v \<in> A \<longrightarrow> s1 = scopes @ [scope_of arn v])"
  proof (cases "v \<in> A")
    case True
    then consider "v = ''*''" | "v \<noteq> ''*''" "v = arn" | "v \<noteq> ''*''" "v \<noteq> arn" "v = arn @ ''/*''"
      by (auto simp: assms)
    then show ?thesis
      using 1 True by cases (simp_all add: visit_resource_def scope_of_def)
  next
    case False
    then have "v \<noteq> ''*''" "v \<noteq> arn" "v \<noteq> arn @ ''/*''" by (simp_all add: assms)
    then show ?thesis
      using 1 False by (simp add: visit_resource_def split: if_splits) (auto simp: refuse_def split: if_splits)
  qed
  from Cons.prems 1 have "fold (visit_resource arn) vs (s1, u1) = (scopes', u')" by simp
  from Cons.IH [OF this] a show ?case by (cases "v \<in> A") simp_all
qed simp

definition read_actions_set :: "string set" where
  "read_actions_set = set [''*'', ''s3:*'', ''s3:GetObject'']"

definition list_actions_set :: "string set" where
  "list_actions_set = set [''*'', ''s3:*'', ''s3:ListBucket'']"

lemma visit_action_cases:
  assumes "visit_action v (r, l, u) = (r1, l1, u1)"
  shows "(u1 = [] \<longleftrightarrow> u = [] \<and> v \<in> set action_names) \<and>
      (v \<in> set action_names \<longrightarrow> (r1 \<longleftrightarrow> r \<or> v \<in> read_actions_set) \<and> (l1 \<longleftrightarrow> l \<or> v \<in> list_actions_set))"
proof (cases "v \<in> set action_names")
  case True
  then consider "v = ''*''" | "v = ''s3:*''" | "v = ''s3:GetObject''" | "v = ''s3:ListBucket''"
    by (auto simp: action_names_def)
  then show ?thesis
    using assms by cases (simp_all add: visit_action_def action_names_def read_actions_set_def list_actions_set_def)
next
  case False
  then have "v \<noteq> ''*''" "v \<noteq> ''s3:*''" "v \<noteq> ''s3:GetObject''" "v \<noteq> ''s3:ListBucket''"
    by (auto simp: action_names_def)
  then show ?thesis using assms False by (simp add: visit_action_def) (auto simp: refuse_def split: if_splits)
qed

lemma fold_actions:
  "fold visit_action vs (r, l, u) = (r', l', u') \<Longrightarrow>
   (u' = [] \<longleftrightarrow> u = [] \<and> set vs \<subseteq> set action_names) \<and>
   (set vs \<subseteq> set action_names \<longrightarrow>
      (r' \<longleftrightarrow> r \<or> set vs \<inter> read_actions_set \<noteq> {}) \<and> (l' \<longleftrightarrow> l \<or> set vs \<inter> list_actions_set \<noteq> {}))"
proof (induction vs arbitrary: r l u)
  case (Cons v vs)
  obtain r1 l1 u1 where 1: "visit_action v (r, l, u) = (r1, l1, u1)" by (metis prod_cases3)
  from Cons.prems 1 have "fold visit_action vs (r1, l1, u1) = (r', l', u')" by simp
  from Cons.IH [OF this] visit_action_cases [OF 1] show ?case
    by (cases "v \<in> set action_names") auto
qed simp

lemma grant_scopes_sets:
  "grant_scopes r l scopes grants =
     \<lparr>readObjects = readObjects grants \<or> r \<and> set scopes \<inter> {ObjectsScope, BothScopes} \<noteq> {},
      listBucket = listBucket grants \<or> l \<and> set scopes \<inter> {BucketScope, BothScopes} \<noteq> {}\<rparr>"
proof (induction scopes arbitrary: grants)
  case (Cons scope scopes)
  show ?case
    by (cases grants; cases scope) (auto simp: Let_def Cons)
qed (simp add: Int_def)

lemma read_actions_Granted:
  "read_actions statement scopes grants = Granted g \<longleftrightarrow>
     (\<exists>vs. field_texts ''Action'' statement = Some vs \<and> set vs \<subseteq> set action_names \<and>
        g = grant_scopes (set vs \<inter> read_actions_set \<noteq> {}) (set vs \<inter> list_actions_set \<noteq> {}) scopes grants)"
proof (cases "member ''Action'' statement")
  case (Some field)
  show ?thesis
  proof (cases "texts_of field")
    case None
    obtain b s where v: "forEachString field visit_action (False, False, []) = (b, s)" by (metis surj_pair)
    then have "\<not> b" using forEachString_None [OF None, of visit_action "(False, False, [])"] by simp
    then show ?thesis
      using v None by (auto simp: read_actions_def field_texts_def Some split: prod.splits)
  next
    case texts: (Some vs)
    obtain r l u where f: "fold visit_action vs (False, False, []) = (r, l, u)" by (metis prod_cases3)
    from fold_actions [OF f] show ?thesis
      by (auto simp: read_actions_def field_texts_def Some texts forEachString_Some f)
  qed
qed (simp add: read_actions_def field_texts_def)

lemma read_resources_Granted:
  "read_resources bucket statement grants = Granted g \<longleftrightarrow>
     (\<exists>vs. field_texts ''Resource'' statement = Some vs \<and> set vs \<subseteq> set (resource_names bucket) \<and>
        read_actions statement (map (scope_of (kArnPrefix @ bucket)) vs) grants = Granted g)"
proof (cases "member ''Resource'' statement")
  case (Some field)
  show ?thesis
  proof (cases "texts_of field")
    case None
    let ?visit = "visit_resource (kArnPrefix @ bucket)"
    obtain b s where v: "forEachString field ?visit ([], []) = (b, s)" by (metis surj_pair)
    then have "\<not> b" using forEachString_None [OF None, of ?visit "([], [])"] by simp
    then show ?thesis
      using v None by (auto simp: read_resources_def field_texts_def Some split: prod.splits)
  next
    case texts: (Some vs)
    obtain sc u where f: "fold (visit_resource (kArnPrefix @ bucket)) vs ([], []) = (sc, u)" by fastforce
    have names: "set (resource_names bucket) = {''*'', kArnPrefix @ bucket, (kArnPrefix @ bucket) @ ''/*''}"
      by (simp add: resource_names_def)
    from fold_resources [OF names f] show ?thesis
      by (auto simp: read_resources_def field_texts_def Some texts forEachString_Some f)
  qed
qed (simp add: read_resources_def field_texts_def)

lemma scopes_named:
  assumes "set vs \<subseteq> set (resource_names bucket)"
  shows "set (map (scope_of (kArnPrefix @ bucket)) vs) \<inter> {ObjectsScope, BothScopes} \<noteq> {} \<longleftrightarrow>
      set vs \<inter> set [''*'', kArnPrefix @ bucket @ ''/*''] \<noteq> {}"
    "set (map (scope_of (kArnPrefix @ bucket)) vs) \<inter> {BucketScope, BothScopes} \<noteq> {} \<longleftrightarrow>
      set vs \<inter> set [''*'', kArnPrefix @ bucket] \<noteq> {}"
proof -
  let ?arn = "kArnPrefix @ bucket"
  have star: "''*'' \<noteq> ?arn" "''*'' \<noteq> ?arn @ ''/*''" "?arn \<noteq> ?arn @ ''/*''"
    by (simp_all add: kArnPrefix_def)
  have objects: "scope_of ?arn v \<in> {ObjectsScope, BothScopes} \<longleftrightarrow> v \<in> set [''*'', ?arn @ ''/*'']"
    and bucket: "scope_of ?arn v \<in> {BucketScope, BothScopes} \<longleftrightarrow> v \<in> set [''*'', ?arn]"
    if "v \<in> set vs" for v
  proof -
    have "v = ''*'' \<or> v = ?arn \<or> v = ?arn @ ''/*''"
      using assms that by (auto simp: resource_names_def)
    then show "scope_of ?arn v \<in> {ObjectsScope, BothScopes} \<longleftrightarrow> v \<in> set [''*'', ?arn @ ''/*'']"
      "scope_of ?arn v \<in> {BucketScope, BothScopes} \<longleftrightarrow> v \<in> set [''*'', ?arn]"
      using star by (auto simp: scope_of_def)
  qed
  show "set (map (scope_of ?arn) vs) \<inter> {ObjectsScope, BothScopes} \<noteq> {} \<longleftrightarrow>
      set vs \<inter> set [''*'', kArnPrefix @ bucket @ ''/*''] \<noteq> {}"
    using objects by (simp only: append_assoc set_map) blast
  show "set (map (scope_of ?arn) vs) \<inter> {BucketScope, BothScopes} \<noteq> {} \<longleftrightarrow>
      set vs \<inter> set [''*'', kArnPrefix @ bucket] \<noteq> {}"
    using bucket by (simp only: set_map) blast
qed

lemma mentions_field:
  "field_texts name statement = Some us \<Longrightarrow> mentions statement name vs \<longleftrightarrow> set us \<inter> set vs \<noteq> {}"
  by (simp add: mentions_def)

lemma read_statement_Granted:
  "read_statement bucket statement grants = Granted g \<longleftrightarrow>
     statement_ok bucket statement \<and>
     g = \<lparr>readObjects = readObjects grants \<or> reads_objects bucket statement,
          listBucket = listBucket grants \<or> lists_bucket bucket statement\<rparr>"
proof -
  have effect: "(case (case member ''Effect'' statement of None \<Rightarrow> Some [] | Some e \<Rightarrow> string_value e) of
        None \<Rightarrow> False | Some effect \<Rightarrow> effect = ''Allow'') \<longleftrightarrow>
      member ''Effect'' statement = Some (JString ''Allow'')"
    by (auto split: option.split elim!: string_value.elims)
  have head: "read_statement bucket statement grants = Granted g \<longleftrightarrow>
      is_object statement \<and>
      list_all (\<lambda>name. member name statement = None) [''Condition'', ''NotAction'', ''NotResource'', ''NotPrincipal''] \<and>
      member ''Effect'' statement = Some (JString ''Allow'') \<and>
      (\<exists>who. member ''Principal'' statement = Some who \<and> everyone who) \<and>
      read_resources bucket statement grants = Granted g"
    unfolding effect [symmetric]
    by (auto simp: read_statement_def inverted_element_def contains_def principal_everyone_iff
        split: option.split if_splits)
  have tail: "read_resources bucket statement grants = Granted g \<longleftrightarrow>
      (\<exists>vs. field_texts ''Resource'' statement = Some vs \<and> set vs \<subseteq> set (resource_names bucket)) \<and>
      (\<exists>vs. field_texts ''Action'' statement = Some vs \<and> set vs \<subseteq> set action_names) \<and>
      g = \<lparr>readObjects = readObjects grants \<or> reads_objects bucket statement,
           listBucket = listBucket grants \<or> lists_bucket bucket statement\<rparr>"
  proof (cases "\<exists>vs us. field_texts ''Resource'' statement = Some vs \<and> set vs \<subseteq> set (resource_names bucket) \<and>
      field_texts ''Action'' statement = Some us \<and> set us \<subseteq> set action_names")
    case True
    then obtain vs us where f: "field_texts ''Resource'' statement = Some vs" "field_texts ''Action'' statement = Some us"
      and sub: "set vs \<subseteq> set (resource_names bucket)" "set us \<subseteq> set action_names" by blast
    have "read_resources bucket statement grants = Granted g \<longleftrightarrow>
        g = grant_scopes (set us \<inter> read_actions_set \<noteq> {}) (set us \<inter> list_actions_set \<noteq> {})
          (map (scope_of (kArnPrefix @ bucket)) vs) grants"
      using f sub by (simp only: read_resources_Granted read_actions_Granted) auto
    moreover have "reads_objects bucket statement \<longleftrightarrow> set us \<inter> read_actions_set \<noteq> {} \<and>
        set (map (scope_of (kArnPrefix @ bucket)) vs) \<inter> {ObjectsScope, BothScopes} \<noteq> {}"
      unfolding scopes_named [OF sub(1)] reads_objects_def mentions_field [OF f(1)] mentions_field [OF f(2)]
        read_actions_set_def by (rule refl)
    moreover have "lists_bucket bucket statement \<longleftrightarrow> set us \<inter> list_actions_set \<noteq> {} \<and>
        set (map (scope_of (kArnPrefix @ bucket)) vs) \<inter> {BucketScope, BothScopes} \<noteq> {}"
      unfolding scopes_named [OF sub(1)] lists_bucket_def mentions_field [OF f(1)] mentions_field [OF f(2)]
        list_actions_set_def by (rule refl)
    ultimately show ?thesis
      using f sub by (simp only: grant_scopes_sets) blast
  next
    case False
    then show ?thesis by (simp only: read_resources_Granted read_actions_Granted) blast
  qed
  show ?thesis unfolding head tail statement_ok_def by blast
qed

lemma read_statements_Granted:
  "read_statements bucket statements grants = Granted g \<longleftrightarrow>
     list_all (statement_ok bucket) statements \<and>
     g = \<lparr>readObjects = readObjects grants \<or> list_ex (reads_objects bucket) statements,
          listBucket = listBucket grants \<or> list_ex (lists_bucket bucket) statements\<rparr>"
proof (induction statements arbitrary: grants)
  case (Cons statement statements)
  show ?case
  proof (cases "read_statement bucket statement grants")
    case (Granted g1)
    then show ?thesis
      using read_statement_Granted [of bucket statement grants g1] by (auto simp: Cons)
  qed (use read_statement_Granted [of bucket statement grants] in auto)
qed (cases grants; auto)

lemma refused_with_reason:
  "read_actions statement scopes grants = Refused what \<Longrightarrow> what \<noteq> []"
  "read_resources bucket statement grants = Refused what \<Longrightarrow> what \<noteq> []"
  "read_statement bucket statement grants = Refused what \<Longrightarrow> what \<noteq> []"
proof -
  show a: "read_actions statement scopes grants = Refused what \<Longrightarrow> what \<noteq> []" for grants scopes what
    by (auto simp: read_actions_def Let_def split: option.splits prod.splits if_splits)
  show r: "read_resources bucket statement grants = Refused what \<Longrightarrow> what \<noteq> []" for grants what
    by (auto simp: read_resources_def Let_def dest: a split: option.splits prod.splits if_splits)
  show "read_statement bucket statement grants = Refused what \<Longrightarrow> what \<noteq> []"
    by (auto simp: read_statement_def dest: r split: option.splits if_splits)
qed

lemma statements_refused_with_reason:
  "read_statements bucket statements grants = Refused what \<Longrightarrow> what \<noteq> []"
  by (induction statements arbitrary: grants)
    (auto dest: refused_with_reason split: turn.splits)

definition policy_statements :: "json_parser \<Rightarrow> string \<Rightarrow> json list option" where
  "policy_statements parse document =
     Option.bind (parse document) (\<lambda>policy.
       if is_object policy \<and> version_known policy
       then Option.bind (member ''Statement'' policy) statements_of else None)"

text \<open>
  C37: A policy that is understood grants what it says, and nothing is ignored. A document is
  understood exactly when it is an object of a known version whose statements all lie within the
  grammar (allow, for everyone, the bucket or all its objects, the two readable actions or all,
  and no element that narrows or inverts); anonymous clients may then read objects exactly when
  some statement names a reading action together with the objects, and list the bucket exactly
  when some statement names a listing action together with the bucket.
\<close>

theorem policy_grants_what_it_says:
  "(\<exists>analysis. analyseBucketPolicy parse document bucket = Inr analysis \<and> understood analysis \<and>
      pa_grants analysis = grants) \<longleftrightarrow>
   (\<exists>statements. policy_statements parse document = Some statements \<and>
      list_all (statement_ok bucket) statements \<and>
      grants = \<lparr>readObjects = list_ex (reads_objects bucket) statements,
                listBucket = list_ex (lists_bucket bucket) statements\<rparr>)"
proof (cases "policy_statements parse document")
  case None
  then show ?thesis
    by (auto simp: policy_statements_def analyseBucketPolicy_def unsupported_policy_def understood_def
        split: option.splits if_splits)
next
  case (Some statements)
  then have a: "analyseBucketPolicy parse document bucket =
      (case read_statements bucket statements no_grants of
         Granted g \<Rightarrow> Inr \<lparr>pa_grants = g, pa_unsupported = []\<rparr>
       | Refused what \<Rightarrow> unsupported_policy what
       | Thrown \<Rightarrow> Inl LibraryException)"
    by (auto simp: policy_statements_def analyseBucketPolicy_def bind_eq_Some_conv split: if_splits)
  show ?thesis
    using read_statements_Granted [of bucket statements no_grants] statements_refused_with_reason
    by (auto simp: a Some unsupported_policy_def understood_def no_grants_def split: turn.splits)
qed

text \<open>
  A statement whose \<open>Effect\<close> is there and is no string, and that is not refused before it is read.
\<close>

definition effect_escapes :: "json \<Rightarrow> bool" where
  "effect_escapes statement \<longleftrightarrow>
     is_object statement \<and>
     list_all (\<lambda>name. member name statement = None) [''Condition'', ''NotAction'', ''NotResource'', ''NotPrincipal''] \<and>
     (\<exists>e. member ''Effect'' statement = Some e \<and> (\<forall>t. e \<noteq> JString t))"

lemma string_value_None: "string_value e = None \<longleftrightarrow> (\<forall>t. e \<noteq> JString t)"
  by (cases e) auto

lemma read_never_thrown:
  "read_actions statement scopes grants \<noteq> Thrown" "read_resources bucket statement grants \<noteq> Thrown"
  by (auto simp: read_actions_def read_resources_def split: option.splits prod.splits)

lemma read_statement_Thrown: "read_statement bucket statement grants = Thrown \<longleftrightarrow> effect_escapes statement"
proof -
  have inverted: "inverted_element statement = None \<longleftrightarrow>
      list_all (\<lambda>name. member name statement = None) [''NotAction'', ''NotResource'', ''NotPrincipal'']"
    by (auto simp: inverted_element_def contains_def)
  let ?plain = "is_object statement \<and> list_all (\<lambda>name. member name statement = None)
      [''Condition'', ''NotAction'', ''NotResource'', ''NotPrincipal'']"
  show ?thesis
  proof (cases ?plain)
    case False
    then have "\<not> is_object statement \<or> contains statement ''Condition'' \<or> inverted_element statement \<noteq> None"
      using inverted by (auto simp: contains_def)
    then have "read_statement bucket statement grants \<noteq> Thrown"
      by (auto simp: read_statement_def)
    moreover have "\<not> effect_escapes statement" using False by (simp only: effect_escapes_def) blast
    ultimately show ?thesis by blast
  next
    case True
    then have plain: "is_object statement" "\<not> contains statement ''Condition''" "inverted_element statement = None"
      using inverted by (auto simp: contains_def)
    let ?effect = "case member ''Effect'' statement of None \<Rightarrow> Some [] | Some e \<Rightarrow> string_value e"
    have "read_statement bucket statement grants = Thrown \<longleftrightarrow> ?effect = None"
      using read_never_thrown(2) [of bucket statement grants]
      by (cases ?effect) (auto simp only: read_statement_def plain if_False if_True not_False_eq_True
        option.case turn.distinct split: option.split if_split)
    also have "\<dots> \<longleftrightarrow> (\<exists>e. member ''Effect'' statement = Some e \<and> string_value e = None)"
      by (simp split: option.split)
    also have "\<dots> \<longleftrightarrow> effect_escapes statement"
      using True by (simp only: effect_escapes_def string_value_None) blast
    finally show ?thesis .
  qed
qed

lemma read_statements_Thrown:
  "read_statements bucket statements grants = Thrown \<longleftrightarrow>
     (\<exists>ok st rest. statements = ok @ st # rest \<and> list_all (statement_ok bucket) ok \<and> effect_escapes st)"
proof (induction statements arbitrary: grants)
  case (Cons statement statements)
  have split: "(\<exists>ok st rest. statement # statements = ok @ st # rest \<and> list_all (statement_ok bucket) ok \<and> effect_escapes st) \<longleftrightarrow>
      effect_escapes statement \<or> statement_ok bucket statement \<and>
      (\<exists>ok st rest. statements = ok @ st # rest \<and> list_all (statement_ok bucket) ok \<and> effect_escapes st)"
  proof
    assume "\<exists>ok st rest. statement # statements = ok @ st # rest \<and> list_all (statement_ok bucket) ok \<and> effect_escapes st"
    then obtain ok st rest where "statement # statements = ok @ st # rest" "list_all (statement_ok bucket) ok"
      "effect_escapes st" by blast
    then show "effect_escapes statement \<or> statement_ok bucket statement \<and>
      (\<exists>ok st rest. statements = ok @ st # rest \<and> list_all (statement_ok bucket) ok \<and> effect_escapes st)"
      by (cases ok) auto
  next
    assume "effect_escapes statement \<or> statement_ok bucket statement \<and>
      (\<exists>ok st rest. statements = ok @ st # rest \<and> list_all (statement_ok bucket) ok \<and> effect_escapes st)"
    then show "\<exists>ok st rest. statement # statements = ok @ st # rest \<and> list_all (statement_ok bucket) ok \<and> effect_escapes st"
    proof
      assume "effect_escapes statement"
      then show ?thesis by (intro exI [of _ "[]"]) simp
    next
      assume "statement_ok bucket statement \<and>
        (\<exists>ok st rest. statements = ok @ st # rest \<and> list_all (statement_ok bucket) ok \<and> effect_escapes st)"
      then obtain ok st rest where "statement_ok bucket statement" "statements = ok @ st # rest"
        "list_all (statement_ok bucket) ok" "effect_escapes st" by blast
      then show ?thesis by (intro exI [of _ "statement # ok"]) auto
    qed
  qed
  have ok_no: "statement_ok bucket statement \<Longrightarrow> \<not> effect_escapes statement"
    by (auto simp: statement_ok_def effect_escapes_def)
  show ?case
    unfolding split
    using read_statement_Granted [of bucket statement grants] read_statement_Thrown [of bucket statement grants]
      Cons.IH ok_no
    by (cases "read_statement bucket statement grants") auto
qed simp

text \<open>The statements are within the grammar up to one whose effect escapes.\<close>

definition reaches_escape :: "json_parser \<Rightarrow> string \<Rightarrow> string \<Rightarrow> bool" where
  "reaches_escape parse document bucket \<longleftrightarrow>
     (\<exists>ok st rest. policy_statements parse document = Some (ok @ st # rest) \<and>
        list_all (statement_ok bucket) ok \<and> effect_escapes st)"

lemma analyse_throws:
  "analyseBucketPolicy parse document bucket = Inl x \<longleftrightarrow> x = LibraryException \<and> reaches_escape parse document bucket"
proof (cases "policy_statements parse document")
  case None
  then show ?thesis
    by (auto simp: reaches_escape_def policy_statements_def analyseBucketPolicy_def unsupported_policy_def
        split: option.splits if_splits)
next
  case (Some statements)
  then have a: "analyseBucketPolicy parse document bucket =
      (case read_statements bucket statements no_grants of
         Granted g \<Rightarrow> Inr \<lparr>pa_grants = g, pa_unsupported = []\<rparr>
       | Refused what \<Rightarrow> unsupported_policy what
       | Thrown \<Rightarrow> Inl LibraryException)"
    by (auto simp: policy_statements_def analyseBucketPolicy_def bind_eq_Some_conv split: if_splits)
  show ?thesis
    using read_statements_Thrown [of bucket statements no_grants]
    by (auto simp: reaches_escape_def a Some unsupported_policy_def split: turn.splits)
qed

text \<open>
  C38: An effect that is not a string escapes. The analysis is documented never to throw. It
  throws a library exception exactly when it comes to a statement whose \<open>Effect\<close> is a member of
  another type (null, a boolean, a number, an array or an object): all statements before lie
  within the grammar, and this one is an object without a condition or an inverted element.
  Validation passes the exception on for documents of an accepted length, and it is answered as
  an internal error instead of a refused document.
\<close>

theorem effect_of_another_type_throws:
  "(analyseBucketPolicy parse document bucket = Inl x \<longleftrightarrow>
      x = LibraryException \<and> reaches_escape parse document bucket) \<and>
   (validateBucketPolicy parse document bucket = Inl LibraryException \<longleftrightarrow>
      document \<noteq> [] \<and> length document \<le> kMaxPolicyBytes \<and> reaches_escape parse document bucket)"
proof
  show "analyseBucketPolicy parse document bucket = Inl x \<longleftrightarrow>
      x = LibraryException \<and> reaches_escape parse document bucket" by (rule analyse_throws)
  show "validateBucketPolicy parse document bucket = Inl LibraryException \<longleftrightarrow>
      document \<noteq> [] \<and> length document \<le> kMaxPolicyBytes \<and> reaches_escape parse document bucket"
    using analyse_throws [of parse document bucket]
    by (cases "analyseBucketPolicy parse document bucket") (auto simp: validateBucketPolicy_def)
qed

end
