(* ===== verification/Base64.thy ===== *)
theory Base64
  imports Text
begin

text \<open>
  Base64 as s3/base64.cpp writes and reads it: three bytes are four characters, a shorter last
  group is padded, and the decoder refuses everything that is not whole groups with the padding
  at their end.
\<close>

definition kAlphabet :: string where
  "kAlphabet = ''ABCDEFGHIJKLMNOPQRSTUVWXYZabcdefghijklmnopqrstuvwxyz0123456789+/''"

definition valueOf :: "char \<Rightarrow> int" where
  "valueOf c =
     (if CHR ''A'' \<le> c \<and> c \<le> CHR ''Z'' then int (uchar c) - int (uchar (CHR ''A''))
      else if CHR ''a'' \<le> c \<and> c \<le> CHR ''z'' then int (uchar c) - int (uchar (CHR ''a'')) + 26
      else if CHR ''0'' \<le> c \<and> c \<le> CHR ''9'' then int (uchar c) - int (uchar (CHR ''0'')) + 52
      else if c = CHR ''+'' then 62
      else if c = CHR ''/'' then 63
      else - 1)"

definition sextet :: "u32 \<Rightarrow> nat \<Rightarrow> char" where
  "sextet triple shift = kAlphabet ! unat (drop_bit shift triple AND 0x3F)"

fun base64Encode :: "string \<Rightarrow> string" where
  "base64Encode [] = []"
| "base64Encode [a] =
     (let triple = push_bit 16 (byte_val a)
      in [sextet triple 18, sextet triple 12, CHR ''='', CHR ''=''])"
| "base64Encode [a, b] =
     (let triple = push_bit 16 (byte_val a) OR push_bit 8 (byte_val b)
      in [sextet triple 18, sextet triple 12, sextet triple 6, CHR ''=''])"
| "base64Encode (a # b # c # rest) =
     (let triple = push_bit 16 (byte_val a) OR push_bit 8 (byte_val b) OR byte_val c
      in sextet triple 18 # sextet triple 12 # sextet triple 6 # sextet triple 0 # base64Encode rest)"

text \<open>
  The inner loop over the four characters of a group, at position \<open>j\<close> with \<open>padding\<close> pad
  characters seen; a pad character leaves its value 0.
\<close>

fun group_loop :: "bool \<Rightarrow> nat \<Rightarrow> nat \<Rightarrow> string \<Rightarrow> (nat \<times> int list) option" where
  "group_loop final j padding [] = Some (padding, [])"
| "group_loop final j padding (ch # rest) =
     (if ch = CHR ''=''
      then if \<not> final \<or> j < 2 then None
           else map_option (\<lambda>(p, vs). (p, 0 # vs)) (group_loop final (Suc j) (Suc padding) rest)
      else if 0 < padding then None
      else if valueOf ch < 0 then None
      else map_option (\<lambda>(p, vs). (p, valueOf ch # vs)) (group_loop final (Suc j) padding rest))"

definition group_bytes :: "nat \<Rightarrow> int list \<Rightarrow> string" where
  "group_bytes padding vs =
     (let triple = push_bit 18 (of_int (vs ! 0)) OR push_bit 12 (of_int (vs ! 1)) OR
            push_bit 6 (of_int (vs ! 2)) OR of_int (vs ! 3) :: u32
      in byte_of (drop_bit 16 triple AND 0xFF) #
         (if padding < 2 then [byte_of (drop_bit 8 triple AND 0xFF)] else []) @
         (if padding < 1 then [byte_of (triple AND 0xFF)] else []))"

fun decode_groups :: "string \<Rightarrow> string option" where
  "decode_groups (a # b # c # d # rest) =
     (case group_loop (rest = []) 0 0 [a, b, c, d] of
        None \<Rightarrow> None
      | Some (padding, vs) \<Rightarrow> map_option (\<lambda>out. group_bytes padding vs @ out) (decode_groups rest))"
| "decode_groups _ = Some []"

definition base64Decode :: "string \<Rightarrow> string option" where
  "base64Decode s = (if s = [] \<or> length s mod 4 \<noteq> 0 then None else decode_groups s)"

section \<open>Decoding undoes encoding\<close>

lemma kAlphabet_values: "n < 64 \<Longrightarrow> valueOf (kAlphabet ! n) = int n \<and> kAlphabet ! n \<noteq> CHR ''=''"
proof -
  assume "n < 64"
  then have "n \<in> set [0..<64]" by simp
  moreover have "\<forall>n\<in>set [0..<64]. valueOf (kAlphabet ! n) = int n \<and> kAlphabet ! n \<noteq> CHR ''=''"
    by code_simp
  ultimately show ?thesis by blast
qed

lemma and_0x3F: "v AND 0x3F = take_bit 6 (v :: 'a::len word)"
  by (simp add: take_bit_eq_mask mask_eq_exp_minus_1)

lemma unat_sextet: "unat (drop_bit n (v :: u32) AND 0x3F) < 64"
proof -
  have "unat (drop_bit n v AND 0x3F) = take_bit 6 (unat (drop_bit n v))"
    by (simp only: and_0x3F unsigned_take_bit_eq)
  also have "\<dots> < 2 ^ 6" by (rule take_bit_nat_less_exp)
  finally show ?thesis by simp
qed

lemma sextet_value [simp]:
  "valueOf (sextet v n) = int (unat (drop_bit n v AND 0x3F))" "sextet v n \<noteq> CHR ''=''"
  using kAlphabet_values [OF unat_sextet] by (simp_all add: sextet_def)

lemma sextet_not_negative [simp]: "\<not> valueOf (sextet v n) < 0"
  by simp

lemma of_int_sextet: "(of_int (int (unat (drop_bit n v AND 0x3F))) :: u32) = take_bit 6 (drop_bit n v)"
  by (simp add: and_0x3F)

lemma bit_field:
  "bit (push_bit k (take_bit 6 (drop_bit k (v :: u32)))) n \<longleftrightarrow> k \<le> n \<and> n < k + 6 \<and> n < 32 \<and> bit v n"
  by (cases "k \<le> n") (auto simp: bit_simps)

lemma bit_field_0: "bit (take_bit 6 (drop_bit 0 (v :: u32))) n \<longleftrightarrow> n < 6 \<and> bit v n"
  by (auto simp: bit_simps)

lemma join_sextets:
  fixes v :: u32
  shows "push_bit 18 (take_bit 6 (drop_bit 18 v)) OR push_bit 12 (take_bit 6 (drop_bit 12 v)) OR
    push_bit 6 (take_bit 6 (drop_bit 6 v)) OR take_bit 6 (drop_bit 0 v) = take_bit 24 v"
  by (rule bit_word_eqI) (auto simp: bit_or_iff bit_field bit_field_0 bit_take_bit_iff)

lemma join_sextets_short:
  fixes v :: u32
  shows "push_bit 18 (take_bit 6 (drop_bit 18 v)) OR push_bit 12 (take_bit 6 (drop_bit 12 v)) =
      take_bit 24 v AND NOT (mask 12)"
    "push_bit 18 (take_bit 6 (drop_bit 18 v)) OR push_bit 12 (take_bit 6 (drop_bit 12 v)) OR
      push_bit 6 (take_bit 6 (drop_bit 6 v)) = take_bit 24 v AND NOT (mask 6)"
  by (rule bit_word_eqI; auto simp: bit_or_iff bit_field bit_take_bit_iff bit_and_iff bit_not_iff bit_mask_iff)+

lemma bit_byte_val: "bit (byte_val c :: u32) n \<Longrightarrow> n < 8"
proof (rule ccontr)
  assume b: "bit (byte_val c :: u32) n" and "\<not> n < 8"
  have "take_bit 8 (byte_val c :: u32) = byte_val c"
    using uchar_less_256 [of c] by (simp add: word_unat_eq_iff unsigned_take_bit_eq take_bit_nat_eq_self)
  then have "bit (take_bit 8 (byte_val c :: u32)) n" using b by simp
  then show False using \<open>\<not> n < 8\<close> by (simp add: bit_take_bit_iff)
qed

lemma byte_of_take_byte:
  fixes v :: u32
  assumes "take_bit 8 v = byte_val c"
  shows "byte_of (v AND 0xFF) = c"
  unfolding and_0xFF assms by (simp flip: uchar_inject add: uchar_byte_of)

lemma triple_bytes:
  fixes a b c :: char
  defines "v \<equiv> push_bit 16 (byte_val a) OR push_bit 8 (byte_val b) OR byte_val c :: u32"
  shows "take_bit 8 (drop_bit 16 (take_bit 24 v)) = byte_val a"
    "take_bit 8 (drop_bit 8 (take_bit 24 v)) = byte_val b"
    "take_bit 8 (take_bit 24 v) = byte_val c"
  unfolding v_def by (rule bit_word_eqI; auto simp: bit_simps dest: bit_byte_val)+

lemma short_bytes:
  fixes a b :: char
  shows "take_bit 8 (drop_bit 16 (take_bit 24 (push_bit 16 (byte_val a) :: u32) AND NOT (mask 12))) = byte_val a"
    "take_bit 8 (drop_bit 16 (take_bit 24 (push_bit 16 (byte_val a) OR push_bit 8 (byte_val b) :: u32) AND
      NOT (mask 6))) = byte_val a"
    "take_bit 8 (drop_bit 8 (take_bit 24 (push_bit 16 (byte_val a) OR push_bit 8 (byte_val b) :: u32) AND
      NOT (mask 6))) = byte_val b"
  by (rule bit_word_eqI; auto simp: bit_simps dest: bit_byte_val)+

lemma group_loop_full:
  "group_loop final 0 0 [sextet v 18, sextet v 12, sextet v 6, sextet v 0] =
     Some (0, map (\<lambda>n. valueOf (sextet v n)) [18, 12, 6, 0])"
  by simp

lemma group_bytes_triple:
  assumes "push_bit 18 (of_int w) OR push_bit 12 (of_int x) OR push_bit 6 (of_int y) OR of_int z = (t :: u32)"
  shows "group_bytes padding [w, x, y, z] = byte_of (drop_bit 16 t AND 0xFF) #
    (if padding < 2 then [byte_of (drop_bit 8 t AND 0xFF)] else []) @
    (if padding < 1 then [byte_of (t AND 0xFF)] else [])"
proof -
  have nth: "[w, x, y, z] ! 0 = w" "[w, x, y, z] ! 1 = x" "[w, x, y, z] ! 2 = y" "[w, x, y, z] ! 3 = z"
    by simp_all
  show ?thesis
    unfolding group_bytes_def nth assms Let_def ..
qed

lemmas sextet_bytes = sextet_value(1) of_int_sextet

lemma group_bytes_full:
  "group_bytes 0 [valueOf (sextet v 18), valueOf (sextet v 12), valueOf (sextet v 6), valueOf (sextet v 0)] =
     [byte_of (drop_bit 16 (take_bit 24 v) AND 0xFF), byte_of (drop_bit 8 (take_bit 24 v) AND 0xFF),
      byte_of (take_bit 24 v AND 0xFF)]"
  by (subst group_bytes_triple [where t = "take_bit 24 v"]) (simp_all only: sextet_bytes join_sextets, simp)

lemma group_bytes_short:
  "group_bytes (Suc (Suc 0)) [valueOf (sextet v 18), valueOf (sextet v 12), 0, 0] =
     [byte_of (drop_bit 16 (take_bit 24 v AND NOT (mask 12)) AND 0xFF)]"
  "group_bytes (Suc 0) [valueOf (sextet v 18), valueOf (sextet v 12), valueOf (sextet v 6), 0] =
     [byte_of (drop_bit 16 (take_bit 24 v AND NOT (mask 6)) AND 0xFF),
      byte_of (drop_bit 8 (take_bit 24 v AND NOT (mask 6)) AND 0xFF)]"
proof -
  show "group_bytes (Suc (Suc 0)) [valueOf (sextet v 18), valueOf (sextet v 12), 0, 0] =
     [byte_of (drop_bit 16 (take_bit 24 v AND NOT (mask 12)) AND 0xFF)]"
    by (subst group_bytes_triple [where t = "take_bit 24 v AND NOT (mask 12)"])
      (simp_all only: sextet_bytes join_sextets_short of_int_0 push_bit_of_0 or.right_neutral, simp)
  show "group_bytes (Suc 0) [valueOf (sextet v 18), valueOf (sextet v 12), valueOf (sextet v 6), 0] =
     [byte_of (drop_bit 16 (take_bit 24 v AND NOT (mask 6)) AND 0xFF),
      byte_of (drop_bit 8 (take_bit 24 v AND NOT (mask 6)) AND 0xFF)]"
    by (subst group_bytes_triple [where t = "take_bit 24 v AND NOT (mask 6)"])
      (simp_all only: sextet_bytes join_sextets_short of_int_0 push_bit_of_0 or.right_neutral, simp)
qed

lemma decode_groups_encode: "decode_groups (base64Encode s) = Some s"
proof (induction s rule: base64Encode.induct)
  case (2 a)
  show ?case
    by (simp add: Let_def group_bytes_short byte_of_take_byte [OF short_bytes(1)]
      del: sextet_value(1) drop_bit_and)
next
  case (3 a b)
  show ?case
    by (simp add: Let_def group_bytes_short byte_of_take_byte [OF short_bytes(2)]
      byte_of_take_byte [OF short_bytes(3)] del: sextet_value(1) drop_bit_and take_bit_or drop_bit_or)
next
  case (4 a b c rest)
  then show ?case
    by (simp add: Let_def group_bytes_full byte_of_take_byte [OF triple_bytes(1)]
      byte_of_take_byte [OF triple_bytes(2)] byte_of_take_byte [OF triple_bytes(3)]
      del: sextet_value(1) take_bit_or drop_bit_or)
qed simp

lemma length_base64Encode: "length (base64Encode s) = (length s + 2) div 3 * 4"
proof (induction s rule: base64Encode.induct)
  case (4 a b c rest)
  have "(length (a # b # c # rest) + 2) div 3 = Suc ((length rest + 2) div 3)"
    using div_add_self2 [of 3 "length rest + 2"] by (simp add: add.commute)
  with 4 show ?case by (simp add: Let_def)
qed (simp_all add: Let_def)

lemma base64Encode_empty [simp]: "base64Encode s = [] \<longleftrightarrow> s = []"
  by (cases s rule: base64Encode.cases) (simp_all add: Let_def)

text \<open>
  Decoding returns what was encoded, except for the empty string, whose encoding is empty and
  refused.
\<close>

lemma base64Decode_encode: "base64Decode (base64Encode s) = (if s = [] then None else Some s)"
  by (simp add: base64Decode_def decode_groups_encode length_base64Encode)


end
