(* ===== verification/S3_Checksum.thy ===== *)
theory S3_Checksum
  imports Checksum_Algorithms Base64 S3_Error
begin

text \<open>
  Checksums on the wire: s3/checksum.hpp and s3/checksum.cpp. The checksum headers of a request
  are an ordered map, as the \<open>std::map\<close> of the source. \<open>secureEquals\<close> (s3/sigv4.cpp) compares in
  constant time; the model has its result.
\<close>

definition secureEquals :: "string \<Rightarrow> string \<Rightarrow> bool" where
  "secureEquals a b =
     (if length a \<noteq> length b then False
      else fold (\<lambda>(x, y) difference. difference OR (byte_val x XOR byte_val y)) (zip a b) (0::u8) = 0)"

lemma fold_difference_zero:
  "length a = length b \<Longrightarrow>
   fold (\<lambda>(x, y) difference. difference OR (byte_val x XOR byte_val y)) (zip a b) d = (0::u8) \<longleftrightarrow>
     d = 0 \<and> a = b"
proof (induction a b arbitrary: d rule: list_induct2)
  case (Cons x xs y ys)
  have "(byte_val x :: u8) XOR byte_val y = 0 \<longleftrightarrow> x = y"
  proof
    assume zero: "(byte_val x :: u8) XOR byte_val y = 0"
    have "(byte_val y :: u8) = byte_val x XOR (byte_val x XOR byte_val y)"
      by (simp flip: xor.assoc)
    then have "byte_val x = (byte_val y :: u8)" unfolding zero by simp
    then have "uchar x = uchar y" by (metis unat_byte_val_8)
    then show "x = y" by simp
  qed simp
  moreover have "d OR v = 0 \<longleftrightarrow> d = 0 \<and> v = 0" for v :: u8
    by (metis bit_or_iff bit_word_eqI bit_0_eq bot_apply or.right_neutral)
  ultimately show ?case using Cons by auto
qed simp

lemma secureEquals [simp]: "secureEquals a b \<longleftrightarrow> a = b"
  by (auto simp: secureEquals_def fold_difference_zero)

section \<open>Names\<close>

definition kChecksumPrefix :: string where
  "kChecksumPrefix = ''x-amz-checksum-''"

definition kReservedSuffixes :: "string list" where
  "kReservedSuffixes = [''algorithm'', ''mode'', ''type'']"

definition algorithmFromHeaderName :: "string \<Rightarrow> bool \<Rightarrow> s3_exn + ChecksumAlgorithm option" where
  "algorithmFromHeaderName name refuseUnknown =
     (if length name \<le> length kChecksumPrefix then Inr None
      else if take (length kChecksumPrefix) name \<noteq> kChecksumPrefix then Inr None
      else
        let suffix = drop (length kChecksumPrefix) name in
        if suffix \<in> set kReservedSuffixes then Inr None
        else case checksumAlgorithmFromString suffix of
          None \<Rightarrow> if refuseUnknown then Inl (S3Exception E_InvalidRequest) else Inr None
        | Some algorithm \<Rightarrow> Inr (Some algorithm))"

definition checksumHeaderName :: "ChecksumAlgorithm \<Rightarrow> string" where
  "checksumHeaderName algorithm = kChecksumPrefix @ toLower (ChecksumAlgorithm_toString algorithm)"

definition checksumElementName :: "ChecksumAlgorithm \<Rightarrow> string" where
  "checksumElementName algorithm = ''Checksum'' @ ChecksumAlgorithm_toString algorithm"

section \<open>Values\<close>

definition s3_encodeChecksum :: "Checksum \<Rightarrow> string" where
  "s3_encodeChecksum checksum =
     (if \<not> Checksum_present checksum then []
      else base64Encode (c_value checksum) @
        (if c_parts checksum \<noteq> 0 then CHR ''-'' # to_string (unat (c_parts checksum)) else []))"

text \<open>
  \<open>std::from_chars\<close> over the whole of a text: one or more decimal digits whose value is at most
  \<open>bound\<close>, the largest value of the target type.
\<close>

definition from_chars :: "nat \<Rightarrow> string \<Rightarrow> nat option" where
  "from_chars bound digits =
     (if digits \<noteq> [] \<and> list_all isdigit digits \<and> decimal_value digits \<le> bound
      then Some (decimal_value digits) else None)"

definition s3_decodeChecksum :: "ChecksumAlgorithm \<Rightarrow> string \<Rightarrow> Checksum option" where
  "s3_decodeChecksum algorithm s =
     (if s = [] then None
      else
        case (if CHR ''-'' \<in> set s
              then (case from_chars (2 ^ 32 - 1) (after_last (CHR ''-'') s) of
                      None \<Rightarrow> None
                    | Some parsed \<Rightarrow>
                        if parsed = 0 then None else Some (of_nat parsed, before_last (CHR ''-'') s))
              else Some (0, s)) of
          None \<Rightarrow> None
        | Some (parts, s) \<Rightarrow>
            (case base64Decode s of
               None \<Rightarrow> None
             | Some raw \<Rightarrow>
                 if length raw \<noteq> checksumLength algorithm then None
                 else Some \<lparr>c_algorithm = Some algorithm, c_value = raw, c_parts = parts\<rparr>))"

definition checksumTypeOf :: "Checksum \<Rightarrow> string" where
  "checksumTypeOf checksum = (if c_parts checksum \<noteq> 0 then ''COMPOSITE'' else ''FULL_OBJECT'')"

section \<open>What a request asks for\<close>

record ChecksumRequest =
  cq_algorithm :: "ChecksumAlgorithm option"
  cq_expected :: string
  cq_inTrailer :: bool
  cq_trailerName :: string

definition no_request :: ChecksumRequest where
  "no_request = \<lparr>cq_algorithm = None, cq_expected = [], cq_inTrailer = False, cq_trailerName = []\<rparr>"

type_synonym ChecksumHeaders = "(string, string) omap"

fun value_headers :: "ChecksumHeaders \<Rightarrow> ChecksumRequest \<Rightarrow> s3_exn + ChecksumRequest" where
  "value_headers [] wanted = Inr wanted"
| "value_headers ((name, v) # rest) wanted =
     sbind (algorithmFromHeaderName name True) (\<lambda>algorithm.
       if algorithm = None \<or> v = [] then value_headers rest wanted
       else if cq_algorithm wanted \<noteq> None then Inl (S3Exception E_InvalidRequest)
       else value_headers rest (wanted\<lparr>cq_algorithm := algorithm, cq_expected := v\<rparr>))"

definition trailer_header :: "string \<Rightarrow> ChecksumRequest \<Rightarrow> s3_exn + ChecksumRequest" where
  "trailer_header found wanted =
     (let trailer = toLower found in
      if CHR '','' \<in> set trailer then Inl (S3Exception E_InvalidRequest)
      else sbind (algorithmFromHeaderName trailer True) (\<lambda>algorithm.
        if algorithm = None then Inl (S3Exception E_InvalidRequest)
        else Inr (wanted\<lparr>cq_algorithm := algorithm, cq_inTrailer := True, cq_trailerName := trailer\<rparr>)))"

fun algorithm_headers :: "ChecksumHeaders \<Rightarrow> string list \<Rightarrow> ChecksumRequest \<Rightarrow> s3_exn + ChecksumRequest" where
  "algorithm_headers headers [] wanted = Inr wanted"
| "algorithm_headers headers (name # rest) wanted =
     (case map_of headers name of
        None \<Rightarrow> algorithm_headers headers rest wanted
      | Some v \<Rightarrow>
          if v = [] then algorithm_headers headers rest wanted
          else case checksumAlgorithmFromString v of
            None \<Rightarrow> Inl (S3Exception E_InvalidRequest)
          | Some algorithm \<Rightarrow> Inr (wanted\<lparr>cq_algorithm := Some algorithm\<rparr>))"

definition resolveChecksumRequest :: "ChecksumHeaders \<Rightarrow> s3_exn + ChecksumRequest" where
  "resolveChecksumRequest headers =
     sbind (value_headers headers no_request) (\<lambda>wanted.
       if cq_algorithm wanted \<noteq> None then Inr wanted
       else case map_of headers ''x-amz-trailer'' of
         Some found \<Rightarrow> trailer_header found wanted
       | None \<Rightarrow>
           algorithm_headers headers [''x-amz-sdk-checksum-algorithm'', ''x-amz-checksum-algorithm''] wanted)"

definition verifyChecksum :: "ChecksumAlgorithm \<Rightarrow> string \<Rightarrow> string \<Rightarrow> s3_exn + unit" where
  "verifyChecksum algorithm expected actualRaw =
     (case s3_decodeChecksum algorithm expected of
        None \<Rightarrow> Inl (S3Exception E_InvalidRequest)
      | Some decoded \<Rightarrow>
          if c_parts decoded \<noteq> 0 then Inl (S3Exception E_InvalidRequest)
          else if \<not> secureEquals (c_value decoded) actualRaw then Inl (S3Exception E_BadDigest)
          else Inr ())"

section \<open>Round trip\<close>

lemma isdigit_to_string: "list_all isdigit (to_string n)"
  using to_string_digits [of _ n]
  by (auto simp: list_all_iff isdigit_def uchar_literals simp flip: uchar_le) force

lemma from_chars_to_string [simp]: "n \<le> bound \<Longrightarrow> from_chars bound (to_string n) = Some n"
  by (simp add: from_chars_def isdigit_to_string)

lemma dash_not_digit: "CHR ''-'' \<notin> set (to_string n)"
  using to_string_digits [of "CHR ''-''" n] by (auto simp: uchar_def)

lemma sextet_in_alphabet [simp]: "sextet v n \<in> set kAlphabet"
proof -
  have "length kAlphabet = 64" by (simp add: kAlphabet_def)
  then show ?thesis using unat_sextet [of n v] by (simp add: sextet_def)
qed

lemma set_base64Encode: "set (base64Encode s) \<subseteq> insert (CHR ''='') (set kAlphabet)"
  by (induction s rule: base64Encode.induct) (simp_all add: Let_def)

lemma no_dash_in_base64: "CHR ''-'' \<notin> set (base64Encode s)"
  using set_base64Encode [of s] by (auto simp: kAlphabet_def)

lemma last_dash:
  assumes "CHR ''-'' \<notin> set y"
  shows "after_last (CHR ''-'') (x @ CHR ''-'' # y) = y" "before_last (CHR ''-'') (x @ CHR ''-'' # y) = x"
  using assms by (simp_all add: after_last_def before_last_def)

lemma checksumLength_pos: "0 < checksumLength a"
  by (cases a) simp_all

text \<open>
  C28: Checksums survive the wire. What the server reports for a checksum, of a payload or
  composite over any number of parts, is read back as that same checksum.
\<close>

theorem checksum_text_round_trip:
  assumes "c_algorithm checksum = Some algorithm" "length (c_value checksum) = checksumLength algorithm"
  shows "s3_decodeChecksum algorithm (s3_encodeChecksum checksum) = Some checksum"
proof -
  have v: "c_value checksum \<noteq> []"
    using assms(2) checksumLength_pos [of algorithm] by auto
  then have present: "Checksum_present checksum"
    using assms(1) by (simp add: Checksum_present_def)
  have raw: "base64Decode (base64Encode (c_value checksum)) = Some (c_value checksum)"
    using v by (simp add: base64Decode_encode)
  show ?thesis
  proof (cases "c_parts checksum = 0")
    case True
    then show ?thesis
      using v present raw assms no_dash_in_base64
      by (simp add: s3_decodeChecksum_def s3_encodeChecksum_def)
  next
    case False
    then have n: "unat (c_parts checksum) \<noteq> 0" by (simp add: unat_eq_0)
    have "unat (c_parts checksum) \<le> 2 ^ 32 - 1"
      using unat_32_less [of "c_parts checksum"] by (simp add: less_Suc_eq_le [symmetric] del: unat_32_less)
    then show ?thesis
      using False n v present raw assms last_dash [OF dash_not_digit]
      by (simp add: s3_decodeChecksum_def s3_encodeChecksum_def)
  qed
qed

theorem checksum_text_round_trip_witness:
  "s3_decodeChecksum Crc32 (s3_encodeChecksum \<lparr>c_algorithm = Some Crc32, c_value = ''abcd'', c_parts = 3\<rparr>) =
     Some \<lparr>c_algorithm = Some Crc32, c_value = ''abcd'', c_parts = 3\<rparr>"
  by (rule checksum_text_round_trip) simp_all

text \<open>
  A request never ends up with an algorithm this build cannot compute, or with a checksum it
  silently ignores: a value header under an unknown name is refused.
\<close>

lemma value_headers_refuse:
  assumes "(name, v) \<in> set headers" "algorithmFromHeaderName name True = Inl e"
  shows "\<exists>e. value_headers headers wanted = Inl e"
  using assms
proof (induction headers wanted rule: value_headers.induct)
  case (2 n w rest wanted)
  then show ?case by (cases "algorithmFromHeaderName n True") (auto simp: sbind_def)
qed simp

end
