(* ===== verification/Sigv4.thy ===== *)
theory Sigv4
  imports S3_Checksum Uri Calendar Digest Cors
begin

text \<open>
  Request signatures, version 4: s3/sigv4.hpp and s3/sigv4.cpp. The hash functions and
  HMAC-SHA256 are OpenSSL's and the record \<open>crypto\<close>; their allocation failures are left out. The
  clock is part of the options. Times are integers: every sum the code makes of them is within
  64 bits. \<open>strftime\<close> is written out for the years of four digits.
\<close>

record crypto =
  cy_hashes :: hashes
  cy_hmac :: "string \<Rightarrow> string \<Rightarrow> string"

section \<open>Names\<close>

definition kAlgorithm :: string where "kAlgorithm = ''AWS4-HMAC-SHA256''"
definition kChunkAlgorithm :: string where "kChunkAlgorithm = ''AWS4-HMAC-SHA256-PAYLOAD''"
definition kTerminator :: string where "kTerminator = ''aws4_request''"
definition kService :: string where "kService = ''s3''"
definition kUnsignedPayload :: string where "kUnsignedPayload = ''UNSIGNED-PAYLOAD''"
definition kStreamingSigned :: string where "kStreamingSigned = ''STREAMING-AWS4-HMAC-SHA256-PAYLOAD''"
definition kStreamingSignedTrailer :: string where
  "kStreamingSignedTrailer = ''STREAMING-AWS4-HMAC-SHA256-PAYLOAD-TRAILER''"
definition kStreamingUnsignedTrailer :: string where
  "kStreamingUnsignedTrailer = ''STREAMING-UNSIGNED-PAYLOAD-TRAILER''"
definition kEmptySha256 :: string where
  "kEmptySha256 = ''e3b0c44298fc1c149afbf4c8996fb92427ae41e4649b934ca495991b7852b855''"

datatype PayloadMode = SignedPayload | UnsignedPayload | StreamingSigned | StreamingUnsigned

section \<open>Records\<close>

record SigningRequest =
  sg_method :: string
  sg_uri :: string
  sg_query :: string
  sg_headers :: "(string \<times> string) list"

definition sg_header :: "SigningRequest \<Rightarrow> string \<Rightarrow> string" where
  "sg_header request name = (case map_of (sg_headers request) name of None \<Rightarrow> [] | Some v \<Rightarrow> v)"

definition sg_hasHeader :: "SigningRequest \<Rightarrow> string \<Rightarrow> bool" where
  "sg_hasHeader request name \<longleftrightarrow> list_ex (\<lambda>entry. fst entry = name) (sg_headers request)"

record CanonicalRequest =
  cn_method :: string
  cn_uri :: string
  cn_query :: string
  cn_headers :: string
  cn_signedHeaders :: string
  cn_payloadHash :: string

definition nl :: string where "nl = [CHR 0x0A]"

definition render :: "CanonicalRequest \<Rightarrow> string" where
  "render canonical =
     cn_method canonical @ nl @ cn_uri canonical @ nl @ cn_query canonical @ nl @
     cn_headers canonical @ nl @ cn_signedHeaders canonical @ nl @ cn_payloadHash canonical"

record Credentials =
  cr_accessKey :: string
  cr_secretKey :: string

record AuthOptions =
  ap_region :: string
  ap_nowSeconds :: int
  ap_skewSeconds :: int
  ap_alternateMethod :: string

definition kSignatureSkewSeconds :: int where "kSignatureSkewSeconds = 15 * 60"

record AuthOutcome =
  ao_anonymous :: bool
  ao_presigned :: bool
  ao_accessKey :: string
  ao_method :: string
  ao_payload :: PayloadMode
  ao_trailerExpected :: bool
  ao_payloadSha256 :: string
  ao_scope :: string
  ao_amzDate :: string
  ao_signature :: string
  ao_signingKey :: string

definition no_outcome :: AuthOutcome where
  "no_outcome = \<lparr>ao_anonymous = False, ao_presigned = False, ao_accessKey = [], ao_method = [],
     ao_payload = UnsignedPayload, ao_trailerExpected = False, ao_payloadSha256 = [], ao_scope = [],
     ao_amzDate = [], ao_signature = [], ao_signingKey = []\<rparr>"

section \<open>Parsing\<close>

text \<open>The loop keeps whether a space is due before the next character.\<close>

fun canonical_value_loop :: "string \<Rightarrow> bool \<Rightarrow> string \<Rightarrow> string" where
  "canonical_value_loop out pendingSpace [] = out"
| "canonical_value_loop out pendingSpace (ch # rest) =
     (if ch = CHR '' '' \<or> ch = CHR 0x09 then canonical_value_loop out (out \<noteq> []) rest
      else canonical_value_loop ((if pendingSpace then out @ '' '' else out) @ [ch]) False rest)"

definition canonicalHeaderValue :: "string \<Rightarrow> string" where
  "canonicalHeaderValue v = canonical_value_loop [] False v"

definition splitSignedHeaders :: "string \<Rightarrow> string list" where
  "splitSignedHeaders names = map toLower (filter (\<lambda>f. f \<noteq> []) (fields_of (CHR '';'') names))"

record CredentialScope =
  sc_accessKey :: string
  sc_dateStamp :: string
  sc_region :: string
  sc_service :: string
  sc_terminator :: string

definition scope_text :: "CredentialScope \<Rightarrow> string" where
  "scope_text sc = sc_dateStamp sc @ ''/'' @ sc_region sc @ ''/'' @ sc_service sc @ ''/'' @ sc_terminator sc"

text \<open>
  At most five parts are read. The second test of the code, that the position is past the end,
  never holds: the position is behind a separator that was found.
\<close>

definition parseCredential :: "string \<Rightarrow> s3_exn + CredentialScope" where
  "parseCredential t =
     (case take 5 (fields_of (CHR ''/'') t) of
        [accessKey, dateStamp, region, service, terminator] \<Rightarrow>
          Inr \<lparr>sc_accessKey = accessKey, sc_dateStamp = dateStamp, sc_region = region,
               sc_service = service, sc_terminator = terminator\<rparr>
      | _ \<Rightarrow> Inl (S3Exception E_InvalidArgument))"

record AuthorizationHeader =
  ah_credential :: string
  ah_signedHeaders :: string
  ah_signature :: string

definition set_authorization_field :: "string \<Rightarrow> string \<Rightarrow> AuthorizationHeader \<Rightarrow> AuthorizationHeader" where
  "set_authorization_field name field h =
     (if name = ''Credential'' then h\<lparr>ah_credential := field\<rparr>
      else if name = ''SignedHeaders'' then h\<lparr>ah_signedHeaders := field\<rparr>
      else if name = ''Signature'' then h\<lparr>ah_signature := field\<rparr>
      else h)"

definition skip_separators :: "string \<Rightarrow> string" where
  "skip_separators v = dropWhile (\<lambda>c. c = CHR '' '' \<or> c = CHR '','') v"

definition without_trailing_spaces :: "string \<Rightarrow> string" where
  "without_trailing_spaces v = rev (dropWhile (\<lambda>c. c = CHR '' '') (rev v))"

lemma authorization_shrinks:
  assumes "CHR ''='' \<in> set (skip_separators v)"
  shows "length (after (CHR '','') (after (CHR ''='') (skip_separators v))) < length v"
proof -
  have "length (after c t) \<le> length t" for c t
    using length_dropWhile_le [of "\<lambda>x. x \<noteq> c" t] by (simp add: after_def)
  moreover have "length (after (CHR ''='') (skip_separators v)) < length (skip_separators v)"
    using assms by (rule length_after)
  moreover have "length (skip_separators v) \<le> length v"
    by (simp add: skip_separators_def length_dropWhile_le)
  ultimately show ?thesis by (meson le_less_trans less_le_trans)
qed

function authorization_loop :: "string \<Rightarrow> AuthorizationHeader \<Rightarrow> AuthorizationHeader" where
  "authorization_loop v h =
     (if CHR ''='' \<notin> set (skip_separators v) then h
      else
        let name = before (CHR ''='') (skip_separators v); rest = after (CHR ''='') (skip_separators v)
        in authorization_loop (after (CHR '','') rest)
             (set_authorization_field name (without_trailing_spaces (before (CHR '','') rest)) h))"
  by pat_completeness auto
termination by (relation "measure (length \<circ> fst)") (simp_all add: authorization_shrinks)

definition parseAuthorization :: "string \<Rightarrow> s3_exn + AuthorizationHeader" where
  "parseAuthorization v =
     (if take (length kAlgorithm) v \<noteq> kAlgorithm then Inl (S3Exception E_InvalidRequest)
      else
        let h = authorization_loop (drop (length kAlgorithm) v)
              \<lparr>ah_credential = [], ah_signedHeaders = [], ah_signature = []\<rparr>
        in if ah_credential h = [] \<or> ah_signedHeaders h = [] \<or> ah_signature h = []
           then Inl (S3Exception E_InvalidRequest) else Inr h)"

definition payloadModeFor :: "string \<Rightarrow> s3_exn + PayloadMode \<times> string" where
  "payloadModeFor contentSha256 =
     (if contentSha256 = kUnsignedPayload then Inr (UnsignedPayload, [])
      else if contentSha256 = kStreamingSigned \<or> contentSha256 = kStreamingSignedTrailer
      then Inr (StreamingSigned, [])
      else if contentSha256 = kStreamingUnsignedTrailer then Inr (StreamingUnsigned, [])
      else if length contentSha256 \<noteq> 64 \<or> \<not> list_all isxdigit contentSha256
      then Inl (S3Exception E_InvalidArgument)
      else Inr (SignedPayload, toLower contentSha256))"

section \<open>Times\<close>

definition digits_at :: "string \<Rightarrow> nat \<Rightarrow> nat \<Rightarrow> int option" where
  "digits_at t offset n =
     (let ds = take n (drop offset t) in if list_all isdigit ds then Some (int (decimal_value ds)) else None)"

definition parseAmzDate :: "string \<Rightarrow> int option" where
  "parseAmzDate t =
     (if length t \<noteq> 16 \<or> t ! 8 \<noteq> CHR ''T'' \<or> t ! 15 \<noteq> CHR ''Z'' then None
      else case (digits_at t 0 4, digits_at t 4 2, digits_at t 6 2, digits_at t 9 2, digits_at t 11 2, digits_at t 13 2) of
        (Some year, Some month, Some day, Some hour, Some minute, Some second) \<Rightarrow>
          let stamp = timegm \<lparr>tm_year = year, tm_mon = month - 1, tm_mday = day, tm_hour = hour,
                        tm_min = minute, tm_sec = second, tm_wday = 0\<rparr>;
              parts = gmtime stamp
          in if stamp = - 1 then None
             else if tm_year parts \<noteq> year \<or> tm_mon parts \<noteq> month - 1 \<or> tm_mday parts \<noteq> day then None
             else Some stamp
      | _ \<Rightarrow> None)"

definition formatAmzDate :: "int \<Rightarrow> string" where
  "formatAmzDate seconds =
     (let p = gmtime seconds
      in four_digits (tm_year p) @ two_digits (tm_mon p + 1) @ two_digits (tm_mday p) @ ''T'' @
         two_digits (tm_hour p) @ two_digits (tm_min p) @ two_digits (tm_sec p) @ ''Z'')"

section \<open>Signing\<close>

definition sign :: "crypto \<Rightarrow> string \<Rightarrow> string \<Rightarrow> string" where
  "sign C signingKey toSign = toHex (cy_hmac C signingKey toSign)"

definition deriveSigningKey :: "crypto \<Rightarrow> string \<Rightarrow> string \<Rightarrow> string \<Rightarrow> string \<Rightarrow> string" where
  "deriveSigningKey C secret dateStamp region service =
     (let initial = ''AWS4'' @ secret;
          date = cy_hmac C initial dateStamp;
          scoped = cy_hmac C date region;
          serviced = cy_hmac C scoped service
      in cy_hmac C serviced kTerminator)"

definition stringToSign :: "string \<Rightarrow> string \<Rightarrow> string \<Rightarrow> string" where
  "stringToSign amzDate scope canonicalRequestHash =
     kAlgorithm @ nl @ amzDate @ nl @ scope @ nl @ canonicalRequestHash"

fun canonical_loop :: "SigningRequest \<Rightarrow> string list \<Rightarrow> CanonicalRequest \<Rightarrow> s3_exn + CanonicalRequest" where
  "canonical_loop request [] canonical = Inr canonical"
| "canonical_loop request (name # names) canonical =
     (if \<not> sg_hasHeader request name then Inl (S3Exception E_SignatureDoesNotMatch)
      else canonical_loop request names
        (canonical\<lparr>cn_headers := cn_headers canonical @ name @ '':'' @ canonicalHeaderValue (sg_header request name) @ nl,
           cn_signedHeaders :=
             (if cn_signedHeaders canonical \<noteq> [] then cn_signedHeaders canonical @ '';'' else cn_signedHeaders canonical) @ name\<rparr>))"

definition buildCanonicalRequest :: "SigningRequest \<Rightarrow> string list \<Rightarrow> string \<Rightarrow> s3_exn + CanonicalRequest" where
  "buildCanonicalRequest request signedHeaders payloadHash =
     canonical_loop request (remdups_adj (sort signedHeaders))
       \<lparr>cn_method = sg_method request,
        cn_uri = (if sg_uri request = [] then ''/'' else sg_uri request),
        cn_query = canonicalQueryString (parseQuery (sg_query request)) ''X-Amz-Signature'',
        cn_headers = [], cn_signedHeaders = [], cn_payloadHash = payloadHash\<rparr>"

definition chunkSignature :: "crypto \<Rightarrow> string \<Rightarrow> string \<Rightarrow> string \<Rightarrow> string \<Rightarrow> string \<Rightarrow> string" where
  "chunkSignature C signingKey amzDate scope previousSignature chunkSha256Hex =
     sign C signingKey (kChunkAlgorithm @ nl @ amzDate @ nl @ scope @ nl @ previousSignature @ nl @
       kEmptySha256 @ nl @ chunkSha256Hex)"

definition trailerSignature :: "crypto \<Rightarrow> string \<Rightarrow> string \<Rightarrow> string \<Rightarrow> string \<Rightarrow> string \<Rightarrow> string" where
  "trailerSignature C signingKey amzDate scope previousSignature trailerSha256Hex =
     sign C signingKey (''AWS4-HMAC-SHA256-TRAILER'' @ nl @ amzDate @ nl @ scope @ nl @ previousSignature @ nl @
       trailerSha256Hex)"

section \<open>Verification\<close>

text \<open>What the two places of the credentials yield: the outcome so far and the fields to check.\<close>

record presented =
  pn_outcome :: AuthOutcome
  pn_credential :: string
  pn_signedHeaderList :: string
  pn_providedSignature :: string
  pn_payloadHash :: string

definition expiry_of :: "QueryParam list \<Rightarrow> int" where
  "expiry_of query =
     (case findQuery query ''X-Amz-Expires'' of
        None \<Rightarrow> 0
      | Some v \<Rightarrow> (case stoll v of Inl _ \<Rightarrow> - 1 | Inr n \<Rightarrow> n))"

definition present_query :: "QueryParam list \<Rightarrow> string \<Rightarrow> AuthOptions \<Rightarrow> s3_exn + presented" where
  "present_query query presignedSignature options =
     (if findQuery query ''X-Amz-Algorithm'' \<noteq> Some kAlgorithm then Inl (S3Exception E_InvalidArgument)
      else case (findQuery query ''X-Amz-Credential'', findQuery query ''X-Amz-Date'', findQuery query ''X-Amz-SignedHeaders'') of
        (Some credential, Some date, Some signedHeaders) \<Rightarrow>
          (case parseAmzDate date of
             None \<Rightarrow> Inl (S3Exception E_InvalidArgument)
           | Some signedAt \<Rightarrow>
               let expires = expiry_of query
               in if expires \<le> 0 \<or> 604800 < expires then Inl (S3Exception E_InvalidArgument)
                  else if signedAt + expires < ap_nowSeconds options then Inl (S3Exception E_AccessDenied)
                  else if ap_skewSeconds options < signedAt - ap_nowSeconds options then Inl (S3Exception E_AccessDenied)
                  else Inr \<lparr>pn_outcome = no_outcome\<lparr>ao_presigned := True, ao_amzDate := date, ao_payload := UnsignedPayload\<rparr>,
                         pn_credential = credential, pn_signedHeaderList = signedHeaders,
                         pn_providedSignature = presignedSignature, pn_payloadHash = kUnsignedPayload\<rparr>)
      | _ \<Rightarrow> Inl (S3Exception E_InvalidArgument))"

definition present_header :: "SigningRequest \<Rightarrow> AuthOptions \<Rightarrow> s3_exn + presented" where
  "present_header request options =
     sbind (parseAuthorization (sg_header request ''authorization'')) (\<lambda>h.
     let amzDate = sg_header request ''x-amz-date'';
         amzDate = (if amzDate = [] then sg_header request ''date'' else amzDate)
     in if amzDate = [] then Inl (S3Exception E_MissingSecurityHeader)
        else case parseAmzDate amzDate of
          None \<Rightarrow> Inl (S3Exception E_InvalidArgument)
        | Some signedAt \<Rightarrow>
            let drift = (if signedAt < ap_nowSeconds options then ap_nowSeconds options - signedAt
                         else signedAt - ap_nowSeconds options);
                contentSha256 = sg_header request ''x-amz-content-sha256''
            in if ap_skewSeconds options < drift then Inl (S3Exception E_RequestTimeTooSkewed)
               else if contentSha256 = [] then Inl (S3Exception E_MissingSecurityHeader)
               else sbind (payloadModeFor contentSha256) (\<lambda>(mode, digest).
                 Inr \<lparr>pn_outcome = no_outcome\<lparr>ao_amzDate := amzDate, ao_payload := mode, ao_payloadSha256 := digest,
                         ao_trailerExpected := contentSha256 = kStreamingSignedTrailer \<or> contentSha256 = kStreamingUnsignedTrailer\<rparr>,
                      pn_credential = ah_credential h, pn_signedHeaderList = ah_signedHeaders h,
                      pn_providedSignature = ah_signature h, pn_payloadHash = contentSha256\<rparr>))"

definition attempt ::
  "crypto \<Rightarrow> SigningRequest \<Rightarrow> string list \<Rightarrow> string \<Rightarrow> AuthOutcome \<Rightarrow> string \<Rightarrow> s3_exn + string" where
  "attempt C request signedHeaders payloadHash outcome method =
     sbind (buildCanonicalRequest (request\<lparr>sg_method := method\<rparr>) signedHeaders payloadHash) (\<lambda>canonical.
     Inr (sign C (ao_signingKey outcome)
       (stringToSign (ao_amzDate outcome) (ao_scope outcome) (sha256Hex (cy_hashes C) (render canonical)))))"

definition verify_signature ::
  "crypto \<Rightarrow> SigningRequest \<Rightarrow> AuthOptions \<Rightarrow> string list \<Rightarrow> presented \<Rightarrow> AuthOutcome \<Rightarrow> s3_exn + AuthOutcome" where
  "verify_signature C request options signedHeaders p outcome =
     (let expected = toLower (pn_providedSignature p)
      in sbind (attempt C request signedHeaders (pn_payloadHash p) outcome (sg_method request)) (\<lambda>signature.
         let outcome = outcome\<lparr>ao_signature := signature, ao_method := sg_method request\<rparr>
         in if secureEquals signature expected then Inr outcome
            else if ap_alternateMethod options = [] then Inl (S3Exception E_SignatureDoesNotMatch)
            else sbind (attempt C request signedHeaders (pn_payloadHash p) outcome (ap_alternateMethod options)) (\<lambda>signature.
              let outcome = outcome\<lparr>ao_signature := signature, ao_method := ap_alternateMethod options\<rparr>
              in if secureEquals signature expected then Inr outcome
                 else Inl (S3Exception E_SignatureDoesNotMatch))))"

definition check_presented ::
  "crypto \<Rightarrow> (string \<Rightarrow> s3_exn + string option) \<Rightarrow> SigningRequest \<Rightarrow> AuthOptions \<Rightarrow> presented \<Rightarrow> s3_exn + AuthOutcome" where
  "check_presented C resolve request options p =
     sbind (parseCredential (pn_credential p)) (\<lambda>scope.
     if sc_service scope \<noteq> kService \<or> sc_terminator scope \<noteq> kTerminator then Inl (S3Exception E_InvalidArgument)
     else if take 8 (ao_amzDate (pn_outcome p)) \<noteq> sc_dateStamp scope then Inl (S3Exception E_InvalidArgument)
     else sbind (resolve (sc_accessKey scope)) (\<lambda>secretKey.
       case secretKey of
         None \<Rightarrow> Inl (S3Exception E_InvalidAccessKeyId)
       | Some secret \<Rightarrow>
           let signedHeaders = splitSignedHeaders (pn_signedHeaderList p)
           in if ''host'' \<notin> set signedHeaders then Inl (S3Exception E_SignatureDoesNotMatch)
              else verify_signature C request options signedHeaders p
                ((pn_outcome p)\<lparr>ao_accessKey := sc_accessKey scope, ao_scope := scope_text scope,
                   ao_signingKey := deriveSigningKey C secret (sc_dateStamp scope) (sc_region scope) (sc_service scope)\<rparr>)))"

definition authenticate ::
  "crypto \<Rightarrow> (string \<Rightarrow> s3_exn + string option) \<Rightarrow> SigningRequest \<Rightarrow> QueryParam list \<Rightarrow> AuthOptions \<Rightarrow> s3_exn + AuthOutcome" where
  "authenticate C resolve request query options =
     (case findQuery query ''X-Amz-Signature'' of
        Some presignedSignature \<Rightarrow>
          sbind (present_query query presignedSignature options) (check_presented C resolve request options)
      | None \<Rightarrow>
          if sg_header request ''authorization'' = [] then Inr (no_outcome\<lparr>ao_anonymous := True\<rparr>)
          else sbind (present_header request options) (check_presented C resolve request options))"

text \<open>The overload for one pair of credentials.\<close>

definition resolve_pair :: "Credentials \<Rightarrow> string \<Rightarrow> s3_exn + string option" where
  "resolve_pair credentials accessKeyId =
     Inr (if secureEquals accessKeyId (cr_accessKey credentials) then Some (cr_secretKey credentials) else None)"

section \<open>Presigning\<close>

record PresignRequest =
  pr_method :: string
  pr_host :: string
  pr_uri :: string
  pr_region :: string
  pr_nowSeconds :: int
  pr_expiresSeconds :: int

definition presign_params :: "PresignRequest \<Rightarrow> Credentials \<Rightarrow> string \<Rightarrow> string \<Rightarrow> QueryParam list" where
  "presign_params request credentials amzDate scope =
     map (\<lambda>(name, v). \<lparr>q_name = name, q_value = v, q_hasValue = True\<rparr>)
       [(''X-Amz-Algorithm'', kAlgorithm),
        (''X-Amz-Credential'', cr_accessKey credentials @ ''/'' @ scope),
        (''X-Amz-Date'', amzDate),
        (''X-Amz-Expires'', to_string (nat (pr_expiresSeconds request))),
        (''X-Amz-SignedHeaders'', ''host'')]"

definition presignQuery :: "crypto \<Rightarrow> PresignRequest \<Rightarrow> Credentials \<Rightarrow> s3_exn + string" where
  "presignQuery C request credentials =
     (if pr_expiresSeconds request \<le> 0 \<or> 604800 < pr_expiresSeconds request then Inl (S3Exception E_InvalidArgument)
      else if pr_host request = [] then Inl (S3Exception E_InvalidArgument)
      else
        let amzDate = formatAmzDate (pr_nowSeconds request);
            dateStamp = take 8 amzDate;
            scope = dateStamp @ ''/'' @ pr_region request @ ''/'' @ kService @ ''/'' @ kTerminator;
            query = canonicalQueryString (presign_params request credentials amzDate scope) []
        in sbind (buildCanonicalRequest
             \<lparr>sg_method = pr_method request, sg_uri = pr_uri request, sg_query = query,
              sg_headers = [(''host'', pr_host request)]\<rparr> [''host''] kUnsignedPayload) (\<lambda>canonical.
           let signingKey = deriveSigningKey C (cr_secretKey credentials) dateStamp (pr_region request) kService
           in Inr (query @ ''&X-Amz-Signature='' @
                sign C signingKey (stringToSign amzDate scope (sha256Hex (cy_hashes C) (render canonical))))))"

section \<open>What an accepted signature proves\<close>

definition presented_by :: "SigningRequest \<Rightarrow> QueryParam list \<Rightarrow> AuthOptions \<Rightarrow> presented \<Rightarrow> bool" where
  "presented_by request query options p \<longleftrightarrow>
     (case findQuery query ''X-Amz-Signature'' of
        Some s \<Rightarrow> present_query query s options = Inr p
      | None \<Rightarrow> present_header request options = Inr p)"

text \<open>The signature is the one of the secret over the request, the date and the scope.\<close>

definition signed_by ::
  "crypto \<Rightarrow> string \<Rightarrow> SigningRequest \<Rightarrow> AuthOptions \<Rightarrow> presented \<Rightarrow> AuthOutcome \<Rightarrow> bool" where
  "signed_by C secret request options p outcome \<longleftrightarrow>
     (\<exists>region canonical.
        ao_scope outcome = take 8 (ao_amzDate outcome) @ ''/'' @ region @ ''/'' @ kService @ ''/'' @ kTerminator \<and>
        ao_signingKey outcome = deriveSigningKey C secret (take 8 (ao_amzDate outcome)) region kService \<and>
        ''host'' \<in> set (splitSignedHeaders (pn_signedHeaderList p)) \<and>
        ao_method outcome \<in> {sg_method request, ap_alternateMethod options} \<and>
        buildCanonicalRequest (request\<lparr>sg_method := ao_method outcome\<rparr>)
          (splitSignedHeaders (pn_signedHeaderList p)) (pn_payloadHash p) = Inr canonical \<and>
        toLower (pn_providedSignature p) =
          sign C (ao_signingKey outcome) (stringToSign (ao_amzDate outcome) (ao_scope outcome)
            (sha256Hex (cy_hashes C) (render canonical))))"

text \<open>
  Where the fields come from: for a presigned request the query parameters, for any other the
  \<open>Authorization\<close> header and the date and payload hash beside it.
\<close>

definition carries :: "SigningRequest \<Rightarrow> QueryParam list \<Rightarrow> presented \<Rightarrow> bool" where
  "carries request query p \<longleftrightarrow>
     (case findQuery query ''X-Amz-Signature'' of
        Some signature \<Rightarrow>
          findQuery query ''X-Amz-Algorithm'' = Some kAlgorithm \<and>
          findQuery query ''X-Amz-Credential'' = Some (pn_credential p) \<and>
          findQuery query ''X-Amz-Date'' = Some (ao_amzDate (pn_outcome p)) \<and>
          findQuery query ''X-Amz-SignedHeaders'' = Some (pn_signedHeaderList p) \<and>
          pn_providedSignature p = signature \<and> pn_payloadHash p = kUnsignedPayload
      | None \<Rightarrow>
          (\<exists>h. parseAuthorization (sg_header request ''authorization'') = Inr h \<and> pn_credential p = ah_credential h \<and>
             pn_signedHeaderList p = ah_signedHeaders h \<and> pn_providedSignature p = ah_signature h) \<and>
          ao_amzDate (pn_outcome p) \<in> {sg_header request ''x-amz-date'', sg_header request ''date''} \<and>
          pn_payloadHash p = sg_header request ''x-amz-content-sha256'' \<and> pn_payloadHash p \<noteq> [])"

text \<open>
  A presigned request is good from its date, give or take the skew, for the lifetime it names
  itself, of at most a week; any other must be dated within the skew.
\<close>

definition fresh :: "QueryParam list \<Rightarrow> AuthOptions \<Rightarrow> AuthOutcome \<Rightarrow> bool" where
  "fresh query options outcome \<longleftrightarrow>
     (ao_presigned outcome \<longleftrightarrow> findQuery query ''X-Amz-Signature'' \<noteq> None) \<and>
     (\<exists>t. parseAmzDate (ao_amzDate outcome) = Some t \<and> t - ap_nowSeconds options \<le> ap_skewSeconds options \<and>
        (if ao_presigned outcome
         then 0 < expiry_of query \<and> expiry_of query \<le> 604800 \<and> ap_nowSeconds options \<le> t + expiry_of query
         else ap_nowSeconds options - t \<le> ap_skewSeconds options))"

lemma present_query_Inr:
  assumes "present_query query s options = Inr p" "findQuery query ''X-Amz-Signature'' = Some s"
  shows "\<not> ao_anonymous (pn_outcome p) \<and> fresh query options (pn_outcome p) \<and> carries request query p"
  using assms
  by (auto simp: present_query_def fresh_def carries_def no_outcome_def Let_def split: option.splits if_splits)

lemma present_header_Inr:
  assumes "present_header request options = Inr p" "findQuery query ''X-Amz-Signature'' = None"
  shows "\<not> ao_anonymous (pn_outcome p) \<and> fresh query options (pn_outcome p) \<and> carries request query p"
  using assms
  by (auto simp: present_header_def fresh_def carries_def no_outcome_def Let_def sbind_Inr split: option.splits if_splits)

lemma attempted_Inr:
  "attempt C request names hash outcome m = Inr signature \<longleftrightarrow>
     (\<exists>canonical. buildCanonicalRequest (request\<lparr>sg_method := m\<rparr>) names hash = Inr canonical \<and>
        signature = sign C (ao_signingKey outcome)
          (stringToSign (ao_amzDate outcome) (ao_scope outcome) (sha256Hex (cy_hashes C) (render canonical))))"
  by (auto simp: attempt_def sbind_Inr)

lemma verify_signature_Inr:
  assumes "verify_signature C request options names p outcome = Inr outcome'"
  shows "\<exists>m \<in> {sg_method request, ap_alternateMethod options}.
     outcome' = outcome\<lparr>ao_signature := toLower (pn_providedSignature p), ao_method := m\<rparr> \<and>
     attempt C request names (pn_payloadHash p) outcome m = Inr (toLower (pn_providedSignature p))"
  using assms
  by (auto simp: verify_signature_def Let_def sbind_Inr secureEquals attempt_def split: if_splits)

lemma take_parts:
  assumes "parseCredential t = Inr scope"
  shows "take 5 (fields_of (CHR ''/'') t) =
    [sc_accessKey scope, sc_dateStamp scope, sc_region scope, sc_service scope, sc_terminator scope]"
  using assms by (auto simp: parseCredential_def split: list.splits)

lemma check_presented_Inr:
  assumes "check_presented C resolve request options p = Inr outcome"
  shows "\<exists>secret scope. resolve (ao_accessKey outcome) = Inr (Some secret) \<and>
     parseCredential (pn_credential p) = Inr scope \<and> ao_accessKey outcome = sc_accessKey scope \<and>
     signed_by C secret request options p outcome \<and>
     ao_amzDate outcome = ao_amzDate (pn_outcome p) \<and> ao_presigned outcome = ao_presigned (pn_outcome p) \<and>
     ao_anonymous outcome = ao_anonymous (pn_outcome p)"
proof -
  from assms obtain scope secret where s: "parseCredential (pn_credential p) = Inr scope"
    "sc_service scope = kService" "sc_terminator scope = kTerminator"
    "take 8 (ao_amzDate (pn_outcome p)) = sc_dateStamp scope"
    "resolve (sc_accessKey scope) = Inr (Some secret)"
    "''host'' \<in> set (splitSignedHeaders (pn_signedHeaderList p))"
    "verify_signature C request options (splitSignedHeaders (pn_signedHeaderList p)) p
       ((pn_outcome p)\<lparr>ao_accessKey := sc_accessKey scope, ao_scope := scope_text scope,
          ao_signingKey := deriveSigningKey C secret (sc_dateStamp scope) (sc_region scope) (sc_service scope)\<rparr>) = Inr outcome"
    by (auto simp: check_presented_def sbind_Inr Let_def split: if_splits option.splits)
  from verify_signature_Inr [OF s(7)] obtain m where m: "m \<in> {sg_method request, ap_alternateMethod options}"
    "outcome = (pn_outcome p)\<lparr>ao_accessKey := sc_accessKey scope, ao_scope := scope_text scope,
       ao_signingKey := deriveSigningKey C secret (sc_dateStamp scope) (sc_region scope) (sc_service scope),
       ao_signature := toLower (pn_providedSignature p), ao_method := m\<rparr>"
    "attempt C request (splitSignedHeaders (pn_signedHeaderList p)) (pn_payloadHash p)
       ((pn_outcome p)\<lparr>ao_accessKey := sc_accessKey scope, ao_scope := scope_text scope,
          ao_signingKey := deriveSigningKey C secret (sc_dateStamp scope) (sc_region scope) (sc_service scope)\<rparr>) m =
       Inr (toLower (pn_providedSignature p))"
    by auto
  have "signed_by C secret request options p outcome"
    unfolding signed_by_def
    using m(1,3) s(2-4,6) by (auto simp: m(2) scope_text_def attempted_Inr)
  then show ?thesis using s(1,5) m(2) by auto
qed

text \<open>
  C32: Nobody passes without the secret. A request that is accepted as authenticated carries, in
  its query or in its headers, a signature computed with the secret of the access key its
  credential names, over its own method (or the one alternative), path, query, signed headers
  (the host among them) and payload hash, for a date and a scope that agree. That date is no
  further ahead than the allowed skew; a presigned request is no older than the lifetime its
  own \<open>X-Amz-Expires\<close> gives it, between one second and a week, any other no older than the skew.
\<close>

theorem authenticated_requests_are_signed:
  assumes "authenticate C resolve request query options = Inr outcome" "\<not> ao_anonymous outcome"
  shows "\<exists>p secret scope. presented_by request query options p \<and> carries request query p \<and>
    parseCredential (pn_credential p) = Inr scope \<and> ao_accessKey outcome = sc_accessKey scope \<and>
    ao_amzDate outcome = ao_amzDate (pn_outcome p) \<and>
    resolve (ao_accessKey outcome) = Inr (Some secret) \<and>
    signed_by C secret request options p outcome \<and> fresh query options outcome"
proof -
  from assms obtain p where p: "presented_by request query options p" "carries request query p"
    "fresh query options (pn_outcome p)" and c: "check_presented C resolve request options p = Inr outcome"
    using present_query_Inr [of query _ options] present_header_Inr [of request options _ query]
    by (fastforce simp: authenticate_def presented_by_def sbind_Inr split: option.splits if_splits)
  from check_presented_Inr [OF c] p show ?thesis by (auto simp: fresh_def)
qed

section \<open>Dates\<close>

lemma isdigit_digit_char: "d < 10 \<Longrightarrow> isdigit (digit_char d)"
  by (simp add: isdigit_def uchar_literals flip: uchar_le)

lemma nat_div_mod:
  "0 \<le> n \<Longrightarrow> nat (n div numeral k) * numeral k + nat (n mod numeral k) = nat n"
  by (simp add: nat_div_distrib nat_mod_distrib)

lemma two_digits_facts:
  assumes "0 \<le> n" "n < 100"
  shows "decimal_value (two_digits n) = nat n" "list_all isdigit (two_digits n)"
proof -
  have d: "nat (n div 10) < 10" "nat (n mod 10) < 10" using assms by auto
  have "nat (n div 10) * 10 + nat (n mod 10) = nat n"
    by (rule nat_div_mod [OF assms(1)])
  then show "decimal_value (two_digits n) = nat n"
    using d by (simp add: decimal_value_def two_digits_def)
  show "list_all isdigit (two_digits n)"
    using d by (simp add: two_digits_def isdigit_digit_char)
qed

lemma decimal_value_append2:
  assumes "length ds = 2"
  shows "decimal_value (es @ ds) = decimal_value es * 100 + decimal_value ds"
proof -
  from assms obtain a b where "ds = [a, b]" by (auto simp: length_Suc_conv numeral_2_eq_2)
  then show ?thesis by (simp add: decimal_value_def)
qed

lemma four_digits_facts:
  assumes "0 \<le> n" "n < 10000"
  shows "decimal_value (four_digits n) = nat n" "list_all isdigit (four_digits n)"
proof -
  have b: "0 \<le> n div 100" "n div 100 < 100" "0 \<le> n mod 100" "n mod 100 < 100"
    using assms by auto
  have "nat (n div 100) * 100 + nat (n mod 100) = nat n"
    by (rule nat_div_mod [OF assms(1)])
  then show "decimal_value (four_digits n) = nat n"
    using b by (simp add: four_digits_def decimal_value_append2 two_digits_facts)
  show "list_all isdigit (four_digits n)"
    using b by (simp add: four_digits_def two_digits_facts)
qed

definition date_in_range :: "int \<Rightarrow> bool" where
  "date_in_range t \<longleftrightarrow> 0 \<le> t \<and> t < 253402300800"

lemma year_in_range:
  assumes "date_in_range t"
  shows "1970 \<le> tm_year (gmtime t)" "tm_year (gmtime t) < 10000"
proof -
  let ?d = "t div 86400"
  have y: "tm_year (gmtime t) = year_of_day ?d" by (simp add: gmtime_def Let_def split: prod.split)
  have d: "0 \<le> ?d" "?d < 2932897"
    using assms by (auto simp: date_in_range_def)
  have e: "days_before_year 10000 = 2932897" by (simp add: days_before_year_def)
  note b = year_of_day_bounds [of ?d]
  show "1970 \<le> tm_year (gmtime t)"
  proof (rule ccontr)
    assume "\<not> 1970 \<le> tm_year (gmtime t)"
    then have "days_before_year (year_of_day ?d + 1) \<le> days_before_year 1970"
      by (intro days_before_year_mono) (simp add: y)
    then show False using b d(1) by simp
  qed
  show "tm_year (gmtime t) < 10000"
  proof (rule ccontr)
    assume "\<not> tm_year (gmtime t) < 10000"
    then have "days_before_year 10000 \<le> days_before_year (year_of_day ?d)"
      by (intro days_before_year_mono) (simp add: y)
    then show False using b d(2) e by simp
  qed
qed

lemma digits_at_middle:
  "length xs = offset \<Longrightarrow> length ds = n \<Longrightarrow> list_all isdigit ds \<Longrightarrow>
     digits_at (xs @ ds @ ys) offset n = Some (int (decimal_value ds))"
  by (simp add: digits_at_def)

lemma timegm_weekday: "timegm (p\<lparr>tm_wday := w\<rparr>) = timegm p"
  by (simp add: timegm_def)

lemma parseAmzDate_formatAmzDate:
  assumes "date_in_range t"
  shows "parseAmzDate (formatAmzDate t) = Some t"
proof -
  let ?p = "gmtime t"
  define y m d h mi se where "y = four_digits (tm_year ?p)" and "m = two_digits (tm_mon ?p + 1)"
    and "d = two_digits (tm_mday ?p)" and "h = two_digits (tm_hour ?p)" and "mi = two_digits (tm_min ?p)"
    and "se = two_digits (tm_sec ?p)"
  note len = y_def m_def d_def h_def mi_def se_def
  have t: "formatAmzDate t = y @ m @ d @ ''T'' @ h @ mi @ se @ ''Z''"
    by (simp add: formatAmzDate_def Let_def len)
  have shape: "length (formatAmzDate t) = 16" "formatAmzDate t ! 8 = CHR ''T''" "formatAmzDate t ! 15 = CHR ''Z''"
    by (simp_all add: t len nth_append)
  have yr: "0 \<le> tm_year ?p" "tm_year ?p < 10000"
    using year_in_range [OF assms] by simp_all
  have f: "int (decimal_value y) = tm_year ?p \<and> list_all isdigit y"
    "int (decimal_value m) = tm_mon ?p + 1 \<and> list_all isdigit m"
    "int (decimal_value d) = tm_mday ?p \<and> list_all isdigit d"
    "int (decimal_value h) = tm_hour ?p \<and> list_all isdigit h"
    "int (decimal_value mi) = tm_min ?p \<and> list_all isdigit mi"
    "int (decimal_value se) = tm_sec ?p \<and> list_all isdigit se"
    using yr gmtime_fields [of t] by (simp_all add: len two_digits_facts four_digits_facts)
  have at: "digits_at (formatAmzDate t) 0 4 = Some (tm_year ?p)"
    "digits_at (formatAmzDate t) 4 2 = Some (tm_mon ?p + 1)"
    "digits_at (formatAmzDate t) 6 2 = Some (tm_mday ?p)"
    "digits_at (formatAmzDate t) 9 2 = Some (tm_hour ?p)"
    "digits_at (formatAmzDate t) 11 2 = Some (tm_min ?p)"
    "digits_at (formatAmzDate t) 13 2 = Some (tm_sec ?p)"
    using f digits_at_middle [of "[]" 0 y 4] digits_at_middle [of y 4 m 2] digits_at_middle [of "y @ m" 6 d 2]
      digits_at_middle [of "y @ m @ d @ ''T''" 9 h 2] digits_at_middle [of "y @ m @ d @ ''T'' @ h" 11 mi 2]
      digits_at_middle [of "y @ m @ d @ ''T'' @ h @ mi" 13 se 2]
    by (simp_all add: t len)
  have "timegm \<lparr>tm_year = tm_year ?p, tm_mon = tm_mon ?p, tm_mday = tm_mday ?p, tm_hour = tm_hour ?p,
      tm_min = tm_min ?p, tm_sec = tm_sec ?p, tm_wday = 0\<rparr> = timegm (?p\<lparr>tm_wday := 0\<rparr>)"
    by (cases ?p) simp
  then have stamp: "timegm \<lparr>tm_year = tm_year ?p, tm_mon = tm_mon ?p, tm_mday = tm_mday ?p, tm_hour = tm_hour ?p,
      tm_min = tm_min ?p, tm_sec = tm_sec ?p, tm_wday = 0\<rparr> = t"
    by (simp only: timegm_weekday timegm_gmtime)
  show ?thesis
    using assms by (simp add: parseAmzDate_def shape at stamp date_in_range_def)
qed

text \<open>
  A time that does not exist is accepted. The parser is documented to refuse an impossible
  date; it compares the date only with its normal form, so a minute past the hour is carried
  into the next hour, as long as the day stays the same.
\<close>

theorem impossible_minute_accepted:
  "parseAmzDate ''20260816T126100Z'' = parseAmzDate ''20260816T130100Z''"
  "parseAmzDate ''20260816T130100Z'' = Some 1786885260"
  "parseAmzDate ''20260816T246100Z'' = None"
  by code_simp+

text \<open>
  A credential may go on behind its scope. The form demanded is five parts; what follows a
  sixth separator is dropped, because the test for it compares a position that is never past
  the end.
\<close>

theorem credential_with_extra_parts_accepted:
  "parseCredential ''AK/20260816/eu/s3/aws4_request/anything'' = parseCredential ''AK/20260816/eu/s3/aws4_request''"
  "parseCredential ''AK/20260816/eu/s3/aws4_request'' =
     Inr \<lparr>sc_accessKey = ''AK'', sc_dateStamp = ''20260816'', sc_region = ''eu'', sc_service = ''s3'',
          sc_terminator = ''aws4_request''\<rparr>"
  by code_simp+

section \<open>A presigned URL is redeemable\<close>

lemma kHexDigits_facts:
  "list_all (\<lambda>c. tolower c = c \<and> isUnreserved c) kHexDigits" "length kHexDigits = 16"
  by code_simp+

lemma toHex_chars: "list_all (\<lambda>c. tolower c = c \<and> isUnreserved c) (toHex s)"
proof (induction s)
  case (Cons c s)
  have "unat (drop_bit 4 (byte_val c :: u8)) < 16" "unat ((byte_val c :: u8) AND 0x0F) < 16"
    by (rule u8_nibbles)+
  then have "kHexDigits ! unat (drop_bit 4 (byte_val c :: u8)) \<in> set kHexDigits"
    "kHexDigits ! unat ((byte_val c :: u8) AND 0x0F) \<in> set kHexDigits"
    by (simp_all add: kHexDigits_facts(2))
  with Cons kHexDigits_facts(1) show ?case by (simp add: list_all_iff)
qed simp

lemma toLower_sign [simp]: "toLower (sign C key t) = sign C key t"
  using toHex_chars [of "cy_hmac C key t"] by (auto simp: sign_def toLower_def list_all_iff intro: map_idI)

lemma uriEncode_unreserved: "list_all isUnreserved s \<Longrightarrow> uriEncode s b = s"
  by (induction s) (simp_all add: encode_char_def)

lemma uriEncode_sign: "uriEncode (sign C key t) True = sign C key t"
  using toHex_chars [of "cy_hmac C key t"] by (intro uriEncode_unreserved) (auto simp: sign_def list_all_iff)

lemma canonicalQueryString_kept:
  assumes "mset (kept_pairs ps o1) = mset (kept_pairs qs o2)"
  shows "canonicalQueryString ps o1 = canonicalQueryString qs o2"
proof -
  have "mset (encoded_params ps o1) = mset (encoded_params qs o2)"
    using assms by (simp add: encoded_params_pairs)
  then have "sort (encoded_params ps o1) = sort (encoded_params qs o2)"
    by (simp only: sort_eq_iff)
  then show ?thesis by (simp only: canonicalQueryString_join)
qed

lemma findQuery_map_of: "findQuery ps name = map_of (map param_pair ps) name"
  by (induction ps) (auto simp: findQuery_def param_pair_def)

lemma findQuery_mset:
  assumes "mset (map param_pair ps) = mset pairs" "distinct (map fst pairs)"
  shows "findQuery ps name = map_of pairs name"
proof -
  have "mset (map fst (map param_pair ps)) = mset (map fst pairs)"
    using assms(1) by (metis mset_map)
  then have "distinct (map fst (map param_pair ps))"
    using assms(2) by (metis mset_eq_imp_distinct_iff)
  moreover have "set (map param_pair ps) = set pairs"
    using assms(1) by (rule mset_eq_setD)
  ultimately show ?thesis
    unfolding findQuery_map_of using assms(2) by (intro map_of_inject_set [THEN iffD2, THEN fun_cong])
qed

lemma param_pair_decoded:
  "map (param_pair \<circ> (\<lambda>(n, v). \<lparr>q_name = uriDecode n, q_value = uriDecode v, q_hasValue = True\<rparr>)) items =
     map (\<lambda>(n, v). (uriDecode n, uriDecode v)) items"
  by (simp add: param_pair_def split_beta)

lemma join_with_snoc: "xs \<noteq> [] \<Longrightarrow> join_with sep (xs @ [x]) = join_with sep xs @ sep @ x"
  by (induction sep xs rule: join_with.induct) simp_all

text \<open>The pairs read from the query of a presigned URL: those signed, and the signature.\<close>

lemma mset_map_sort: "mset (map f (sort xs @ [i])) = mset (map f xs @ [f i])"
  by simp

lemma presigned_pairs:
  assumes "params \<noteq> []" "encoded_item (''X-Amz-Signature'', signature)"
  shows "mset (map param_pair (parseQuery (canonicalQueryString params [] @ ''&X-Amz-Signature='' @ signature))) =
    mset (map param_pair params @ [(''X-Amz-Signature'', uriDecode signature)])"
proof -
  let ?items = "sort (encoded_params params [])" and ?sig = "(''X-Amz-Signature'', signature)"
  let ?dec = "\<lambda>(n, v). (uriDecode n, uriDecode v)"
  have sig: "uriDecode ''X-Amz-Signature'' = ''X-Amz-Signature''" by code_simp
  have "encoded_params params [] \<noteq> []"
    using assms(1) by (simp add: encoded_params_def)
  then have "?items \<noteq> []" by (metis mset_sort mset_zero_iff)
  then have query: "canonicalQueryString params [] @ ''&X-Amz-Signature='' @ signature =
      join_with ''&'' (map render_item (?items @ [?sig]))"
    by (simp add: canonicalQueryString_join join_with_snoc)
  have "list_all encoded_item (?items @ [?sig])"
    using encoded_items [of params "[]"] assms(2) by simp
  then have "map param_pair (parseQuery (canonicalQueryString params [] @ ''&X-Amz-Signature='' @ signature)) =
      map ?dec (?items @ [?sig])"
    by (simp only: query parseQuery_join map_map param_pair_decoded)
  then have "mset (map param_pair (parseQuery (canonicalQueryString params [] @ ''&X-Amz-Signature='' @ signature))) =
      mset (map ?dec (encoded_params params []) @ [?dec ?sig])"
    by (simp only: mset_map_sort)
  also have "map ?dec (encoded_params params []) = map param_pair params"
    by (simp add: encoded_params_def param_pair_def)
  finally show ?thesis by (simp only: prod.case sig)
qed

lemma canonical_pairs:
  "mset (map param_pair (parseQuery (canonicalQueryString params []))) = mset (map param_pair params)"
proof -
  have "mset (map param_pair (parseQuery (canonicalQueryString params []))) =
      mset (map (\<lambda>(n, v). (uriDecode n, uriDecode v)) (sort (encoded_params params [])))"
    by (simp only: parseQuery_canonical map_map param_pair_decoded)
  also have "\<dots> = mset (map (\<lambda>(n, v). (uriDecode n, uriDecode v)) (encoded_params params []))"
    by simp
  also have "map (\<lambda>(n, v). (uriDecode n, uriDecode v)) (encoded_params params []) = map param_pair params"
    by (simp add: encoded_params_def param_pair_def)
  finally show ?thesis .
qed

lemma unsigned_query:
  assumes "mset (map param_pair ps) = mset (map param_pair params @ extra)" "omit \<noteq> []"
    and "\<forall>p\<in>set params. q_name p \<noteq> omit" "\<forall>e\<in>set extra. fst e = omit"
  shows "canonicalQueryString ps omit = canonicalQueryString params []"
proof (rule canonicalQueryString_kept)
  have "kept_pairs ps omit = filter (\<lambda>p. fst p \<noteq> omit) (map param_pair ps)"
    using assms(2) by (simp add: kept_pairs_def filter_map comp_def param_pair_def)
  then have "mset (kept_pairs ps omit) = mset (filter (\<lambda>p. fst p \<noteq> omit) (map param_pair params @ extra))"
    by (simp only: mset_filter assms(1))
  also have "filter (\<lambda>p. fst p \<noteq> omit) (map param_pair params @ extra) = map param_pair params"
    using assms(3,4) by (auto simp: filter_id_conv filter_empty_conv param_pair_def)
  finally show "mset (kept_pairs ps omit) = mset (kept_pairs params [])"
    by (simp add: kept_pairs_def)
qed

text \<open>The query of a presigned URL, as its parameters and canonical string.\<close>

lemma date_stamp_no_slash:
  assumes "date_in_range t"
  shows "CHR ''/'' \<notin> set (take 8 (formatAmzDate t))"
proof -
  have "take 8 (formatAmzDate t) =
      four_digits (tm_year (gmtime t)) @ two_digits (tm_mon (gmtime t) + 1) @ two_digits (tm_mday (gmtime t))"
    by (simp add: formatAmzDate_def Let_def)
  moreover have "list_all isdigit (four_digits (tm_year (gmtime t)) @ two_digits (tm_mon (gmtime t) + 1) @
      two_digits (tm_mday (gmtime t)))"
    using year_in_range [OF assms] gmtime_fields [of t] by (simp add: two_digits_facts four_digits_facts)
  ultimately have "list_all isdigit (take 8 (formatAmzDate t))" by simp
  then show ?thesis by (auto simp: list_all_iff isdigit_def less_eq_char_def)
qed

lemma parseCredential_scope:
  assumes "CHR ''/'' \<notin> set ak" "CHR ''/'' \<notin> set d" "CHR ''/'' \<notin> set region"
  shows "parseCredential (ak @ ''/'' @ d @ ''/'' @ region @ ''/'' @ kService @ ''/'' @ kTerminator) =
    Inr \<lparr>sc_accessKey = ak, sc_dateStamp = d, sc_region = region, sc_service = kService, sc_terminator = kTerminator\<rparr>"
proof -
  have "CHR ''/'' \<notin> set kService" "CHR ''/'' \<notin> set kTerminator"
    by (simp_all add: kService_def kTerminator_def)
  then have "fields_of (CHR ''/'') (ak @ ''/'' @ d @ ''/'' @ region @ ''/'' @ kService @ ''/'' @ kTerminator) =
      [ak, d, region, kService, kTerminator]"
    using assms by (simp add: fields_of_append fields_of_single del: fields_of.simps)
  then show ?thesis by (simp add: parseCredential_def)
qed

lemma build_host_only:
  assumes "map_of (sg_headers r) ''host'' = Some host"
  shows "buildCanonicalRequest r [''host''] hash = Inr
    \<lparr>cn_method = sg_method r, cn_uri = (if sg_uri r = [] then ''/'' else sg_uri r),
     cn_query = canonicalQueryString (parseQuery (sg_query r)) ''X-Amz-Signature'',
     cn_headers = ''host'' @ '':'' @ canonicalHeaderValue host @ nl, cn_signedHeaders = ''host'',
     cn_payloadHash = hash\<rparr>"
proof -
  have "sg_hasHeader r ''host''"
    using map_of_SomeD [OF assms] by (force simp: sg_hasHeader_def list_ex_iff)
  then show ?thesis by (simp add: buildCanonicalRequest_def sg_header_def assms)
qed

lemma presigned_accepted:
  assumes mint: "presignQuery C request credentials = Inr query"
    and time: "date_in_range (pr_nowSeconds request)" "pr_nowSeconds request \<le> ap_nowSeconds options"
      "ap_nowSeconds options \<le> pr_nowSeconds request + pr_expiresSeconds request" "0 \<le> ap_skewSeconds options"
    and plain: "CHR ''/'' \<notin> set (cr_accessKey credentials)" "CHR ''/'' \<notin> set (pr_region request)"
    and sent: "sg_method r = pr_method request" "sg_uri r = pr_uri request" "sg_query r = query"
      "map_of (sg_headers r) ''host'' = Some (pr_host request)"
    and known: "resolve (cr_accessKey credentials) = Inr (Some (cr_secretKey credentials))"
  shows "\<exists>outcome. authenticate C resolve r (parseQuery query) options = Inr outcome \<and>
    ao_presigned outcome \<and> \<not> ao_anonymous outcome \<and> ao_accessKey outcome = cr_accessKey credentials \<and>
    ao_method outcome = pr_method request"
proof -
  let ?date = "formatAmzDate (pr_nowSeconds request)"
  let ?stamp = "take 8 ?date"
  let ?scope = "?stamp @ ''/'' @ pr_region request @ ''/'' @ kService @ ''/'' @ kTerminator"
  let ?params = "presign_params request credentials ?date ?scope"
  let ?base = "canonicalQueryString ?params []"
  let ?key = "deriveSigningKey C (cr_secretKey credentials) ?stamp (pr_region request) kService"
  let ?canonical = "\<lparr>cn_method = pr_method request, cn_uri = (if pr_uri request = [] then ''/'' else pr_uri request),
     cn_query = ?base, cn_headers = ''host'' @ '':'' @ canonicalHeaderValue (pr_host request) @ nl,
     cn_signedHeaders = ''host'', cn_payloadHash = kUnsignedPayload\<rparr>"
  define signature where
    "signature = sign C ?key (stringToSign ?date ?scope (sha256Hex (cy_hashes C) (render ?canonical)))"
  have expires: "0 < pr_expiresSeconds request" "pr_expiresSeconds request \<le> 604800"
    using mint by (auto simp: presignQuery_def split: if_splits)
  have names: "\<forall>p\<in>set ?params. q_name p \<noteq> ''X-Amz-Signature''" and some: "?params \<noteq> []"
    by (simp_all add: presign_params_def)
  have base: "canonicalQueryString (parseQuery ?base) ''X-Amz-Signature'' = ?base"
    by (rule unsigned_query [of _ _ "[]"]) (use names canonical_pairs [of ?params] in auto)
  have query: "query = ?base @ ''&X-Amz-Signature='' @ signature"
    using mint base by (auto simp: presignQuery_def Let_def build_host_only signature_def split: if_splits)
  have enc: "encoded_item (''X-Amz-Signature'', signature)"
  proof -
    have "uriEncode ''X-Amz-Signature'' True = ''X-Amz-Signature''" by code_simp
    then show ?thesis unfolding encoded_item_def signature_def by (metis uriEncode_sign)
  qed
  have decoded: "uriDecode signature = signature"
    by (metis signature_def uriDecode_uriEncode uriEncode_sign)
  have pairs: "mset (map param_pair (parseQuery query)) =
      mset (map param_pair ?params @ [(''X-Amz-Signature'', signature)])"
    using presigned_pairs [OF some enc] by (simp only: query decoded)
  have "distinct (map fst (map param_pair ?params @ [(''X-Amz-Signature'', signature)]))"
    by (simp add: presign_params_def param_pair_def)
  note found = findQuery_mset [OF pairs this]
  have find: "findQuery (parseQuery query) ''X-Amz-Algorithm'' = Some kAlgorithm"
    "findQuery (parseQuery query) ''X-Amz-Credential'' = Some (cr_accessKey credentials @ ''/'' @ ?scope)"
    "findQuery (parseQuery query) ''X-Amz-Date'' = Some ?date"
    "findQuery (parseQuery query) ''X-Amz-Expires'' = Some (to_string (nat (pr_expiresSeconds request)))"
    "findQuery (parseQuery query) ''X-Amz-SignedHeaders'' = Some ''host''"
    "findQuery (parseQuery query) ''X-Amz-Signature'' = Some signature"
    unfolding found by (simp_all add: presign_params_def param_pair_def)
  have "stoll (to_string (nat (pr_expiresSeconds request))) = Inr (int (nat (pr_expiresSeconds request)))"
    using expires by (intro stoll_to_string) simp
  then have expiry: "expiry_of (parseQuery query) = pr_expiresSeconds request"
    using expires by (simp add: expiry_of_def find(4))
  let ?o = "no_outcome\<lparr>ao_presigned := True, ao_amzDate := ?date, ao_payload := UnsignedPayload\<rparr>"
  let ?p = "\<lparr>pn_outcome = ?o, pn_credential = cr_accessKey credentials @ ''/'' @ ?scope, pn_signedHeaderList = ''host'',
     pn_providedSignature = signature, pn_payloadHash = kUnsignedPayload\<rparr>"
  have present: "present_query (parseQuery query) signature options = Inr ?p"
    using time expires by (simp add: present_query_def find expiry parseAmzDate_formatAmzDate)
  let ?q = "?o\<lparr>ao_accessKey := cr_accessKey credentials, ao_scope := ?scope, ao_signingKey := ?key\<rparr>"
  have query': "canonicalQueryString (parseQuery (sg_query r)) ''X-Amz-Signature'' = ?base"
    unfolding sent(3) by (rule unsigned_query [OF pairs]) (use names in auto)
  have r: "r\<lparr>sg_method := pr_method request\<rparr> = r" using sent(1) by (cases r) simp
  have "attempt C r [''host''] kUnsignedPayload ?q (pr_method request) = Inr signature"
    unfolding attempted_Inr r build_host_only [OF sent(4)]
    by (simp add: sent(1,2) query' signature_def)
  moreover have "toLower signature = signature" by (simp add: signature_def)
  ultimately have verify: "verify_signature C r options [''host''] ?p ?q =
      Inr (?q\<lparr>ao_signature := signature, ao_method := pr_method request\<rparr>)"
    by (simp add: verify_signature_def sent(1))
  have split: "splitSignedHeaders ''host'' = [''host'']" by code_simp
  have check: "check_presented C resolve r options ?p =
      verify_signature C r options [''host''] ?p ?q"
    using parseCredential_scope [OF plain(1) date_stamp_no_slash [OF time(1)] plain(2)]
    by (simp add: check_presented_def split known scope_text_def Let_def)
  have "authenticate C resolve r (parseQuery query) options =
      Inr (?q\<lparr>ao_signature := signature, ao_method := pr_method request\<rparr>)"
    by (simp only: authenticate_def find option.case present sbind_simps check verify)
  then show ?thesis by (simp add: no_outcome_def)
qed

text \<open>
  C33: A presigned URL can be redeemed. Whoever sends the method, path and query a URL was minted
  for to the host it was minted for is accepted as the holder of its access key, at any time from
  when it was minted until it expires, whatever other headers the request carries.
\<close>

theorem presigned_url_redeemed:
  assumes mint: "presignQuery C request credentials = Inr query"
    and time: "date_in_range (pr_nowSeconds request)" "pr_nowSeconds request \<le> ap_nowSeconds options"
      "ap_nowSeconds options \<le> pr_nowSeconds request + pr_expiresSeconds request" "0 \<le> ap_skewSeconds options"
    and plain: "CHR ''/'' \<notin> set (cr_accessKey credentials)" "CHR ''/'' \<notin> set (pr_region request)"
    and sent: "sg_method r = pr_method request" "sg_uri r = pr_uri request" "sg_query r = query"
      "map_of (sg_headers r) ''host'' = Some (pr_host request)"
    and known: "resolve (cr_accessKey credentials) = Inr (Some (cr_secretKey credentials))"
  shows "\<exists>outcome. authenticate C resolve r (parseQuery query) options = Inr outcome \<and>
    ao_presigned outcome \<and> \<not> ao_anonymous outcome \<and> ao_accessKey outcome = cr_accessKey credentials \<and>
    ao_method outcome = pr_method request"
  using assms by (rule presigned_accepted)

text \<open>A small instance: functions in the place of the hashes that keep a few characters.\<close>

definition demo_crypto :: crypto where
  "demo_crypto = \<lparr>cy_hashes = \<lparr>md5_raw = \<lambda>s. take 2 (rev s), sha256_raw = \<lambda>s. take 2 (rev s)\<rparr>,
     cy_hmac = \<lambda>k s. take 1 k @ take 1 (rev s)\<rparr>"

definition demo_presign :: PresignRequest where
  "demo_presign = \<lparr>pr_method = ''GET'', pr_host = ''h'', pr_uri = ''/b/k'', pr_region = ''eu'',
     pr_nowSeconds = 0, pr_expiresSeconds = 60\<rparr>"

definition demo_credentials :: Credentials where
  "demo_credentials = \<lparr>cr_accessKey = ''AK'', cr_secretKey = ''s''\<rparr>"

definition demo_options :: AuthOptions where
  "demo_options = \<lparr>ap_region = ''eu'', ap_nowSeconds = 30, ap_skewSeconds = kSignatureSkewSeconds, ap_alternateMethod = []\<rparr>"

definition demo_query :: string where
  "demo_query = (case presignQuery demo_crypto demo_presign demo_credentials of Inr q \<Rightarrow> q | Inl _ \<Rightarrow> [])"

definition demo_request :: SigningRequest where
  "demo_request = \<lparr>sg_method = ''GET'', sg_uri = ''/b/k'', sg_query = demo_query, sg_headers = [(''host'', ''h'')]\<rparr>"

lemma demo_minted: "presignQuery demo_crypto demo_presign demo_credentials = Inr demo_query"
proof -
  have "\<exists>q. presignQuery demo_crypto demo_presign demo_credentials = Inr q"
    by (simp add: presignQuery_def demo_presign_def Let_def build_host_only)
  then show ?thesis by (auto simp: demo_query_def)
qed

theorem presigned_url_redeemed_witness:
  "\<exists>outcome. authenticate demo_crypto (resolve_pair demo_credentials) demo_request (parseQuery demo_query) demo_options =
     Inr outcome \<and>
     ao_presigned outcome \<and> \<not> ao_anonymous outcome \<and> ao_accessKey outcome = ''AK'' \<and> ao_method outcome = ''GET''"
  using presigned_url_redeemed [OF demo_minted, of demo_options demo_request "resolve_pair demo_credentials"]
  by (simp add: demo_presign_def demo_options_def demo_request_def demo_credentials_def resolve_pair_def
      date_in_range_def kSignatureSkewSeconds_def)

lemma demo_authenticated:
  "\<exists>outcome. authenticate demo_crypto (resolve_pair demo_credentials) demo_request (parseQuery demo_query) demo_options =
     Inr outcome \<and> \<not> ao_anonymous outcome"
  using presigned_accepted [OF demo_minted, of demo_options demo_request "resolve_pair demo_credentials"]
  by (auto simp: demo_presign_def demo_options_def demo_request_def demo_credentials_def resolve_pair_def
      date_in_range_def kSignatureSkewSeconds_def)

theorem authenticated_requests_are_signed_witness:
  "\<exists>outcome p secret.
     authenticate demo_crypto (resolve_pair demo_credentials) demo_request (parseQuery demo_query) demo_options = Inr outcome \<and>
     presented_by demo_request (parseQuery demo_query) demo_options p \<and> carries demo_request (parseQuery demo_query) p \<and>
     resolve_pair demo_credentials (ao_accessKey outcome) = Inr (Some secret) \<and>
     signed_by demo_crypto secret demo_request demo_options p outcome \<and>
     fresh (parseQuery demo_query) demo_options outcome"
proof -
  from demo_authenticated obtain outcome where
    o: "authenticate demo_crypto (resolve_pair demo_credentials) demo_request (parseQuery demo_query) demo_options = Inr outcome"
    "\<not> ao_anonymous outcome" by blast
  from authenticated_requests_are_signed [OF this] o(1) show ?thesis by blast
qed

section \<open>The canonical request is unambiguous\<close>

definition one_line :: "string \<Rightarrow> bool" where
  "one_line s \<longleftrightarrow> CHR 0x0A \<notin> set s"

lemma nl_inject: "one_line a \<Longrightarrow> one_line b \<Longrightarrow> a @ nl @ x = b @ nl @ y \<longleftrightarrow> a = b \<and> x = y"
proof -
  assume a: "one_line a" "one_line b"
  show "a @ nl @ x = b @ nl @ y \<longleftrightarrow> a = b \<and> x = y"
  proof
    assume eq: "a @ nl @ x = b @ nl @ y"
    have "a = before (CHR 0x0A) (a @ nl @ x)" "b = before (CHR 0x0A) (b @ nl @ y)"
      using a by (simp_all add: one_line_def nl_def)
    then have "a = b" using eq by simp
    then show "a = b \<and> x = y" using eq by simp
  qed simp
qed

lemma nl_inject_last:
  assumes "one_line a" "one_line b" "x @ nl @ a = y @ nl @ b"
  shows "a = b \<and> x = y"
proof -
  have "rev a @ nl @ rev x = rev b @ nl @ rev y"
    using arg_cong [OF assms(3), of rev] by (simp add: nl_def)
  moreover have "one_line (rev a)" "one_line (rev b)" using assms(1,2) by (simp_all add: one_line_def)
  ultimately have "rev a = rev b \<and> rev x = rev y" by (simp add: nl_inject)
  then show ?thesis by simp
qed

lemma render_inject:
  assumes "render c = render d"
    and "list_all one_line [cn_method c, cn_uri c, cn_query c, cn_signedHeaders c, cn_payloadHash c]"
    and "list_all one_line [cn_method d, cn_uri d, cn_query d, cn_signedHeaders d, cn_payloadHash d]"
  shows "c = d"
proof -
  have "cn_method c = cn_method d \<and> cn_uri c = cn_uri d \<and> cn_query c = cn_query d \<and>
      cn_headers c @ nl @ cn_signedHeaders c @ nl @ cn_payloadHash c =
      cn_headers d @ nl @ cn_signedHeaders d @ nl @ cn_payloadHash d"
    using assms by (auto simp: render_def nl_inject)
  moreover from this have "cn_payloadHash c = cn_payloadHash d \<and>
      cn_headers c @ nl @ cn_signedHeaders c = cn_headers d @ nl @ cn_signedHeaders d"
    using assms(2,3) nl_inject_last [of "cn_payloadHash c" "cn_payloadHash d"
        "cn_headers c @ nl @ cn_signedHeaders c" "cn_headers d @ nl @ cn_signedHeaders d"] by simp
  moreover from this have "cn_signedHeaders c = cn_signedHeaders d \<and> cn_headers c = cn_headers d"
    using assms(2,3) nl_inject_last [of "cn_signedHeaders c" "cn_signedHeaders d" "cn_headers c" "cn_headers d"] by simp
  ultimately show ?thesis by (cases c; cases d) simp
qed

text \<open>What the loop over the sorted names builds.\<close>

definition header_lines :: "SigningRequest \<Rightarrow> string list \<Rightarrow> string" where
  "header_lines r names = concat (map (\<lambda>n. n @ '':'' @ canonicalHeaderValue (sg_header r n) @ nl) names)"

lemma canonical_loop_Inr:
  assumes "canonical_loop r names c = Inr d" "[] \<notin> set names"
  shows "list_all (sg_hasHeader r) names \<and>
    d = c\<lparr>cn_headers := cn_headers c @ header_lines r names,
      cn_signedHeaders := (if names = [] then cn_signedHeaders c
        else if cn_signedHeaders c = [] then join_with '';'' names
        else cn_signedHeaders c @ '';'' @ join_with '';'' names)\<rparr>"
  using assms
proof (induction names arbitrary: c)
  case (Cons name names)
  then show ?case by (fastforce simp: header_lines_def join_with_Cons split: if_splits)
qed (simp add: header_lines_def)

lemma header_lines_inject:
  assumes "header_lines r names = header_lines r' names"
    and "list_all (\<lambda>n. one_line (canonicalHeaderValue (sg_header r n)) \<and> one_line (canonicalHeaderValue (sg_header r' n))) names"
  shows "list_all (\<lambda>n. canonicalHeaderValue (sg_header r n) = canonicalHeaderValue (sg_header r' n)) names"
  using assms by (induction names) (simp_all add: header_lines_def nl_inject)

lemma join_names_inject:
  assumes "join_with '';'' xs = join_with '';'' ys"
    and "list_all (\<lambda>n. n \<noteq> [] \<and> CHR '';'' \<notin> set n) xs" "list_all (\<lambda>n. n \<noteq> [] \<and> CHR '';'' \<notin> set n) ys"
  shows "xs = ys"
proof -
  have empty: "zs = []" if "join_with '';'' zs = []" "list_all (\<lambda>n. n \<noteq> [] \<and> CHR '';'' \<notin> set n) zs" for zs
    using that by (cases zs) (simp_all add: join_with_Cons)
  show ?thesis
  proof (cases "xs = [] \<or> ys = []")
    case True
    then show ?thesis using assms empty [of xs] empty [of ys] by auto
  next
    case False
    then have "fields_of (CHR '';'') (join_with '';'' xs) = xs" "fields_of (CHR '';'') (join_with '';'' ys) = ys"
      using assms(2,3) by (auto simp: list_all_iff intro!: fields_of_join)
    then show ?thesis using assms(1) by metis
  qed
qed

lemma one_line_value: "one_line v \<Longrightarrow> one_line (canonicalHeaderValue v)"
proof -
  have "set (canonical_value_loop out p v) \<subseteq> insert (CHR '' '') (set out \<union> set v)" for out p v
    by (induction out p v rule: canonical_value_loop.induct) auto
  from this [of "[]" False v] show "one_line v \<Longrightarrow> one_line (canonicalHeaderValue v)"
    by (auto simp: one_line_def canonicalHeaderValue_def)
qed

lemma kUpperHexDigits_one_line: "n < 16 \<Longrightarrow> kUpperHexDigits ! n \<noteq> CHR 0x0A"
proof -
  assume n: "n < 16"
  have "list_all (\<lambda>c. c \<noteq> CHR 0x0A) kUpperHexDigits" "length kUpperHexDigits = 16" by code_simp+
  then show ?thesis using n by (auto simp: list_all_length)
qed

lemma one_line_append [simp]: "one_line (a @ b) \<longleftrightarrow> one_line a \<and> one_line b"
  by (auto simp: one_line_def)

lemma one_line_encode: "one_line (uriEncode s b)"
proof (induction s)
  case (Cons c s)
  have "isUnreserved c \<Longrightarrow> c \<noteq> CHR 0x0A" by (auto simp: isUnreserved_def less_eq_char_def)
  then have "one_line (encode_char b c)"
    using kUpperHexDigits_one_line [OF u8_nibbles(1) [of "byte_val c"]]
      kUpperHexDigits_one_line [OF u8_nibbles(2) [of "byte_val c"]]
    by (auto simp: one_line_def encode_char_def)
  with Cons show ?case by simp
qed (simp add: one_line_def)

lemma one_line_join: "one_line sep \<Longrightarrow> list_all one_line xs \<Longrightarrow> one_line (join_with sep xs)"
  by (induction sep xs rule: join_with.induct) (simp_all add: one_line_def)

lemma one_line_canonical_query: "one_line (canonicalQueryString ps omit)"
proof -
  have "one_line ''&''" "one_line ''=''" by (simp_all add: one_line_def)
  then show ?thesis
    unfolding canonicalQueryString_join
    by (intro one_line_join)
      (auto simp: list_all_iff encoded_params_def one_line_encode one_line_def [of "CHR ''='' # _"]
        simp flip: one_line_def dest: one_line_encode [unfolded one_line_def, THEN notE])
qed

definition plain_request :: "SigningRequest \<Rightarrow> string list \<Rightarrow> string \<Rightarrow> bool" where
  "plain_request r names hash \<longleftrightarrow>
     one_line (sg_method r) \<and> one_line (sg_uri r) \<and> one_line hash \<and>
     list_all (\<lambda>n. n \<noteq> [] \<and> one_line n \<and> CHR '';'' \<notin> set n \<and> one_line (sg_header r n)) names"

definition path_of :: "SigningRequest \<Rightarrow> string" where
  "path_of r = (if sg_uri r = [] then ''/'' else sg_uri r)"

lemma buildCanonicalRequest_Inr:
  assumes "buildCanonicalRequest r names hash = Inr c" "plain_request r names hash"
  shows "c = \<lparr>cn_method = sg_method r, cn_uri = path_of r,
      cn_query = canonicalQueryString (parseQuery (sg_query r)) ''X-Amz-Signature'',
      cn_headers = header_lines r (remdups_adj (sort names)),
      cn_signedHeaders = join_with '';'' (remdups_adj (sort names)), cn_payloadHash = hash\<rparr>"
    and "list_all one_line [cn_method c, cn_uri c, cn_query c, cn_signedHeaders c, cn_payloadHash c]"
proof -
  have "[] \<notin> set (remdups_adj (sort names))"
    using assms(2) by (auto simp: plain_request_def list_all_iff)
  from canonical_loop_Inr [OF assms(1) [unfolded buildCanonicalRequest_def] this]
  show c: "c = \<lparr>cn_method = sg_method r, cn_uri = path_of r,
      cn_query = canonicalQueryString (parseQuery (sg_query r)) ''X-Amz-Signature'',
      cn_headers = header_lines r (remdups_adj (sort names)),
      cn_signedHeaders = join_with '';'' (remdups_adj (sort names)), cn_payloadHash = hash\<rparr>"
    by (auto simp: path_of_def)
  have "one_line (join_with '';'' (remdups_adj (sort names)))"
    using assms(2) by (intro one_line_join) (auto simp: plain_request_def list_all_iff one_line_def)
  then show "list_all one_line [cn_method c, cn_uri c, cn_query c, cn_signedHeaders c, cn_payloadHash c]"
    using assms(2) by (auto simp: c plain_request_def path_of_def one_line_canonical_query) (simp add: one_line_def)
qed

text \<open>
  C34: A signature covers what it claims to. Two requests whose canonical requests are the same
  text have the same method, path, query parameters and payload hash, sign the same headers, and
  agree on the value of each signed header up to spaces; nothing of one part can be moved into
  another.
\<close>

theorem canonical_request_unambiguous:
  assumes build: "buildCanonicalRequest r names hash = Inr c" "buildCanonicalRequest r' names' hash' = Inr c'"
    and eq: "render c = render c'"
    and plain: "plain_request r names hash" "plain_request r' names' hash'"
  shows "sg_method r = sg_method r' \<and> path_of r = path_of r' \<and> hash = hash' \<and>
    mset (kept_pairs (parseQuery (sg_query r)) ''X-Amz-Signature'') =
      mset (kept_pairs (parseQuery (sg_query r')) ''X-Amz-Signature'') \<and>
    set names = set names' \<and>
    (\<forall>n\<in>set names. canonicalHeaderValue (sg_header r n) = canonicalHeaderValue (sg_header r' n))"
proof -
  note c = buildCanonicalRequest_Inr [OF build(1) plain(1)] and c' = buildCanonicalRequest_Inr [OF build(2) plain(2)]
  have same: "c = c'" by (rule render_inject [OF eq c(2) c'(2)])
  let ?ns = "remdups_adj (sort names)" and ?ns' = "remdups_adj (sort names')"
  have fields: "sg_method r = sg_method r'" "path_of r = path_of r'" "hash = hash'"
    "canonicalQueryString (parseQuery (sg_query r)) ''X-Amz-Signature'' =
      canonicalQueryString (parseQuery (sg_query r')) ''X-Amz-Signature''"
    "header_lines r ?ns = header_lines r' ?ns'" "join_with '';'' ?ns = join_with '';'' ?ns'"
    using same c(1) c'(1) by simp_all
  have ns: "?ns = ?ns'"
    using plain by (intro join_names_inject [OF fields(6)]) (auto simp: plain_request_def list_all_iff)
  then have names: "set names = set names'" by (metis remdups_adj_set set_sort)
  have "list_all (\<lambda>n. canonicalHeaderValue (sg_header r n) = canonicalHeaderValue (sg_header r' n)) ?ns"
    using fields(5) plain names unfolding ns
    by (intro header_lines_inject) (auto simp: plain_request_def list_all_iff intro!: one_line_value)
  then show ?thesis
    using fields names ns by (auto simp: list_all_iff canonicalQueryString_eq_iff)
qed

definition reordered :: "string \<Rightarrow> string \<Rightarrow> SigningRequest" where
  "reordered query host = \<lparr>sg_method = ''GET'', sg_uri = ''/b'', sg_query = query, sg_headers = [(''host'', host)]\<rparr>"

theorem canonical_request_unambiguous_witness:
  "mset (kept_pairs (parseQuery ''b=2&a'') ''X-Amz-Signature'') = mset (kept_pairs (parseQuery ''a=&b=%32'') ''X-Amz-Signature'') \<and>
   canonicalHeaderValue ''h  1'' = canonicalHeaderValue '' h 1''"
proof -
  let ?r = "reordered ''b=2&a'' ''h  1''" and ?r' = "reordered ''a=&b=%32'' '' h 1''"
  have b: "\<exists>c. buildCanonicalRequest ?r [''host''] [] = Inr c \<and> buildCanonicalRequest ?r' [''host''] [] = Inr c"
  proof -
    have "canonicalQueryString (parseQuery ''b=2&a'') ''X-Amz-Signature'' =
        canonicalQueryString (parseQuery ''a=&b=%32'') ''X-Amz-Signature''"
      "canonicalHeaderValue ''h  1'' = canonicalHeaderValue '' h 1''"
      by code_simp+
    then show ?thesis by (simp add: reordered_def build_host_only)
  qed
  then obtain c where c: "buildCanonicalRequest ?r [''host''] [] = Inr c" "buildCanonicalRequest ?r' [''host''] [] = Inr c"
    by blast
  have "plain_request ?r [''host''] []" "plain_request ?r' [''host''] []"
    by (simp_all add: reordered_def plain_request_def one_line_def sg_header_def)
  from canonical_request_unambiguous [OF c refl this] show ?thesis
    by (simp add: reordered_def sg_header_def)
qed

end
