(* ===== verification/Chunked.thy ===== *)
theory Chunked
  imports Sigv4 "HOL-Library.Sublist"
begin

text \<open>
  The aws-chunked framing of a body: s3/chunked.hpp and s3/chunked.cpp. The decoder hands the
  payload of each chunk to a sink; nothing it does depends on the sink, so it is a function of
  the body to the pieces delivered, in order, and to how it ended: with the trailing headers or
  with an exception, which comes after the pieces before it.
\<close>

section \<open>Lines and sizes\<close>

definition kMaxChunkBytes :: u64 where "kMaxChunkBytes = 5 * 1024 * 1024 * 1024"
definition kMaxChunks :: nat where "kMaxChunks = 4000000"
definition kMaxChunkHeaderBytes :: nat where "kMaxChunkHeaderBytes = 1024"
definition kMaxTrailers :: nat where "kMaxTrailers = 32"

definition incomplete :: "s3_exn + 'a" where
  "incomplete = Inl (S3Exception E_IncompleteBody)"

definition crlf :: string where "crlf = [CHR 0x0D, CHR 0x0A]"

definition takeLine :: "string \<Rightarrow> nat \<Rightarrow> s3_exn + string \<times> string" where
  "takeLine input limit =
     (case split_sub crlf input of
        None \<Rightarrow> incomplete
      | Some (line, rest) \<Rightarrow> if limit < length line then incomplete else Inr (line, rest))"

definition parseHexSize :: "string \<Rightarrow> s3_exn + u64" where
  "parseHexSize t =
     (if t = [] \<or> 16 < length t then incomplete
      else if list_ex (\<lambda>c. hexValue c < 0) t then incomplete
      else
        let v = foldl (\<lambda>v c. v * 16 + of_int (hexValue c)) 0 t
        in if kMaxChunkBytes < v then incomplete else Inr v)"

definition isBlank :: "char \<Rightarrow> bool" where
  "isBlank c \<longleftrightarrow> c = CHR '' '' \<or> c = CHR 0x09"

section \<open>Chunks\<close>

record ChunkedOptions =
  co_verifySignatures :: bool
  co_signingKey :: string
  co_amzDate :: string
  co_scope :: string
  co_seedSignature :: string
  co_expectTrailerSignature :: bool
  co_declaredLength :: u64

text \<open>The size and the signature of a chunk header.\<close>

definition kChunkSignature :: string where "kChunkSignature = ''chunk-signature=''"

definition chunk_header :: "string \<Rightarrow> s3_exn + string \<times> string" where
  "chunk_header header =
     (if CHR '';'' \<notin> set header then Inr (header, [])
      else
        let extension = after (CHR '';'') header
        in if take (length kChunkSignature) extension \<noteq> kChunkSignature then incomplete
           else Inr (before (CHR '';'') header, drop (length kChunkSignature) extension))"

text \<open>One turn of the loop: the payload, the body behind it and the signature to chain from.\<close>

definition decode_chunk ::
  "crypto \<Rightarrow> ChunkedOptions \<Rightarrow> string \<Rightarrow> string \<Rightarrow> s3_exn + string \<times> string \<times> string" where
  "decode_chunk C opts body previous =
     sbind (takeLine body kMaxChunkHeaderBytes) (\<lambda>(header, body).
     sbind (chunk_header header) (\<lambda>(sizeField, signatureField).
     sbind (parseHexSize sizeField) (\<lambda>size.
     if co_verifySignatures opts \<and> signatureField = [] then Inl (S3Exception E_SignatureDoesNotMatch)
     else if length body < unat size then incomplete
     else
       let payload = take (unat size) body; body = drop (unat size) body;
           expected = chunkSignature C (co_signingKey opts) (co_amzDate opts) (co_scope opts) previous
                        (sha256Hex (cy_hashes C) payload)
       in if co_verifySignatures opts \<and> \<not> secureEquals expected (toLower signatureField)
          then Inl (S3Exception E_SignatureDoesNotMatch)
          else
            let previous = (if co_verifySignatures opts then expected else previous)
            in if size = 0
               then Inr (payload, (if take 2 body = crlf then drop 2 body else body), previous)
               else if take 2 body \<noteq> crlf then incomplete
               else Inr (payload, drop 2 body, previous))))"

lemma takeLine_Inr: "takeLine input limit = Inr (line, rest) \<Longrightarrow> length rest + 2 \<le> length input"
  by (auto simp: takeLine_def incomplete_def crlf_def dest: split_sub_length split: option.splits if_splits)

lemma decode_chunk_shrinks:
  "decode_chunk C opts body previous = Inr (payload, rest, previous') \<Longrightarrow> length rest < length body"
  by (auto simp: decode_chunk_def sbind_Inr Let_def incomplete_def dest!: takeLine_Inr split: if_splits)

function decode_loop ::
  "crypto \<Rightarrow> ChunkedOptions \<Rightarrow> string \<Rightarrow> string \<Rightarrow> nat \<Rightarrow> string list \<times> (s3_exn + string \<times> string)" where
  "decode_loop C opts body previous chunkCount =
     (if body = [] then ([], incomplete)
      else if kMaxChunks < chunkCount + 1 then ([], incomplete)
      else case decode_chunk C opts body previous of
        Inl x \<Rightarrow> ([], Inl x)
      | Inr (payload, rest, previous) \<Rightarrow>
          if payload = [] then ([], Inr (rest, previous))
          else case decode_loop C opts rest previous (chunkCount + 1) of
            (pieces, r) \<Rightarrow> (payload # pieces, r))"
  by pat_completeness auto
termination
  by (relation "measure (\<lambda>(C, opts, body, previous, n). length body)") (auto dest: decode_chunk_shrinks)

declare decode_loop.simps [simp del]

section \<open>Trailers\<close>

text \<open>The trailing headers, their canonical text and the signature declared.\<close>

type_synonym trailer_state = "(string, string) omap \<times> string \<times> string"

definition trailer_line :: "string \<Rightarrow> trailer_state \<Rightarrow> s3_exn + trailer_state" where
  "trailer_line line =
     (\<lambda>(trailers, canonical, declared).
        if kMaxTrailers \<le> length trailers then incomplete
        else if CHR '':'' \<notin> set line then incomplete
        else
          let name = toLower (trim_of isBlank (before (CHR '':'') line));
              v = trim_of isBlank (after (CHR '':'') line)
          in if name = ''x-amz-trailer-signature'' then Inr (trailers, canonical, toLower v)
             else Inr (omap_emplace name v trailers, canonical @ name @ '':'' @ v @ nl, declared))"

function trailer_loop :: "string \<Rightarrow> trailer_state \<Rightarrow> s3_exn + trailer_state" where
  "trailer_loop body s =
     (if body = [] then Inr s
      else case takeLine body kMaxChunkHeaderBytes of
        Inl x \<Rightarrow> Inl x
      | Inr (line, rest) \<Rightarrow>
          if line = [] then Inr s
          else case trailer_line line s of Inl x \<Rightarrow> Inl x | Inr s \<Rightarrow> trailer_loop rest s)"
  by pat_completeness auto
termination by (relation "measure (length \<circ> fst)") (auto dest: takeLine_Inr)

declare trailer_loop.simps [simp del]

definition check_trailers ::
  "crypto \<Rightarrow> ChunkedOptions \<Rightarrow> string list \<Rightarrow> string \<Rightarrow> string \<Rightarrow> s3_exn + (string, string) omap" where
  "check_trailers C opts pieces body previous =
     sbind (trailer_loop body ([], [], [])) (\<lambda>(trailers, canonical, declared).
     if co_verifySignatures opts \<and> co_expectTrailerSignature opts \<and>
        (declared = [] \<or>
         \<not> secureEquals (trailerSignature C (co_signingKey opts) (co_amzDate opts) (co_scope opts) previous
              (sha256Hex (cy_hashes C) canonical)) declared)
     then Inl (S3Exception E_SignatureDoesNotMatch)
     else if co_declaredLength opts \<noteq> 0 \<and> of_nat (length (concat pieces)) \<noteq> co_declaredLength opts
     then incomplete
     else Inr trailers)"

definition chunked_decode ::
  "crypto \<Rightarrow> ChunkedOptions \<Rightarrow> string \<Rightarrow> string list \<times> (s3_exn + (string, string) omap)" where
  "chunked_decode C opts body =
     (case decode_loop C opts body (co_seedSignature opts) 0 of
        (pieces, Inl x) \<Rightarrow> (pieces, Inl x)
      | (pieces, Inr (rest, previous)) \<Rightarrow> (pieces, check_trailers C opts pieces rest previous))"

section \<open>The header of the framing\<close>

definition encodings :: "string \<Rightarrow> string list" where
  "encodings header = map (trim_of isBlank) (fields_of (CHR '','') header)"

definition isAwsChunked :: "string \<Rightarrow> bool" where
  "isAwsChunked header \<longleftrightarrow> list_ex (\<lambda>token. token = ''aws-chunked'') (encodings header)"

definition withoutAwsChunked :: "string \<Rightarrow> string" where
  "withoutAwsChunked header =
     foldl (\<lambda>out token. if token = [] \<or> token = ''aws-chunked'' then out
                        else (if out \<noteq> [] then out @ '','' else out) @ token) [] (encodings header)"

section \<open>What a client sends\<close>

text \<open>The framing of a list of payloads, signed or not, without trailing headers.\<close>

fun hex_text :: "nat \<Rightarrow> string" where
  "hex_text n = (if n < 16 then [kHexDigits ! n] else hex_text (n div 16) @ [kHexDigits ! (n mod 16)])"

declare hex_text.simps [simp del]

definition next_signature :: "crypto \<Rightarrow> ChunkedOptions \<Rightarrow> string \<Rightarrow> string \<Rightarrow> string" where
  "next_signature C opts previous payload =
     (if co_verifySignatures opts
      then chunkSignature C (co_signingKey opts) (co_amzDate opts) (co_scope opts) previous
             (sha256Hex (cy_hashes C) payload)
      else previous)"

definition chunk_text :: "crypto \<Rightarrow> ChunkedOptions \<Rightarrow> string \<Rightarrow> string \<Rightarrow> string" where
  "chunk_text C opts previous payload =
     hex_text (length payload) @
     (if co_verifySignatures opts then '';'' @ kChunkSignature @ next_signature C opts previous payload else []) @
     crlf @ payload @ crlf"

fun framed :: "crypto \<Rightarrow> ChunkedOptions \<Rightarrow> string \<Rightarrow> string list \<Rightarrow> string" where
  "framed C opts previous [] = chunk_text C opts previous []"
| "framed C opts previous (p # ps) =
     chunk_text C opts previous p @ framed C opts (next_signature C opts previous p) ps"

section \<open>Lemmas\<close>

lemma split_sub_crlf: "CHR 0x0D \<notin> set line \<Longrightarrow> split_sub crlf (line @ crlf @ rest) = Some (line, rest)"
proof (induction line)
  case Nil
  then show ?case by (subst split_sub.simps) (simp add: crlf_def)
next
  case (Cons c line)
  then have "\<not> prefix crlf (c # line @ crlf @ rest)" by (auto simp: crlf_def)
  with Cons show ?case by (subst split_sub.simps) simp
qed

lemma takeLine_crlf:
  "CHR 0x0D \<notin> set line \<Longrightarrow> length line \<le> limit \<Longrightarrow> takeLine (line @ crlf @ rest) limit = Inr (line, rest)"
  by (simp add: takeLine_def split_sub_crlf)

lemma kHexDigits_values: "n < 16 \<Longrightarrow> hexValue (kHexDigits ! n) = int n"
proof -
  have "list_all (\<lambda>n. hexValue (kHexDigits ! n) = int n) [0..<16]" by code_simp
  then show "n < 16 \<Longrightarrow> hexValue (kHexDigits ! n) = int n" by (simp add: list_all_iff)
qed

lemma hex_text_digits: "list_all (\<lambda>c. c \<in> set kHexDigits) (hex_text n)"
proof (induction n rule: hex_text.induct)
  case (1 n)
  have "k < 16 \<Longrightarrow> kHexDigits ! k \<in> set kHexDigits" for k
    using kHexDigits_facts(2) by simp
  with 1 show ?case by (subst hex_text.simps) auto
qed

lemma hex_digit_facts: "c \<in> set kHexDigits \<Longrightarrow> 0 \<le> hexValue c \<and> c \<noteq> CHR 0x0D \<and> c \<noteq> CHR '';''"
proof -
  have "list_all (\<lambda>c. 0 \<le> hexValue c \<and> c \<noteq> CHR 0x0D \<and> c \<noteq> CHR '';'') kHexDigits" by code_simp
  then show "c \<in> set kHexDigits \<Longrightarrow> 0 \<le> hexValue c \<and> c \<noteq> CHR 0x0D \<and> c \<noteq> CHR '';''"
    by (simp add: list_all_iff)
qed

lemma hex_text_value: "foldl (\<lambda>v c. v * 16 + of_int (hexValue c)) (0 :: u64) (hex_text n) = of_nat n"
proof (induction n rule: hex_text.induct)
  case (1 n)
  show ?case
  proof (cases "n < 16")
    case True
    then show ?thesis by (subst hex_text.simps) (simp add: kHexDigits_values)
  next
    case False
    then have "foldl (\<lambda>v c. v * 16 + of_int (hexValue c)) (0 :: u64) (hex_text n) =
        of_nat (n div 16) * 16 + of_nat (n mod 16)"
      using 1 by (subst hex_text.simps) (simp add: kHexDigits_values)
    also have "\<dots> = of_nat (n div 16 * 16 + n mod 16)" by (simp only: of_nat_add of_nat_mult of_nat_numeral)
    finally show ?thesis by (simp only: div_mult_mod_eq)
  qed
qed

lemma hex_text_length: "n < 16 ^ Suc k \<Longrightarrow> length (hex_text n) \<le> Suc k"
proof (induction k arbitrary: n)
  case 0
  then show ?case by (subst hex_text.simps) simp
next
  case (Suc k)
  then have "n div 16 < 16 ^ Suc k" by (simp add: less_mult_imp_div_less mult.commute)
  from Suc.IH [OF this] show ?case by (subst hex_text.simps) simp
qed

lemma hex_text_nonempty [simp]: "hex_text n \<noteq> []"
  by (subst hex_text.simps) simp

lemma parseHexSize_hex_text:
  assumes "n \<le> unat kMaxChunkBytes"
  shows "parseHexSize (hex_text n) = Inr (of_nat n)"
proof -
  have "n < 16 ^ Suc 15" using assms by (simp add: kMaxChunkBytes_def)
  then have "length (hex_text n) \<le> 16" using hex_text_length by fastforce
  moreover have "\<not> list_ex (\<lambda>c. hexValue c < 0) (hex_text n)"
    using hex_text_digits [of n] hex_digit_facts by (force simp: list_all_iff list_ex_iff)
  moreover have "\<not> kMaxChunkBytes < (of_nat n :: u64)"
    using assms by (simp add: not_less word_le_nat_alt kMaxChunkBytes_def unat_of_nat)
  ultimately show ?thesis by (simp add: parseHexSize_def hex_text_value Let_def)
qed

text \<open>What the code relies on of HMAC-SHA256: its values have 32 bytes.\<close>

definition crypto_ok :: "crypto \<Rightarrow> bool" where
  "crypto_ok C \<longleftrightarrow> (\<forall>key t. length (cy_hmac C key t) = 32)"

lemma signature_facts:
  assumes "crypto_ok C"
  shows "length (chunkSignature C k d s p h) = 64" "CHR 0x0D \<notin> set (chunkSignature C k d s p h)"
    "toLower (chunkSignature C k d s p h) = chunkSignature C k d s p h"
proof -
  let ?t = "kChunkAlgorithm @ nl @ d @ nl @ s @ nl @ p @ nl @ kEmptySha256 @ nl @ h"
  show "length (chunkSignature C k d s p h) = 64"
    using assms by (simp add: chunkSignature_def sign_def crypto_ok_def length_toHex)
  have "\<not> isUnreserved (CHR 0x0D)" by (simp add: isUnreserved_def less_eq_char_def)
  then show "CHR 0x0D \<notin> set (chunkSignature C k d s p h)"
    using toHex_chars [of "cy_hmac C k ?t"] by (auto simp: chunkSignature_def sign_def list_all_iff)
  show "toLower (chunkSignature C k d s p h) = chunkSignature C k d s p h"
    by (simp add: chunkSignature_def)
qed

lemma unat_of_nat_chunk: "n \<le> unat kMaxChunkBytes \<Longrightarrow> unat (of_nat n :: u64) = n"
  by (simp add: kMaxChunkBytes_def unat_of_nat)

definition header_line :: "crypto \<Rightarrow> ChunkedOptions \<Rightarrow> string \<Rightarrow> string \<Rightarrow> string" where
  "header_line C opts previous payload =
     hex_text (length payload) @
     (if co_verifySignatures opts then '';'' @ kChunkSignature @ next_signature C opts previous payload else [])"

lemma header_line_facts:
  assumes "crypto_ok C" "length payload \<le> unat kMaxChunkBytes"
  shows "CHR 0x0D \<notin> set (header_line C opts previous payload)"
    "length (header_line C opts previous payload) \<le> kMaxChunkHeaderBytes"
    "chunk_header (header_line C opts previous payload) =
       Inr (hex_text (length payload), if co_verifySignatures opts then next_signature C opts previous payload else [])"
proof -
  have h: "CHR 0x0D \<notin> set (hex_text (length payload))" "CHR '';'' \<notin> set (hex_text (length payload))"
    using hex_text_digits [of "length payload"] hex_digit_facts by (auto simp: list_all_iff)
  have "length payload < 16 ^ Suc 15" using assms(2) by (simp add: kMaxChunkBytes_def)
  then have n: "length (hex_text (length payload)) \<le> 16" using hex_text_length by fastforce
  show "CHR 0x0D \<notin> set (header_line C opts previous payload)"
    using h(1) signature_facts(2) [OF assms(1)] by (simp add: header_line_def next_signature_def kChunkSignature_def)
  show "length (header_line C opts previous payload) \<le> kMaxChunkHeaderBytes"
    using n signature_facts(1) [OF assms(1)]
    by (simp add: header_line_def next_signature_def kChunkSignature_def kMaxChunkHeaderBytes_def)
  show "chunk_header (header_line C opts previous payload) =
       Inr (hex_text (length payload), if co_verifySignatures opts then next_signature C opts previous payload else [])"
    using h(2) by (simp add: header_line_def chunk_header_def)
qed

lemma decode_chunk_text:
  assumes "crypto_ok C" "length p \<le> unat kMaxChunkBytes"
  shows "decode_chunk C opts (chunk_text C opts previous p @ rest) previous =
    Inr (p, rest, next_signature C opts previous p)"
proof -
  have t: "chunk_text C opts previous p @ rest = header_line C opts previous p @ crlf @ (p @ crlf @ rest)"
    by (simp add: chunk_text_def header_line_def)
  have line: "takeLine (chunk_text C opts previous p @ rest) kMaxChunkHeaderBytes =
      Inr (header_line C opts previous p, p @ crlf @ rest)"
    unfolding t using header_line_facts [OF assms] by (intro takeLine_crlf)
  have size: "parseHexSize (hex_text (length p)) = Inr (of_nat (length p))"
    using assms(2) by (rule parseHexSize_hex_text)
  have u: "unat (of_nat (length p) :: u64) = length p"
    using assms(2) by (rule unat_of_nat_chunk)
  have "next_signature C opts previous p \<noteq> []" if "co_verifySignatures opts"
    using signature_facts(1) [OF assms(1)] that by (auto simp: next_signature_def simp flip: length_0_conv)
  then show ?thesis
    using signature_facts(3) [OF assms(1)]
    by (simp add: decode_chunk_def line header_line_facts [OF assms] size u next_signature_def crlf_def Let_def)
qed

lemma decode_loop_framed:
  assumes "crypto_ok C"
  shows "list_all (\<lambda>p. p \<noteq> [] \<and> length p \<le> unat kMaxChunkBytes) ps \<Longrightarrow> n + length ps < kMaxChunks \<Longrightarrow>
    \<exists>last. decode_loop C opts (framed C opts previous ps @ rest) previous n = (ps, Inr (rest, last))"
proof (induction ps arbitrary: previous n)
  case Nil
  have "chunk_text C opts previous [] \<noteq> []" by (simp add: chunk_text_def)
  then show ?case
    using Nil decode_chunk_text [OF assms, of "[]" opts previous rest]
    by (subst decode_loop.simps) simp
next
  case (Cons p ps)
  obtain last where l: "decode_loop C opts (framed C opts (next_signature C opts previous p) ps @ rest)
      (next_signature C opts previous p) (Suc n) = (ps, Inr (rest, last))"
    using Cons.IH [of "Suc n" "next_signature C opts previous p"] Cons.prems by auto
  have "chunk_text C opts previous p @ framed C opts (next_signature C opts previous p) ps @ rest \<noteq> []"
    by (simp add: chunk_text_def)
  then show ?case
    using Cons.prems l decode_chunk_text [OF assms, of p opts previous
        "framed C opts (next_signature C opts previous p) ps @ rest"]
    by (subst decode_loop.simps) simp
qed

text \<open>
  C36: What a client frames, the server unframes. Any payload cut into non-empty chunks within
  the size limits and framed the documented way, with the chain of chunk signatures or without,
  is delivered chunk by chunk and whole, when the declared length agrees or is not given.
\<close>

theorem framed_body_decodes:
  assumes "crypto_ok C"
    and "list_all (\<lambda>p. p \<noteq> [] \<and> length p \<le> unat kMaxChunkBytes) ps" "length ps < kMaxChunks"
    and "\<not> co_expectTrailerSignature opts"
    and "co_declaredLength opts = 0 \<or> co_declaredLength opts = of_nat (length (concat ps))"
  shows "chunked_decode C opts (framed C opts (co_seedSignature opts) ps) = (ps, Inr [])"
proof -
  obtain last where "decode_loop C opts (framed C opts (co_seedSignature opts) ps) (co_seedSignature opts) 0 =
      (ps, Inr ([], last))"
    using decode_loop_framed [OF assms(1,2), of 0 opts "co_seedSignature opts" "[]"] assms(3) by auto
  moreover have "trailer_loop [] s = Inr s" for s by (subst trailer_loop.simps) simp
  ultimately show ?thesis
    using assms(4,5) by (auto simp: chunked_decode_def check_trailers_def)
qed

definition full_crypto :: crypto where
  "full_crypto = \<lparr>cy_hashes = \<lparr>md5_raw = \<lambda>s. take 2 (rev s), sha256_raw = \<lambda>s. take 2 (rev s)\<rparr>,
     cy_hmac = \<lambda>key s. take 32 (rev s @ key @ replicate 32 (CHR ''x''))\<rparr>"

definition signed_options :: ChunkedOptions where
  "signed_options = \<lparr>co_verifySignatures = True, co_signingKey = ''k'', co_amzDate = ''d'', co_scope = ''s'',
     co_seedSignature = ''seed'', co_expectTrailerSignature = False, co_declaredLength = 5\<rparr>"

lemma full_crypto_ok: "crypto_ok full_crypto"
  by (auto simp: crypto_ok_def full_crypto_def min_def)

theorem framed_body_decodes_witness:
  "chunked_decode full_crypto signed_options (framed full_crypto signed_options ''seed'' [''abc'', ''de'']) =
     ([''abc'', ''de''], Inr [])"
  using framed_body_decodes [OF full_crypto_ok, of "[''abc'', ''de'']" signed_options]
  by (simp add: signed_options_def kMaxChunkBytes_def kMaxChunks_def)

section \<open>Nothing unsigned is delivered\<close>

fun chain :: "crypto \<Rightarrow> ChunkedOptions \<Rightarrow> string \<Rightarrow> string list \<Rightarrow> string list" where
  "chain C opts previous [] = []"
| "chain C opts previous (p # ps) =
     next_signature C opts previous p # chain C opts (next_signature C opts previous p) ps"

lemma split_sub_parts: "split_sub d t = Some (a, b) \<Longrightarrow> t = a @ d @ b"
proof (induction d t arbitrary: a rule: split_sub.induct)
  case (1 d t)
  show ?case
  proof (cases "prefix d t")
    case True
    then show ?thesis using 1(2) by (auto simp: split_sub.simps [of d t] prefix_def)
  next
    case False
    with 1(2) obtain c u a' where "t = c # u" "split_sub d u = Some (a', b)" "a = c # a'"
      by (auto simp: split_sub.simps [of d t] split: list.splits)
    with 1(1) False show ?thesis by auto
  qed
qed

lemma decode_chunk_signed:
  assumes "decode_chunk C opts body previous = Inr (payload, rest, previous')" "co_verifySignatures opts"
  shows "previous' = next_signature C opts previous payload" "\<exists>claim. sublist claim body \<and> toLower claim = previous'"
    "suffix rest body"
proof -
  from assms(1) obtain header body' where line: "takeLine body kMaxChunkHeaderBytes = Inr (header, body')"
    by (auto simp: decode_chunk_def sbind_Inr)
  from assms(1) obtain sizeField claim where fields: "chunk_header header = Inr (sizeField, claim)"
    by (auto simp: decode_chunk_def sbind_Inr line)
  from assms(1) obtain size where size: "parseHexSize sizeField = Inr size"
    by (auto simp: decode_chunk_def sbind_Inr line fields)
  from assms have c:
    "payload = take (unat size) body'"
    "previous' = chunkSignature C (co_signingKey opts) (co_amzDate opts) (co_scope opts) previous
       (sha256Hex (cy_hashes C) payload)"
    "toLower claim = previous'"
    "rest = drop (unat size) body' \<or> rest = drop 2 (drop (unat size) body')" "claim \<noteq> []"
    by (auto simp: decode_chunk_def line fields size Let_def incomplete_def numeral_2_eq_2 split: if_splits)
  have body: "body = header @ crlf @ body'"
    using line by (auto simp: takeLine_def incomplete_def split_sub_parts split: option.splits if_splits)
  have "suffix claim header"
  proof -
    have "claim = drop (length kChunkSignature) (after (CHR '';'') header)"
      using fields c(5) by (auto simp: chunk_header_def incomplete_def Let_def split: if_splits)
    moreover have "suffix (after (CHR '';'') header) header"
      by (simp add: after_def suffix_drop suffix_dropWhile suffix_order.order_trans [OF suffix_tl])
    ultimately show ?thesis by (metis suffix_drop suffix_order.order_trans)
  qed
  then have "sublist claim body" unfolding body by (simp add: suffix_imp_sublist sublist_append)
  then show "\<exists>claim. sublist claim body \<and> toLower claim = previous'" using c(3) by blast
  show "previous' = next_signature C opts previous payload"
    using c(2) assms(2) by (simp add: next_signature_def)
  have "suffix rest body'" using c(4) suffix_drop suffix_order.order_trans by metis
  then show "suffix rest body" unfolding body by (metis append.assoc suffix_appendI)
qed

lemma decode_loop_signed:
  assumes "co_verifySignatures opts"
  shows "decode_loop C opts body previous n = (ps, r) \<Longrightarrow>
    list_all (\<lambda>s. \<exists>claim. sublist claim body \<and> toLower claim = s) (chain C opts previous ps)"
proof (induction "length body" arbitrary: body previous n ps r rule: less_induct)
  case less
  show ?case
  proof (cases "ps = []")
    case False
    with less.prems obtain payload rest previous' where
      c: "decode_chunk C opts body previous = Inr (payload, rest, previous')" and "payload \<noteq> []"
      by (subst (asm) decode_loop.simps) (auto simp: incomplete_def split: if_splits sum.splits prod.splits)
    moreover obtain qs r' where q: "decode_loop C opts rest previous' (n + 1) = (qs, r')" by fastforce
    ultimately have ps: "ps = payload # qs"
      using less.prems False by (subst (asm) decode_loop.simps) (auto split: if_splits)
    note s = decode_chunk_signed [OF c assms]
    have "list_all (\<lambda>s. \<exists>claim. sublist claim rest \<and> toLower claim = s) (chain C opts previous' qs)"
      using decode_chunk_shrinks [OF c] by (intro less.hyps [OF _ q])
    then have "list_all (\<lambda>s. \<exists>claim. sublist claim body \<and> toLower claim = s) (chain C opts previous' qs)"
      using s(3) unfolding list_all_iff by (meson sublist_order.order_trans suffix_imp_sublist)
    then show ?thesis using s(1,2) by (simp add: ps)
  qed simp
qed

text \<open>
  C35: No byte of a signed upload reaches the sink unsigned. Of a streaming upload whose chunks
  are verified, every piece delivered, also of a body that is refused later, is covered by a
  signature found in the body, computed with the signing key over that piece and chained from
  the signature of the request through every piece before it.
\<close>

theorem delivered_pieces_are_signed:
  assumes "co_verifySignatures opts"
  shows "list_all (\<lambda>s. \<exists>claim. sublist claim body \<and> toLower claim = s)
    (chain C opts (co_seedSignature opts) (fst (chunked_decode C opts body)))"
proof -
  obtain ps r where d: "decode_loop C opts body (co_seedSignature opts) 0 = (ps, r)" by fastforce
  then have "fst (chunked_decode C opts body) = ps"
    by (auto simp: chunked_decode_def split: sum.split)
  then show ?thesis using decode_loop_signed [OF assms d] by simp
qed

theorem delivered_pieces_are_signed_witness:
  "list_all (\<lambda>s. \<exists>claim. sublist claim (framed full_crypto signed_options ''seed'' [''abc'']) \<and> toLower claim = s)
     (chain full_crypto signed_options ''seed''
        (fst (chunked_decode full_crypto signed_options (framed full_crypto signed_options ''seed'' [''abc'']))))"
  using delivered_pieces_are_signed [of signed_options "framed full_crypto signed_options ''seed'' [''abc'']" full_crypto]
  by (simp add: signed_options_def)

end
