(* ===== verification/Spec2Isabelle.thy ===== *)
theory Spec2Isabelle
  imports Store_Properties Fallback_Cache Fsck Blob_Reading Engine_Facts Payload_Race S3_Request Cors Bucket_Policy Chunked
begin

text \<open>
  A verification development for MonoBucket, an object store that speaks the S3 protocol,
  written in C++20. It covers the implementation under src/backend/src.

  The parts of the program. A request is parsed, classified and authenticated by the S3 layer
  (s3/), or comes from the console (server/); both call one storage engine
  (storage/storage_engine). The engine keeps two stores: the metadata store, whose rows are
  records under sorted keys in RocksDB (storage/codec, keyspace, records,
  rocksdb_metadata_store), and the blob store, whose payloads are immutable files named by
  random ids (storage/blob_store, digest, checksum). The quota ledger (storage/quota) admits
  writes against bucket allocations. Reclamation and the consistency check (fsck) tie the two
  stores together. Lookups go through a cache (cache/), a sharded memory cache with an
  optional shared tier behind a circuit breaker.

  Which theory models which file, each definition under the name the source gives it:
    Errors, Prelude: the exceptions as values, the result type exn + 'a, lists and words.
    Codec: storage/codec. Keyspace: storage/keyspace. Records: storage/records, durability.
    Checksum_Algorithms: storage/checksum. Digest: storage/digest. Identity: core/identity.
    Rocks: the contract of the RocksDB calls, a record of operations with its laws rocks_laws,
      and an in-memory instance that satisfies them. Posix: the same for the system calls.
    Store_Records, Metadata_Store, Listing: storage/rocksdb_metadata_store; Store_Facts, Scans,
      Store_Calls: its calls one by one.
    Quota: storage/quota. Cache_Provider, Memory_Cache, Fallback_Cache: cache/.
    Blob_Store: storage/blob_store. Storage_Engine, Object_Engine, Fsck: storage/storage_engine.
    Text: the string and character functions of the standard library that s3/ uses.
    Uri: s3/uri. Base64: s3/base64. S3_Error: s3/s3_error. S3_Checksum: s3/checksum.
    Operation: s3/operation and the query accessors of s3/request.
    Calendar, S3_Request: dates, and s3/request and s3/content_headers.
    Xml: s3/xml. Cors: s3/cors. Bucket_Policy: s3/bucket_policy. Sigv4: s3/sigv4. Chunked:
      s3/chunked.

  What the groups of lemmas show.
    Codec to Store_Records: what is encoded is decoded, also in front of the bytes of a newer
      version; a scan bounded by upperBound sees exactly the keys under its prefix.
    Reclamation, Counters, Payload_Race: runs of calls, failing ones included. No queued blob
      is referred to, no payload is lost track of, the counters are those of a recount, and
      writers and the sweep interleave without a row left pointing at nothing.
    Listing, Store_Properties: paging, bucket deletion, reads after writes, the audit ring.
    Quota: the sums stay within the allocations while they do not wrap and no claim outlives
      its bucket; three theorems say what happens when they do or it does.
    Memory_Cache, Fallback_Cache: refinement of a map with deadlines, the byte budget, the
      breaker and the age of local copies.
    Blob_Facts, Blob_Reading, Engine_Facts: what a commit publishes and a range read delivers.
    Xml_Round_Trip, Cors, Bucket_Policy: documents are read back as written, and mean what
      they say. Sigv4, Chunked: nothing is accepted, and no piece delivered, without a
      signature; what the presigner mints and a client frames is accepted.

  How state and errors are modelled. Each object of the source is a record or a datatype, each
  method one function that takes the state and returns it with a result; an exception is Inl
  of the value it throws, and the state returned with it is the state the C++ code leaves.
  Code that holds one mutex throughout is one step. Loops over system calls that may be
  interrupted for ever are partial functions, so not returning is None. Machine integers are
  words where they wrap; milliseconds of clocks, deadlines and cooldowns, 64-bit in the
  source, are unbounded. Loops with a bound carry fuel: a varint is at most ten bytes, a page
  emits something in every turn, an XML element is given one more than the characters left,
  and the lemmas show that the fuel suffices.

  Parameters of the model, code that is not under src/: RocksDB (record rocksdb), the system
  calls (record posix), the OpenSSL digests and HMAC (records hashes, evp, crypto), the JSON
  parser, the hash of a string, the shared cache tier, the clock. What the proofs use of them
  are rocks_laws, posix_laws and the lengths of digests. Paths are canonical strings: two
  spellings of one path are two paths to the model.

  A method of the metadata store is one step. The methods that hold a lock throughout are; of
  putPart, completeUpload and abortUpload on one upload, which take different locks, only the
  orders in which one follows the other are covered. The usage counters are followed through
  the calls that finish and through reclamation of queued payloads.

  Not modelled: the HTTP framework with the routers and handlers over it, the console and its
  sessions, configuration, metrics and their history, the Redis client, password hashing
  (libsodium), logging, threads and the io executor, checkpoints, process start-up, the
  reading of HTTP dates (strptime) and the texts of messages.
\<close>

end
